(* ===== verification/Acs_Prelude.thy ===== *)
theory Acs_Prelude
  imports Main "HOL-Library.Word" "HOL-Library.Monad_Syntax"
begin

text \<open>
  Shared vocabulary of the development: the C integer types as words, the bit-field
  idioms the sources use, a byte-addressed little-endian memory with 32-bit and 64-bit
  accesses, and the generic lemmas on them. The laws that a typed access to that memory
  obeys are the locale \<open>cell_access\<close>; it is interpreted for the 64-bit and the 32-bit
  accesses, and the components use the interpreted laws.
\<close>

unbundle bit_operations_syntax

section \<open>C integer types\<close>

type_synonym u8 = "8 word"
type_synonym u16 = "16 word"
type_synonym u32 = "32 word"
type_synonym u64 = "64 word"

text \<open>Collections of facts that the component proofs share.\<close>

named_theorems reg_simps
  \<open>unfoldings of register and field constants\<close>
named_theorems access_simps
  \<open>reads after writes\<close>

text \<open>A C truth value: \<open>x\<close> used as a condition.\<close>

abbreviation c_true :: "'a::len word \<Rightarrow> bool" where
  "c_true x \<equiv> x \<noteq> 0"

definition VAL_EXTRACT_BITS :: "'a::len word \<Rightarrow> nat \<Rightarrow> nat \<Rightarrow> 'a word" where
  "VAL_EXTRACT_BITS data start end = drop_bit start data AND mask (end - start + 1)"

section \<open>Bit-field lemmas\<close>

lemma word_and_mask_eq_take_bit: "(w :: 'a::len word) AND mask n = take_bit n w"
  by (simp add: take_bit_eq_mask)

lemma word_unat_less: "unat (w :: 'a::len word) < 2 ^ LENGTH('a)"
  by simp

lemma unat_of_nat_small: "n < 2 ^ LENGTH('a) \<Longrightarrow> unat (of_nat n :: 'a::len word) = n"
  by (simp add: unsigned_of_nat take_bit_nat_eq_self)

lemma unat_exp:
  assumes "k < LENGTH('a)"
  shows "unat (2 ^ k :: 'a::len word) = 2 ^ k"
proof -
  have "(2::nat) ^ k < 2 ^ LENGTH('a)" using assms by (intro power_strict_increasing) auto
  then show ?thesis using unat_of_nat_small [of "2 ^ k", where 'a = 'a] by simp
qed

lemma unat_ucast_up:
  "LENGTH('a) \<le> LENGTH('b) \<Longrightarrow> unat (ucast (w :: 'a::len word) :: 'b::len word) = unat w"
  using order_less_le_trans [OF word_unat_less [of w], of "2 ^ LENGTH('b)"]
  by (simp add: unsigned_ucast_eq take_bit_nat_eq_self_iff)

lemma ucast_down_up:
  "LENGTH('a) \<le> LENGTH('b) \<Longrightarrow> ucast (ucast (x :: 'a::len word) :: 'b::len word) = x"
  by (rule bit_word_eqI) (simp add: bit_ucast_iff)

lemma radix_unique:
  fixes k :: nat
  assumes "a * k + r = a' * k + r'" and "r < k" and "r' < k"
  shows "a = a'" and "r = r'"
proof -
  have "(a * k + r) div k = a" "(a' * k + r') div k = a'" using assms(2,3) by simp_all
  then show "a = a'" using assms(1) by simp
  then show "r = r'" using assms(1) by simp
qed

lemma bit_word_beyond: "LENGTH('a) \<le> n \<Longrightarrow> \<not> bit (w :: 'a::len word) n"
  using bit_imp_le_length [of w n] by auto

lemma bit_push_mask:
  "bit (push_bit k (mask n) :: 'a::len word) i \<longleftrightarrow> k \<le> i \<and> i < k + n \<and> i < LENGTH('a)"
  by (auto simp: bit_push_bit_iff bit_mask_iff)

lemma bit_and_mask: "bit ((x :: 'a::len word) AND mask n) i \<longleftrightarrow> i < n \<and> bit x i"
  by (auto simp: bit_and_iff bit_mask_iff dest: bit_imp_le_length)

lemma unat_take_bit_mod: "unat (take_bit n (x :: 'a::len word)) = unat x mod 2 ^ n"
  unfolding unsigned_take_bit_eq by (rule take_bit_eq_mod)

lemma take_bit_eq_iff_mod:
  "take_bit n (x :: 'a::len word) = take_bit n y \<longleftrightarrow> unat x mod 2 ^ n = unat y mod 2 ^ n"
  by (simp only: word_unat_eq_iff unat_take_bit_mod)

lemma take_bit_add_cong:
  assumes "n \<le> LENGTH('a)" and "take_bit n (a :: 'a::len word) = take_bit n b"
  shows "take_bit n (x + a) = take_bit n (x + b)"
proof -
  have d: "(2::nat) ^ n dvd 2 ^ LENGTH('a)" using assms(1) by (rule le_imp_power_dvd)
  have "unat a mod 2 ^ n = unat b mod 2 ^ n" using assms(2) by (simp only: take_bit_eq_iff_mod)
  then have "(unat x + unat a) mod 2 ^ n = (unat x + unat b) mod 2 ^ n" by (rule mod_add_cong [OF refl])
  then show ?thesis
    unfolding take_bit_eq_iff_mod unat_word_ariths(1) mod_mod_cancel [OF d] .
qed

lemma take_bit_add_zero:
  assumes "n \<le> LENGTH('a)" and "take_bit n (x :: 'a::len word) = 0"
  shows "take_bit n (x + y) = take_bit n y"
  using take_bit_add_cong [of n x 0 y] assms by (simp add: add.commute)

lemma and_not_mask_cong:
  assumes "(x :: 'a::len word) AND NOT (mask n) = y AND NOT (mask n)" and "take_bit n x = take_bit n y"
  shows "x = y"
proof -
  have "z = (z AND NOT (mask n)) OR take_bit n z" for z :: "'a word"
    by (simp add: take_bit_eq_mask bit.conj_disj_distrib [symmetric])
  then show ?thesis using assms by metis
qed

lemma and_single_bit: "(x :: 'a::len word) AND push_bit n 1 = 0 \<longleftrightarrow> \<not> bit x n"
  using and_exp_eq_0_iff_not_bit [of x n] by (simp add: push_bit_eq_mult)

lemma bit_or_single: "n < LENGTH('a) \<Longrightarrow> bit ((x :: 'a::len word) OR push_bit n 1) i \<longleftrightarrow> bit x i \<or> i = n"
  by (auto simp: bit_or_iff bit_push_bit_iff bit_1_iff bit_exp_iff)

lemma bit_and_not_single: "bit ((x :: 'a::len word) AND NOT (push_bit n 1)) i \<longleftrightarrow> bit x i \<and> i \<noteq> n"
  by (auto simp: bit_and_iff bit_not_iff bit_push_bit_iff bit_1_iff bit_exp_iff dest: bit_imp_le_length)

lemma and_not_mask_aligned:
  assumes "take_bit n (x :: 'a::len word) = 0"
  shows "x AND NOT (mask n) = x"
proof (rule bit_word_eqI)
  fix i assume "i < LENGTH('a)"
  moreover have "\<not> bit x i" if "i < n"
    using arg_cong [OF assms, of "\<lambda>w. bit w i"] that by (simp add: bit_take_bit_iff)
  ultimately show "bit (x AND NOT (mask n)) i = bit x i"
    by (auto simp: bit_and_iff bit_not_iff bit_mask_iff)
qed

lemma take_bit_word_less: "n < LENGTH('a) \<Longrightarrow> take_bit n (w :: 'a::len word) < 2 ^ n"
  by (simp add: take_bit_eq_mask and_mask_less')

lemma unat_take_bit_less: "unat (take_bit n (w :: 'a::len word)) < 2 ^ n"
  by (simp add: unsigned_take_bit_eq)

text \<open>Replacing the field of width \<open>n\<close> at position \<open>k\<close>: the read-modify-write idiom
  \<^verbatim>\<open>x &= ~(m << k); x |= (v << k)\<close>.\<close>

definition set_field :: "nat \<Rightarrow> nat \<Rightarrow> 'a::len word \<Rightarrow> 'a word \<Rightarrow> 'a word" where
  "set_field k n v x = (x AND NOT (push_bit k (mask n))) OR push_bit k v"

definition get_field :: "nat \<Rightarrow> nat \<Rightarrow> 'a::len word \<Rightarrow> 'a word" where
  "get_field k n x = drop_bit k x AND mask n"

lemma bit_set_field:
  assumes "i < LENGTH('a)" and "take_bit n v = v"
  shows "bit (set_field k n v (x :: 'a::len word)) i =
    (if k \<le> i \<and> i < k + n then bit v (i - k) else bit x i)"
proof -
  have "\<not> bit v (i - k)" if "k + n \<le> i"
  proof -
    from that have "\<not> bit (take_bit n v) (i - k)" unfolding bit_take_bit_iff by linarith
    then show ?thesis by (simp add: assms(2))
  qed
  with assms(1) show ?thesis
    by (auto simp: set_field_def bit_or_iff bit_and_iff bit_not_iff bit_push_bit_iff bit_mask_iff)
qed

lemma get_set_field_same:
  assumes "k + n \<le> LENGTH('a)" and "take_bit n v = v"
  shows "get_field k n (set_field k n v (x :: 'a::len word)) = v"
proof (rule bit_word_eqI)
  fix i assume i: "i < LENGTH('a)"
  show "bit (get_field k n (set_field k n v x)) i = bit v i"
  proof (cases "i < n")
    case True
    with assms i show ?thesis
      by (simp add: get_field_def bit_and_iff bit_drop_bit_eq bit_mask_iff bit_set_field)
  next
    case False
    then have "\<not> bit (take_bit n v) i" by (simp add: bit_take_bit_iff)
    with False show ?thesis
      by (simp add: get_field_def bit_and_iff bit_mask_iff assms(2))
  qed
qed

lemma get_set_field_other:
  assumes "take_bit n v = v" and "k' + n' \<le> k \<or> k + n \<le> k'" and "k' + n' \<le> LENGTH('a)"
  shows "get_field k' n' (set_field k n v (x :: 'a::len word)) = get_field k' n' x"
proof (rule bit_word_eqI)
  fix i assume "i < LENGTH('a)"
  with assms show "bit (get_field k' n' (set_field k n v x)) i = bit (get_field k' n' x) i"
    by (auto simp: get_field_def bit_and_iff bit_drop_bit_eq bit_mask_iff bit_set_field)
qed

lemma set_field_get_same: "get_field k n x = v \<Longrightarrow> set_field k n v (x :: 'a::len word) = x"
  by (rule bit_word_eqI)
    (auto simp: set_field_def get_field_def bit_or_iff bit_and_iff bit_not_iff bit_push_bit_iff
      bit_mask_iff bit_drop_bit_eq)

section \<open>Byte-addressed memory\<close>

type_synonym memory = "u64 \<Rightarrow> u8"

definition ld8 :: "memory \<Rightarrow> u64 \<Rightarrow> u8" where
  "ld8 m a = m a"

definition st8 :: "memory \<Rightarrow> u64 \<Rightarrow> u8 \<Rightarrow> memory" where
  "st8 m a v = m(a := v)"

definition ld32 :: "memory \<Rightarrow> u64 \<Rightarrow> u32" where
  "ld32 m a = ucast (m a) OR push_bit 8 (ucast (m (a + 1)))
     OR push_bit 16 (ucast (m (a + 2))) OR push_bit 24 (ucast (m (a + 3)))"

definition st32 :: "memory \<Rightarrow> u64 \<Rightarrow> u32 \<Rightarrow> memory" where
  "st32 m a v = m(a := ucast v, a + 1 := ucast (drop_bit 8 v),
     a + 2 := ucast (drop_bit 16 v), a + 3 := ucast (drop_bit 24 v))"

definition ld64 :: "memory \<Rightarrow> u64 \<Rightarrow> u64" where
  "ld64 m a = ucast (ld32 m a) OR push_bit 32 (ucast (ld32 m (a + 4)))"

definition st64 :: "memory \<Rightarrow> u64 \<Rightarrow> u64 \<Rightarrow> memory" where
  "st64 m a v = st32 (st32 m a (ucast v)) (a + 4) (ucast (drop_bit 32 v))"

text \<open>The regions \<open>[a, a + n)\<close> and \<open>[b, b + k)\<close> have no byte in common (addresses wrap).\<close>

definition apart :: "nat \<Rightarrow> nat \<Rightarrow> u64 \<Rightarrow> u64 \<Rightarrow> bool" where
  "apart n k a b \<longleftrightarrow> n \<le> unat (b - a) \<and> k \<le> unat (a - b)"

lemma apart_sym: "apart n k a b = apart k n b a"
  by (auto simp: apart_def)

lemma apart_mono: "apart n k a b \<Longrightarrow> n' \<le> n \<Longrightarrow> k' \<le> k \<Longrightarrow> apart n' k' a b"
  by (auto simp: apart_def)

lemma apart_outside:
  assumes "apart n k a b" and "i < k"
  shows "n \<le> unat (b + of_nat i - a)"
proof -
  have ki: "k \<le> unat (a - b)" and nd: "n \<le> unat (b - a)"
    using assms(1) by (simp_all add: apart_def)
  have "unat (b - a) + i < 2 ^ 64"
  proof (cases "b = a")
    case True
    with ki assms(2) show ?thesis by simp
  next
    case False
    have "unat (a - b) = 2 ^ 64 - unat (b - a)"
      using False word_unat_less [of a] word_unat_less [of b]
      by (auto simp: unat_sub_if' word_unat_eq_iff)
    with ki assms(2) show ?thesis by linarith
  qed
  then have "unat (b - a + of_nat i) = unat (b - a) + i"
    by (simp add: unat_word_ariths unat_of_nat)
  then show ?thesis using nd by (simp add: algebra_simps)
qed

text \<open>The contract of a typed access of \<open>sz\<close> bytes: a load returns what was stored at the
  same address, a store changes only the \<open>sz\<close> bytes at its address and a load depends only
  on the \<open>sz\<close> bytes at its address.\<close>

locale cell_access =
  fixes ld :: "memory \<Rightarrow> u64 \<Rightarrow> 'v"
    and st :: "memory \<Rightarrow> u64 \<Rightarrow> 'v \<Rightarrow> memory"
    and sz :: nat
  assumes ld_st_same: "ld (st m a v) a = v"
    and st_outside: "sz \<le> unat (x - a) \<Longrightarrow> st m a v x = m x"
    and ld_cong: "(\<And>i. i < sz \<Longrightarrow> m (a + of_nat i) = m' (a + of_nat i)) \<Longrightarrow> ld m a = ld m' a"
begin

lemma ld_st_apart: "apart sz sz a b \<Longrightarrow> ld (st m a v) b = ld m b"
  by (rule ld_cong) (simp add: st_outside apart_outside)

lemma ld_frame:
  assumes "\<And>x. n \<le> unat (x - a) \<Longrightarrow> m' x = m x" and "apart n sz a b"
  shows "ld m' b = ld m b"
  by (rule ld_cong) (rule assms(1), rule apart_outside [OF assms(2)])

end


lemma bytes_of_word32:
  fixes v :: u32
  shows "(ucast (ucast v :: u8) :: u32) OR push_bit 8 (ucast (ucast (drop_bit 8 v) :: u8))
     OR push_bit 16 (ucast (ucast (drop_bit 16 v) :: u8))
     OR push_bit 24 (ucast (ucast (drop_bit 24 v) :: u8)) = v"
proof (rule bit_word_eqI)
  fix n assume "n < LENGTH(32)"
  then have "n < 8 \<or> 8 \<le> n \<and> n < 16 \<or> 16 \<le> n \<and> n < 24 \<or> 24 \<le> n \<and> n < 32" by auto
  then show "bit ((ucast (ucast v :: u8) :: u32) OR push_bit 8 (ucast (ucast (drop_bit 8 v) :: u8))
     OR push_bit 16 (ucast (ucast (drop_bit 16 v) :: u8))
     OR push_bit 24 (ucast (ucast (drop_bit 24 v) :: u8))) n = bit v n"
    by (elim disjE) (auto simp: bit_or_iff bit_push_bit_iff bit_ucast_iff bit_drop_bit_eq)
qed

lemma halves_of_word64:
  fixes v :: u64
  shows "(ucast (ucast v :: u32) :: u64) OR push_bit 32 (ucast (ucast (drop_bit 32 v) :: u32)) = v"
proof (rule bit_word_eqI)
  fix n assume "n < LENGTH(64)"
  then have "n < 32 \<or> 32 \<le> n \<and> n < 64" by auto
  then show "bit ((ucast (ucast v :: u32) :: u64) OR push_bit 32 (ucast (ucast (drop_bit 32 v) :: u32))) n
      = bit v n"
    by (elim disjE) (auto simp: bit_or_iff bit_push_bit_iff bit_ucast_iff bit_drop_bit_eq)
qed

lemma st32_outside: "4 \<le> unat (x - a) \<Longrightarrow> st32 m a v x = m x"
  by (auto simp: st32_def)

lemma ld32_cong:
  assumes "\<And>i. i < 4 \<Longrightarrow> m (a + of_nat i) = m' (a + of_nat i)"
  shows "ld32 m a = ld32 m' a"
  using assms [of 0] assms [of 1] assms [of 2] assms [of 3] by (simp add: ld32_def)

interpretation c32: cell_access ld32 st32 4
proof
  fix m a v
  have "a + 1 \<noteq> a" "a + 2 \<noteq> a" "a + 3 \<noteq> a" "a + 2 \<noteq> a + 1" "a + 3 \<noteq> a + 1" "a + 3 \<noteq> a + 2"
    for a :: u64 by simp_all
  then show "ld32 (st32 m a v) a = v"
    by (simp add: ld32_def st32_def bytes_of_word32)
next
  fix x a :: u64 and m v assume "4 \<le> unat (x - a)"
  then show "st32 m a v x = m x" by (rule st32_outside)
next
  fix m m' :: memory and a :: u64 assume "\<And>i. i < 4 \<Longrightarrow> m (a + of_nat i) = m' (a + of_nat i)"
  then show "ld32 m a = ld32 m' a" by (rule ld32_cong)
qed

lemma st64_outside:
  assumes "8 \<le> unat (x - a)"
  shows "st64 m a v x = m x"
proof -
  have "unat (x - (a + 4)) = unat (x - a) - 4"
    using assms by (simp add: unat_sub_if' diff_diff_eq [symmetric] word_le_nat_alt)
  then show ?thesis using assms by (simp add: st64_def st32_outside)
qed

lemma ld64_cong:
  assumes "\<And>i. i < 8 \<Longrightarrow> m (a + of_nat i) = m' (a + of_nat i)"
  shows "ld64 m a = ld64 m' a"
proof -
  have "ld32 m a = ld32 m' a" by (rule c32.ld_cong) (simp add: assms)
  moreover have "ld32 m (a + 4) = ld32 m' (a + 4)"
  proof (rule c32.ld_cong)
    fix i :: nat assume "i < 4"
    then show "m (a + 4 + of_nat i) = m' (a + 4 + of_nat i)"
      using assms [of "i + 4"] by (simp add: algebra_simps)
  qed
  ultimately show ?thesis by (simp add: ld64_def)
qed

interpretation c64: cell_access ld64 st64 8
proof
  fix m a v
  have "ld32 (st64 m a v) (a + 4) = ucast (drop_bit 32 v)"
    by (simp add: st64_def c32.ld_st_same)
  moreover have "ld32 (st64 m a v) a = ucast v"
    by (simp add: st64_def c32.ld_st_same c32.ld_st_apart apart_def)
  ultimately show "ld64 (st64 m a v) a = v"
    by (simp add: ld64_def halves_of_word64)
next
  fix x a :: u64 and m v assume "8 \<le> unat (x - a)"
  then show "st64 m a v x = m x" by (rule st64_outside)
next
  fix m m' :: memory and a :: u64 assume "\<And>i. i < 8 \<Longrightarrow> m (a + of_nat i) = m' (a + of_nat i)"
  then show "ld64 m a = ld64 m' a" by (rule ld64_cong)
qed

lemmas [access_simps] = c32.ld_st_same c64.ld_st_same c32.ld_st_apart c64.ld_st_apart

text \<open>Disjointness of two cells that are both aligned to their size is inequality.\<close>

lemma aligned8_apart:
  fixes a b :: u64
  assumes "a AND 7 = 0" and "b AND 7 = 0" and "a \<noteq> b"
  shows "apart 8 8 a b"
proof -
  have dv: "8 dvd unat x" if "x AND 7 = 0" for x :: u64
  proof -
    have "take_bit 3 x = 0" using that by (simp add: take_bit_eq_mask mask_eq_exp_minus_1)
    then have "take_bit 3 (unat x) = 0" by (simp flip: unsigned_take_bit_eq)
    then have "unat x mod 2 ^ 3 = 0" by (simp only: take_bit_eq_mod)
    then have "unat x mod 8 = 0" by simp
    then show ?thesis by (simp add: mod_eq_0_iff_dvd)
  qed
  have d: "8 dvd (2 ^ 64 :: nat)" by simp
  have "8 dvd unat (b - a)" "8 dvd unat (a - b)"
    using dv [OF assms(1)] dv [OF assms(2)]
    by (auto simp: unat_sub_if' intro!: dvd_diff_nat dvd_add)
  moreover have "unat (b - a) \<noteq> 0" "unat (a - b) \<noteq> 0"
    using assms(3) by (simp_all only: unsigned_eq_0_iff right_minus_eq) auto
  ultimately show ?thesis
    by (simp add: apart_def dvd_imp_le)
qed

section \<open>Memory lemmas at natural addresses\<close>

lemma unat_diff_of_nat:
  assumes "x < 2 ^ 64" and "y < 2 ^ 64"
  shows "unat (of_nat y - of_nat x :: u64) = (if x \<le> y then y - x else y + 2 ^ 64 - x)"
  using assms by (simp add: unat_sub_if' unat_of_nat_small)

lemma st64_at:
  assumes "x + 8 \<le> y \<or> y < x" and "x + 8 \<le> 2 ^ 64" and "y < 2 ^ 64"
  shows "st64 m (of_nat x) v (of_nat y) = m (of_nat y)"
  using assms by (intro c64.st_outside) (auto simp: unat_diff_of_nat)

lemma st32_at:
  assumes "x + 4 \<le> y \<or> y < x" and "x + 4 \<le> 2 ^ 64" and "y < 2 ^ 64"
  shows "st32 m (of_nat x) v (of_nat y) = m (of_nat y)"
  using assms by (intro c32.st_outside) (auto simp: unat_diff_of_nat)

lemma apart_at:
  assumes "x + n \<le> y \<or> y + k \<le> x" and "x + n \<le> 2 ^ 64" and "y + k \<le> 2 ^ 64" and "0 < n" and "0 < k"
  shows "apart n k (of_nat x) (of_nat y)"
  using assms by (auto simp: apart_def unat_diff_of_nat)

lemma ld64_agree:
  assumes "\<And>y. x \<le> y \<Longrightarrow> y < x + 8 \<Longrightarrow> m' (of_nat y) = m (of_nat y)"
  shows "ld64 m' (of_nat x) = ld64 m (of_nat x)"
  by (rule c64.ld_cong) (metis assms le_add1 nat_add_left_cancel_less of_nat_add)

lemma ld32_agree:
  assumes "\<And>y. x \<le> y \<Longrightarrow> y < x + 4 \<Longrightarrow> m' (of_nat y) = m (of_nat y)"
  shows "ld32 m' (of_nat x) = ld32 m (of_nat x)"
  by (rule c32.ld_cong) (metis assms le_add1 nat_add_left_cancel_less of_nat_add)

lemma ld_st_at:
  assumes "x + n \<le> y \<or> y + k \<le> x" and "x + n \<le> 2 ^ 64" and "y + k \<le> 2 ^ 64"
  shows "n = 8 \<Longrightarrow> k = 8 \<Longrightarrow> ld64 (st64 m (of_nat x) v) (of_nat y) = ld64 m (of_nat y)"
    and "n = 4 \<Longrightarrow> k = 8 \<Longrightarrow> ld64 (st32 m (of_nat x) u) (of_nat y) = ld64 m (of_nat y)"
    and "n = 8 \<Longrightarrow> k = 4 \<Longrightarrow> ld32 (st64 m (of_nat x) v) (of_nat y) = ld32 m (of_nat y)"
    and "n = 4 \<Longrightarrow> k = 4 \<Longrightarrow> ld32 (st32 m (of_nat x) u) (of_nat y) = ld32 m (of_nat y)"
  using assms by (auto intro!: ld64_agree ld32_agree simp: st64_at st32_at)

lemmas ld_at = ld_st_at(1) [of _ 8 _ 8] ld_st_at(2) [of _ 4 _ 8] ld_st_at(3) [of _ 8 _ 4] ld_st_at(4) [of _ 4 _ 4]

end
