(* ===== verification/Pcie_Config.thy ===== *)
theory Pcie_Config
  imports Acs_Prelude
begin

text \<open>
  Configuration-space access of the validation layer (\<^verbatim>\<open>val/src/acs_pcie.c\<close>, first part):
  the segment/bus/device/function numbers packed in a 32-bit word, the table of ECAM
  regions, 32-bit reads and writes of configuration registers, the search for PCIe
  capabilities, and the read-modify-write operations on the command, status and device
  control registers.

  Configuration registers are hardware. The state holds the register file \<open>cfg_regs\<close> and the
  function \<open>cfg_effect\<close>: what a register holds after \<open>new\<close> is written to it while it holds
  \<open>old\<close>; theorems hold for every such function unless they say how a register behaves. A C
  local that is read before it was written has the arbitrary value \<open>junk\<close>. A loop that does
  not end is \<open>None\<close>.
\<close>

section \<open>State\<close>

record pcie_info_block =
  ecam_base :: u64
  segment_num :: u32
  start_bus_num :: u32
  end_bus_num :: u32

record pcie_device_attr =
  attr_bdf :: u32
  attr_rp_bdf :: u32

text \<open>The hooks of the platform layer that this component calls.\<close>

record pcie_pal =
  pal_pcie_is_onchip_peripheral :: "u32 \<Rightarrow> u32"
  pal_pcie_check_device_valid :: "u32 \<Rightarrow> u32"
  pal_is_bdf_exerciser :: "u32 \<Rightarrow> u32"
  pal_exerciser_mmio_base :: "u32 \<Rightarrow> u64 \<Rightarrow> u64"
  pal_pcie_get_mcfg_ecam :: u64

record pcie_state =
  g_pcie_info_table :: "pcie_info_block list option"
  g_pcie_bdf_table :: "pcie_device_attr list option"
  cfg_regs :: "u64 \<Rightarrow> u32"
  cfg_effect :: "u64 \<Rightarrow> u32 \<Rightarrow> u32 \<Rightarrow> u32"
  pcie_hooks :: pcie_pal
  junk :: u32

abbreviation (input) PCIE_MAX_BUS :: u32 where "PCIE_MAX_BUS \<equiv> 256"
abbreviation (input) PCIE_MAX_DEV :: u32 where "PCIE_MAX_DEV \<equiv> 32"
abbreviation (input) PCIE_MAX_FUNC :: u32 where "PCIE_MAX_FUNC \<equiv> 8"

abbreviation (input) PCIE_SUCCESS :: u32 where "PCIE_SUCCESS \<equiv> 0"
abbreviation (input) PCIE_NO_MAPPING :: u32 where "PCIE_NO_MAPPING \<equiv> 0x10000001"
abbreviation (input) PCIE_CAP_NOT_FOUND :: u32 where "PCIE_CAP_NOT_FOUND \<equiv> 0x10000010"
abbreviation (input) PCIE_UNKNOWN_RESPONSE :: u32 where "PCIE_UNKNOWN_RESPONSE \<equiv> 0xFFFFFFFF"

section \<open>Packed device numbers\<close>

definition PCIE_EXTRACT_BDF_SEG :: "u32 \<Rightarrow> u32" where
  "PCIE_EXTRACT_BDF_SEG bdf = drop_bit 24 bdf AND 0xFF"

definition PCIE_EXTRACT_BDF_BUS :: "u32 \<Rightarrow> u32" where
  "PCIE_EXTRACT_BDF_BUS bdf = drop_bit 16 bdf AND 0xFF"

definition PCIE_EXTRACT_BDF_DEV :: "u32 \<Rightarrow> u32" where
  "PCIE_EXTRACT_BDF_DEV bdf = drop_bit 8 bdf AND 0xFF"

definition PCIE_EXTRACT_BDF_FUNC :: "u32 \<Rightarrow> u32" where
  "PCIE_EXTRACT_BDF_FUNC bdf = bdf AND 0xFF"

definition PCIE_CREATE_BDF :: "u32 \<Rightarrow> u32 \<Rightarrow> u32 \<Rightarrow> u32 \<Rightarrow> u32" where
  "PCIE_CREATE_BDF seg bus dev func =
     push_bit 24 seg OR push_bit 16 (bus AND 0xFF) OR push_bit 8 (dev AND 0xFF) OR func"

definition PCIE_CREATE_BDF_PACKED :: "u32 \<Rightarrow> u32" where
  "PCIE_CREATE_BDF_PACKED bdf = PCIE_EXTRACT_BDF_FUNC bdf
     OR push_bit 3 (PCIE_EXTRACT_BDF_DEV bdf) OR push_bit 8 (PCIE_EXTRACT_BDF_BUS bdf)"

lemmas bdf_defs = PCIE_EXTRACT_BDF_SEG_def PCIE_EXTRACT_BDF_BUS_def PCIE_EXTRACT_BDF_DEV_def
  PCIE_EXTRACT_BDF_FUNC_def PCIE_CREATE_BDF_def

section \<open>Register access of the platform layer\<close>

definition pal_mmio_read :: "pcie_state \<Rightarrow> u64 \<Rightarrow> u32" where
  "pal_mmio_read s addr = cfg_regs s (addr AND NOT 3)"

definition pal_mmio_write :: "pcie_state \<Rightarrow> u64 \<Rightarrow> u32 \<Rightarrow> pcie_state" where
  "pal_mmio_write s addr data = (let a = addr AND NOT 3 in
     s\<lparr>cfg_regs := (cfg_regs s)(a := cfg_effect s a (cfg_regs s a) data)\<rparr>)"

section \<open>The ECAM table\<close>

datatype PCIE_INFO_e =
  PCIE_INFO_NUM_ECAM | PCIE_INFO_ECAM | PCIE_INFO_MCFG_ECAM
| PCIE_INFO_START_BUS | PCIE_INFO_END_BUS | PCIE_INFO_SEGMENT

definition val_pcie_get_info :: "pcie_state \<Rightarrow> PCIE_INFO_e \<Rightarrow> u32 \<Rightarrow> u64" where
  "val_pcie_get_info s ty index =
     (case g_pcie_info_table s of
        None \<Rightarrow> 0
      | Some blocks \<Rightarrow>
          if length blocks \<le> unat index then 0
          else (case ty of
              PCIE_INFO_NUM_ECAM \<Rightarrow> of_nat (length blocks)
            | PCIE_INFO_MCFG_ECAM \<Rightarrow> pal_pcie_get_mcfg_ecam (pcie_hooks s)
            | PCIE_INFO_ECAM \<Rightarrow> ecam_base (blocks ! unat index)
            | PCIE_INFO_START_BUS \<Rightarrow> ucast (start_bus_num (blocks ! unat index))
            | PCIE_INFO_END_BUS \<Rightarrow> ucast (end_bus_num (blocks ! unat index))
            | PCIE_INFO_SEGMENT \<Rightarrow> ucast (segment_num (blocks ! unat index))))"

definition num_ecam :: "pcie_state \<Rightarrow> nat" where
  "num_ecam s = unat (val_pcie_get_info s PCIE_INFO_NUM_ECAM 0)"

text \<open>The loop over the ECAM regions that reads, writes and address computation share:
  \<open>n\<close> regions are left, the next one is \<open>i\<close>.\<close>

primrec ecam_scan :: "pcie_state \<Rightarrow> u32 \<Rightarrow> u32 \<Rightarrow> u32 \<Rightarrow> nat \<Rightarrow> u64" where
  "ecam_scan s bus segment i 0 = 0"
| "ecam_scan s bus segment i (Suc n) =
     (if val_pcie_get_info s PCIE_INFO_START_BUS i \<le> ucast bus \<and>
         ucast bus \<le> val_pcie_get_info s PCIE_INFO_END_BUS i \<and>
         ucast segment = val_pcie_get_info s PCIE_INFO_SEGMENT i
      then val_pcie_get_info s PCIE_INFO_ECAM i
      else ecam_scan s bus segment (i + 1) n)"

definition bdf_out_of_range :: "u32 \<Rightarrow> bool" where
  "bdf_out_of_range bdf \<longleftrightarrow> PCIE_MAX_BUS \<le> PCIE_EXTRACT_BDF_BUS bdf \<or>
     PCIE_MAX_DEV \<le> PCIE_EXTRACT_BDF_DEV bdf \<or> PCIE_MAX_FUNC \<le> PCIE_EXTRACT_BDF_FUNC bdf"

definition cfg_addr :: "u32 \<Rightarrow> u32" where
  "cfg_addr bdf = PCIE_EXTRACT_BDF_BUS bdf * PCIE_MAX_DEV * PCIE_MAX_FUNC * 4096
     + PCIE_EXTRACT_BDF_DEV bdf * PCIE_MAX_FUNC * 4096 + PCIE_EXTRACT_BDF_FUNC bdf * 4096"

definition val_pcie_get_bdf_config_addr :: "pcie_state \<Rightarrow> u32 \<Rightarrow> u64" where
  "val_pcie_get_bdf_config_addr s bdf =
     (if bdf_out_of_range bdf then 0
      else if g_pcie_info_table s = None then 0
      else let ecam = ecam_scan s (PCIE_EXTRACT_BDF_BUS bdf) (PCIE_EXTRACT_BDF_SEG bdf) 0 (num_ecam s)
        in if ecam = 0 then 0 else ecam + ucast (cfg_addr bdf))"

section \<open>Configuration reads and writes\<close>

text \<open>\<open>data\<close> is the value of the caller's variable before the call: it is kept when the read
  fails.\<close>

definition val_pcie_read_cfg :: "pcie_state \<Rightarrow> u32 \<Rightarrow> u32 \<Rightarrow> u32 \<Rightarrow> u32 \<times> u32" where
  "val_pcie_read_cfg s bdf offset data =
     (if bdf_out_of_range bdf then (PCIE_NO_MAPPING, data)
      else if g_pcie_info_table s = None then (PCIE_NO_MAPPING, data)
      else let ecam = ecam_scan s (PCIE_EXTRACT_BDF_BUS bdf) (PCIE_EXTRACT_BDF_SEG bdf) 0 (num_ecam s)
        in if ecam = 0 then (PCIE_NO_MAPPING, data)
           else (0, pal_mmio_read s (ecam + ucast (cfg_addr bdf) + ucast offset)))"

definition val_pcie_write_cfg :: "pcie_state \<Rightarrow> u32 \<Rightarrow> u32 \<Rightarrow> u32 \<Rightarrow> pcie_state" where
  "val_pcie_write_cfg s bdf offset data =
     (if bdf_out_of_range bdf then s
      else if g_pcie_info_table s = None then s
      else let ecam = ecam_scan s (PCIE_EXTRACT_BDF_BUS bdf) (PCIE_EXTRACT_BDF_SEG bdf) 0 (num_ecam s)
        in if ecam = 0 then s
           else pal_mmio_write s (ecam + ucast (cfg_addr bdf) + ucast offset) data)"

text \<open>The value a caller sees that passes an uninitialised variable and ignores the status.\<close>

definition cfg_read :: "pcie_state \<Rightarrow> u32 \<Rightarrow> u32 \<Rightarrow> u32" where
  "cfg_read s bdf offset = snd (val_pcie_read_cfg s bdf offset (junk s))"

section \<open>Capability search\<close>

abbreviation (input) HEADER :: u32 where "HEADER \<equiv> 0"
abbreviation (input) PCIE_CAP :: u32 where "PCIE_CAP \<equiv> 1"
abbreviation (input) PCIE_ECAP :: u32 where "PCIE_ECAP \<equiv> 2"
abbreviation (input) CID_PCIECS :: u32 where "CID_PCIECS \<equiv> 0x10"
abbreviation (input) TYPE01_CPR :: u32 where "TYPE01_CPR \<equiv> 0x34"
abbreviation (input) PCIE_ECAP_START :: u32 where "PCIE_ECAP_START \<equiv> 0x100"

partial_function (option) cap_walk ::
  "pcie_state \<Rightarrow> u32 \<Rightarrow> u32 \<Rightarrow> u32 \<Rightarrow> u32 \<Rightarrow> u32 \<Rightarrow> (u32 \<times> u32) option" where
  "cap_walk s bdf cid next_cap_offset reg_value cid_offset =
     (if next_cap_offset = 0 then Some (PCIE_CAP_NOT_FOUND, cid_offset)
      else let reg_value' = snd (val_pcie_read_cfg s bdf next_cap_offset reg_value)
        in if reg_value' AND 0xff = cid then Some (PCIE_SUCCESS, next_cap_offset)
           else cap_walk s bdf cid (drop_bit 8 reg_value' AND 0xff) reg_value' cid_offset)"

partial_function (option) ecap_walk ::
  "pcie_state \<Rightarrow> u32 \<Rightarrow> u32 \<Rightarrow> u32 \<Rightarrow> u32 \<Rightarrow> u32 \<Rightarrow> (u32 \<times> u32) option" where
  "ecap_walk s bdf cid next_cap_offset reg_value cid_offset =
     (if next_cap_offset = 0 then Some (PCIE_CAP_NOT_FOUND, cid_offset)
      else let reg_value' = snd (val_pcie_read_cfg s bdf next_cap_offset reg_value)
        in if reg_value' AND 0xffff = cid then Some (PCIE_SUCCESS, next_cap_offset)
           else ecap_walk s bdf cid (drop_bit 20 reg_value' AND 0xfff) reg_value' cid_offset)"

definition val_pcie_find_capability ::
  "pcie_state \<Rightarrow> u32 \<Rightarrow> u32 \<Rightarrow> u32 \<Rightarrow> u32 \<Rightarrow> (u32 \<times> u32) option" where
  "val_pcie_find_capability s bdf cid_type cid cid_offset =
     (if cid_type = PCIE_CAP then
        (case val_pcie_read_cfg s bdf TYPE01_CPR (junk s) of (ret, reg_value) \<Rightarrow>
           if ret = PCIE_NO_MAPPING \<or> reg_value = PCIE_UNKNOWN_RESPONSE then Some (ret, cid_offset)
           else cap_walk s bdf cid (reg_value AND 0xff) reg_value cid_offset)
      else if cid_type = PCIE_ECAP then ecap_walk s bdf cid PCIE_ECAP_START (junk s) cid_offset
      else Some (PCIE_CAP_NOT_FOUND, cid_offset))"

text \<open>The search for the RME-DA vendor-specific capability.\<close>

abbreviation (input) ECID_DVSEC :: u32 where "ECID_DVSEC \<equiv> 0x23"
abbreviation (input) RMEDA_HEAD2 :: u32 where "RMEDA_HEAD2 \<equiv> 8"
abbreviation (input) RMEDA_HEAD2_DVSEC_ID :: u32 where "RMEDA_HEAD2_DVSEC_ID \<equiv> 0xFF01"

partial_function (option) da_walk ::
  "pcie_state \<Rightarrow> u32 \<Rightarrow> u32 \<Rightarrow> u32 \<Rightarrow> u32 \<Rightarrow> (u32 \<times> u32) option" where
  "da_walk s bdf next_cap_offset reg_value cid_offset =
     (if next_cap_offset = 0 then Some (PCIE_CAP_NOT_FOUND, cid_offset)
      else let reg1 = snd (val_pcie_read_cfg s bdf next_cap_offset reg_value)
        in if reg1 AND 0xffff = ECID_DVSEC then
             let reg2 = snd (val_pcie_read_cfg s bdf (next_cap_offset + RMEDA_HEAD2) reg1) AND 0xFFFF
             in if reg2 = RMEDA_HEAD2_DVSEC_ID then Some (PCIE_SUCCESS, next_cap_offset)
                else da_walk s bdf (drop_bit 20 reg2 AND 0xfff) reg2 cid_offset
           else da_walk s bdf (drop_bit 20 reg1 AND 0xfff) reg1 cid_offset)"

definition val_pcie_find_da_capability ::
  "pcie_state \<Rightarrow> u32 \<Rightarrow> u32 \<Rightarrow> (u32 \<times> u32) option" where
  "val_pcie_find_da_capability s bdf cid_offset = da_walk s bdf PCIE_ECAP_START (junk s) cid_offset"


section \<open>Register file contract\<close>

text \<open>What a client of memory-mapped registers relies on: a read after a write to the same
  cell sees the effect of that write, other cells and the effect function stay as they are.\<close>

locale register_file =
  fixes rd :: "'s \<Rightarrow> 'a \<Rightarrow> u32"
    and wr :: "'s \<Rightarrow> 'a \<Rightarrow> u32 \<Rightarrow> 's"
    and cell :: "'a \<Rightarrow> 'c"
    and effect :: "'s \<Rightarrow> 'c \<Rightarrow> u32 \<Rightarrow> u32 \<Rightarrow> u32"
  assumes rd_wr_same: "cell a = cell b \<Longrightarrow> rd (wr s a v) b = effect s (cell a) (rd s a) v"
    and rd_wr_other: "cell a \<noteq> cell b \<Longrightarrow> rd (wr s a v) b = rd s b"
    and effect_wr: "effect (wr s a v) = effect s"
begin

text \<open>Read-modify-write of a register whose bits in \<open>m\<close> hold what was written last.\<close>

lemma rmw_set:
  assumes "\<And>old new. effect s (cell a) old new AND m = new AND m"
  shows "rd (wr s a (rd s a OR m)) a AND m = m"
  by (simp add: rd_wr_same assms)

lemma rmw_clear:
  assumes "\<And>old new. effect s (cell a) old new AND m = new AND m"
  shows "rd (wr s a (rd s a AND NOT m)) a AND m = 0"
  by (simp add: rd_wr_same assms and.assoc)

lemma rmw_other_bits:
  assumes "\<And>old new. effect s (cell a) old new AND k = new AND k" and "m AND k = 0"
  shows "rd (wr s a (rd s a OR m)) a AND k = rd s a AND k"
  by (simp add: rd_wr_same assms bit.conj_disj_distrib2)

end

interpretation mmio: register_file pal_mmio_read pal_mmio_write "\<lambda>a. a AND NOT 3" cfg_effect
  by unfold_locales (auto simp: pal_mmio_read_def pal_mmio_write_def Let_def fun_eq_iff)

section \<open>Address of a configuration register\<close>

definition mapped :: "pcie_state \<Rightarrow> u32 \<Rightarrow> bool" where
  "mapped s bdf \<longleftrightarrow> \<not> bdf_out_of_range bdf \<and>
     g_pcie_info_table s \<noteq> None \<and>
     ecam_scan s (PCIE_EXTRACT_BDF_BUS bdf) (PCIE_EXTRACT_BDF_SEG bdf) 0 (num_ecam s) \<noteq> 0"

definition cfg_reg_addr :: "pcie_state \<Rightarrow> u32 \<Rightarrow> u32 \<Rightarrow> u64" where
  "cfg_reg_addr s bdf offset = val_pcie_get_bdf_config_addr s bdf + ucast offset"

text \<open>A write changes register contents only, so the tables and addresses stay.\<close>

lemma get_info_cfg_regs [simp]:
  "val_pcie_get_info (s\<lparr>cfg_regs := r\<rparr>) ty i = val_pcie_get_info s ty i"
  by (simp add: val_pcie_get_info_def split: option.splits PCIE_INFO_e.splits)

lemma num_ecam_cfg_regs [simp]: "num_ecam (s\<lparr>cfg_regs := r\<rparr>) = num_ecam s"
  by (simp add: num_ecam_def)

lemma ecam_scan_cfg_regs [simp]:
  "ecam_scan (s\<lparr>cfg_regs := r\<rparr>) bus seg i n = ecam_scan s bus seg i n"
  by (induction n arbitrary: i) auto

lemma config_addr_cfg_regs [simp]:
  "val_pcie_get_bdf_config_addr (s\<lparr>cfg_regs := r\<rparr>) bdf = val_pcie_get_bdf_config_addr s bdf"
  by (simp add: val_pcie_get_bdf_config_addr_def)

lemma mapped_cfg_regs [simp]: "mapped (s\<lparr>cfg_regs := r\<rparr>) bdf = mapped s bdf"
  by (simp add: mapped_def)

lemma cfg_reg_addr_cfg_regs [simp]: "cfg_reg_addr (s\<lparr>cfg_regs := r\<rparr>) bdf off = cfg_reg_addr s bdf off"
  by (simp add: cfg_reg_addr_def)

lemma read_cfg_mapped [simp]:
  "mapped s bdf \<Longrightarrow> val_pcie_read_cfg s bdf off d = (0, pal_mmio_read s (cfg_reg_addr s bdf off))"
  by (auto simp: mapped_def val_pcie_read_cfg_def cfg_reg_addr_def val_pcie_get_bdf_config_addr_def)

lemma write_cfg_mapped [simp]:
  "mapped s bdf \<Longrightarrow> val_pcie_write_cfg s bdf off d = pal_mmio_write s (cfg_reg_addr s bdf off) d"
  by (auto simp: mapped_def val_pcie_write_cfg_def cfg_reg_addr_def val_pcie_get_bdf_config_addr_def)

lemma mmio_write_state:
  "pal_mmio_write s a d = s\<lparr>cfg_regs := cfg_regs (pal_mmio_write s a d)\<rparr>"
  by (simp add: pal_mmio_write_def Let_def)

lemma mapped_mmio_write [simp]: "mapped (pal_mmio_write s a d) bdf = mapped s bdf"
  by (subst mmio_write_state) simp

lemma cfg_reg_addr_mmio_write [simp]:
  "cfg_reg_addr (pal_mmio_write s a d) bdf off = cfg_reg_addr s bdf off"
  by (subst mmio_write_state) simp

lemma junk_mmio_write [simp]: "junk (pal_mmio_write s a d) = junk s"
  and effect_mmio_write [simp]: "cfg_effect (pal_mmio_write s a d) = cfg_effect s"
  and hooks_mmio_write [simp]: "pcie_hooks (pal_mmio_write s a d) = pcie_hooks s"
  and info_mmio_write [simp]: "g_pcie_info_table (pal_mmio_write s a d) = g_pcie_info_table s"
  and bdfs_mmio_write [simp]: "g_pcie_bdf_table (pal_mmio_write s a d) = g_pcie_bdf_table s"
  by (simp_all add: pal_mmio_write_def Let_def)

lemma cfg_read_mapped [simp]: "mapped s bdf \<Longrightarrow> cfg_read s bdf off = pal_mmio_read s (cfg_reg_addr s bdf off)"
  by (simp add: cfg_read_def)

section \<open>Packed numbers: round trip\<close>

lemma and_0xFF_iff_take_bit: "(x :: u32) AND 0xFF = take_bit 8 x"
  by (simp add: take_bit_eq_mask mask_eq_exp_minus_1)

lemma bdf_create_extract:
  assumes "func AND 0xFF = func"
  shows "PCIE_EXTRACT_BDF_SEG (PCIE_CREATE_BDF seg bus dev func) = seg AND 0xFF"
    and "PCIE_EXTRACT_BDF_BUS (PCIE_CREATE_BDF seg bus dev func) = bus AND 0xFF"
    and "PCIE_EXTRACT_BDF_DEV (PCIE_CREATE_BDF seg bus dev func) = dev AND 0xFF"
    and "PCIE_EXTRACT_BDF_FUNC (PCIE_CREATE_BDF seg bus dev func) = func"
proof -
  have f: "bit func n \<Longrightarrow> n < 8" for n
    using assms by (metis and_0xFF_iff_take_bit bit_take_bit_iff)
  note bits = bdf_defs and_0xFF_iff_take_bit bit_take_bit_iff bit_drop_bit_eq bit_or_iff
    bit_push_bit_iff
  show "PCIE_EXTRACT_BDF_SEG (PCIE_CREATE_BDF seg bus dev func) = seg AND 0xFF"
    by (rule bit_word_eqI) (auto simp: bits dest: f)
  show "PCIE_EXTRACT_BDF_BUS (PCIE_CREATE_BDF seg bus dev func) = bus AND 0xFF"
    by (rule bit_word_eqI) (auto simp: bits dest: f)
  show "PCIE_EXTRACT_BDF_DEV (PCIE_CREATE_BDF seg bus dev func) = dev AND 0xFF"
    by (rule bit_word_eqI) (auto simp: bits dest: f)
  show "PCIE_EXTRACT_BDF_FUNC (PCIE_CREATE_BDF seg bus dev func) = func"
    by (rule bit_word_eqI) (auto simp: bits dest: f)
qed

lemma bdf_extract_create:
  "PCIE_CREATE_BDF (PCIE_EXTRACT_BDF_SEG bdf) (PCIE_EXTRACT_BDF_BUS bdf)
     (PCIE_EXTRACT_BDF_DEV bdf) (PCIE_EXTRACT_BDF_FUNC bdf) = bdf"
proof (rule bit_word_eqI)
  fix n assume "n < LENGTH(32)"
  then have "n < 8 \<or> 8 \<le> n \<and> n < 16 \<or> 16 \<le> n \<and> n < 24 \<or> 24 \<le> n \<and> n < 32" by auto
  then show "bit (PCIE_CREATE_BDF (PCIE_EXTRACT_BDF_SEG bdf) (PCIE_EXTRACT_BDF_BUS bdf)
     (PCIE_EXTRACT_BDF_DEV bdf) (PCIE_EXTRACT_BDF_FUNC bdf)) n = bit bdf n"
    by (elim disjE)
      (auto simp: bdf_defs and_0xFF_iff_take_bit bit_take_bit_iff bit_drop_bit_eq bit_or_iff
        bit_push_bit_iff)
qed


section \<open>Capability lists\<close>

text \<open>\<open>cap_path nxt off os\<close>: following \<open>nxt\<close> from \<open>off\<close> visits the offsets \<open>os\<close> and then
  reaches the null pointer.\<close>

inductive cap_path :: "(u32 \<Rightarrow> u32) \<Rightarrow> u32 \<Rightarrow> u32 list \<Rightarrow> bool" for nxt where
  cap_end: "cap_path nxt 0 []"
| cap_step: "off \<noteq> 0 \<Longrightarrow> cap_path nxt (nxt off) os \<Longrightarrow> cap_path nxt off (off # os)"

inductive_simps cap_path_Nil [simp]: "cap_path nxt off []"
inductive_simps cap_path_Cons [simp]: "cap_path nxt off (x # xs)"

definition search_result :: "(u32 \<Rightarrow> bool) \<Rightarrow> u32 list \<Rightarrow> u32 \<Rightarrow> u32 \<times> u32" where
  "search_result hit os out =
     (case find hit os of None \<Rightarrow> (PCIE_CAP_NOT_FOUND, out) | Some off \<Rightarrow> (PCIE_SUCCESS, off))"

text \<open>A search along a null-terminated linked list of structures in configuration space.\<close>

locale linked_search =
  fixes walk :: "u32 \<Rightarrow> u32 \<Rightarrow> (u32 \<times> u32) option"
    and nxt :: "u32 \<Rightarrow> u32"
    and hit :: "u32 \<Rightarrow> bool"
  assumes walk_null: "walk 0 out = Some (PCIE_CAP_NOT_FOUND, out)"
    and walk_hit: "off \<noteq> 0 \<Longrightarrow> hit off \<Longrightarrow> walk off out = Some (PCIE_SUCCESS, off)"
    and walk_miss: "off \<noteq> 0 \<Longrightarrow> \<not> hit off \<Longrightarrow> walk off out = walk (nxt off) out"
    and walk_stops: "walk off out = Some r \<Longrightarrow> \<exists>n. (nxt ^^ n) off = 0 \<or> hit ((nxt ^^ n) off)"
begin

lemma walk_path: "cap_path nxt off os \<Longrightarrow> walk off out = Some (search_result hit os out)"
  by (induction rule: cap_path.induct)
    (auto simp: walk_null walk_hit walk_miss search_result_def)

lemma walk_returns:
  "(nxt ^^ n) off = 0 \<or> hit ((nxt ^^ n) off) \<Longrightarrow> \<exists>r. walk off out = Some r"
proof (induction n arbitrary: off)
  case 0
  then show ?case by (cases "off = 0") (auto simp: walk_null walk_hit)
next
  case (Suc n)
  have "(nxt ^^ n) (nxt off) = 0 \<or> hit ((nxt ^^ n) (nxt off))"
    using Suc.prems by (simp add: funpow_swap1)
  then have "\<exists>r. walk (nxt off) out = Some r" by (rule Suc.IH)
  then show ?case
    by (cases "off = 0"; cases "hit off") (auto simp: walk_null walk_hit walk_miss)
qed

lemma walk_diverges_iff:
  "walk off out = None \<longleftrightarrow> (\<forall>n. (nxt ^^ n) off \<noteq> 0 \<and> \<not> hit ((nxt ^^ n) off))"
  using walk_returns walk_stops by (metis option.exhaust option.distinct(1))

lemma walk_success:
  "walk off out = Some (PCIE_SUCCESS, r) \<Longrightarrow> hit r \<and> (\<exists>n. r = (nxt ^^ n) off)"
proof -
  assume w: "walk off out = Some (PCIE_SUCCESS, r)"
  then obtain n where "(nxt ^^ n) off = 0 \<or> hit ((nxt ^^ n) off)" using walk_stops by blast
  then show ?thesis using w
  proof (induction n arbitrary: off)
    case 0
    then show ?case
      by (cases "off = 0") (auto simp: walk_null walk_hit intro: exI [of _ "0 :: nat"])
  next
    case (Suc n)
    show ?case
    proof (cases "off = 0 \<or> hit off")
      case True
      then show ?thesis using Suc.prems(2)
        by (cases "off = 0") (auto simp: walk_null walk_hit intro: exI [of _ "0 :: nat"])
    next
      case False
      then have "walk (nxt off) out = Some (PCIE_SUCCESS, r)"
        using Suc.prems(2) by (simp add: walk_miss)
      moreover have "(nxt ^^ n) (nxt off) = 0 \<or> hit ((nxt ^^ n) (nxt off))"
        using Suc.prems(1) by (simp add: funpow_swap1)
      ultimately obtain k where "hit r" "r = (nxt ^^ k) (nxt off)" using Suc.IH by blast
      then show ?thesis by (metis funpow_swap1 funpow.simps(2) comp_apply)
    qed
  qed
qed

end

text \<open>The standard and the extended list of a function: offset of the next structure and
  identifier of the structure at an offset.\<close>

definition cap_nxt :: "pcie_state \<Rightarrow> u32 \<Rightarrow> u32 \<Rightarrow> u32 \<Rightarrow> u32" where
  "cap_nxt s bdf reg off = drop_bit 8 (snd (val_pcie_read_cfg s bdf off reg)) AND 0xff"

definition cap_id_at :: "pcie_state \<Rightarrow> u32 \<Rightarrow> u32 \<Rightarrow> u32 \<Rightarrow> u32" where
  "cap_id_at s bdf reg off = snd (val_pcie_read_cfg s bdf off reg) AND 0xff"

definition ecap_nxt :: "pcie_state \<Rightarrow> u32 \<Rightarrow> u32 \<Rightarrow> u32 \<Rightarrow> u32" where
  "ecap_nxt s bdf reg off = drop_bit 20 (snd (val_pcie_read_cfg s bdf off reg)) AND 0xfff"

definition ecap_id_at :: "pcie_state \<Rightarrow> u32 \<Rightarrow> u32 \<Rightarrow> u32 \<Rightarrow> u32" where
  "ecap_id_at s bdf reg off = snd (val_pcie_read_cfg s bdf off reg) AND 0xffff"

lemma read_cfg_again:
  "val_pcie_read_cfg s bdf off (snd (val_pcie_read_cfg s bdf off' r)) = val_pcie_read_cfg s bdf off r"
  by (simp add: val_pcie_read_cfg_def Let_def)

lemma cap_walk_again:
  "cap_walk s bdf cid off (snd (val_pcie_read_cfg s bdf off' r)) out = cap_walk s bdf cid off r out"
  by (subst (1 2) cap_walk.simps) (simp add: read_cfg_again)

lemma ecap_walk_again:
  "ecap_walk s bdf cid off (snd (val_pcie_read_cfg s bdf off' r)) out = ecap_walk s bdf cid off r out"
  by (subst (1 2) ecap_walk.simps) (simp add: read_cfg_again)


lemma cap_walk_stops:
  assumes ret: "cap_walk s bdf cid off reg out = Some r"
  shows "\<exists>n. (cap_nxt s bdf reg ^^ n) off = 0 \<or> cap_id_at s bdf reg ((cap_nxt s bdf reg ^^ n) off) = cid"
proof (rule cap_walk.raw_induct [where P = "\<lambda>s bdf cid off reg out r. \<exists>n. (cap_nxt s bdf reg ^^ n) off = 0
    \<or> cap_id_at s bdf reg ((cap_nxt s bdf reg ^^ n) off) = cid", OF _ ret], goal_cases)
  case (1 f s bdf cid off reg out r)
  let ?reg = "snd (val_pcie_read_cfg s bdf off reg)"
  have eqs: "cap_nxt s bdf ?reg = cap_nxt s bdf reg" "cap_id_at s bdf ?reg = cap_id_at s bdf reg"
    by (simp_all add: fun_eq_iff cap_nxt_def cap_id_at_def read_cfg_again)
  show ?case
  proof (cases "off = 0 \<or> cap_id_at s bdf reg off = cid")
    case True
    then show ?thesis by (intro exI [of _ 0]) simp
  next
    case False
    then have "f s bdf cid (cap_nxt s bdf reg off) ?reg out = Some r"
      using 1(2) by (simp add: Let_def cap_id_at_def cap_nxt_def)
    from 1(1) [OF this] obtain n where
      "(cap_nxt s bdf reg ^^ n) (cap_nxt s bdf reg off) = 0
        \<or> cap_id_at s bdf reg ((cap_nxt s bdf reg ^^ n) (cap_nxt s bdf reg off)) = cid"
      unfolding eqs by blast
    then show ?thesis by (intro exI [of _ "Suc n"]) (simp add: funpow_swap1)
  qed
qed

interpretation cap: linked_search "\<lambda>off out. cap_walk s bdf cid off reg out" "cap_nxt s bdf reg"
    "\<lambda>off. cap_id_at s bdf reg off = cid" for s bdf cid reg
proof (unfold_locales, goal_cases)
  case (1 out)
  show ?case by (simp add: cap_walk.simps)
next
  case (2 off out)
  then show ?case by (simp add: cap_walk.simps [of s bdf cid off] cap_id_at_def Let_def)
next
  case (3 off out)
  then show ?case
    by (simp add: cap_walk.simps [of s bdf cid off] cap_id_at_def cap_nxt_def Let_def cap_walk_again)
next
  case (4 off out r)
  then show ?case by (rule cap_walk_stops)
qed

lemma ecap_walk_stops:
  assumes ret: "ecap_walk s bdf cid off reg out = Some r"
  shows "\<exists>n. (ecap_nxt s bdf reg ^^ n) off = 0 \<or> ecap_id_at s bdf reg ((ecap_nxt s bdf reg ^^ n) off) = cid"
proof (rule ecap_walk.raw_induct [where P = "\<lambda>s bdf cid off reg out r. \<exists>n. (ecap_nxt s bdf reg ^^ n) off = 0
    \<or> ecap_id_at s bdf reg ((ecap_nxt s bdf reg ^^ n) off) = cid", OF _ ret], goal_cases)
  case (1 f s bdf cid off reg out r)
  let ?reg = "snd (val_pcie_read_cfg s bdf off reg)"
  have eqs: "ecap_nxt s bdf ?reg = ecap_nxt s bdf reg" "ecap_id_at s bdf ?reg = ecap_id_at s bdf reg"
    by (simp_all add: fun_eq_iff ecap_nxt_def ecap_id_at_def read_cfg_again)
  show ?case
  proof (cases "off = 0 \<or> ecap_id_at s bdf reg off = cid")
    case True
    then show ?thesis by (intro exI [of _ 0]) simp
  next
    case False
    then have "f s bdf cid (ecap_nxt s bdf reg off) ?reg out = Some r"
      using 1(2) by (simp add: Let_def ecap_id_at_def ecap_nxt_def)
    from 1(1) [OF this] obtain n where
      "(ecap_nxt s bdf reg ^^ n) (ecap_nxt s bdf reg off) = 0
        \<or> ecap_id_at s bdf reg ((ecap_nxt s bdf reg ^^ n) (ecap_nxt s bdf reg off)) = cid"
      unfolding eqs by blast
    then show ?thesis by (intro exI [of _ "Suc n"]) (simp add: funpow_swap1)
  qed
qed

interpretation ecap: linked_search "\<lambda>off out. ecap_walk s bdf cid off reg out" "ecap_nxt s bdf reg"
    "\<lambda>off. ecap_id_at s bdf reg off = cid" for s bdf cid reg
proof (unfold_locales, goal_cases)
  case (1 out)
  show ?case by (simp add: ecap_walk.simps)
next
  case (2 off out)
  then show ?case by (simp add: ecap_walk.simps [of s bdf cid off] ecap_id_at_def Let_def)
next
  case (3 off out)
  then show ?case
    by (simp add: ecap_walk.simps [of s bdf cid off] ecap_id_at_def ecap_nxt_def Let_def ecap_walk_again)
next
  case (4 off out r)
  then show ?case by (rule ecap_walk_stops)
qed


text \<open>The RME-DA search as the code performs it.\<close>

definition is_dvsec :: "pcie_state \<Rightarrow> u32 \<Rightarrow> u32 \<Rightarrow> bool" where
  "is_dvsec s bdf off \<longleftrightarrow> ecap_id_at s bdf (junk s) off = ECID_DVSEC"

definition is_rmeda :: "pcie_state \<Rightarrow> u32 \<Rightarrow> u32 \<Rightarrow> bool" where
  "is_rmeda s bdf off \<longleftrightarrow> is_dvsec s bdf off \<and>
     cfg_read s bdf (off + RMEDA_HEAD2) AND 0xFFFF = RMEDA_HEAD2_DVSEC_ID"

lemma drop_20_of_16_bits: "drop_bit 20 ((x :: u32) AND 0xFFFF) = 0"
proof -
  have "(x AND 0xFFFF) = take_bit 16 x" by (simp add: take_bit_eq_mask mask_eq_exp_minus_1)
  then show ?thesis by (simp add: drop_bit_take_bit)
qed

lemma da_walk_again:
  "da_walk s bdf off (snd (val_pcie_read_cfg s bdf off' r)) out = da_walk s bdf off r out"
  by (subst (1 2) da_walk.simps) (simp add: read_cfg_again)

lemma da_walk_path:
  assumes "cap_path (ecap_nxt s bdf (junk s)) off os"
  shows "da_walk s bdf off (junk s) out =
    Some (case find (is_dvsec s bdf) os of
        None \<Rightarrow> (PCIE_CAP_NOT_FOUND, out)
      | Some d \<Rightarrow> if is_rmeda s bdf d then (PCIE_SUCCESS, d) else (PCIE_CAP_NOT_FOUND, out))"
  using assms
proof (induction rule: cap_path.induct)
  case cap_end
  show ?case by (simp add: da_walk.simps)
next
  case (cap_step off os)
  have null: "da_walk s bdf 0 r out = Some (PCIE_CAP_NOT_FOUND, out)" for r
    by (simp add: da_walk.simps)
  have miss: "\<not> is_dvsec s bdf off \<Longrightarrow>
      da_walk s bdf off (junk s) out = da_walk s bdf (ecap_nxt s bdf (junk s) off) (junk s) out"
    using cap_step.hyps(1) da_walk.simps [of s bdf off "junk s" out]
    by (simp add: is_dvsec_def ecap_id_at_def ecap_nxt_def da_walk_again Let_def)
  have hit: "is_dvsec s bdf off \<Longrightarrow> da_walk s bdf off (junk s) out =
      Some (if is_rmeda s bdf off then (PCIE_SUCCESS, off) else (PCIE_CAP_NOT_FOUND, out))"
    using cap_step.hyps(1) da_walk.simps [of s bdf off "junk s" out]
    by (simp add: is_dvsec_def is_rmeda_def ecap_id_at_def cfg_read_def read_cfg_again Let_def
        drop_20_of_16_bits null)
  show ?case
    by (cases "is_dvsec s bdf off") (simp_all add: hit miss cap_step.IH)
qed

section \<open>ECAM decoding\<close>

text \<open>The region that covers a bus of a segment, as a search over the table.\<close>

definition covers :: "u32 \<Rightarrow> u32 \<Rightarrow> pcie_info_block \<Rightarrow> bool" where
  "covers bus seg b \<longleftrightarrow> start_bus_num b \<le> bus \<and> bus \<le> end_bus_num b \<and> seg = segment_num b"

lemma ucast_u32_u64_le: "(ucast (a :: u32) :: u64) \<le> ucast b \<longleftrightarrow> a \<le> b"
  by (simp add: word_le_nat_alt unat_ucast_up)

lemma ucast_u32_u64_eq: "(ucast (a :: u32) :: u64) = ucast b \<longleftrightarrow> a = b"
  by (simp add: word_unat_eq_iff unat_ucast_up)

lemma num_ecam_eq:
  "g_pcie_info_table s = Some blocks \<Longrightarrow> length blocks < 2 ^ 32 \<Longrightarrow> num_ecam s = length blocks"
  using unat_of_nat_small [of "length blocks", where ?'a = 64]
  by (cases "blocks = []") (simp_all add: num_ecam_def val_pcie_get_info_def)

lemma ecam_scan_drop:
  assumes "g_pcie_info_table s = Some blocks" and "length blocks < 2 ^ 32" and "i \<le> length blocks"
  shows "ecam_scan s bus seg (of_nat i) (length blocks - i) =
    (case find (covers bus seg) (drop i blocks) of None \<Rightarrow> 0 | Some b \<Rightarrow> ecam_base b)"
  using assms(3)
proof (induction "length blocks - i" arbitrary: i)
  case 0
  then show ?case by simp
next
  case (Suc n)
  then have i: "i < length blocks" by simp
  then have u: "unat (of_nat i :: u32) = i"
    using assms(2) by (simp add: unat_of_nat_small)
  have n: "length blocks - i = Suc n" "length blocks - Suc i = n" using Suc.hyps(2) by simp_all
  have IH: "ecam_scan s bus seg (of_nat (Suc i)) n =
      (case find (covers bus seg) (drop (Suc i) blocks) of None \<Rightarrow> 0 | Some b \<Rightarrow> ecam_base b)"
    using Suc.hyps(1) [of "Suc i"] i n by simp
  have d: "drop i blocks = blocks ! i # drop (Suc i) blocks"
    using i by (simp add: Cons_nth_drop_Suc)
  show ?case
    unfolding n(1) ecam_scan.simps
    using i IH by (simp add: d val_pcie_get_info_def assms(1) u covers_def ucast_u32_u64_le
        ucast_u32_u64_eq add.commute)
qed

lemma ecam_scan_find:
  assumes "g_pcie_info_table s = Some blocks" and "length blocks < 2 ^ 32"
  shows "ecam_scan s bus seg 0 (num_ecam s) =
    (case find (covers bus seg) blocks of None \<Rightarrow> 0 | Some b \<Rightarrow> ecam_base b)"
  using ecam_scan_drop [OF assms, of 0 bus seg] by (simp add: num_ecam_eq [OF assms])

lemma and_0xFF_less: "(x :: u32) AND 0xFF < 256"
  by (simp add: and_0xFF_iff_take_bit take_bit_word_less [of 8, simplified])

lemma unat_cfg_addr:
  assumes "\<not> bdf_out_of_range bdf"
  shows "unat (cfg_addr bdf) = unat (PCIE_EXTRACT_BDF_BUS bdf) * 2 ^ 20
    + unat (PCIE_EXTRACT_BDF_DEV bdf) * 2 ^ 15 + unat (PCIE_EXTRACT_BDF_FUNC bdf) * 2 ^ 12"
proof -
  have b: "unat (PCIE_EXTRACT_BDF_BUS bdf) < 256" and d: "unat (PCIE_EXTRACT_BDF_DEV bdf) < 32"
    and f: "unat (PCIE_EXTRACT_BDF_FUNC bdf) < 8"
    using assms by (simp_all add: bdf_out_of_range_def word_le_nat_alt not_le)
  have "cfg_addr bdf = of_nat (unat (PCIE_EXTRACT_BDF_BUS bdf) * 2 ^ 20
    + unat (PCIE_EXTRACT_BDF_DEV bdf) * 2 ^ 15 + unat (PCIE_EXTRACT_BDF_FUNC bdf) * 2 ^ 12)"
    by (simp add: cfg_addr_def algebra_simps)
  then show ?thesis using b d f by (simp only:) (subst unat_of_nat_small; simp)
qed

section \<open>Properties\<close>

text \<open>A function with two standard capabilities (power management at 0x40, PCI Express at
  0x50) and two vendor-specific extended capabilities, of which the second one is RME-DA.\<close>

definition example_hooks :: pcie_pal where
  "example_hooks = \<lparr>pal_pcie_is_onchip_peripheral = (\<lambda>_. 0), pal_pcie_check_device_valid = (\<lambda>_. 0),
     pal_is_bdf_exerciser = (\<lambda>_. 0), pal_exerciser_mmio_base = (\<lambda>_ _. 0), pal_pcie_get_mcfg_ecam = 0\<rparr>"

definition example_pcie :: pcie_state where
  "example_pcie = \<lparr>
     g_pcie_info_table = Some [\<lparr>ecam_base = 0x40000000, segment_num = 0, start_bus_num = 0, end_bus_num = 1\<rparr>],
     g_pcie_bdf_table = Some [\<lparr>attr_bdf = 0, attr_rp_bdf = 0\<rparr>],
     cfg_regs = (\<lambda>_. 0)(0x40000034 := 0x40, 0x40000040 := 0x5001, 0x40000050 := 0x420010,
       0x40000100 := 0x14010023, 0x40000108 := 0x1234, 0x40000140 := 0x00010023, 0x40000148 := 0xFF01),
     cfg_effect = (\<lambda>_ old new. new), pcie_hooks = example_hooks, junk = 0xDEADBEEF\<rparr>"

lemma example_table:
  "g_pcie_info_table example_pcie =
     Some [\<lparr>ecam_base = 0x40000000, segment_num = 0, start_bus_num = 0, end_bus_num = 1\<rparr>]"
  by (simp add: example_pcie_def)

lemma example_get_info:
  "val_pcie_get_info example_pcie PCIE_INFO_NUM_ECAM 0 = 1"
  "val_pcie_get_info example_pcie PCIE_INFO_ECAM 0 = 0x40000000"
  "val_pcie_get_info example_pcie PCIE_INFO_START_BUS 0 = 0"
  "val_pcie_get_info example_pcie PCIE_INFO_END_BUS 0 = 1"
  "val_pcie_get_info example_pcie PCIE_INFO_SEGMENT 0 = 0"
  by (simp_all add: val_pcie_get_info_def example_pcie_def)

lemma example_mapped [simp]: "mapped example_pcie 0"
  by (simp add: mapped_def bdf_out_of_range_def bdf_defs num_ecam_def example_get_info)
    (simp add: example_pcie_def)

lemma example_reg_addr [simp]: "cfg_reg_addr example_pcie 0 off = 0x40000000 + ucast off"
  by (simp add: cfg_reg_addr_def val_pcie_get_bdf_config_addr_def bdf_out_of_range_def bdf_defs
      num_ecam_def example_get_info cfg_addr_def) (simp add: example_pcie_def)

lemma example_regs [simp]:
  "pal_mmio_read example_pcie a = ((\<lambda>_. 0)(0x40000034 := 0x40, 0x40000040 := 0x5001, 0x40000050 := 0x420010,
     0x40000100 := 0x14010023, 0x40000108 := 0x1234, 0x40000140 := 0x00010023, 0x40000148 := 0xFF01)) (a AND NOT 3)"
  by (simp add: pal_mmio_read_def example_pcie_def)


text \<open>Packing segment, bus, device and function and extracting them again gives the
  numbers back (each modulo 256, the function number must fit its byte), and every packed
  number is rebuilt from its parts.\<close>

theorem pcie_bdf_round_trip:
  assumes "func AND 0xFF = func"
  shows "PCIE_EXTRACT_BDF_SEG (PCIE_CREATE_BDF seg bus dev func) = seg AND 0xFF \<and>
    PCIE_EXTRACT_BDF_BUS (PCIE_CREATE_BDF seg bus dev func) = bus AND 0xFF \<and>
    PCIE_EXTRACT_BDF_DEV (PCIE_CREATE_BDF seg bus dev func) = dev AND 0xFF \<and>
    PCIE_EXTRACT_BDF_FUNC (PCIE_CREATE_BDF seg bus dev func) = func \<and>
    PCIE_CREATE_BDF (PCIE_EXTRACT_BDF_SEG bdf) (PCIE_EXTRACT_BDF_BUS bdf)
      (PCIE_EXTRACT_BDF_DEV bdf) (PCIE_EXTRACT_BDF_FUNC bdf) = bdf"
  using bdf_create_extract [OF assms] bdf_extract_create by simp

theorem pcie_bdf_round_trip_witness:
  "PCIE_EXTRACT_BDF_BUS (PCIE_CREATE_BDF 1 2 3 4) = 2 \<and> PCIE_EXTRACT_BDF_FUNC (PCIE_CREATE_BDF 1 2 3 4) = 4"
  using pcie_bdf_round_trip [of 4 1 2 3 0] by simp

text \<open>The 4KB configuration spaces of the functions of one ECAM region do not overlap:
  two in-range functions and in-page offsets with the same offset into the region are the
  same function and the same register, and every such offset is below 256MB.\<close>

theorem pcie_cfg_addr_injective:
  assumes "\<not> bdf_out_of_range bdf" and "\<not> bdf_out_of_range bdf'"
    and "off < 4096" and "off' < 4096" and "cfg_addr bdf + off = cfg_addr bdf' + off'"
  shows "PCIE_EXTRACT_BDF_BUS bdf = PCIE_EXTRACT_BDF_BUS bdf' \<and>
    PCIE_EXTRACT_BDF_DEV bdf = PCIE_EXTRACT_BDF_DEV bdf' \<and>
    PCIE_EXTRACT_BDF_FUNC bdf = PCIE_EXTRACT_BDF_FUNC bdf' \<and> off = off' \<and>
    unat (cfg_addr bdf + off) < 2 ^ 28"
proof -
  have r: "unat (PCIE_EXTRACT_BDF_BUS x) < 256" "unat (PCIE_EXTRACT_BDF_DEV x) < 32"
    "unat (PCIE_EXTRACT_BDF_FUNC x) < 8" if "\<not> bdf_out_of_range x" for x
    using that by (simp_all add: bdf_out_of_range_def word_le_nat_alt not_le)
  have o: "unat off < 4096" "unat off' < 4096"
    using assms(3,4) by (simp_all add: word_less_nat_alt)
  have sum: "unat (cfg_addr x + y) = unat (PCIE_EXTRACT_BDF_BUS x) * 2 ^ 20
      + unat (PCIE_EXTRACT_BDF_DEV x) * 2 ^ 15 + unat (PCIE_EXTRACT_BDF_FUNC x) * 2 ^ 12 + unat y"
    if "\<not> bdf_out_of_range x" and "unat y < 4096" for x y
    using r [OF that(1)] that(2) by (simp add: unat_word_ariths unat_cfg_addr [OF that(1)])
  let ?b = "\<lambda>x. unat (PCIE_EXTRACT_BDF_BUS x)" and ?d = "\<lambda>x. unat (PCIE_EXTRACT_BDF_DEV x)"
    and ?f = "\<lambda>x. unat (PCIE_EXTRACT_BDF_FUNC x)"
  note r1 = r [OF assms(1)] and r2 = r [OF assms(2)]
  have "unat (cfg_addr bdf + off) = unat (cfg_addr bdf' + off')" using assms(5) by simp
  then have e1: "((?b bdf * 32 + ?d bdf) * 8 + ?f bdf) * 4096 + unat off
      = ((?b bdf' * 32 + ?d bdf') * 8 + ?f bdf') * 4096 + unat off'"
    unfolding sum [OF assms(1) o(1)] sum [OF assms(2) o(2)] by simp
  note e2 = radix_unique [OF e1 o]
  note e3 = radix_unique [OF e2(1) r1(3) r2(3)]
  note e4 = radix_unique [OF e3(1) r1(2) r2(2)]
  have "unat (cfg_addr bdf + off) < 2 ^ 28"
    unfolding sum [OF assms(1) o(1)] using r1 o by simp
  then show ?thesis using e2(2) e3(2) e4 by (simp add: word_unat_eq_iff)
qed

theorem pcie_cfg_addr_injective_witness:
  "\<not> bdf_out_of_range 0x10203 \<and> unat (cfg_addr 0x10203 + 0x34) < 2 ^ 28"
  using pcie_cfg_addr_injective [of "0x10203" "0x10203" "0x34" "0x34"]
  by (simp add: bdf_out_of_range_def bdf_defs word_le_nat_alt)



text \<open>(C13) On a function with a null-terminated capability list the search terminates and
  returns the first structure with the requested identifier, for the standard list that starts
  at the capabilities pointer and for the extended list that starts at 0x100, or
  \<open>PCIE_CAP_NOT_FOUND\<close> with the caller's offset unchanged when there is none.\<close>

theorem pcie_find_capability_correct:
  assumes "mapped s bdf" and "cfg_read s bdf TYPE01_CPR \<noteq> PCIE_UNKNOWN_RESPONSE"
    and "cap_path (cap_nxt s bdf (junk s)) (cfg_read s bdf TYPE01_CPR AND 0xff) os"
    and "cap_path (ecap_nxt s bdf (junk s)) PCIE_ECAP_START eos"
  shows "val_pcie_find_capability s bdf PCIE_CAP cid out
      = Some (search_result (\<lambda>off. cap_id_at s bdf (junk s) off = cid) os out) \<and>
    val_pcie_find_capability s bdf PCIE_ECAP cid out
      = Some (search_result (\<lambda>off. ecap_id_at s bdf (junk s) off = cid) eos out)"
proof -
  have r: "val_pcie_read_cfg s bdf TYPE01_CPR (junk s) = (0, cfg_read s bdf TYPE01_CPR)"
    using assms(1) by simp
  have "cap_walk s bdf cid (cfg_read s bdf TYPE01_CPR AND 0xff) (cfg_read s bdf TYPE01_CPR) out
      = cap_walk s bdf cid (cfg_read s bdf TYPE01_CPR AND 0xff) (junk s) out"
    unfolding cfg_read_def by (rule cap_walk_again)
  then show ?thesis
    using assms(2) cap.walk_path [OF assms(3)] ecap.walk_path [OF assms(4)]
    by (simp add: val_pcie_find_capability_def r)
qed

theorem pcie_find_capability_correct_witness:
  "val_pcie_find_capability example_pcie 0 PCIE_CAP CID_PCIECS 9 = Some (PCIE_SUCCESS, 0x50) \<and>
   val_pcie_find_capability example_pcie 0 PCIE_ECAP 0x30 9 = Some (PCIE_CAP_NOT_FOUND, 9)"
  using pcie_find_capability_correct [of example_pcie 0 "[0x40, 0x50]" "[0x100, 0x140]" CID_PCIECS 9]
    pcie_find_capability_correct [of example_pcie 0 "[0x40, 0x50]" "[0x100, 0x140]" "0x30" 9]
  by (simp add: cap_nxt_def cap_id_at_def ecap_nxt_def ecap_id_at_def search_result_def)

text \<open>(C33) The extended search never returns exactly when the chain of next pointers never
  reaches the null pointer or a structure with the requested identifier: a malformed (cyclic)
  list hangs it, and nothing else does.\<close>

theorem pcie_find_capability_hangs_iff:
  "val_pcie_find_capability s bdf PCIE_ECAP cid out = None \<longleftrightarrow>
    (\<forall>n. (ecap_nxt s bdf (junk s) ^^ n) PCIE_ECAP_START \<noteq> 0 \<and>
      ecap_id_at s bdf (junk s) ((ecap_nxt s bdf (junk s) ^^ n) PCIE_ECAP_START) \<noteq> cid)"
  by (simp add: val_pcie_find_capability_def ecap.walk_diverges_iff)

text \<open>The search for the RME-DA capability looks at the first vendor-specific (DVSEC)
  structure of the extended list only: it succeeds exactly when that one is the RME-DA
  structure, and reports \<open>PCIE_CAP_NOT_FOUND\<close> when another vendor's structure comes first, even
  if an RME-DA structure follows it.\<close>

theorem pcie_find_da_capability_first_only:
  assumes "cap_path (ecap_nxt s bdf (junk s)) PCIE_ECAP_START os"
  shows "val_pcie_find_da_capability s bdf out =
    Some (case find (is_dvsec s bdf) os of
        None \<Rightarrow> (PCIE_CAP_NOT_FOUND, out)
      | Some d \<Rightarrow> if is_rmeda s bdf d then (PCIE_SUCCESS, d) else (PCIE_CAP_NOT_FOUND, out))"
  using da_walk_path [OF assms] by (simp add: val_pcie_find_da_capability_def)

theorem pcie_find_da_capability_first_only_witness:
  "is_rmeda example_pcie 0 0x140 \<and>
   val_pcie_find_da_capability example_pcie 0 9 = Some (PCIE_CAP_NOT_FOUND, 9)"
  using pcie_find_da_capability_first_only [of example_pcie 0 "[0x100, 0x140]" 9]
  by (simp add: ecap_nxt_def ecap_id_at_def is_dvsec_def is_rmeda_def)

end
