(* ===== verification/Pcie_Device.thy ===== *)
theory Pcie_Device
  imports Pcie_Config
begin

text \<open>
  The device layer of \<^verbatim>\<open>val/src/acs_pcie.c\<close>: port types and header types, the command,
  status and device control operations, base address registers, the walk over the device
  numbers, the table of discovered functions and the search for root ports and downstream
  functions in it.

  An operation that searches a capability list may not return, and one that follows a null
  \<open>g_pcie_bdf_table\<close> has no defined behaviour: both are \<open>None\<close>.
\<close>

section \<open>Registers of a function\<close>

abbreviation (input) TYPE01_VIDR :: u32 where "TYPE01_VIDR \<equiv> 0"
abbreviation (input) TYPE01_CR :: u32 where "TYPE01_CR \<equiv> 4"
abbreviation (input) TYPE01_RIDR :: u32 where "TYPE01_RIDR \<equiv> 8"
abbreviation (input) TYPE01_CLSR :: u32 where "TYPE01_CLSR \<equiv> 0xc"
abbreviation (input) TYPE01_BAR :: u32 where "TYPE01_BAR \<equiv> 0x10"
abbreviation (input) TYPE1_PBN :: u32 where "TYPE1_PBN \<equiv> 0x18"
abbreviation (input) TYPE1_SEC_STA :: u32 where "TYPE1_SEC_STA \<equiv> 0x1C"
abbreviation (input) DCTLR_OFFSET :: u32 where "DCTLR_OFFSET \<equiv> 8"
abbreviation (input) LCAPR_OFFSET :: u32 where "LCAPR_OFFSET \<equiv> 0xC"
abbreviation (input) LCTRLR_OFFSET :: u32 where "LCTRLR_OFFSET \<equiv> 0x10"
abbreviation (input) TYPE0_HEADER :: u32 where "TYPE0_HEADER \<equiv> 0"
abbreviation (input) TYPE1_HEADER :: u32 where "TYPE1_HEADER \<equiv> 1"

abbreviation (input) CR_MSE_SHIFT :: nat where "CR_MSE_SHIFT \<equiv> 1"
abbreviation (input) CR_BME_SHIFT :: nat where "CR_BME_SHIFT \<equiv> 2"
abbreviation (input) CR_SERRE_SHIFT :: nat where "CR_SERRE_SHIFT \<equiv> 8"
abbreviation (input) SR_STA_SHIFT :: nat where "SR_STA_SHIFT \<equiv> 27"
abbreviation (input) DCTLR_DSR_SHIFT :: nat where "DCTLR_DSR_SHIFT \<equiv> 16"
abbreviation (input) DSR_URD_SHIFT :: nat where "DSR_URD_SHIFT \<equiv> 3"

abbreviation (input) EP :: u32 where "EP \<equiv> 0x1"
abbreviation (input) RP :: u32 where "RP \<equiv> 0x10"
abbreviation (input) UP :: u32 where "UP \<equiv> 0x20"
abbreviation (input) DP :: u32 where "DP \<equiv> 0x40"
abbreviation (input) PCIE_PCI :: u32 where "PCIE_PCI \<equiv> 0x80"
abbreviation (input) PCI_PCIE :: u32 where "PCI_PCIE \<equiv> 0x100"
abbreviation (input) RCiEP :: u32 where "RCiEP \<equiv> 0x200"
abbreviation (input) RCEC :: u32 where "RCEC \<equiv> 0x400"
abbreviation (input) iEP_RP :: u32 where "iEP_RP \<equiv> 0x800"
abbreviation (input) iEP_EP :: u32 where "iEP_EP \<equiv> 0x1000"

text \<open>The offset of the PCI Express capability as the callers obtain it: they ignore the
  status of the search, and their variable is not initialised.\<close>

definition pciecs_base :: "pcie_state \<Rightarrow> u32 \<Rightarrow> u32 option" where
  "pciecs_base s bdf = map_option snd (val_pcie_find_capability s bdf PCIE_CAP CID_PCIECS (junk s))"

definition val_pcie_device_port_type :: "pcie_state \<Rightarrow> u32 \<Rightarrow> u32 option" where
  "val_pcie_device_port_type s bdf = do {
     base \<leftarrow> pciecs_base s bdf;
     let reg_value = cfg_read s bdf base;
     let dp_type = push_bit (unat (drop_bit 20 reg_value AND 0xf)) 1;
     Some (if c_true (pal_pcie_is_onchip_peripheral (pcie_hooks s) bdf) then
             if dp_type = EP then iEP_EP else if dp_type = RP then iEP_RP else dp_type
           else dp_type) }"

definition val_pcie_is_host_bridge :: "pcie_state \<Rightarrow> u32 \<Rightarrow> bool" where
  "val_pcie_is_host_bridge s bdf = (let reg_value = cfg_read s bdf TYPE01_RIDR in
     drop_bit 24 reg_value AND 0xFF = 6 \<and> drop_bit 16 reg_value AND 0xFF = 0)"

definition val_pcie_function_header_type :: "pcie_state \<Rightarrow> u32 \<Rightarrow> u32" where
  "val_pcie_function_header_type s bdf =
     (drop_bit 16 (cfg_read s bdf TYPE01_CLSR) AND 0xff) AND 0x7f"

definition val_pcie_multifunction_support :: "pcie_state \<Rightarrow> u32 \<Rightarrow> u32" where
  "val_pcie_multifunction_support s bdf =
     (if c_true (drop_bit 7 (drop_bit 16 (cfg_read s bdf TYPE01_CLSR) AND 0xff) AND 1) then 0 else 1)"

definition val_pcie_check_interrupt_status :: "pcie_state \<Rightarrow> u32 \<Rightarrow> u32" where
  "val_pcie_check_interrupt_status s bdf = drop_bit 19 (cfg_read s bdf TYPE01_CR) AND 1"

definition val_pcie_data_link_layer_status :: "pcie_state \<Rightarrow> u32 \<Rightarrow> u32 option" where
  "val_pcie_data_link_layer_status s bdf = do {
     base \<leftarrow> pciecs_base s bdf;
     let data_link_report = drop_bit 20 (cfg_read s bdf (base + LCAPR_OFFSET) AND 0x100000);
     if c_true data_link_report then do {
       base' \<leftarrow> pciecs_base s bdf;
       Some (drop_bit 29 (cfg_read s bdf (base' + LCTRLR_OFFSET) AND 0x20000000)) }
     else Some 2 }"

text \<open>\<open>width\<close> is the caller's variable: it is kept when the search fails.\<close>

definition val_pcie_get_max_pasid_width :: "pcie_state \<Rightarrow> u32 \<Rightarrow> u32 \<Rightarrow> (u32 \<times> u32) option" where
  "val_pcie_get_max_pasid_width s bdf width = do {
     (status, base) \<leftarrow> val_pcie_find_capability s bdf PCIE_ECAP 0x1B (junk s);
     if c_true status then Some (status, width)
     else let w = snd (val_pcie_read_cfg s bdf (base + 4) width)
       in Some (0, drop_bit 8 (w AND 0x1F00)) }"

section \<open>Command, status and device control\<close>

definition val_pcie_disable_bme :: "pcie_state \<Rightarrow> u32 \<Rightarrow> pcie_state" where
  "val_pcie_disable_bme s bdf =
     val_pcie_write_cfg s bdf TYPE01_CR (cfg_read s bdf TYPE01_CR AND NOT (push_bit CR_BME_SHIFT 1))"

definition val_pcie_enable_bme :: "pcie_state \<Rightarrow> u32 \<Rightarrow> pcie_state" where
  "val_pcie_enable_bme s bdf =
     val_pcie_write_cfg s bdf TYPE01_CR (cfg_read s bdf TYPE01_CR OR push_bit CR_BME_SHIFT 1)"

definition val_pcie_disable_msa :: "pcie_state \<Rightarrow> u32 \<Rightarrow> pcie_state" where
  "val_pcie_disable_msa s bdf =
     val_pcie_write_cfg s bdf TYPE01_CR (cfg_read s bdf TYPE01_CR AND NOT (push_bit CR_MSE_SHIFT 1))"

definition val_pcie_enable_msa :: "pcie_state \<Rightarrow> u32 \<Rightarrow> pcie_state" where
  "val_pcie_enable_msa s bdf =
     val_pcie_write_cfg s bdf TYPE01_CR (cfg_read s bdf TYPE01_CR OR push_bit CR_MSE_SHIFT 1)"

definition val_pcie_is_msa_enabled :: "pcie_state \<Rightarrow> u32 \<Rightarrow> u32" where
  "val_pcie_is_msa_enabled s bdf =
     (if c_true (cfg_read s bdf TYPE01_CR AND push_bit CR_MSE_SHIFT 1) then 0 else 1)"

definition val_pcie_clear_urd :: "pcie_state \<Rightarrow> u32 \<Rightarrow> pcie_state option" where
  "val_pcie_clear_urd s bdf = do {
     base \<leftarrow> pciecs_base s bdf;
     let reg_value = cfg_read s bdf (base + DCTLR_OFFSET) AND 0xffff;
     Some (val_pcie_write_cfg s bdf (base + DCTLR_OFFSET)
       (reg_value OR push_bit (DCTLR_DSR_SHIFT + DSR_URD_SHIFT) 1)) }"

definition val_pcie_is_urd :: "pcie_state \<Rightarrow> u32 \<Rightarrow> u32 option" where
  "val_pcie_is_urd s bdf = do {
     base \<leftarrow> pciecs_base s bdf;
     let reg_value = drop_bit DCTLR_DSR_SHIFT (cfg_read s bdf (base + DCTLR_OFFSET)) AND 0xffff;
     Some (if c_true (drop_bit DSR_URD_SHIFT reg_value AND 1) then 1 else 0) }"

definition val_pcie_clear_device_status_error :: "pcie_state \<Rightarrow> u32 \<Rightarrow> pcie_state option" where
  "val_pcie_clear_device_status_error s bdf = do {
     base \<leftarrow> pciecs_base s bdf;
     Some (val_pcie_write_cfg s bdf (base + DCTLR_OFFSET)
       (cfg_read s bdf (base + DCTLR_OFFSET) OR push_bit DCTLR_DSR_SHIFT 0xF)) }"

definition val_pcie_is_device_status_error :: "pcie_state \<Rightarrow> u32 \<Rightarrow> u32 option" where
  "val_pcie_is_device_status_error s bdf = do {
     base \<leftarrow> pciecs_base s bdf;
     Some (if c_true (cfg_read s bdf (base + DCTLR_OFFSET) AND push_bit DCTLR_DSR_SHIFT 0xF)
           then 1 else 0) }"

definition val_pcie_clear_sig_target_abort :: "pcie_state \<Rightarrow> u32 \<Rightarrow> pcie_state" where
  "val_pcie_clear_sig_target_abort s bdf =
     (let s1 = val_pcie_write_cfg s bdf TYPE01_CR
                 (cfg_read s bdf TYPE01_CR OR push_bit SR_STA_SHIFT 1)
      in val_pcie_write_cfg s1 bdf TYPE1_SEC_STA
           (cfg_read s1 bdf TYPE1_SEC_STA OR push_bit SR_STA_SHIFT 1))"

definition val_pcie_is_sig_target_abort :: "pcie_state \<Rightarrow> u32 \<Rightarrow> u32" where
  "val_pcie_is_sig_target_abort s bdf =
     (if c_true (drop_bit SR_STA_SHIFT (cfg_read s bdf TYPE01_CR) AND 1) \<or>
         c_true (drop_bit SR_STA_SHIFT (cfg_read s bdf TYPE1_SEC_STA) AND 1) then 1 else 0)"

definition val_pcie_enable_eru :: "pcie_state \<Rightarrow> u32 \<Rightarrow> pcie_state option" where
  "val_pcie_enable_eru s bdf = do {
     let s1 = val_pcie_write_cfg s bdf TYPE01_CR
                (cfg_read s bdf TYPE01_CR OR push_bit CR_SERRE_SHIFT 1);
     base \<leftarrow> pciecs_base s1 bdf;
     Some (val_pcie_write_cfg s1 bdf (base + DCTLR_OFFSET)
       (cfg_read s1 bdf (base + DCTLR_OFFSET) OR 0xF)) }"

definition val_pcie_disable_eru :: "pcie_state \<Rightarrow> u32 \<Rightarrow> pcie_state option" where
  "val_pcie_disable_eru s bdf = do {
     let s1 = val_pcie_write_cfg s bdf TYPE01_CR
                (cfg_read s bdf TYPE01_CR AND NOT (push_bit CR_SERRE_SHIFT 1));
     base \<leftarrow> pciecs_base s1 bdf;
     Some (val_pcie_write_cfg s1 bdf (base + DCTLR_OFFSET)
       (cfg_read s1 bdf (base + DCTLR_OFFSET) AND NOT 0xF)) }"

section \<open>ECAM of a function\<close>

definition sec_bus_of :: "u32 \<Rightarrow> u32" where
  "sec_bus_of reg_value = drop_bit 8 reg_value AND 0xff"

definition sub_bus_of :: "u32 \<Rightarrow> u32" where
  "sub_bus_of reg_value = drop_bit 16 reg_value AND 0xff"

text \<open>The index is a \<^verbatim>\<open>uint8_t\<close> here and wraps.\<close>

partial_function (option) ecam_base_loop :: "pcie_state \<Rightarrow> u32 \<Rightarrow> u8 \<Rightarrow> u64 option" where
  "ecam_base_loop s bdf ecam_index =
     (if (ucast ecam_index :: u64) < val_pcie_get_info s PCIE_INFO_NUM_ECAM 0 then
        if (ucast (PCIE_EXTRACT_BDF_SEG bdf) :: u64)
             = val_pcie_get_info s PCIE_INFO_SEGMENT (ucast ecam_index) then
          if val_pcie_function_header_type s bdf = TYPE0_HEADER then
            Some (val_pcie_get_info s PCIE_INFO_ECAM (ucast ecam_index))
          else let reg_value = cfg_read s bdf TYPE1_PBN in
            if val_pcie_get_info s PCIE_INFO_START_BUS (ucast ecam_index) \<le> ucast (sec_bus_of reg_value) \<and>
               ucast (sub_bus_of reg_value) \<le> val_pcie_get_info s PCIE_INFO_END_BUS (ucast ecam_index)
            then Some (val_pcie_get_info s PCIE_INFO_ECAM (ucast ecam_index))
            else ecam_base_loop s bdf (ecam_index + 1)
        else ecam_base_loop s bdf (ecam_index + 1)
      else Some 0)"

definition val_pcie_get_ecam_base :: "pcie_state \<Rightarrow> u32 \<Rightarrow> u64 option" where
  "val_pcie_get_ecam_base s bdf = ecam_base_loop s bdf 0"

text \<open>\<open>n\<close> regions are left; \<open>out\<close> is the caller's index, kept on failure.\<close>

primrec ecam_index_loop :: "pcie_state \<Rightarrow> u32 \<Rightarrow> u32 \<Rightarrow> u32 \<Rightarrow> nat \<Rightarrow> u32 \<times> u32" where
  "ecam_index_loop s bdf out index 0 = (1, out)"
| "ecam_index_loop s bdf out index (Suc n) =
     (if (ucast (PCIE_EXTRACT_BDF_SEG bdf) :: u64) = val_pcie_get_info s PCIE_INFO_SEGMENT index \<and>
         val_pcie_get_info s PCIE_INFO_START_BUS index \<le> ucast (PCIE_EXTRACT_BDF_BUS bdf) \<and>
         ucast (PCIE_EXTRACT_BDF_BUS bdf) \<le> val_pcie_get_info s PCIE_INFO_END_BUS index
      then if val_pcie_function_header_type s bdf = TYPE0_HEADER then (0, index)
        else let reg_value = cfg_read s bdf TYPE1_PBN in
          if val_pcie_get_info s PCIE_INFO_START_BUS index \<le> ucast (sec_bus_of reg_value) \<and>
             ucast (sub_bus_of reg_value) \<le> val_pcie_get_info s PCIE_INFO_END_BUS index
          then (0, index) else ecam_index_loop s bdf out (index + 1) n
      else ecam_index_loop s bdf out (index + 1) n)"

definition val_pcie_get_ecam_index :: "pcie_state \<Rightarrow> u32 \<Rightarrow> u32 \<Rightarrow> u32 \<times> u32" where
  "val_pcie_get_ecam_index s bdf out = ecam_index_loop s bdf out 0 (num_ecam s)"

section \<open>Memory base address register\<close>

text \<open>The loop over the base address registers: \<open>n\<close> of six indices are left, \<open>bar_low\<close> is the
  variable that receives the register, \<open>hi\<close> the upper half of the caller's address.\<close>

primrec mmio_bar_loop :: "pcie_state \<Rightarrow> u32 \<Rightarrow> u32 \<Rightarrow> u32 \<Rightarrow> nat \<Rightarrow> u64" where
  "mmio_bar_loop s bdf bar_low hi 0 = 0"
| "mmio_bar_loop s bdf bar_low hi (Suc n) =
     (let index = of_nat (6 - Suc n);
          low = snd (val_pcie_read_cfg s bdf (TYPE01_BAR + index * 4) bar_low) in
      if low AND 1 = 0 then
        let mdt = drop_bit 1 low AND 3;
            high = (if mdt = 2 then cfg_read s bdf (TYPE01_BAR + (index + 1) * 4)
                    else if mdt = 0 then 0 else hi)
        in ucast (push_bit 4 (drop_bit 4 low AND 0xfffffff)) OR push_bit 32 (ucast high)
      else if val_pcie_function_header_type s bdf = TYPE1_HEADER \<and> index + 1 = 2 then 0
      else mmio_bar_loop s bdf low hi n)"

definition val_pcie_get_mmio_bar :: "pcie_state \<Rightarrow> u32 \<Rightarrow> u64 \<Rightarrow> u64 option" where
  "val_pcie_get_mmio_bar s bdf base =
     (if c_true (pal_is_bdf_exerciser (pcie_hooks s) bdf) then do {
        ecam \<leftarrow> val_pcie_get_ecam_base s bdf;
        Some (pal_exerciser_mmio_base (pcie_hooks s) bdf ecam) }
      else Some (mmio_bar_loop s bdf (junk s) (ucast (drop_bit 32 base)) 6))"

section \<open>Walking the device numbers\<close>

definition val_pcie_increment_busdev :: "u32 \<Rightarrow> u32" where
  "val_pcie_increment_busdev start_bdf =
     (let seg = PCIE_EXTRACT_BDF_SEG start_bdf; bus = PCIE_EXTRACT_BDF_BUS start_bdf;
          dev = PCIE_EXTRACT_BDF_DEV start_bdf
      in if dev \<noteq> PCIE_MAX_DEV then PCIE_CREATE_BDF seg bus (dev + 1) 0
         else PCIE_CREATE_BDF seg (bus + 1) 0 0)"

text \<open>The last ECAM region of a segment: the C loop counts down from the number of regions.\<close>

primrec last_ecam_of :: "pcie_state \<Rightarrow> u32 \<Rightarrow> nat \<Rightarrow> nat option" where
  "last_ecam_of s seg 0 = None"
| "last_ecam_of s seg (Suc n) =
     (if ucast seg = val_pcie_get_info s PCIE_INFO_SEGMENT (of_nat n) then Some n
      else last_ecam_of s seg n)"

definition val_pcie_increment_bdf :: "pcie_state \<Rightarrow> u32 \<Rightarrow> u32" where
  "val_pcie_increment_bdf s bdf =
     (let seg = PCIE_EXTRACT_BDF_SEG bdf; bus = PCIE_EXTRACT_BDF_BUS bdf;
          dev = PCIE_EXTRACT_BDF_DEV bdf; func = PCIE_EXTRACT_BDF_FUNC bdf
      in case last_ecam_of s seg (num_ecam s) of
        None \<Rightarrow> 0
      | Some k \<Rightarrow>
          if func < PCIE_MAX_FUNC - 1 then PCIE_CREATE_BDF seg bus dev (func + 1)
          else if dev < PCIE_MAX_DEV - 1 then PCIE_CREATE_BDF seg bus (dev + 1) 0
          else if ucast bus < val_pcie_get_info s PCIE_INFO_END_BUS (of_nat k)
            then PCIE_CREATE_BDF seg (bus + 1) 0 0
          else if k + 1 < num_ecam s then
            PCIE_CREATE_BDF (ucast (val_pcie_get_info s PCIE_INFO_SEGMENT (of_nat (k + 1))))
              (ucast (val_pcie_get_info s PCIE_INFO_START_BUS (of_nat (k + 1)))) 0 0
          else 0)"

section \<open>Searching the table of functions\<close>

text \<open>\<open>reg\<close> is the C variable \<open>reg_value\<close> carried from one iteration to the next.\<close>

primrec rootport_loop :: "pcie_state \<Rightarrow> u32 \<Rightarrow> u32 \<Rightarrow> u32 list \<Rightarrow> (u32 \<times> u32) option" where
  "rootport_loop s bdf reg [] = Some (1, 0)"
| "rootport_loop s bdf reg (rp # rps) = do {
     let reg' = snd (val_pcie_read_cfg s rp TYPE1_PBN reg);
     dp_type \<leftarrow> val_pcie_device_port_type s rp;
     if (dp_type = RP \<or> dp_type = iEP_RP) \<and> sec_bus_of reg' \<le> PCIE_EXTRACT_BDF_BUS bdf \<and>
        PCIE_EXTRACT_BDF_BUS bdf \<le> sub_bus_of reg' \<and>
        PCIE_EXTRACT_BDF_SEG rp = PCIE_EXTRACT_BDF_SEG bdf
     then Some (0, rp) else rootport_loop s bdf reg' rps }"

definition val_pcie_get_rootport :: "pcie_state \<Rightarrow> u32 \<Rightarrow> (u32 \<times> u32) option" where
  "val_pcie_get_rootport s bdf = do {
     dp_type \<leftarrow> val_pcie_device_port_type s bdf;
     if dp_type = RP \<or> dp_type = iEP_RP then Some (0, bdf)
     else if dp_type = RCiEP \<or> dp_type = RCEC then Some (1, 0xffffffff)
     else do {
       table \<leftarrow> g_pcie_bdf_table s;
       rootport_loop s bdf (junk s) (map attr_bdf table) } }"

primrec parent_loop :: "pcie_state \<Rightarrow> u32 \<Rightarrow> u32 \<Rightarrow> u32 \<Rightarrow> u32 list \<Rightarrow> (u32 \<times> u32) option" where
  "parent_loop s dsf_bus out reg [] = Some (1, out)"
| "parent_loop s dsf_bus out reg (bdf # bdfs) = do {
     dp_type \<leftarrow> val_pcie_device_port_type s bdf;
     if dp_type = RP \<or> dp_type = iEP_RP then
       let reg' = snd (val_pcie_read_cfg s bdf TYPE1_PBN reg) in
       if dsf_bus = sec_bus_of reg' \<and> dsf_bus \<le> sub_bus_of reg' then Some (0, bdf)
       else parent_loop s dsf_bus out reg' bdfs
     else parent_loop s dsf_bus out reg bdfs }"

definition val_pcie_parent_is_rootport :: "pcie_state \<Rightarrow> u32 \<Rightarrow> u32 \<Rightarrow> (u32 \<times> u32) option" where
  "val_pcie_parent_is_rootport s dsf_bdf out = do {
     table \<leftarrow> g_pcie_bdf_table s;
     parent_loop s (PCIE_EXTRACT_BDF_BUS dsf_bdf) out (junk s) (map attr_bdf table) }"

text \<open>\<open>dsf\<close> is the caller's variable, \<open>type1\<close> the first bridge seen so far.\<close>

primrec downstream_loop ::
  "pcie_state \<Rightarrow> u32 \<Rightarrow> u32 \<Rightarrow> u32 \<Rightarrow> u32 \<Rightarrow> u32 option \<Rightarrow> u32 list \<Rightarrow> u32 \<times> u32" where
  "downstream_loop s sec_bus sub_bus seg dsf type1 [] =
     (case type1 of Some b \<Rightarrow> (0, b) | None \<Rightarrow> (1, dsf))"
| "downstream_loop s sec_bus sub_bus seg dsf type1 (bdf # bdfs) =
     (if sec_bus \<le> PCIE_EXTRACT_BDF_BUS bdf \<and> PCIE_EXTRACT_BDF_BUS bdf \<le> sub_bus \<and>
         PCIE_EXTRACT_BDF_SEG bdf = seg
      then if val_pcie_function_header_type s bdf = TYPE0_HEADER then (0, bdf)
           else downstream_loop s sec_bus sub_bus seg bdf
             (if type1 = None then Some bdf else type1) bdfs
      else downstream_loop s sec_bus sub_bus seg dsf type1 bdfs)"

definition val_pcie_get_downstream_function :: "pcie_state \<Rightarrow> u32 \<Rightarrow> (u32 \<times> u32) option" where
  "val_pcie_get_downstream_function s bdf = do {
     let reg_value = cfg_read s bdf TYPE1_PBN;
     table \<leftarrow> g_pcie_bdf_table s;
     Some (downstream_loop s (sec_bus_of reg_value) (sub_bus_of reg_value)
       (PCIE_EXTRACT_BDF_SEG bdf) 0 None (map attr_bdf table)) }"

section \<open>Building the table of functions\<close>

definition val_pcie_populate_device_rootport :: "pcie_state \<Rightarrow> pcie_state option" where
  "val_pcie_populate_device_rootport s = do {
     table \<leftarrow> g_pcie_bdf_table s;
     rps \<leftarrow> those (map (\<lambda>e. val_pcie_get_rootport s (attr_bdf e)) table);
     Some (s\<lparr>g_pcie_bdf_table :=
       Some (map2 (\<lambda>e r. e\<lparr>attr_rp_bdf := snd r\<rparr>) table rps)\<rparr>) }"

text \<open>One device number: \<open>Inl\<close> is the early return with status 1, \<open>Inr\<close> the next iteration.
  The table entry has an unwritten \<open>rp_bdf\<close> until the rootports are filled in.\<close>

definition probe_function :: "pcie_state \<Rightarrow> u32 \<Rightarrow> (pcie_state + pcie_state) option" where
  "probe_function s bdf =
     (case val_pcie_read_cfg s bdf TYPE01_VIDR (junk s) of (status, reg_value) \<Rightarrow>
        if status = PCIE_NO_MAPPING then Some (Inl s)
        else if reg_value \<noteq> PCIE_UNKNOWN_RESPONSE then
          if val_pcie_is_host_bridge s bdf then Some (Inr s)
          else do {
            (found, _) \<leftarrow> val_pcie_find_capability s bdf PCIE_CAP CID_PCIECS (junk s);
            if found \<noteq> PCIE_SUCCESS then Some (Inr s)
            else if c_true (pal_pcie_check_device_valid (pcie_hooks s) bdf) then Some (Inr s)
            else let s1 = val_pcie_enable_msa (val_pcie_enable_bme s bdf) bdf in
              Some (Inr (s1\<lparr>g_pcie_bdf_table :=
                map_option (\<lambda>t. t @ [\<lparr>attr_bdf = bdf, attr_rp_bdf = junk s\<rparr>]) (g_pcie_bdf_table s1)\<rparr>)) }
        else Some (Inr s))"

primrec probe_functions :: "pcie_state \<Rightarrow> u32 list \<Rightarrow> (pcie_state + pcie_state) option" where
  "probe_functions s [] = Some (Inr s)"
| "probe_functions s (bdf # bdfs) = do {
     r \<leftarrow> probe_function s bdf;
     case r of Inl s' \<Rightarrow> Some (Inl s') | Inr s' \<Rightarrow> probe_functions s' bdfs }"

text \<open>The device numbers of a bus, in the order of the two inner loops.\<close>

definition bus_functions :: "u32 \<Rightarrow> u32 \<Rightarrow> u32 list" where
  "bus_functions seg bus =
     concat (map (\<lambda>d. map (\<lambda>f. PCIE_CREATE_BDF seg bus (of_nat d) (of_nat f)) [0..<8]) [0..<32])"

partial_function (option) bus_loop :: "pcie_state \<Rightarrow> u32 \<Rightarrow> u32 \<Rightarrow> u32 \<Rightarrow> (pcie_state + pcie_state) option" where
  "bus_loop s seg bus end_bus =
     (if bus \<le> end_bus then do {
        r \<leftarrow> probe_functions s (bus_functions seg bus);
        case r of Inl s' \<Rightarrow> Some (Inl s') | Inr s' \<Rightarrow> bus_loop s' seg (bus + 1) end_bus }
      else Some (Inr s))"

primrec ecam_loop :: "pcie_state \<Rightarrow> u32 \<Rightarrow> nat \<Rightarrow> (pcie_state + pcie_state) option" where
  "ecam_loop s ecam_index 0 = Some (Inr s)"
| "ecam_loop s ecam_index (Suc n) = do {
     r \<leftarrow> bus_loop s (ucast (val_pcie_get_info s PCIE_INFO_SEGMENT ecam_index))
            (ucast (val_pcie_get_info s PCIE_INFO_START_BUS ecam_index))
            (ucast (val_pcie_get_info s PCIE_INFO_END_BUS ecam_index));
     case r of Inl s' \<Rightarrow> Some (Inl s') | Inr s' \<Rightarrow> ecam_loop s' (ecam_index + 1) n }"

text \<open>\<open>alloc\<close>: whether the platform allocator returns memory for the table.\<close>

definition val_pcie_create_device_bdf_table :: "bool \<Rightarrow> pcie_state \<Rightarrow> (u32 \<times> pcie_state) option" where
  "val_pcie_create_device_bdf_table alloc s =
     (if g_pcie_bdf_table s \<noteq> None then Some (PCIE_SUCCESS, s)
      else if \<not> alloc then Some (1, s)
      else let s1 = s\<lparr>g_pcie_bdf_table := Some []\<rparr> in
        if num_ecam s1 = 0 then Some (1, s1)
        else do {
          r \<leftarrow> ecam_loop s1 0 (num_ecam s1);
          case r of
            Inl s' \<Rightarrow> Some (1, s')
          | Inr s' \<Rightarrow> do { s2 \<leftarrow> val_pcie_populate_device_rootport s'; Some (0, s2) } })"

text \<open>The counters that \<open>val_pcie_print_device_info\<close> computes before it prints them.\<close>

definition device_counts :: "pcie_state \<Rightarrow> (u32 \<Rightarrow> u32) option" where
  "device_counts s = do {
     table \<leftarrow> g_pcie_bdf_table s;
     types \<leftarrow> those (map (\<lambda>e. val_pcie_device_port_type s (attr_bdf e)) table);
     Some (\<lambda>ty. of_nat (count_list types ty)) }"


section \<open>Register behaviour\<close>

text \<open>A register whose bits in \<open>rw\<close> hold what was written, whose bits in \<open>w1c\<close> are cleared by
  writing one, and whose other bits are read-only.\<close>

definition reg_effect :: "u32 \<Rightarrow> u32 \<Rightarrow> u32 \<Rightarrow> u32 \<Rightarrow> u32" where
  "reg_effect rw w1c old new =
     (new AND rw) OR (old AND NOT new AND w1c AND NOT rw) OR (old AND NOT (rw OR w1c))"

definition register_is :: "pcie_state \<Rightarrow> u32 \<Rightarrow> u32 \<Rightarrow> u32 \<Rightarrow> u32 \<Rightarrow> bool" where
  "register_is s bdf off rw w1c \<longleftrightarrow> mapped s bdf \<and>
     cfg_effect s (cfg_reg_addr s bdf off AND NOT 3) = reg_effect rw w1c"

lemma cfg_read_after_write:
  assumes "register_is s bdf off rw w1c"
  shows "cfg_read (val_pcie_write_cfg s bdf off v) bdf off = reg_effect rw w1c (cfg_read s bdf off) v"
  using assms by (simp add: register_is_def mmio.rd_wr_same)

lemma register_is_write [simp]:
  "mapped s b \<Longrightarrow> register_is (val_pcie_write_cfg s b o' v) bdf off rw w1c = register_is s bdf off rw w1c"
  by (simp add: register_is_def)

lemma bit_reg_effect:
  "bit (reg_effect rw w1c old new) i =
     (if bit rw i then bit new i else if bit w1c i then bit old i \<and> \<not> bit new i else bit old i)"
  by (cases "i < 32") (auto simp: reg_effect_def bit_or_iff bit_and_iff bit_not_iff
      dest: bit_imp_le_length)


section \<open>States that differ in some registers only\<close>

definition agrees :: "(u64 \<Rightarrow> bool) \<Rightarrow> pcie_state \<Rightarrow> pcie_state \<Rightarrow> bool" where
  "agrees K s s' \<longleftrightarrow> g_pcie_info_table s' = g_pcie_info_table s \<and> cfg_effect s' = cfg_effect s \<and>
     pcie_hooks s' = pcie_hooks s \<and> junk s' = junk s \<and> (\<forall>a. \<not> K a \<longrightarrow> cfg_regs s' a = cfg_regs s a)"

lemma agrees_refl [simp]: "agrees K s s"
  by (simp add: agrees_def)

lemma agrees_trans: "agrees K s s1 \<Longrightarrow> agrees K s1 s2 \<Longrightarrow> agrees K s s2"
  by (simp add: agrees_def)

lemma agrees_table [simp]: "agrees K s (s1\<lparr>g_pcie_bdf_table := t\<rparr>) = agrees K s s1"
  by (simp add: agrees_def)

lemma agrees_info: "agrees K s s' \<Longrightarrow> val_pcie_get_info s' ty i = val_pcie_get_info s ty i"
  by (simp add: agrees_def val_pcie_get_info_def split: option.splits PCIE_INFO_e.splits)

lemma agrees_scan: "agrees K s s' \<Longrightarrow> ecam_scan s' bus seg i n = ecam_scan s bus seg i n"
  by (induction n arbitrary: i) (simp_all add: agrees_info)

lemma agrees_same:
  assumes "agrees K s s'"
  shows agrees_junk: "junk s' = junk s" and agrees_hooks: "pcie_hooks s' = pcie_hooks s"
    and agrees_effect: "cfg_effect s' = cfg_effect s"
    and agrees_num_ecam: "num_ecam s' = num_ecam s"
    and agrees_mapped: "mapped s' bdf = mapped s bdf"
    and agrees_reg_addr: "cfg_reg_addr s' bdf off = cfg_reg_addr s bdf off"
  using agrees_info [OF assms] agrees_scan [OF assms] assms
  by (auto simp: num_ecam_def mapped_def cfg_reg_addr_def val_pcie_get_bdf_config_addr_def agrees_def)

lemma agrees_read:
  "agrees K s s' \<Longrightarrow> \<not> K (a AND NOT 3) \<Longrightarrow> pal_mmio_read s' a = pal_mmio_read s a"
  by (auto simp: agrees_def pal_mmio_read_def)

lemma agrees_write:
  assumes "agrees K s s'" and "K (a AND NOT 3)"
  shows "agrees K s (pal_mmio_write s' a v)"
  using assms by (auto simp: agrees_def pal_mmio_write_def Let_def)

lemma cap_path_cong:
  "cap_path nxt off os \<Longrightarrow> (\<And>x. x \<in> set os \<Longrightarrow> nxt' x = nxt x) \<Longrightarrow> cap_path nxt' off os"
  by (induction rule: cap_path.induct) (auto intro: cap_path.intros)

lemma search_result_cong:
  "(\<And>x. x \<in> set os \<Longrightarrow> hit' x = hit x) \<Longrightarrow> search_result hit' os out = search_result hit os out"
  by (simp add: search_result_def cong: find_cong)

text \<open>The standard capability list of a function is well-formed and none of the registers on
  it is in \<open>K\<close>.\<close>

definition cap_list_outside :: "(u64 \<Rightarrow> bool) \<Rightarrow> pcie_state \<Rightarrow> u32 \<Rightarrow> bool" where
  "cap_list_outside K s bdf \<longleftrightarrow> mapped s bdf \<and> \<not> K (cfg_reg_addr s bdf TYPE01_CPR AND NOT 3) \<and>
     (cfg_read s bdf TYPE01_CPR = PCIE_UNKNOWN_RESPONSE \<or>
      (\<exists>os. cap_path (cap_nxt s bdf (junk s)) (cfg_read s bdf TYPE01_CPR AND 0xff) os \<and>
        (\<forall>off\<in>set os. \<not> K (cfg_reg_addr s bdf off AND NOT 3))))"

lemma find_capability_agrees:
  assumes a: "agrees K s s'" and c: "cap_list_outside K s bdf"
  shows "val_pcie_find_capability s' bdf PCIE_CAP cid out = val_pcie_find_capability s bdf PCIE_CAP cid out"
    and "val_pcie_find_capability s bdf PCIE_CAP cid out \<noteq> None"
proof -
  have m: "mapped s bdf" "mapped s' bdf" using c by (simp_all add: cap_list_outside_def agrees_mapped [OF a])
  have rd: "cfg_read s' bdf off = cfg_read s bdf off" if "\<not> K (cfg_reg_addr s bdf off AND NOT 3)" for off
    using that m by (simp add: agrees_reg_addr [OF a] agrees_read [OF a])
  have cpr: "cfg_read s' bdf TYPE01_CPR = cfg_read s bdf TYPE01_CPR"
    using c by (intro rd) (simp add: cap_list_outside_def)
  have "val_pcie_find_capability s' bdf PCIE_CAP cid out = val_pcie_find_capability s bdf PCIE_CAP cid out
      \<and> val_pcie_find_capability s bdf PCIE_CAP cid out \<noteq> None"
  proof (cases "cfg_read s bdf TYPE01_CPR = PCIE_UNKNOWN_RESPONSE")
    case True
    then show ?thesis using cpr m by (simp add: val_pcie_find_capability_def)
  next
    case False
    with c obtain os where p: "cap_path (cap_nxt s bdf (junk s)) (cfg_read s bdf TYPE01_CPR AND 0xff) os"
      and o: "\<And>off. off \<in> set os \<Longrightarrow> \<not> K (cfg_reg_addr s bdf off AND NOT 3)"
      by (auto simp: cap_list_outside_def)
    have n: "cap_nxt s' bdf r x = cap_nxt s bdf r' x" "cap_id_at s' bdf r x = cap_id_at s bdf r' x"
      if "x \<in> set os" for x r r'
      using rd [OF o [OF that]] m by (simp_all add: cap_nxt_def cap_id_at_def)
    have eq: "cap_nxt s bdf r = cap_nxt s bdf (junk s)" "cap_id_at s bdf r = cap_id_at s bdf (junk s)" for r
      using m by (simp_all add: fun_eq_iff cap_nxt_def cap_id_at_def)
    have p': "cap_path (cap_nxt s' bdf r) (cfg_read s bdf TYPE01_CPR AND 0xff) os" for r
      using p by (rule cap_path_cong) (rule n)
    have w: "cap_walk s bdf cid (cfg_read s bdf TYPE01_CPR AND 0xff) r out
        = Some (search_result (\<lambda>off. cap_id_at s bdf (junk s) off = cid) os out)" for r
    proof -
      have "cap_path (cap_nxt s bdf r) (cfg_read s bdf TYPE01_CPR AND 0xff) os"
        using p by (simp only: eq(1) [of r])
      then show ?thesis by (simp only: cap.walk_path eq(2) [of r])
    qed
    have w': "cap_walk s' bdf cid (cfg_read s bdf TYPE01_CPR AND 0xff) r out
        = Some (search_result (\<lambda>off. cap_id_at s bdf (junk s) off = cid) os out)" for r
    proof -
      have "search_result (\<lambda>off. cap_id_at s' bdf r off = cid) os out
          = search_result (\<lambda>off. cap_id_at s bdf (junk s) off = cid) os out"
        by (rule search_result_cong) (simp only: n(2) [where r' = "junk s"])
      then show ?thesis unfolding cap.walk_path [OF p'] by simp
    qed
    show ?thesis using False m w w' cpr
      by (simp add: val_pcie_find_capability_def)
  qed
  then show "val_pcie_find_capability s' bdf PCIE_CAP cid out = val_pcie_find_capability s bdf PCIE_CAP cid out"
    and "val_pcie_find_capability s bdf PCIE_CAP cid out \<noteq> None" by simp_all
qed

section \<open>Discovery of the functions\<close>

text \<open>The cells of command registers, in regions that start at a page boundary.\<close>

definition command_cell :: "u64 \<Rightarrow> bool" where
  "command_cell a \<longleftrightarrow> a AND 0xFFC = 4"

definition aligned_ecams :: "pcie_state \<Rightarrow> bool" where
  "aligned_ecams s \<longleftrightarrow> (\<forall>i. take_bit 12 (val_pcie_get_info s PCIE_INFO_ECAM i) = 0)"

lemma ecam_scan_aligned: "aligned_ecams s \<Longrightarrow> take_bit 12 (ecam_scan s bus seg i n) = 0"
  by (induction n arbitrary: i) (auto simp: aligned_ecams_def)

lemma cfg_addr_aligned: "\<not> bdf_out_of_range bdf \<Longrightarrow> take_bit 12 (ucast (cfg_addr bdf) :: u64) = 0"
proof -
  assume r: "\<not> bdf_out_of_range bdf"
  have "take_bit 12 (unat (ucast (cfg_addr bdf) :: u64)) = 0"
    by (simp add: unat_ucast_up unat_cfg_addr [OF r] take_bit_eq_mod)
  then show ?thesis
    by (metis unsigned_take_bit_eq unsigned_0 word_unat_eq_iff)
qed

lemma and_FFC_cell: "(x AND NOT 3) AND 0xFFC = take_bit 12 x AND (0xFFC :: u64)"
proof -
  have "(NOT 3 AND 0xFFC :: u64) = 0xFFF AND 0xFFC" by simp
  then have "x AND (NOT 3 AND 0xFFC) = x AND (0xFFF AND 0xFFC)" by (rule arg_cong)
  then show ?thesis by (simp add: and.assoc take_bit_eq_mask mask_eq_exp_minus_1)
qed

lemma cfg_cell_low:
  assumes "aligned_ecams s" and "mapped s bdf"
  shows "(cfg_reg_addr s bdf off AND NOT 3) AND 0xFFC = ucast off AND 0xFFC"
proof -
  let ?e = "ecam_scan s (PCIE_EXTRACT_BDF_BUS bdf) (PCIE_EXTRACT_BDF_SEG bdf) 0 (num_ecam s)"
  have r: "\<not> bdf_out_of_range bdf" using assms(2) by (simp add: mapped_def)
  have a: "cfg_reg_addr s bdf off = ?e + (ucast (cfg_addr bdf) + ucast off)"
    using assms(2)
    by (auto simp: mapped_def cfg_reg_addr_def val_pcie_get_bdf_config_addr_def add.assoc)
  have "take_bit 12 (cfg_reg_addr s bdf off) = take_bit 12 (ucast off)"
    unfolding a by (simp add: take_bit_add_zero ecam_scan_aligned [OF assms(1)] cfg_addr_aligned [OF r])
  then have "(cfg_reg_addr s bdf off AND NOT 3) AND 0xFFC = take_bit 12 (ucast off) AND 0xFFC"
    by (simp only: and_FFC_cell)
  also have "\<dots> = ucast off AND 0xFFC"
    by (simp add: take_bit_eq_mask mask_eq_exp_minus_1 and.assoc)
  finally show ?thesis .
qed

definition probeable :: "pcie_state \<Rightarrow> u32 \<Rightarrow> bool" where
  "probeable s bdf \<longleftrightarrow> mapped s bdf \<and>
     (cfg_read s bdf TYPE01_VIDR \<noteq> PCIE_UNKNOWN_RESPONSE \<and> \<not> val_pcie_is_host_bridge s bdf \<longrightarrow>
      cap_list_outside command_cell s bdf)"

text \<open>What makes a device number an entry of the table.\<close>

definition present :: "pcie_state \<Rightarrow> u32 \<Rightarrow> bool" where
  "present s bdf \<longleftrightarrow> cfg_read s bdf TYPE01_VIDR \<noteq> PCIE_UNKNOWN_RESPONSE \<and>
     \<not> val_pcie_is_host_bridge s bdf \<and>
     (\<exists>off. val_pcie_find_capability s bdf PCIE_CAP CID_PCIECS (junk s) = Some (PCIE_SUCCESS, off)) \<and>
     \<not> c_true (pal_pcie_check_device_valid (pcie_hooks s) bdf)"

definition range_functions :: "u32 \<Rightarrow> nat \<Rightarrow> nat \<Rightarrow> u32 list" where
  "range_functions seg a b = concat (map (\<lambda>bus. bus_functions seg (of_nat bus)) [a..<b])"

definition ecam_functions :: "pcie_state \<Rightarrow> nat \<Rightarrow> u32 list" where
  "ecam_functions s i = range_functions
     (ucast (val_pcie_get_info s PCIE_INFO_SEGMENT (of_nat i)))
     (unat (ucast (val_pcie_get_info s PCIE_INFO_START_BUS (of_nat i)) :: u32))
     (Suc (unat (ucast (val_pcie_get_info s PCIE_INFO_END_BUS (of_nat i)) :: u32)))"

definition all_functions :: "pcie_state \<Rightarrow> u32 list" where
  "all_functions s = concat (map (ecam_functions s) [0..<num_ecam s])"

text \<open>Invariant of the scan: only command registers changed since \<open>s\<close>, and the table lists the
  functions found among \<open>visited\<close>.\<close>

definition scanned :: "pcie_state \<Rightarrow> pcie_state \<Rightarrow> u32 list \<Rightarrow> bool" where
  "scanned s s' visited \<longleftrightarrow> agrees command_cell s s' \<and>
     (\<exists>t. g_pcie_bdf_table s' = Some t \<and> map attr_bdf t = filter (present s) visited)"

lemma agrees_enable:
  assumes "aligned_ecams s" and "agrees command_cell s s'" and "mapped s bdf"
  shows "agrees command_cell s (val_pcie_enable_bme s' bdf)"
    and "agrees command_cell s (val_pcie_enable_msa s' bdf)"
    and "g_pcie_bdf_table (val_pcie_enable_bme s' bdf) = g_pcie_bdf_table s'"
    and "g_pcie_bdf_table (val_pcie_enable_msa s' bdf) = g_pcie_bdf_table s'"
proof -
  have m: "mapped s' bdf" using assms(3) by (simp add: agrees_mapped [OF assms(2)])
  have "command_cell (cfg_reg_addr s' bdf TYPE01_CR AND NOT 3)"
    unfolding command_cell_def agrees_reg_addr [OF assms(2)] cfg_cell_low [OF assms(1,3)] by simp
  then show "agrees command_cell s (val_pcie_enable_bme s' bdf)"
    "agrees command_cell s (val_pcie_enable_msa s' bdf)"
    using m assms(2) by (simp_all add: val_pcie_enable_bme_def val_pcie_enable_msa_def agrees_write)
  show "g_pcie_bdf_table (val_pcie_enable_bme s' bdf) = g_pcie_bdf_table s'"
    "g_pcie_bdf_table (val_pcie_enable_msa s' bdf) = g_pcie_bdf_table s'"
    using m by (simp_all add: val_pcie_enable_bme_def val_pcie_enable_msa_def)
qed

lemma probe_function_scanned:
  assumes al: "aligned_ecams s" and sc: "scanned s s' visited" and pr: "probeable s bdf"
  shows "\<exists>s2. probe_function s' bdf = Some (Inr s2) \<and> scanned s s2 (visited @ [bdf])"
proof -
  from sc obtain t where ag: "agrees command_cell s s'" and tb: "g_pcie_bdf_table s' = Some t"
    and t: "map attr_bdf t = filter (present s) visited" by (auto simp: scanned_def)
  have m: "mapped s bdf" "mapped s' bdf" using pr by (simp_all add: probeable_def agrees_mapped [OF ag])
  have rd: "cfg_read s' bdf off = cfg_read s bdf off" if "(ucast off AND 0xFFC :: u64) \<noteq> 4" for off
  proof -
    have "\<not> command_cell (cfg_reg_addr s bdf off AND NOT 3)"
      unfolding command_cell_def cfg_cell_low [OF al m(1)] by (rule that)
    then show ?thesis using m by (simp add: agrees_reg_addr [OF ag] agrees_read [OF ag])
  qed
  have vid: "cfg_read s' bdf TYPE01_VIDR = cfg_read s bdf TYPE01_VIDR" by (rule rd) simp
  have hb: "val_pcie_is_host_bridge s' bdf = val_pcie_is_host_bridge s bdf"
    using rd [of TYPE01_RIDR] by (simp add: val_pcie_is_host_bridge_def)
  have same: "scanned s s' (visited @ [bdf])" if "\<not> present s bdf"
    using that ag tb t by (simp add: scanned_def)
  show ?thesis
  proof (cases "cfg_read s bdf TYPE01_VIDR \<noteq> PCIE_UNKNOWN_RESPONSE \<and> \<not> val_pcie_is_host_bridge s bdf")
    case False
    then have "\<not> present s bdf" by (auto simp: present_def)
    with False show ?thesis using same m vid hb by (auto simp: probe_function_def)
  next
    case True
    with pr have c: "cap_list_outside command_cell s bdf" by (simp add: probeable_def)
    note fc = find_capability_agrees [OF ag c, of CID_PCIECS "junk s"]
    from fc(2) obtain st off where
      f: "val_pcie_find_capability s bdf PCIE_CAP CID_PCIECS (junk s) = Some (st, off)" by auto
    with fc(1) have f': "val_pcie_find_capability s' bdf PCIE_CAP CID_PCIECS (junk s') = Some (st, off)"
      by (simp add: agrees_junk [OF ag])
    have v: "pal_pcie_check_device_valid (pcie_hooks s') = pal_pcie_check_device_valid (pcie_hooks s)"
      by (simp add: agrees_hooks [OF ag])
    show ?thesis
    proof (cases "present s bdf")
      case True
      note e1 = agrees_enable [OF al ag m(1)]
      note e2 = agrees_enable [OF al e1(1) m(1)]
      show ?thesis using True \<open>_ \<and> _\<close> m vid hb f f' v t tb e1 e2
        by (auto simp: probe_function_def present_def scanned_def Let_def)
    next
      case False
      then show ?thesis using \<open>_ \<and> _\<close> same m vid hb f f' v
        by (auto simp: probe_function_def present_def)
    qed
  qed
qed

lemma probe_functions_scanned:
  assumes al: "aligned_ecams s"
  shows "scanned s s' visited \<Longrightarrow> \<forall>b\<in>set bdfs. probeable s b \<Longrightarrow>
    \<exists>s2. probe_functions s' bdfs = Some (Inr s2) \<and> scanned s s2 (visited @ bdfs)"
proof (induction bdfs arbitrary: s' visited)
  case Nil
  then show ?case by simp
next
  case (Cons b bdfs)
  then obtain s1 where "probe_function s' b = Some (Inr s1)" "scanned s s1 (visited @ [b])"
    using probe_function_scanned [OF al, of s' visited b] by auto
  with Cons.IH [of s1 "visited @ [b]"] Cons.prems show ?case by simp
qed

lemma bus_loop_scanned:
  assumes al: "aligned_ecams s" and "end_bus < 0xFFFFFFFF"
  shows "scanned s s' visited \<Longrightarrow>
    \<forall>b\<in>set (range_functions seg (unat bus) (Suc (unat end_bus))). probeable s b \<Longrightarrow>
    \<exists>s2. bus_loop s' seg bus end_bus = Some (Inr s2) \<and>
      scanned s s2 (visited @ range_functions seg (unat bus) (Suc (unat end_bus)))"
proof (induction "Suc (unat end_bus) - unat bus" arbitrary: bus s' visited)
  case 0
  then have "\<not> bus \<le> end_bus" by (simp add: word_le_nat_alt)
  with 0 show ?case by (simp add: bus_loop.simps range_functions_def)
next
  case (Suc n)
  then have le: "bus \<le> end_bus" and le': "unat bus \<le> unat end_bus" by (simp_all add: word_le_nat_alt)
  have u: "unat (bus + 1) = Suc (unat bus)"
    using le' assms(2) by (simp add: unat_word_ariths word_less_nat_alt)
  have split: "range_functions seg (unat bus) (Suc (unat end_bus)) =
      bus_functions seg bus @ range_functions seg (unat (bus + 1)) (Suc (unat end_bus))"
    unfolding u using le' by (simp add: range_functions_def upt_conv_Cons del: upt_Suc)
  obtain s1 where s1: "probe_functions s' (bus_functions seg bus) = Some (Inr s1)"
    "scanned s s1 (visited @ bus_functions seg bus)"
    using probe_functions_scanned [OF al Suc.prems(1), of "bus_functions seg bus"] Suc.prems(2)
    unfolding split by auto
  have "n = Suc (unat end_bus) - unat (bus + 1)" using Suc.hyps(2) u by simp
  from Suc.hyps(1) [OF this s1(2)] Suc.prems(2) s1(1) le show ?case
    unfolding split by (simp add: bus_loop.simps [of s' seg bus end_bus])
qed

definition finite_buses :: "pcie_state \<Rightarrow> bool" where
  "finite_buses s \<longleftrightarrow> (\<forall>i<num_ecam s.
     (ucast (val_pcie_get_info s PCIE_INFO_END_BUS (of_nat i)) :: u32) < 0xFFFFFFFF)"

lemma ecam_loop_scanned:
  assumes al: "aligned_ecams s" and fb: "finite_buses s"
  shows "scanned s s' visited \<Longrightarrow> i + n = num_ecam s \<Longrightarrow>
    \<forall>b\<in>set (concat (map (ecam_functions s) [i..<num_ecam s])). probeable s b \<Longrightarrow>
    \<exists>s2. ecam_loop s' (of_nat i) n = Some (Inr s2) \<and>
      scanned s s2 (visited @ concat (map (ecam_functions s) [i..<num_ecam s]))"
proof (induction n arbitrary: i s' visited)
  case 0
  then show ?case by simp
next
  case (Suc n)
  then have i: "i < num_ecam s" by simp
  then have split: "concat (map (ecam_functions s) [i..<num_ecam s])
      = ecam_functions s i @ concat (map (ecam_functions s) [Suc i..<num_ecam s])"
    by (simp add: upt_conv_Cons)
  have ag: "agrees command_cell s s'" using Suc.prems(1) by (simp add: scanned_def)
  have e: "(ucast (val_pcie_get_info s PCIE_INFO_END_BUS (of_nat i)) :: u32) < 0xFFFFFFFF"
    using fb i by (simp add: finite_buses_def)
  have pr: "\<forall>b\<in>set (ecam_functions s i). probeable s b"
    using Suc.prems(3) unfolding split by simp
  obtain s1 where s1: "bus_loop s' (ucast (val_pcie_get_info s PCIE_INFO_SEGMENT (of_nat i)))
        (ucast (val_pcie_get_info s PCIE_INFO_START_BUS (of_nat i)))
        (ucast (val_pcie_get_info s PCIE_INFO_END_BUS (of_nat i))) = Some (Inr s1)"
    "scanned s s1 (visited @ ecam_functions s i)"
    using bus_loop_scanned [OF al e Suc.prems(1) pr [unfolded ecam_functions_def]]
    unfolding ecam_functions_def by blast
  have "\<exists>s2. ecam_loop s1 (of_nat (Suc i)) n = Some (Inr s2) \<and>
      scanned s s2 ((visited @ ecam_functions s i) @ concat (map (ecam_functions s) [Suc i..<num_ecam s]))"
    using Suc.prems(2,3) unfolding split by (intro Suc.IH [OF s1(2)]) auto
  then show ?case unfolding split using s1(1) by (simp add: agrees_info [OF ag] add.commute)
qed

lemma port_type_table:
  assumes "agrees command_cell s s'" and "cap_list_outside command_cell s bdf"
  shows "val_pcie_device_port_type (s'\<lparr>g_pcie_bdf_table := t\<rparr>) bdf = val_pcie_device_port_type s' bdf"
    and "val_pcie_device_port_type s' bdf \<noteq> None"
proof -
  let ?s = "s'\<lparr>g_pcie_bdf_table := t\<rparr>"
  have a: "agrees command_cell s ?s" and a': "agrees command_cell s' ?s" using assms(1) by simp_all
  have j: "junk ?s = junk s" "junk s' = junk s" using agrees_junk [OF a] agrees_junk [OF assms(1)] by simp_all
  have b: "pciecs_base ?s bdf = pciecs_base s bdf" "pciecs_base s' bdf = pciecs_base s bdf"
    unfolding pciecs_base_def j find_capability_agrees(1) [OF a assms(2)]
      find_capability_agrees(1) [OF assms(1,2)] by (rule refl)+
  have n: "pciecs_base s bdf \<noteq> None"
    using find_capability_agrees(2) [OF assms] by (simp add: pciecs_base_def)
  have m: "mapped s' bdf" "mapped ?s bdf"
    using assms(2) by (simp_all add: cap_list_outside_def agrees_mapped [OF a] agrees_mapped [OF assms(1)])
  have "cfg_read ?s bdf off = cfg_read s' bdf off" for off
    using m by (simp add: agrees_reg_addr [OF a'] pal_mmio_read_def)
  then show "val_pcie_device_port_type ?s bdf = val_pcie_device_port_type s' bdf"
    by (simp add: val_pcie_device_port_type_def b)
  show "val_pcie_device_port_type s' bdf \<noteq> None"
    using n by (auto simp: val_pcie_device_port_type_def b Let_def)
qed

lemma rootport_loop_table:
  assumes "agrees command_cell s s'"
  shows "\<forall>b\<in>set rps. cap_list_outside command_cell s b \<Longrightarrow>
    rootport_loop (s'\<lparr>g_pcie_bdf_table := t\<rparr>) bdf reg rps = rootport_loop s' bdf reg rps \<and>
    rootport_loop s' bdf reg rps \<noteq> None"
proof (induction rps arbitrary: reg)
  case Nil
  then show ?case by simp
next
  case (Cons rp rps)
  have c: "cap_list_outside command_cell s rp" using Cons.prems by simp
  have a: "agrees command_cell s' (s'\<lparr>g_pcie_bdf_table := t\<rparr>)" by simp
  have m: "mapped s' rp" "mapped (s'\<lparr>g_pcie_bdf_table := t\<rparr>) rp"
    using c by (simp_all add: cap_list_outside_def agrees_mapped [OF a] agrees_mapped [OF assms])
  have "val_pcie_read_cfg (s'\<lparr>g_pcie_bdf_table := t\<rparr>) rp off d = val_pcie_read_cfg s' rp off d" for off d
    using m by (simp add: agrees_reg_addr [OF a] pal_mmio_read_def)
  moreover obtain ty where "val_pcie_device_port_type s' rp = Some ty"
    using port_type_table(2) [OF assms c] by auto
  ultimately show ?case using Cons by (auto simp: port_type_table(1) [OF assms c] Let_def)
qed

lemma get_rootport_table:
  assumes "agrees command_cell s s'" and "cap_list_outside command_cell s bdf"
    and "g_pcie_bdf_table s' = Some tb" and "map attr_bdf t = map attr_bdf tb"
    and "\<forall>b\<in>set (map attr_bdf tb). cap_list_outside command_cell s b"
  shows "val_pcie_get_rootport (s'\<lparr>g_pcie_bdf_table := Some t\<rparr>) bdf = val_pcie_get_rootport s' bdf"
    and "val_pcie_get_rootport s' bdf \<noteq> None"
proof -
  obtain ty where ty: "val_pcie_device_port_type s' bdf = Some ty"
    using port_type_table(2) [OF assms(1,2)] by auto
  note rp = rootport_loop_table [OF assms(1,5)]
  show "val_pcie_get_rootport (s'\<lparr>g_pcie_bdf_table := Some t\<rparr>) bdf = val_pcie_get_rootport s' bdf"
    using rp ty assms(3,4)
    by (simp add: val_pcie_get_rootport_def port_type_table(1) [OF assms(1,2)])
  show "val_pcie_get_rootport s' bdf \<noteq> None"
    using rp [of undefined bdf "junk s'"] ty assms(3) by (simp add: val_pcie_get_rootport_def)
qed

lemma those_map_Some: "\<forall>x\<in>set xs. f x \<noteq> None \<Longrightarrow> those (map f xs) = Some (map (the \<circ> f) xs)"
  by (induction xs) auto

lemma populate_rootports:
  assumes "agrees command_cell s s'" and "g_pcie_bdf_table s' = Some tb"
    and "\<forall>b\<in>set (map attr_bdf tb). cap_list_outside command_cell s b"
  shows "\<exists>t. val_pcie_populate_device_rootport s' = Some (s'\<lparr>g_pcie_bdf_table := Some t\<rparr>) \<and>
    map attr_bdf t = map attr_bdf tb \<and>
    (\<forall>e\<in>set t. \<exists>st. val_pcie_get_rootport (s'\<lparr>g_pcie_bdf_table := Some t\<rparr>) (attr_bdf e)
        = Some (st, attr_rp_bdf e))"
proof -
  let ?rp = "\<lambda>e. the (val_pcie_get_rootport s' (attr_bdf e))"
  let ?t = "map (\<lambda>e. e\<lparr>attr_rp_bdf := snd (?rp e)\<rparr>) tb"
  have t: "map attr_bdf ?t = map attr_bdf tb" by simp
  have n: "val_pcie_get_rootport s' (attr_bdf e) \<noteq> None" if "e \<in> set tb" for e
    using get_rootport_table(2) [OF assms(1) _ assms(2) t assms(3)] assms(3) that by simp
  have "those (map (\<lambda>e. val_pcie_get_rootport s' (attr_bdf e)) tb) = Some (map ?rp tb)"
    using n by (subst those_map_Some) simp_all
  moreover have "map2 (\<lambda>e r. e\<lparr>attr_rp_bdf := snd r\<rparr>) tb (map ?rp tb) = ?t"
    by (simp add: zip_map2 zip_same_conv_map)
  ultimately have "val_pcie_populate_device_rootport s' = Some (s'\<lparr>g_pcie_bdf_table := Some ?t\<rparr>)"
    using assms(2) by (simp add: val_pcie_populate_device_rootport_def)
  moreover have "\<exists>st. val_pcie_get_rootport (s'\<lparr>g_pcie_bdf_table := Some ?t\<rparr>) (attr_bdf e)
        = Some (st, snd (?rp e))" if "e \<in> set tb" for e
    using get_rootport_table(1) [OF assms(1) _ assms(2) t assms(3), of "attr_bdf e"] n [OF that] assms(3) that
    by auto
  ultimately show ?thesis using t by (intro exI [of _ ?t]) auto
qed

section \<open>Lemmas on the other operations\<close>

text \<open>A root port whose secondary to subordinate bus range holds the function's bus.\<close>

definition rootport_of :: "pcie_state \<Rightarrow> u32 \<Rightarrow> u32 \<Rightarrow> bool" where
  "rootport_of s bdf rp \<longleftrightarrow>
     val_pcie_device_port_type s rp \<in> {Some RP, Some iEP_RP} \<and>
     sec_bus_of (cfg_read s rp TYPE1_PBN) \<le> PCIE_EXTRACT_BDF_BUS bdf \<and>
     PCIE_EXTRACT_BDF_BUS bdf \<le> sub_bus_of (cfg_read s rp TYPE1_PBN) \<and>
     PCIE_EXTRACT_BDF_SEG rp = PCIE_EXTRACT_BDF_SEG bdf"

lemma rootport_loop_find:
  "\<forall>rp\<in>set rps. mapped s rp \<and> val_pcie_device_port_type s rp \<noteq> None \<Longrightarrow>
   rootport_loop s bdf reg rps = Some (case find (rootport_of s bdf) rps of
       None \<Rightarrow> (1, 0) | Some rp \<Rightarrow> (0, rp))"
  by (induction rps arbitrary: reg) (auto simp: rootport_of_def Let_def)

text \<open>The first memory base address register, as a specification over the six (or two)
  registers of the header.\<close>

definition bar_reg :: "pcie_state \<Rightarrow> u32 \<Rightarrow> nat \<Rightarrow> u32" where
  "bar_reg s bdf i = cfg_read s bdf (TYPE01_BAR + of_nat i * 4)"

definition bar_count :: "pcie_state \<Rightarrow> u32 \<Rightarrow> nat" where
  "bar_count s bdf = (if val_pcie_function_header_type s bdf = TYPE1_HEADER then 2 else 6)"

definition bar_address :: "pcie_state \<Rightarrow> u32 \<Rightarrow> u32 \<Rightarrow> nat \<Rightarrow> u64" where
  "bar_address s bdf hi i = (let low = bar_reg s bdf i; ty = drop_bit 1 low AND 3 in
     ucast (low AND 0xFFFFFFF0) OR
     push_bit 32 (ucast (if ty = 2 then bar_reg s bdf (i + 1) else if ty = 0 then 0 else hi)))"

lemma bar_base_bits: "push_bit 4 (drop_bit 4 (x :: u32) AND 0xfffffff) = x AND 0xFFFFFFF0"
proof -
  have m: "(0xfffffff :: u32) = mask 28" by (simp add: mask_eq_exp_minus_1)
  have k: "(0xFFFFFFF0 :: u32) = NOT (mask 4)" by (simp add: mask_eq_exp_minus_1)
  show ?thesis unfolding m k
    by (rule bit_word_eqI)
      (auto simp: bit_push_bit_iff bit_and_iff bit_drop_bit_eq bit_mask_iff bit_not_iff)
qed

lemma mmio_bar_loop_step:
  assumes "mapped s bdf" and "k < 6"
  shows "mmio_bar_loop s bdf r hi (6 - k) =
    (if bar_reg s bdf k AND 1 = 0 then bar_address s bdf hi k
     else if Suc k = bar_count s bdf then 0
     else mmio_bar_loop s bdf (bar_reg s bdf k) hi (6 - Suc k))"
proof -
  have n: "6 - k = Suc (6 - Suc k)" and k: "6 - Suc (6 - Suc k) = k" using assms(2) by simp_all
  have two: "(of_nat k + 1 = (2 :: u32)) = (Suc k = 2)"
  proof -
    have "unat (of_nat (Suc k) :: u32) = Suc k"
      by (rule unat_of_nat_small) (use assms(2) in simp)
    then have "unat (of_nat k + 1 :: u32) = Suc k" by (simp only: Suc_eq_plus1 of_nat_add of_nat_1)
    then show ?thesis unfolding word_unat_eq_iff by simp
  qed
  have low: "snd (val_pcie_read_cfg s bdf (TYPE01_BAR + of_nat k * 4) r) = bar_reg s bdf k"
    and high: "cfg_read s bdf (TYPE01_BAR + (of_nat k + 1) * 4) = bar_reg s bdf (k + 1)"
    using assms(1) by (simp_all add: bar_reg_def algebra_simps)
  have last: "mmio_bar_loop s bdf r' hi (6 - Suc k) = 0" if "Suc k = 6" for r'
    using that by simp
  show ?thesis
    unfolding n mmio_bar_loop.simps k Let_def low high bar_base_bits two
    using last by (simp add: bar_address_def bar_count_def Let_def)
qed

lemma mmio_bar_loop_from:
  assumes "mapped s bdf"
  shows "k < bar_count s bdf \<Longrightarrow> mmio_bar_loop s bdf r hi (6 - k) =
    (case find (\<lambda>i. bar_reg s bdf i AND 1 = 0) [k..<bar_count s bdf] of
       None \<Rightarrow> 0 | Some i \<Rightarrow> bar_address s bdf hi i)"
proof (induction "bar_count s bdf - k" arbitrary: k r)
  case 0
  then show ?case by simp
next
  case (Suc n)
  then have k: "k < 6" and l: "[k..<bar_count s bdf] = k # [Suc k..<bar_count s bdf]"
    by (auto simp: bar_count_def upt_conv_Cons split: if_splits)
  show ?case
  proof (cases "Suc k = bar_count s bdf")
    case True
    then show ?thesis unfolding mmio_bar_loop_step [OF assms k] l by simp
  next
    case False
    with Suc.prems have "Suc k < bar_count s bdf" by simp
    moreover have "n = bar_count s bdf - Suc k" using Suc.hyps(2) by simp
    ultimately show ?thesis
      unfolding mmio_bar_loop_step [OF assms k] l using Suc.hyps(1) [of "Suc k"] False by simp
  qed
qed

lemma mmio_bar_loop_first:
  "mapped s bdf \<Longrightarrow> mmio_bar_loop s bdf r hi 6 =
    (case find (\<lambda>i. bar_reg s bdf i AND 1 = 0) [0..<bar_count s bdf] of
       None \<Rightarrow> 0 | Some i \<Rightarrow> bar_address s bdf hi i)"
  using mmio_bar_loop_from [of s bdf 0] by (simp add: bar_count_def)

lemma in_range_parts:
  assumes "\<not> bdf_out_of_range bdf"
  shows "unat (PCIE_EXTRACT_BDF_BUS bdf) < 256" and "unat (PCIE_EXTRACT_BDF_DEV bdf) < 32"
    and "unat (PCIE_EXTRACT_BDF_FUNC bdf) < 8"
  using assms by (simp_all add: bdf_out_of_range_def word_le_nat_alt not_le)

text \<open>Position of a device number among those of the buses from \<open>start\<close>.\<close>

definition bdf_index :: "u32 \<Rightarrow> u32 \<Rightarrow> nat" where
  "bdf_index start bdf = (unat (PCIE_EXTRACT_BDF_BUS bdf) - unat start) * 256
     + unat (PCIE_EXTRACT_BDF_DEV bdf) * 8 + unat (PCIE_EXTRACT_BDF_FUNC bdf)"

lemma and_0xFF_small: "unat (x :: u32) < 256 \<Longrightarrow> x AND 0xFF = x"
  by (simp add: and_0xFF_iff_take_bit word_unat_eq_iff unsigned_take_bit_eq take_bit_nat_eq_self)

lemma create_parts:
  assumes "unat seg < 256" and "unat bus < 256" and "unat dev < 256" and "unat func < 256"
  shows "PCIE_EXTRACT_BDF_SEG (PCIE_CREATE_BDF seg bus dev func) = seg"
    and "PCIE_EXTRACT_BDF_BUS (PCIE_CREATE_BDF seg bus dev func) = bus"
    and "PCIE_EXTRACT_BDF_DEV (PCIE_CREATE_BDF seg bus dev func) = dev"
    and "PCIE_EXTRACT_BDF_FUNC (PCIE_CREATE_BDF seg bus dev func) = func"
  using bdf_create_extract [of func seg bus dev] assms by (simp_all add: and_0xFF_small)

lemma seg_small: "unat (PCIE_EXTRACT_BDF_SEG bdf) < 256"
  using and_0xFF_less [of "drop_bit 24 bdf"]
  by (simp add: PCIE_EXTRACT_BDF_SEG_def word_less_nat_alt)

section \<open>An example hierarchy\<close>

text \<open>A root port at 00:00.0 and an endpoint at 01:00.0 behind it; nothing else responds.\<close>

definition rp_page :: "u64 \<Rightarrow> u32" where
  "rp_page = (\<lambda>_. 0)(0 := 0x11AF4, 8 := 0x06040000, 0xc := 0x00010000, 0x18 := 0x00010100,
     0x34 := 0x40, 0x40 := 0x00420010)"

definition ep_page :: "u64 \<Rightarrow> u32" where
  "ep_page = (\<lambda>_. 0)(0 := 0x1234, 8 := 0x01000000, 0x10 := 0xE000000C, 0x14 := 1,
     0x34 := 0x40, 0x40 := 0x00020010, 0x48 := 0x000F0007)"

definition example_topology :: "pcie_device_attr list option \<Rightarrow> pcie_state" where
  "example_topology t = \<lparr>
     g_pcie_info_table = Some [\<lparr>ecam_base = 0x40000000, segment_num = 0, start_bus_num = 0, end_bus_num = 1\<rparr>],
     g_pcie_bdf_table = t,
     cfg_regs = (\<lambda>a. if a AND NOT 0xFFF = 0x40000000 then rp_page (a AND 0xFFF)
       else if a AND NOT 0xFFF = 0x40100000 then ep_page (a AND 0xFFF) else 0xFFFFFFFF),
     cfg_effect = (\<lambda>_. reg_effect 0x7FF 0xFFFF0000), pcie_hooks = example_hooks, junk = 0xDEADBEEF\<rparr>"

lemma topology_info:
  "g_pcie_info_table (example_topology t) =
     Some [\<lparr>ecam_base = 0x40000000, segment_num = 0, start_bus_num = 0, end_bus_num = 1\<rparr>]"
  "g_pcie_bdf_table (example_topology t) = t"
  "junk (example_topology t) = 0xDEADBEEF"
  "pcie_hooks (example_topology t) = example_hooks"
  "cfg_effect (example_topology t) = (\<lambda>_. reg_effect 0x7FF 0xFFFF0000)"
  by (simp_all add: example_topology_def)

lemma topology_num_ecam [simp]: "num_ecam (example_topology t) = 1"
  by (simp add: num_ecam_def val_pcie_get_info_def topology_info)

lemma topology_mapped:
  "mapped (example_topology t) b \<longleftrightarrow>
     \<not> bdf_out_of_range b \<and> PCIE_EXTRACT_BDF_BUS b \<le> 1 \<and> PCIE_EXTRACT_BDF_SEG b = 0"
proof -
  have "length [\<lparr>ecam_base = 0x40000000, segment_num = 0, start_bus_num = 0, end_bus_num = 1\<rparr>] < 2 ^ 32"
    by simp
  then show ?thesis
    using ecam_scan_find [OF topology_info(1) [of t], of "PCIE_EXTRACT_BDF_BUS b" "PCIE_EXTRACT_BDF_SEG b"]
    by (auto simp: mapped_def covers_def topology_info(1))
qed

lemma topology_addr:
  assumes "mapped (example_topology t) b"
  shows "cfg_reg_addr (example_topology t) b off = 0x40000000 + ucast (cfg_addr b) + ucast off"
proof -
  have "length [\<lparr>ecam_base = 0x40000000, segment_num = 0, start_bus_num = 0, end_bus_num = 1\<rparr>] < 2 ^ 32"
    by simp
  with assms show ?thesis
    using ecam_scan_find [OF topology_info(1) [of t], of "PCIE_EXTRACT_BDF_BUS b" "PCIE_EXTRACT_BDF_SEG b"]
    by (simp add: topology_mapped cfg_reg_addr_def val_pcie_get_bdf_config_addr_def covers_def
        topology_info(1))
qed

lemma topology_read:
  "pal_mmio_read (example_topology t) a =
     (if a AND NOT 0xFFF = 0x40000000 then rp_page (a AND 0xFFC)
      else if a AND NOT 0xFFF = 0x40100000 then ep_page (a AND 0xFFC) else 0xFFFFFFFF)"
proof -
  have "(a AND NOT 3) AND NOT 0xFFF = a AND NOT 0xFFF" "(a AND NOT 3) AND 0xFFF = a AND 0xFFC"
    by (simp_all add: and.assoc)
  then show ?thesis by (simp add: pal_mmio_read_def example_topology_def)
qed

lemma topology_devices:
  "mapped (example_topology t) 0" "mapped (example_topology t) 0x10000"
  "cfg_reg_addr (example_topology t) 0 off = 0x40000000 + ucast off"
  "cfg_reg_addr (example_topology t) 0x10000 off = 0x40100000 + ucast off"
proof -
  show m: "mapped (example_topology t) 0" "mapped (example_topology t) 0x10000"
    by (simp_all add: topology_mapped bdf_out_of_range_def bdf_defs word_le_nat_alt)
  show "cfg_reg_addr (example_topology t) 0 off = 0x40000000 + ucast off"
    "cfg_reg_addr (example_topology t) 0x10000 off = 0x40100000 + ucast off"
    unfolding topology_addr [OF m(1)] topology_addr [OF m(2)]
    by (simp_all add: cfg_addr_def bdf_defs)
qed

lemma topology_port_types:
  "val_pcie_device_port_type (example_topology t) 0 = Some RP"
  "val_pcie_device_port_type (example_topology t) 0x10000 = Some EP"
  by (simp_all add: val_pcie_device_port_type_def pciecs_base_def val_pcie_find_capability_def
      cap_walk.simps topology_devices topology_read topology_info rp_page_def ep_page_def
      example_hooks_def Let_def)

lemma topology_aligned: "aligned_ecams (example_topology t)"
proof -
  have "take_bit 12 (0x40000000 :: u64) = 0" by simp
  then show ?thesis
    by (auto simp: aligned_ecams_def val_pcie_get_info_def topology_info nth_Cons split: nat.split)
qed

lemma topology_probeable:
  assumes "mapped (example_topology t) b"
  shows "probeable (example_topology t) b"
proof -
  let ?s = "example_topology t" and ?p = "0x40000000 + ucast (cfg_addr b) :: u64"
  have "take_bit 12 ?p = 0"
    using assms by (subst take_bit_add_zero) (simp_all add: cfg_addr_aligned topology_mapped)
  then have "?p AND NOT (mask 12) = ?p" by (rule and_not_mask_aligned)
  then have p: "?p AND NOT 0xFFF = ?p" by (simp add: mask_eq_exp_minus_1)
  show ?thesis
  proof (cases "?p = 0x40000000 \<or> ?p = 0x40100000")
    case True
    have a: "cfg_reg_addr ?s b off = (if ?p = 0x40000000 then 0x40000000 else 0x40100000) + ucast off" for off
      using True by (auto simp: topology_addr [OF assms])
    have k: "\<not> command_cell (cfg_reg_addr ?s b off AND NOT 3)" if "(ucast off AND 0xFFC :: u64) \<noteq> 4" for off
      unfolding command_cell_def cfg_cell_low [OF topology_aligned assms] by (rule that)
    have "cap_list_outside command_cell ?s b"
      unfolding cap_list_outside_def using assms True k [of TYPE01_CPR] k [of "0x40"]
      by (auto simp: a topology_read rp_page_def ep_page_def cap_nxt_def intro!: exI [of _ "[0x40]"])
    then show ?thesis using assms by (simp add: probeable_def)
  next
    case False
    then have "cfg_read ?s b TYPE01_VIDR = PCIE_UNKNOWN_RESPONSE"
      using assms p by (simp add: topology_addr topology_read)
    then show ?thesis using assms by (simp add: probeable_def)
  qed
qed

lemma topology_all_probeable: "\<forall>b\<in>set (all_functions (example_topology t)). probeable (example_topology t) b"
proof
  fix b assume "b \<in> set (all_functions (example_topology t))"
  then obtain bus d f where b: "b = PCIE_CREATE_BDF 0 bus (of_nat d) (of_nat f)"
    and r: "bus = 0 \<or> bus = 1" "d < 32" "f < 8"
    by (auto simp: all_functions_def ecam_functions_def range_functions_def bus_functions_def
        val_pcie_get_info_def topology_info)
  have u: "unat bus < 2" "unat (of_nat d :: u32) = d" "unat (of_nat f :: u32) = f"
    using r by (auto simp: unat_of_nat_small)
  have p: "PCIE_EXTRACT_BDF_SEG b = 0" "PCIE_EXTRACT_BDF_BUS b = bus"
    "PCIE_EXTRACT_BDF_DEV b = of_nat d" "PCIE_EXTRACT_BDF_FUNC b = of_nat f"
    unfolding b using r u by (simp_all add: create_parts)
  show "probeable (example_topology t) b"
    by (rule topology_probeable)
      (use r u in \<open>simp add: topology_mapped bdf_out_of_range_def p word_le_nat_alt\<close>)
qed

section \<open>Properties\<close>



text \<open>The root port of a function: a root port is its own, a root complex integrated
  endpoint or event collector has none (0xffffffff), and for any other function the search
  returns the first root port of the table in the same segment whose secondary to subordinate
  bus range holds the function's bus, or status 1 and 0 when there is none.\<close>

theorem pcie_get_rootport_spec:
  assumes "g_pcie_bdf_table s = Some table" and "val_pcie_device_port_type s bdf = Some ty"
    and "\<forall>rp\<in>set (map attr_bdf table). mapped s rp \<and> val_pcie_device_port_type s rp \<noteq> None"
  shows "val_pcie_get_rootport s bdf = Some
    (if ty = RP \<or> ty = iEP_RP then (0, bdf)
     else if ty = RCiEP \<or> ty = RCEC then (1, 0xffffffff)
     else case find (rootport_of s bdf) (map attr_bdf table) of
            None \<Rightarrow> (1, 0) | Some rp \<Rightarrow> (0, rp))"
  using assms(1,2) rootport_loop_find [OF assms(3)] by (simp add: val_pcie_get_rootport_def)

theorem pcie_get_rootport_spec_witness:
  "val_pcie_get_rootport (example_topology (Some [\<lparr>attr_bdf = 0, attr_rp_bdf = 0\<rparr>,
     \<lparr>attr_bdf = 0x10000, attr_rp_bdf = 0\<rparr>])) 0x10000 = Some (0, 0)"
  using pcie_get_rootport_spec [of "example_topology (Some [\<lparr>attr_bdf = 0, attr_rp_bdf = 0\<rparr>,
     \<lparr>attr_bdf = 0x10000, attr_rp_bdf = 0\<rparr>])" _ "0x10000" EP]
  by (simp add: topology_info topology_port_types topology_devices rootport_of_def topology_read
      rp_page_def sec_bus_of_def sub_bus_of_def bdf_defs)

text \<open>The memory base address is that of the first memory BAR of the header (six registers,
  two for a bridge), with the upper half from the next register for a 64-bit BAR and zero for a
  32-bit one; it is null when no BAR maps memory.\<close>

theorem pcie_get_mmio_bar_first:
  assumes "mapped s bdf" and "pal_is_bdf_exerciser (pcie_hooks s) bdf = 0"
  shows "val_pcie_get_mmio_bar s bdf base =
    Some (case find (\<lambda>i. bar_reg s bdf i AND 1 = 0) [0..<bar_count s bdf] of
       None \<Rightarrow> 0 | Some i \<Rightarrow> bar_address s bdf (ucast (drop_bit 32 base)) i)"
  using assms by (simp add: val_pcie_get_mmio_bar_def mmio_bar_loop_first)

theorem pcie_get_mmio_bar_first_witness:
  "val_pcie_get_mmio_bar (example_topology None) 0x10000 7 = Some 0x1E0000000"
  using pcie_get_mmio_bar_first [of "example_topology None" "0x10000" 7]
  by (simp add: topology_devices topology_info example_hooks_def bar_reg_def bar_count_def
      bar_address_def val_pcie_function_header_type_def topology_read ep_page_def upt_rec)

text \<open>The bus master and memory space bits of the command register: enabling sets and
  disabling clears the bit when the function implements it, the memory space predicate returns 0
  exactly when the bit is set, the two bits do not disturb each other. Each of these
  read-modify-write operations also clears every pending write-one-to-clear status bit in the
  upper half of the register, because it writes back what it read there.\<close>

theorem pcie_command_register_ops:
  assumes "register_is s bdf TYPE01_CR rw w1c" and "bit rw CR_BME_SHIFT" and "bit rw CR_MSE_SHIFT"
    and "op \<in> {val_pcie_enable_bme, val_pcie_disable_bme, val_pcie_enable_msa, val_pcie_disable_msa}"
  shows "bit (cfg_read (val_pcie_enable_bme s bdf) bdf TYPE01_CR) CR_BME_SHIFT \<and>
    \<not> bit (cfg_read (val_pcie_disable_bme s bdf) bdf TYPE01_CR) CR_BME_SHIFT \<and>
    val_pcie_is_msa_enabled (val_pcie_enable_msa s bdf) bdf = 0 \<and>
    val_pcie_is_msa_enabled (val_pcie_disable_msa s bdf) bdf = 1 \<and>
    val_pcie_is_msa_enabled (val_pcie_enable_bme s bdf) bdf = val_pcie_is_msa_enabled s bdf \<and>
    val_pcie_is_msa_enabled (val_pcie_disable_bme s bdf) bdf = val_pcie_is_msa_enabled s bdf \<and>
    (\<forall>i. i \<noteq> CR_MSE_SHIFT \<and> i \<noteq> CR_BME_SHIFT \<longrightarrow>
       bit (cfg_read (op s bdf) bdf TYPE01_CR) i =
         (bit (cfg_read s bdf TYPE01_CR) i \<and> (bit w1c i \<longrightarrow> bit rw i)))"
proof -
  note rd = cfg_read_after_write [OF assms(1)]
  have msa: "val_pcie_is_msa_enabled s' bdf = (if bit (cfg_read s' bdf TYPE01_CR) CR_MSE_SHIFT then 0 else 1)"
    for s' by (simp only: val_pcie_is_msa_enabled_def and_single_bit if_distrib not_not) simp
  let ?old = "cfg_read s bdf TYPE01_CR"
  have len: "CR_BME_SHIFT < LENGTH(32)" "CR_MSE_SHIFT < LENGTH(32)" by simp_all
  note ops = val_pcie_enable_bme_def val_pcie_disable_bme_def val_pcie_enable_msa_def
    val_pcie_disable_msa_def rd bit_reg_effect bit_and_not_single bit_or_single [OF len(1)]
    bit_or_single [OF len(2)]
  show ?thesis using assms(2-4) unfolding msa insert_iff empty_iff
    by (elim disjE FalseE; simp only: ops; auto)
qed

theorem pcie_command_register_ops_witness:
  "val_pcie_is_msa_enabled (val_pcie_enable_msa (example_topology None) 0) 0 = 0 \<and>
   bit (cfg_read (val_pcie_enable_bme (example_topology None) 0) 0 TYPE01_CR) CR_BME_SHIFT"
  using pcie_command_register_ops [of "example_topology None" 0 "0x7FF" "0xFFFF0000" val_pcie_enable_bme]
  by (simp add: register_is_def topology_devices topology_info)

text \<open>Clearing the unsupported-request bit of the device status register clears that bit
  and keeps the device control bits and all other status bits; clearing the device errors clears
  every write-one-to-clear status bit. Afterwards the corresponding predicates report no error.\<close>

theorem pcie_device_status_clear:
  assumes "cap_list_outside (\<lambda>a. a = cfg_reg_addr s bdf (base + DCTLR_OFFSET) AND NOT 3) s bdf"
    and "pciecs_base s bdf = Some base" and "register_is s bdf (base + DCTLR_OFFSET) rw w1c"
    and "\<forall>i. bit rw i \<longrightarrow> i < 16" and "\<forall>i. bit w1c i \<longrightarrow> 16 \<le> i" and "\<forall>i\<in>{16..19}. bit w1c i"
  shows "\<exists>s1 s2. val_pcie_clear_urd s bdf = Some s1 \<and> val_pcie_is_urd s1 bdf = Some 0 \<and>
    (\<forall>i. bit (cfg_read s1 bdf (base + DCTLR_OFFSET)) i =
       (bit (cfg_read s bdf (base + DCTLR_OFFSET)) i \<and> i \<noteq> DCTLR_DSR_SHIFT + DSR_URD_SHIFT)) \<and>
    val_pcie_clear_device_status_error s bdf = Some s2 \<and>
    val_pcie_is_device_status_error s2 bdf = Some 0 \<and>
    (\<forall>i. bit (cfg_read s2 bdf (base + DCTLR_OFFSET)) i =
       (bit (cfg_read s bdf (base + DCTLR_OFFSET)) i \<and> \<not> bit w1c i))"
proof -
  let ?off = "base + DCTLR_OFFSET" and ?old = "cfg_read s bdf (base + DCTLR_OFFSET)"
  let ?v1 = "(?old AND 0xffff) OR push_bit (DCTLR_DSR_SHIFT + DSR_URD_SHIFT) 1"
    and ?v2 = "?old OR push_bit DCTLR_DSR_SHIFT 0xF"
  have m: "mapped s bdf" using assms(3) by (simp add: register_is_def)
  have base: "pciecs_base (val_pcie_write_cfg s bdf ?off v) bdf = Some base" for v
  proof -
    have a: "agrees (\<lambda>a. a = cfg_reg_addr s bdf ?off AND NOT 3) s (val_pcie_write_cfg s bdf ?off v)"
      using m by (simp add: agrees_write)
    show ?thesis using find_capability_agrees(1) [OF a assms(1)] assms(2)
      by (simp add: pciecs_base_def agrees_junk [OF a])
  qed
  note rd = cfg_read_after_write [OF assms(3)]
  have f: "bit (push_bit DCTLR_DSR_SHIFT 0xF :: u32) i = (16 \<le> i \<and> i < 20)" for i
  proof -
    have "push_bit 16 0xF = (push_bit 16 (mask 4) :: u32)" by (simp add: mask_eq_exp_minus_1)
    then show ?thesis by (simp only: bit_push_mask) auto
  qed
  have v1: "bit ?v1 i = (i < 16 \<and> bit ?old i \<or> i = 19)" for i
  proof -
    have "?old AND 0xffff = take_bit 16 ?old" by (simp add: take_bit_eq_mask mask_eq_exp_minus_1)
    then have "bit (?old AND 0xffff) i = (i < 16 \<and> bit ?old i)" by (simp only: bit_take_bit_iff)
    then show ?thesis using bit_or_single [of "19" "?old AND 0xffff" i] by simp
  qed
  have v2: "bit ?v2 i = (bit ?old i \<or> 16 \<le> i \<and> i < 20)" for i
    using f [of i] by (simp only: bit_or_iff)
  let ?s1 = "val_pcie_write_cfg s bdf ?off ?v1" and ?s2 = "val_pcie_write_cfg s bdf ?off ?v2"
  have disj: "\<not> (bit rw i \<and> bit w1c i)" for i using assms(4,5) by (meson not_le)
  have r1: "bit (cfg_read ?s1 bdf ?off) i = (bit ?old i \<and> i \<noteq> 19)" for i
    unfolding rd bit_reg_effect v1 using assms(4-6) by auto
  have r2: "bit (cfg_read ?s2 bdf ?off) i = (bit ?old i \<and> \<not> bit w1c i)" for i
    unfolding rd bit_reg_effect v2 using assms(4-6) disj [of i] by auto
  have urd: "drop_bit DSR_URD_SHIFT (drop_bit DCTLR_DSR_SHIFT (cfg_read ?s1 bdf ?off) AND 0xffff) AND 1 = 0"
  proof (rule bit_word_eqI)
    fix i assume "i < LENGTH(32)"
    show "bit (drop_bit 3 (drop_bit 16 (cfg_read ?s1 bdf ?off) AND 0xffff) AND 1) i = bit (0 :: u32) i"
      using r1 [of 19] by (cases i) (auto simp: bit_and_iff bit_drop_bit_eq bit_1_iff)
  qed
  have dse: "cfg_read ?s2 bdf ?off AND push_bit DCTLR_DSR_SHIFT 0xF = 0"
  proof (rule bit_word_eqI)
    fix i assume "i < LENGTH(32)"
    show "bit (cfg_read ?s2 bdf ?off AND push_bit 16 0xF) i = bit (0 :: u32) i"
      using assms(6) by (simp only: bit_and_iff r2 f) auto
  qed
  show ?thesis
    by (intro exI [of _ ?s1] exI [of _ ?s2] conjI allI)
      (simp_all only: val_pcie_clear_urd_def val_pcie_is_urd_def val_pcie_clear_device_status_error_def
        val_pcie_is_device_status_error_def base assms(2) bind.bind_lunit Let_def urd dse r1 r2,
       simp_all)
qed

lemma topology_masks:
  "bit (0x7FF :: u32) i \<longleftrightarrow> i < 11" "bit (0xFFFF0000 :: u32) i \<longleftrightarrow> 16 \<le> i \<and> i < 32"
proof -
  have "(0x7FF :: u32) = mask 11" "(0xFFFF0000 :: u32) = push_bit 16 (mask 16)"
    by (simp_all add: mask_eq_exp_minus_1)
  then show "bit (0x7FF :: u32) i \<longleftrightarrow> i < 11" "bit (0xFFFF0000 :: u32) i \<longleftrightarrow> 16 \<le> i \<and> i < 32"
    by (simp_all only: bit_mask_iff bit_push_mask) auto
qed

lemma topology_cap_list:
  "cap_list_outside (\<lambda>a. a = cfg_reg_addr (example_topology t) 0x10000 0x48 AND NOT 3) (example_topology t) 0x10000"
  unfolding cap_list_outside_def
  by (auto simp: topology_devices topology_read ep_page_def cap_nxt_def intro!: exI [of _ "[0x40]"])

theorem pcie_device_status_clear_witness:
  "\<exists>s1. val_pcie_clear_urd (example_topology None) 0x10000 = Some s1 \<and> val_pcie_is_urd s1 0x10000 = Some 0"
proof -
  have base: "pciecs_base (example_topology None) 0x10000 = Some 0x40"
    by (simp add: pciecs_base_def val_pcie_find_capability_def cap_walk.simps topology_devices
        topology_read topology_info ep_page_def)
  have "register_is (example_topology None) 0x10000 (0x40 + DCTLR_OFFSET) 0x7FF 0xFFFF0000"
    by (simp add: register_is_def topology_devices topology_info)
  note clear = pcie_device_status_clear [OF _ base this]
  have "\<forall>i. bit (0x7FF :: u32) i \<longrightarrow> i < 16" "\<forall>i. bit (0xFFFF0000 :: u32) i \<longrightarrow> 16 \<le> i"
    "\<forall>i\<in>{16..19}. bit (0xFFFF0000 :: u32) i"
    by (simp_all only: topology_masks) auto
  from clear [OF _ this] topology_cap_list [of None] show ?thesis by auto
qed

lemma get_info_nth:
  assumes "g_pcie_info_table s = Some blocks" and "length blocks < 2 ^ 32" and "i < length blocks"
  shows "val_pcie_get_info s PCIE_INFO_END_BUS (of_nat i) = ucast (end_bus_num (blocks ! i))"
    and "val_pcie_get_info s PCIE_INFO_START_BUS (of_nat i) = ucast (start_bus_num (blocks ! i))"
    and "val_pcie_get_info s PCIE_INFO_SEGMENT (of_nat i) = ucast (segment_num (blocks ! i))"
  using assms unat_of_nat_small [of i, where ?'a = 32] by (simp_all add: val_pcie_get_info_def)

text \<open>Stepping through device numbers: within the ECAM region of its segment every device
  number is followed by the one at the next position (function, device, bus order, same segment);
  the last one is followed by the first of the next region, or by 0 after the last region.\<close>

theorem pcie_increment_bdf_next:
  assumes "g_pcie_info_table s = Some blocks" and "length blocks < 2 ^ 32"
    and "last_ecam_of s (PCIE_EXTRACT_BDF_SEG bdf) (num_ecam s) = Some k" and "k < length blocks"
    and "unat (end_bus_num (blocks ! k)) < 256" and "\<not> bdf_out_of_range bdf"
    and "start_bus_num (blocks ! k) \<le> PCIE_EXTRACT_BDF_BUS bdf"
    and "PCIE_EXTRACT_BDF_BUS bdf \<le> end_bus_num (blocks ! k)"
  shows "if Suc (bdf_index (start_bus_num (blocks ! k)) bdf) <
            (unat (end_bus_num (blocks ! k)) + 1 - unat (start_bus_num (blocks ! k))) * 256
    then \<not> bdf_out_of_range (val_pcie_increment_bdf s bdf) \<and>
      PCIE_EXTRACT_BDF_SEG (val_pcie_increment_bdf s bdf) = PCIE_EXTRACT_BDF_SEG bdf \<and>
      bdf_index (start_bus_num (blocks ! k)) (val_pcie_increment_bdf s bdf)
        = Suc (bdf_index (start_bus_num (blocks ! k)) bdf)
    else val_pcie_increment_bdf s bdf = (if k + 1 < length blocks then
      PCIE_CREATE_BDF (segment_num (blocks ! (k + 1))) (start_bus_num (blocks ! (k + 1))) 0 0 else 0)"
proof -
  let ?seg = "PCIE_EXTRACT_BDF_SEG bdf" and ?bus = "PCIE_EXTRACT_BDF_BUS bdf"
    and ?dev = "PCIE_EXTRACT_BDF_DEV bdf" and ?func = "PCIE_EXTRACT_BDF_FUNC bdf"
    and ?a = "start_bus_num (blocks ! k)" and ?b = "end_bus_num (blocks ! k)"
  note r = in_range_parts [OF assms(6)] and n = num_ecam_eq [OF assms(1,2)]
  have b: "unat ?a \<le> unat ?bus" "unat ?bus \<le> unat ?b" using assms(7,8) by (simp_all add: word_le_nat_alt)
  have u: "unat (?func + 1) = unat ?func + 1" "unat (?dev + 1) = unat ?dev + 1" "unat (?bus + 1) = unat ?bus + 1"
    using r by (simp_all add: unat_word_ariths)
  note info = get_info_nth [OF assms(1,2)]
  consider (func) "unat ?func < 7" | (dev) "unat ?func = 7" "unat ?dev < 31"
    | (bus) "unat ?func = 7" "unat ?dev = 31" "unat ?bus < unat ?b"
    | (last) "unat ?func = 7" "unat ?dev = 31" "unat ?bus = unat ?b"
    using r b(2) by linarith
  then show ?thesis
  proof cases
    case func
    then have "val_pcie_increment_bdf s bdf = PCIE_CREATE_BDF ?seg ?bus ?dev (?func + 1)"
      using assms(3) by (simp add: val_pcie_increment_bdf_def Let_def word_less_nat_alt)
    moreover have "Suc (bdf_index ?a bdf) < (unat ?b + 1 - unat ?a) * 256"
      unfolding bdf_index_def using func b r by arith
    ultimately show ?thesis using func b r
      by (simp add: bdf_index_def bdf_out_of_range_def word_le_nat_alt not_le create_parts seg_small u)
  next
    case dev
    then have "val_pcie_increment_bdf s bdf = PCIE_CREATE_BDF ?seg ?bus (?dev + 1) 0"
      using assms(3) by (simp add: val_pcie_increment_bdf_def Let_def word_less_nat_alt)
    moreover have "Suc (bdf_index ?a bdf) < (unat ?b + 1 - unat ?a) * 256"
      unfolding bdf_index_def using dev b r by arith
    ultimately show ?thesis using dev b r
      by (simp add: bdf_index_def bdf_out_of_range_def word_le_nat_alt not_le create_parts seg_small u)
  next
    case bus
    then have "val_pcie_increment_bdf s bdf = PCIE_CREATE_BDF ?seg (?bus + 1) 0 0"
      using assms(3,4) by (simp add: val_pcie_increment_bdf_def Let_def word_less_nat_alt info unat_ucast_up)
    moreover have "Suc (bdf_index ?a bdf) < (unat ?b + 1 - unat ?a) * 256"
      unfolding bdf_index_def using bus b r by arith
    ultimately show ?thesis using bus b r assms(5)
      by (simp add: bdf_index_def bdf_out_of_range_def word_le_nat_alt not_le create_parts seg_small u)
  next
    case last
    then have "val_pcie_increment_bdf s bdf = (if k + 1 < length blocks then
      PCIE_CREATE_BDF (segment_num (blocks ! (k + 1))) (start_bus_num (blocks ! (k + 1))) 0 0 else 0)"
      using assms(3,4) info [of "k + 1"]
      by (simp add: val_pcie_increment_bdf_def Let_def word_less_nat_alt info(1) unat_ucast_up n ucast_down_up
          del: of_nat_add of_nat_Suc)
    moreover have "\<not> Suc (bdf_index ?a bdf) < (unat ?b + 1 - unat ?a) * 256"
      unfolding bdf_index_def using last b r by arith
    ultimately show ?thesis by simp
  qed
qed

theorem pcie_increment_bdf_next_witness:
  "bdf_index 0 (val_pcie_increment_bdf (example_topology None) 0x1F07) = 256"
  using pcie_increment_bdf_next [OF topology_info(1) [of None], of "0x1F07" 0]
  by (simp add: bdf_index_def bdf_defs bdf_out_of_range_def word_le_nat_alt val_pcie_get_info_def
      topology_info)

text \<open>Stepping to the next device with \<open>val_pcie_increment_busdev\<close> from the last device of a
  bus (device 31) gives device 32, which is not a valid device number: the bus is not advanced,
  and every configuration access to the result fails.\<close>

theorem pcie_increment_busdev_overruns:
  assumes "PCIE_EXTRACT_BDF_DEV bdf = 31"
  shows "PCIE_EXTRACT_BDF_BUS (val_pcie_increment_busdev bdf) = PCIE_EXTRACT_BDF_BUS bdf \<and>
    PCIE_EXTRACT_BDF_DEV (val_pcie_increment_busdev bdf) = 32 \<and>
    val_pcie_read_cfg s (val_pcie_increment_busdev bdf) off d = (PCIE_NO_MAPPING, d)"
proof -
  have b: "unat (PCIE_EXTRACT_BDF_BUS bdf) < 256"
    using and_0xFF_less [of "drop_bit 16 bdf"] by (simp add: PCIE_EXTRACT_BDF_BUS_def word_less_nat_alt)
  have "val_pcie_increment_busdev bdf
      = PCIE_CREATE_BDF (PCIE_EXTRACT_BDF_SEG bdf) (PCIE_EXTRACT_BDF_BUS bdf) 32 0"
    using assms by (simp add: val_pcie_increment_busdev_def)
  then show ?thesis
    using b by (simp add: create_parts seg_small val_pcie_read_cfg_def bdf_out_of_range_def)
qed

theorem pcie_increment_busdev_overruns_witness:
  "val_pcie_increment_busdev 0x1F00 = 0x2000 \<and>
   val_pcie_read_cfg (example_topology None) 0x2000 0 5 = (PCIE_NO_MAPPING, 5)"
  using pcie_increment_busdev_overruns [of "0x1F00" "example_topology None" 0 5]
  by (simp add: val_pcie_increment_busdev_def bdf_defs)

end
