(* ===== verification/Da_Ide.thy ===== *)
theory Da_Ide
  imports Pcie_Device
begin

text \<open>
  Device assignment support (\<^verbatim>\<open>val/src/acs_da.c\<close>): locating the register block of a selective
  IDE stream in the IDE extended capability, programming its stream identifier, requester
  association and enable bit, and establishing a stream. The four operations on a stream share
  the same walk over the variable-sized stream blocks; it is defined once here.
\<close>

section \<open>IDE capability layout\<close>

abbreviation (input) ECID_IDE :: u32 where "ECID_IDE \<equiv> 0x30"
abbreviation (input) IDE_CAP_REG :: u32 where "IDE_CAP_REG \<equiv> 4"
abbreviation (input) IDE_CAP_REG_SIZE :: u32 where "IDE_CAP_REG_SIZE \<equiv> 0xC"
abbreviation (input) LINK_IDE_BLK_SIZE :: u32 where "LINK_IDE_BLK_SIZE \<equiv> 8"
abbreviation (input) SEL_IDE_CAP_CNTRL_REG :: u32 where "SEL_IDE_CAP_CNTRL_REG \<equiv> 4"
abbreviation (input) SEL_IDE_CAP_STATUS_REG :: u32 where "SEL_IDE_CAP_STATUS_REG \<equiv> 8"
abbreviation (input) SEL_IDE_CAP_REG_SIZE :: u32 where "SEL_IDE_CAP_REG_SIZE \<equiv> 0xC"
abbreviation (input) RID_ADDR_REG1_SIZE :: u32 where "RID_ADDR_REG1_SIZE \<equiv> 4"
abbreviation (input) RID_ADDR_REG2_SIZE :: u32 where "RID_ADDR_REG2_SIZE \<equiv> 4"
abbreviation (input) IDE_ADDR_REG_BLK_SIZE :: u32 where "IDE_ADDR_REG_BLK_SIZE \<equiv> 0xC"
abbreviation (input) STREAM_STATE_INSECURE :: u32 where "STREAM_STATE_INSECURE \<equiv> 0"
abbreviation (input) STREAM_STATE_SECURE :: u32 where "STREAM_STATE_SECURE \<equiv> 2"

definition num_sel_streams :: "u32 \<Rightarrow> u32" where
  "num_sel_streams reg_value = drop_bit 16 (reg_value AND 0xFF0000)"

definition num_tc :: "u32 \<Rightarrow> u32" where
  "num_tc reg_value = drop_bit 13 (reg_value AND 0xE000)"

definition num_addr_asso :: "u32 \<Rightarrow> u32" where
  "num_addr_asso reg_value = reg_value AND 0xF"

text \<open>The IDE capability with selective streams: base offset and capability register;
  \<open>Some None\<close> is the early return with status 1.\<close>

definition sel_ide_cap :: "pcie_state \<Rightarrow> u32 \<Rightarrow> (u32 \<times> u32) option option" where
  "sel_ide_cap s bdf = do {
     (status, ide_cap_base) \<leftarrow> val_pcie_find_capability s bdf PCIE_ECAP ECID_IDE (junk s);
     if status \<noteq> PCIE_SUCCESS then Some None
     else let reg_value = cfg_read s bdf (ide_cap_base + IDE_CAP_REG) in
       if drop_bit 1 (reg_value AND 2) = 0 then Some None
       else Some (Some (ide_cap_base, reg_value)) }"

definition next_block :: "pcie_state \<Rightarrow> u32 \<Rightarrow> u32 \<Rightarrow> u32" where
  "next_block s bdf off = off + SEL_IDE_CAP_REG_SIZE + RID_ADDR_REG1_SIZE + RID_ADDR_REG2_SIZE
     + num_addr_asso (cfg_read s bdf off) * IDE_ADDR_REG_BLK_SIZE"

text \<open>The loop \<^verbatim>\<open>while (count++ <= num_sel_ide_stream_supp)\<close>: \<open>n\<close> iterations are left.\<close>

primrec stream_walk :: "pcie_state \<Rightarrow> u32 \<Rightarrow> u32 \<Rightarrow> u32 \<Rightarrow> u32 \<Rightarrow> nat \<Rightarrow> u32 option" where
  "stream_walk s bdf str_cnt count off 0 = None"
| "stream_walk s bdf str_cnt count off (Suc n) =
     (if count + 1 = str_cnt then Some off
      else stream_walk s bdf str_cnt (count + 1) (next_block s bdf off) n)"

definition first_block :: "u32 \<Rightarrow> u32 \<Rightarrow> u32" where
  "first_block ide_cap_base reg_value =
     ide_cap_base + IDE_CAP_REG_SIZE + (num_tc reg_value + 1) * LINK_IDE_BLK_SIZE"

definition sel_stream_block :: "pcie_state \<Rightarrow> u32 \<Rightarrow> u32 \<Rightarrow> u32 option option" where
  "sel_stream_block s bdf str_cnt = do {
     cap \<leftarrow> sel_ide_cap s bdf;
     Some (case cap of
         None \<Rightarrow> None
       | Some (base, reg_value) \<Rightarrow>
           stream_walk s bdf str_cnt 0 (first_block base reg_value) (unat (num_sel_streams reg_value) + 1)) }"

section \<open>Operations on a stream\<close>

definition val_ide_set_sel_stream :: "pcie_state \<Rightarrow> u32 \<Rightarrow> u32 \<Rightarrow> u32 \<Rightarrow> (u32 \<times> pcie_state) option" where
  "val_ide_set_sel_stream s bdf str_cnt enable = do {
     blk \<leftarrow> sel_stream_block s bdf str_cnt;
     Some (case blk of
         None \<Rightarrow> (1, s)
       | Some off \<Rightarrow>
           let reg_value = cfg_read s bdf (off + SEL_IDE_CAP_CNTRL_REG) in
           (0, val_pcie_write_cfg s bdf (off + SEL_IDE_CAP_CNTRL_REG)
                 (if c_true enable then reg_value OR 1 else 0))) }"

definition val_ide_program_stream_id :: "pcie_state \<Rightarrow> u32 \<Rightarrow> u32 \<Rightarrow> u32 \<Rightarrow> (u32 \<times> pcie_state) option" where
  "val_ide_program_stream_id s bdf str_cnt stream_id = do {
     blk \<leftarrow> sel_stream_block s bdf str_cnt;
     Some (case blk of
         None \<Rightarrow> (1, s)
       | Some off \<Rightarrow>
           (0, val_pcie_write_cfg s bdf (off + SEL_IDE_CAP_CNTRL_REG)
                 (push_bit 24 stream_id AND 0xFF000000))) }"

definition val_ide_program_rid_base_limit_valid ::
  "pcie_state \<Rightarrow> u32 \<Rightarrow> u32 \<Rightarrow> u32 \<Rightarrow> u32 \<Rightarrow> u32 \<Rightarrow> (u32 \<times> pcie_state) option" where
  "val_ide_program_rid_base_limit_valid s bdf str_cnt base limit valid = do {
     blk \<leftarrow> sel_stream_block s bdf str_cnt;
     Some (case blk of
         None \<Rightarrow> (1, s)
       | Some off \<Rightarrow>
           let rid_asso_reg_1 = off + SEL_IDE_CAP_REG_SIZE;
               rid_asso_reg_2 = off + SEL_IDE_CAP_REG_SIZE + RID_ADDR_REG1_SIZE;
               s1 = val_pcie_write_cfg s bdf rid_asso_reg_1 (push_bit 8 limit AND 0xFFFF00);
               s2 = val_pcie_write_cfg s1 bdf rid_asso_reg_2 (push_bit 8 base AND 0xFFFF00);
               s3 = val_pcie_write_cfg s2 bdf rid_asso_reg_2 valid
           in (0, s3)) }"

text \<open>The output parameters are kept on failure.\<close>

definition val_ide_get_num_sel_str :: "pcie_state \<Rightarrow> u32 \<Rightarrow> u32 \<Rightarrow> (u32 \<times> u32) option" where
  "val_ide_get_num_sel_str s bdf num_sel_str = do {
     cap \<leftarrow> sel_ide_cap s bdf;
     Some (case cap of None \<Rightarrow> (1, num_sel_str)
       | Some (base, reg_value) \<Rightarrow> (0, num_sel_streams reg_value + 1)) }"

definition val_get_sel_str_status :: "pcie_state \<Rightarrow> u32 \<Rightarrow> u32 \<Rightarrow> u32 \<Rightarrow> (u32 \<times> u32) option" where
  "val_get_sel_str_status s bdf str_cnt str_status = do {
     blk \<leftarrow> sel_stream_block s bdf str_cnt;
     Some (case blk of None \<Rightarrow> (1, str_status)
       | Some off \<Rightarrow> (0, cfg_read s bdf (off + SEL_IDE_CAP_STATUS_REG) AND 0xF)) }"

definition val_ide_establish_stream ::
  "pcie_state \<Rightarrow> u32 \<Rightarrow> u32 \<Rightarrow> u32 \<Rightarrow> u32 \<Rightarrow> (u32 \<times> pcie_state) option" where
  "val_ide_establish_stream s bdf count stream_id base_limit = do {
     (status, s1) \<leftarrow> val_ide_program_rid_base_limit_valid s bdf count
       (PCIE_CREATE_BDF_PACKED base_limit) (PCIE_CREATE_BDF_PACKED base_limit) 1;
     if c_true status then Some (1, s1) else do {
     (status, s2) \<leftarrow> val_ide_program_stream_id s1 bdf count stream_id;
     if c_true status then Some (1, s2) else do {
     (status, s3) \<leftarrow> val_ide_set_sel_stream s2 bdf count 1;
     if c_true status then Some (1, s3) else do {
     (status, reg_value) \<leftarrow> val_get_sel_str_status s3 bdf count (junk s3);
     if c_true status then Some (1, s3)
     else if reg_value \<noteq> STREAM_STATE_SECURE then Some (1, s3)
     else Some (0, s3) }}}}"

section \<open>Reading the requester association\<close>

text \<open>The values written through the output pointers of the two functions.\<close>

record rid_block =
  rb_num_sel_ide_stream_supp :: u32
  rb_num_tc_supp :: u32
  rb_current_base_offset :: u32
  rb_num_addr_asso_block :: u32
  rb_rid_limit :: u32
  rb_rid_base :: u32

definition val_da_get_addr_asso_block_base ::
  "pcie_state \<Rightarrow> u32 \<Rightarrow> u32 \<Rightarrow> u32 \<Rightarrow> u32 \<Rightarrow> u32 \<Rightarrow> rid_block" where
  "val_da_get_addr_asso_block_base s current_base_offset bdf rid_limit rid_base reg_value =
     (let tc = num_tc reg_value;
          off1 = current_base_offset + IDE_CAP_REG_SIZE;
          off2 = off1 + (tc + 1) * LINK_IDE_BLK_SIZE;
          reg = snd (val_pcie_read_cfg s bdf off2 reg_value);
          off3 = off2 + SEL_IDE_CAP_REG_SIZE;
          limit = VAL_EXTRACT_BITS (fst (val_pcie_read_cfg s bdf off3 rid_limit)) 8 23;
          off4 = off3 + RID_ADDR_REG1_SIZE;
          base = VAL_EXTRACT_BITS (fst (val_pcie_read_cfg s bdf off4 rid_base)) 8 23
      in \<lparr>rb_num_sel_ide_stream_supp = num_sel_streams reg_value, rb_num_tc_supp = tc,
          rb_current_base_offset = off4 + RID_ADDR_REG2_SIZE,
          rb_num_addr_asso_block = num_addr_asso reg, rb_rid_limit = limit, rb_rid_base = base\<rparr>)"

definition val_da_get_next_rid_values ::
  "pcie_state \<Rightarrow> u32 \<Rightarrow> u32 \<Rightarrow> u32 \<Rightarrow> u32 \<Rightarrow> u32 \<Rightarrow> u32 \<times> u32 \<times> u32 \<times> u32" where
  "val_da_get_next_rid_values s current_base_offset num_addr_asso_block bdf next_rid_limit next_rid_base =
     (let off1 = current_base_offset + num_addr_asso_block * IDE_ADDR_REG_BLK_SIZE;
          num = num_addr_asso (cfg_read s bdf off1);
          off2 = off1 + SEL_IDE_CAP_REG_SIZE;
          limit = VAL_EXTRACT_BITS (fst (val_pcie_read_cfg s bdf off2 next_rid_limit)) 8 23;
          off3 = off2 + RID_ADDR_REG1_SIZE;
          base = VAL_EXTRACT_BITS (fst (val_pcie_read_cfg s bdf off3 next_rid_base)) 8 23
      in (off3, num, limit, base))"

section \<open>The stream blocks\<close>

primrec block_at :: "pcie_state \<Rightarrow> u32 \<Rightarrow> u32 \<Rightarrow> nat \<Rightarrow> u32" where
  "block_at s bdf off 0 = off"
| "block_at s bdf off (Suc k) = next_block s bdf (block_at s bdf off k)"

lemma block_at_next: "block_at s bdf (next_block s bdf off) k = block_at s bdf off (Suc k)"
  by (induction k) auto

lemma stream_walk_block:
  "unat count + n < 2 ^ 32 \<Longrightarrow> stream_walk s bdf str_cnt count off n =
    (if unat count < unat str_cnt \<and> unat str_cnt \<le> unat count + n
     then Some (block_at s bdf off (unat str_cnt - unat count - 1)) else None)"
proof (induction n arbitrary: count off)
  case 0
  then show ?case by simp
next
  case (Suc n)
  then have u: "unat (count + 1) = unat count + 1" by (simp add: unat_word_ariths)
  then have eq: "count + 1 = str_cnt \<longleftrightarrow> unat count + 1 = unat str_cnt" by (simp only: word_unat_eq_iff)
  have IH: "stream_walk s bdf str_cnt (count + 1) (next_block s bdf off) n =
      (if unat count + 1 < unat str_cnt \<and> unat str_cnt \<le> unat count + 1 + n
       then Some (block_at s bdf off (Suc (unat str_cnt - (unat count + 1) - 1))) else None)"
    using Suc.IH [of "count + 1" "next_block s bdf off"] Suc.prems
    by (simp only: u block_at_next)
  show ?case
    unfolding stream_walk.simps eq IH by (auto simp: Suc_diff_Suc numeral_2_eq_2)
qed

lemma num_sel_streams_less: "unat (num_sel_streams reg) < 256"
proof -
  have "num_sel_streams reg = drop_bit 16 (take_bit 24 (reg AND 0xFF0000))"
    by (simp add: num_sel_streams_def take_bit_eq_mask mask_eq_exp_minus_1 and.assoc)
  also have "\<dots> = take_bit 8 (drop_bit 16 (reg AND 0xFF0000))" by (simp add: drop_bit_take_bit)
  finally show ?thesis using unat_take_bit_less [of 8 "drop_bit 16 (reg AND 0xFF0000)"] by simp
qed

lemma sel_stream_block_eq:
  assumes "sel_ide_cap s bdf = Some (Some (base, reg))"
  shows "sel_stream_block s bdf k = Some
    (if 0 < unat k \<and> unat k \<le> unat (num_sel_streams reg) + 1
     then Some (block_at s bdf (first_block base reg) (unat k - 1)) else None)"
proof -
  have "unat (0 :: u32) + (unat (num_sel_streams reg) + 1) < 2 ^ 32"
    using num_sel_streams_less [of reg] by simp
  from stream_walk_block [OF this] show ?thesis
    using assms by (simp add: sel_stream_block_def del: stream_walk.simps)
qed

section \<open>Stability of the layout\<close>

definition ecap_list_outside :: "(u64 \<Rightarrow> bool) \<Rightarrow> pcie_state \<Rightarrow> u32 \<Rightarrow> bool" where
  "ecap_list_outside K s bdf \<longleftrightarrow> mapped s bdf \<and>
     (\<exists>os. cap_path (ecap_nxt s bdf (junk s)) PCIE_ECAP_START os \<and>
        (\<forall>off\<in>set os. \<not> K (cfg_reg_addr s bdf off AND NOT 3)))"

lemma agrees_cfg_read:
  assumes "agrees K s s'" and "mapped s bdf" and "\<not> K (cfg_reg_addr s bdf off AND NOT 3)"
  shows "cfg_read s' bdf off = cfg_read s bdf off"
  using assms(2,3) by (simp add: agrees_mapped [OF assms(1)] agrees_reg_addr [OF assms(1)] agrees_read [OF assms(1)])

lemma find_ecap_agrees:
  assumes a: "agrees K s s'" and c: "ecap_list_outside K s bdf"
  shows "val_pcie_find_capability s' bdf PCIE_ECAP cid out = val_pcie_find_capability s bdf PCIE_ECAP cid out"
proof -
  have m: "mapped s bdf" "mapped s' bdf" using c by (simp_all add: ecap_list_outside_def agrees_mapped [OF a])
  from c obtain os where p: "cap_path (ecap_nxt s bdf (junk s)) PCIE_ECAP_START os"
    and o: "\<And>off. off \<in> set os \<Longrightarrow> \<not> K (cfg_reg_addr s bdf off AND NOT 3)"
    by (auto simp: ecap_list_outside_def)
  have n: "ecap_nxt s' bdf (junk s) x = ecap_nxt s bdf (junk s) x"
    "ecap_id_at s' bdf (junk s) x = ecap_id_at s bdf (junk s) x" if "x \<in> set os" for x
    using agrees_cfg_read [OF a m(1) o [OF that]] m by (simp_all add: ecap_nxt_def ecap_id_at_def)
  have p': "cap_path (ecap_nxt s' bdf (junk s)) PCIE_ECAP_START os"
    using p by (rule cap_path_cong) (rule n)
  have "search_result (\<lambda>off. ecap_id_at s' bdf (junk s) off = cid) os out
      = search_result (\<lambda>off. ecap_id_at s bdf (junk s) off = cid) os out"
    by (rule search_result_cong) (simp only: n)
  then show ?thesis
    by (simp add: val_pcie_find_capability_def agrees_junk [OF a] ecap.walk_path [OF p] ecap.walk_path [OF p'])
qed

text \<open>None of the registers that locate stream \<open>k\<close> is in \<open>K\<close>.\<close>

definition stream_outside :: "(u64 \<Rightarrow> bool) \<Rightarrow> pcie_state \<Rightarrow> u32 \<Rightarrow> u32 \<Rightarrow> bool" where
  "stream_outside K s bdf k \<longleftrightarrow> ecap_list_outside K s bdf \<and>
     (\<exists>base reg. sel_ide_cap s bdf = Some (Some (base, reg)) \<and>
       \<not> K (cfg_reg_addr s bdf (base + IDE_CAP_REG) AND NOT 3) \<and>
       (\<forall>j < unat k. Suc j < unat k \<longrightarrow>
          \<not> K (cfg_reg_addr s bdf (block_at s bdf (first_block base reg) j) AND NOT 3)))"

lemma block_at_agrees:
  assumes "agrees K s s'" and "mapped s bdf"
  shows "\<forall>j<k. \<not> K (cfg_reg_addr s bdf (block_at s bdf off j) AND NOT 3) \<Longrightarrow>
    block_at s' bdf off k = block_at s bdf off k"
  by (induction k) (simp_all add: next_block_def agrees_cfg_read [OF assms])

lemma sel_stream_block_agrees:
  assumes a: "agrees K s s'" and o: "stream_outside K s bdf k"
  shows "sel_stream_block s' bdf k = sel_stream_block s bdf k"
proof -
  from o obtain base reg where c: "sel_ide_cap s bdf = Some (Some (base, reg))"
    and e: "ecap_list_outside K s bdf" and r: "\<not> K (cfg_reg_addr s bdf (base + IDE_CAP_REG) AND NOT 3)"
    and b: "\<And>j. Suc j < unat k \<Longrightarrow> \<not> K (cfg_reg_addr s bdf (block_at s bdf (first_block base reg) j) AND NOT 3)"
    by (auto simp: stream_outside_def)
  have m: "mapped s bdf" using e by (simp add: ecap_list_outside_def)
  from c obtain st where f: "val_pcie_find_capability s bdf PCIE_ECAP ECID_IDE (junk s) = Some (st, base)"
    by (auto simp: sel_ide_cap_def Let_def split: if_splits option.splits bind_splits)
  have "sel_ide_cap s' bdf = sel_ide_cap s bdf"
    using f agrees_cfg_read [OF a m r]
    by (simp add: sel_ide_cap_def agrees_junk [OF a] find_ecap_agrees [OF a e])
  then have c': "sel_ide_cap s' bdf = Some (Some (base, reg))" using c by simp
  have "block_at s' bdf (first_block base reg) (unat k - 1) = block_at s bdf (first_block base reg) (unat k - 1)"
    using b by (intro block_at_agrees [OF a m]) auto
  then show ?thesis unfolding sel_stream_block_eq [OF c] sel_stream_block_eq [OF c'] by simp
qed

section \<open>Registers of a block\<close>

lemma cfg_cell_eq:
  assumes "take_bit 2 o1 = take_bit 2 o2"
  shows "(cfg_reg_addr s bdf o1 AND NOT 3 = cfg_reg_addr s bdf o2 AND NOT 3) \<longleftrightarrow> o1 = o2"
proof
  let ?a = "val_pcie_get_bdf_config_addr s bdf"
  have three: "(3 :: u64) = mask 2" by (simp add: mask_eq_exp_minus_1)
  have "take_bit 2 (ucast o1 :: u64) = take_bit 2 (ucast o2)"
    using assms by (simp only: take_bit_eq_iff_mod unat_ucast_up len_of_numeral_defs)
  then have "take_bit 2 (cfg_reg_addr s bdf o1) = take_bit 2 (cfg_reg_addr s bdf o2)"
    unfolding cfg_reg_addr_def by (intro take_bit_add_cong) simp_all
  moreover assume "cfg_reg_addr s bdf o1 AND NOT 3 = cfg_reg_addr s bdf o2 AND NOT 3"
  ultimately have "cfg_reg_addr s bdf o1 = cfg_reg_addr s bdf o2"
    unfolding three by (rule and_not_mask_cong [rotated])
  then show "o1 = o2" by (simp add: cfg_reg_addr_def ucast_u32_u64_eq)
qed simp

lemma block_cells:
  assumes "a = 4 \<or> a = 8 \<or> a = 0xC \<or> a = 0x10" and "b = 4 \<or> b = 8 \<or> b = 0xC \<or> b = (0x10 :: u32)"
  shows "(cfg_reg_addr s bdf (off + a) AND NOT 3 = cfg_reg_addr s bdf (off + b) AND NOT 3) \<longleftrightarrow> a = b"
proof -
  have "take_bit 2 a = take_bit 2 b" using assms by auto
  then have "take_bit 2 (off + a) = take_bit 2 (off + b)" by (rule take_bit_add_cong [rotated]) simp
  from cfg_cell_eq [OF this] show ?thesis by simp
qed

text \<open>The register holds what is written to it.\<close>

definition plain_register :: "pcie_state \<Rightarrow> u32 \<Rightarrow> u32 \<Rightarrow> bool" where
  "plain_register s bdf off \<longleftrightarrow> cfg_effect s (cfg_reg_addr s bdf off AND NOT 3) = (\<lambda>old new. new)"

lemma plain_register_mmio_write [simp]: "plain_register (pal_mmio_write s a v) bdf off = plain_register s bdf off"
  by (simp add: plain_register_def)

lemma read_block_reg:
  assumes "mapped s bdf" and "plain_register s bdf (off + a)"
    and "a = 4 \<or> a = 8 \<or> a = 0xC \<or> a = 0x10" and "b = 4 \<or> b = 8 \<or> b = 0xC \<or> b = (0x10 :: u32)"
  shows "cfg_read (val_pcie_write_cfg s bdf (off + a) v) bdf (off + b)
    = (if a = b then v else cfg_read s bdf (off + b))"
  using assms(1,2) block_cells [OF assms(3,4), of s bdf off]
  by (auto simp: plain_register_def mmio.rd_wr_same mmio.rd_wr_other)

section \<open>An example device\<close>

text \<open>Two selective streams; the first one has one address association block.\<close>

definition example_ide :: pcie_state where
  "example_ide = example_pcie\<lparr>cfg_regs := (\<lambda>_. 0)(0x40000100 := 0x00010030, 0x40000104 := 0x00010002,
     0x40000114 := 1, 0x4000013C := 2)\<rparr>"

lemma ide_mapped [simp]: "mapped example_ide 0"
  and ide_addr [simp]: "cfg_reg_addr example_ide 0 off = 0x40000000 + ucast off"
  and ide_junk: "junk example_ide = 0xDEADBEEF"
  by (simp_all add: example_ide_def) (simp_all add: example_pcie_def)

lemma ide_regs [simp]:
  "pal_mmio_read example_ide a = ((\<lambda>_. 0)(0x40000100 := 0x00010030, 0x40000104 := 0x00010002,
     0x40000114 := 1, 0x4000013C := 2)) (a AND NOT 3)"
  by (simp add: example_ide_def pal_mmio_read_def)

lemma ide_plain: "plain_register example_ide 0 off"
  by (simp add: plain_register_def example_ide_def example_pcie_def)

lemma ide_path: "cap_path (ecap_nxt example_ide 0 (junk example_ide)) PCIE_ECAP_START [0x100]"
  by (simp add: ecap_nxt_def)

lemma ide_cap: "sel_ide_cap example_ide 0 = Some (Some (0x100, 0x00010002))"
  using ecap.walk_path [OF ide_path, of ECID_IDE "junk example_ide"]
  by (simp add: sel_ide_cap_def val_pcie_find_capability_def search_result_def ecap_id_at_def)

lemma ide_blocks: "block_at example_ide 0 0x114 0 = 0x114" "block_at example_ide 0 0x114 1 = 0x134"
  by (simp_all add: next_block_def num_addr_asso_def)

lemma ide_block2: "sel_stream_block example_ide 0 2 = Some (Some 0x134)"
  unfolding sel_stream_block_eq [OF ide_cap]
  by (simp add: first_block_def num_tc_def num_sel_streams_def next_block_def num_addr_asso_def)

section \<open>Properties\<close>

text \<open>Locating a selective stream: on a function with the IDE capability the four stream
  operations act on the block reached by skipping the link blocks and the preceding stream
  blocks, each with its own number of address association registers; a stream number of 0 or
  above the number of streams fails with status 1 and leaves every register as it is.\<close>

theorem ide_stream_operations_located:
  assumes "sel_ide_cap s bdf = Some (Some (base, reg))"
  shows "val_ide_get_num_sel_str s bdf n = Some (0, num_sel_streams reg + 1) \<and>
   (if 0 < unat k \<and> unat k \<le> unat (num_sel_streams reg) + 1
    then let off = block_at s bdf (first_block base reg) (unat k - 1) in
      val_get_sel_str_status s bdf k st = Some (0, cfg_read s bdf (off + SEL_IDE_CAP_STATUS_REG) AND 0xF) \<and>
      val_ide_program_stream_id s bdf k sid = Some (0, val_pcie_write_cfg s bdf (off + SEL_IDE_CAP_CNTRL_REG)
        (push_bit 24 sid AND 0xFF000000)) \<and>
      val_ide_set_sel_stream s bdf k 1 = Some (0, val_pcie_write_cfg s bdf (off + SEL_IDE_CAP_CNTRL_REG)
        (cfg_read s bdf (off + SEL_IDE_CAP_CNTRL_REG) OR 1))
    else val_get_sel_str_status s bdf k st = Some (1, st) \<and>
      val_ide_program_stream_id s bdf k sid = Some (1, s) \<and>
      val_ide_set_sel_stream s bdf k en = Some (1, s) \<and>
      val_ide_program_rid_base_limit_valid s bdf k rb rl v = Some (1, s) \<and>
      val_ide_establish_stream s bdf k sid bl = Some (1, s))"
  using assms sel_stream_block_eq [OF assms, of k]
  by (simp add: val_ide_get_num_sel_str_def val_get_sel_str_status_def val_ide_program_stream_id_def
      val_ide_set_sel_stream_def val_ide_program_rid_base_limit_valid_def val_ide_establish_stream_def Let_def)

theorem ide_stream_operations_located_witness:
  "val_ide_get_num_sel_str example_ide 0 0 = Some (0, 2) \<and>
   val_get_sel_str_status example_ide 0 2 9 = Some (0, 2) \<and>
   val_get_sel_str_status example_ide 0 3 9 = Some (1, 9)"
  using ide_stream_operations_located [OF ide_cap, of 0 2 9 0 0 0 0 0 0]
    ide_stream_operations_located [OF ide_cap, of 0 3 9 0 0 0 0 0 0]
  by (simp add: first_block_def num_tc_def num_sel_streams_def next_block_def num_addr_asso_def)

text \<open>Programming the requester association: the limit is stored, but the register that
  should hold the requester base ends up holding only the valid argument, because the last write
  replaces the whole register.\<close>

theorem ide_rid_base_overwritten:
  assumes "mapped s bdf" and "sel_stream_block s bdf k = Some (Some off)"
    and "plain_register s bdf (off + 0xC)" and "plain_register s bdf (off + 0x10)"
  shows "\<exists>s'. val_ide_program_rid_base_limit_valid s bdf k base limit valid = Some (0, s') \<and>
    cfg_read s' bdf (off + 0xC) = push_bit 8 limit AND 0xFFFF00 \<and>
    cfg_read s' bdf (off + 0x10) = valid"
proof -
  let ?s1 = "val_pcie_write_cfg s bdf (off + 0xC) (push_bit 8 limit AND 0xFFFF00)"
  let ?s2 = "val_pcie_write_cfg ?s1 bdf (off + 0x10) (push_bit 8 base AND 0xFFFF00)"
  have m: "mapped ?s1 bdf" "mapped ?s2 bdf" using assms(1) by simp_all
  have p: "plain_register ?s1 bdf (off + 0x10)" "plain_register ?s2 bdf (off + 0x10)"
    using assms(1,4) by simp_all
  have off: "off + 0xC + 4 = off + 0x10" by simp
  show ?thesis
    using assms(2)
    by (simp add: val_ide_program_rid_base_limit_valid_def Let_def off read_block_reg [OF m(2) p(2)]
        read_block_reg [OF m(1) p(1)] read_block_reg [OF assms(1,3)]
        del: write_cfg_mapped cfg_read_mapped)
qed

theorem ide_rid_base_overwritten_witness:
  "\<exists>s'. val_ide_program_rid_base_limit_valid example_ide 0 2 0x12 0x34 1 = Some (0, s') \<and>
    cfg_read s' 0 0x140 = 0x3400 \<and> cfg_read s' 0 0x144 = 1"
  using ide_rid_base_overwritten [OF ide_mapped ide_block2, of "0x12" "0x34" 1]
  by (simp add: ide_plain)

text \<open>The registers that programming stream \<open>off\<close> writes.\<close>

definition stream_cells :: "pcie_state \<Rightarrow> u32 \<Rightarrow> u32 \<Rightarrow> u64 \<Rightarrow> bool" where
  "stream_cells s bdf off a \<longleftrightarrow> (\<exists>d\<in>{4, 0xC, 0x10}. a = cfg_reg_addr s bdf (off + d) AND NOT 3)"

lemma stream_block_write:
  assumes "agrees (stream_cells s0 bdf off) s0 s" and "stream_outside (stream_cells s0 bdf off) s0 bdf k"
    and "d = 4 \<or> d = 0xC \<or> d = 0x10"
  shows "agrees (stream_cells s0 bdf off) s0 (val_pcie_write_cfg s bdf (off + d) v)"
    and "sel_stream_block (val_pcie_write_cfg s bdf (off + d) v) bdf k = sel_stream_block s0 bdf k"
proof -
  have "mapped s0 bdf" using assms(2) by (simp add: stream_outside_def ecap_list_outside_def)
  then have m: "mapped s bdf" by (simp add: agrees_mapped [OF assms(1)])
  have "stream_cells s0 bdf off (cfg_reg_addr s bdf (off + d) AND NOT 3)"
    using assms(3) unfolding stream_cells_def agrees_reg_addr [OF assms(1)] by blast
  then show a: "agrees (stream_cells s0 bdf off) s0 (val_pcie_write_cfg s bdf (off + d) v)"
    using m assms(1) by (simp add: agrees_write)
  show "sel_stream_block (val_pcie_write_cfg s bdf (off + d) v) bdf k = sel_stream_block s0 bdf k"
    by (rule sel_stream_block_agrees [OF a assms(2)])
qed



text \<open>The requester association values that the suite reads back are always zero: the
  fields are extracted from the status of the configuration read, not from the data.\<close>

theorem da_rid_values_always_zero:
  "rb_rid_limit (val_da_get_addr_asso_block_base s off bdf rl rb reg) = 0 \<and>
   rb_rid_base (val_da_get_addr_asso_block_base s off bdf rl rb reg) = 0 \<and>
   snd (snd (val_da_get_next_rid_values s off n bdf rl rb)) = (0, 0)"
proof -
  have st: "fst (val_pcie_read_cfg s bdf o' d) = PCIE_NO_MAPPING \<or> fst (val_pcie_read_cfg s bdf o' d) = 0" for o' d
    by (simp add: val_pcie_read_cfg_def Let_def)
  have z: "VAL_EXTRACT_BITS (fst (val_pcie_read_cfg s bdf o' d)) 8 23 = 0" for o' d
  proof -
    have "VAL_EXTRACT_BITS (PCIE_NO_MAPPING) 8 23 = 0" "VAL_EXTRACT_BITS (0 :: u32) 8 23 = 0"
      by (simp_all add: VAL_EXTRACT_BITS_def mask_eq_exp_minus_1)
    then show ?thesis using st [of o' d] by auto
  qed
  show ?thesis
    by (simp add: val_da_get_addr_asso_block_base_def val_da_get_next_rid_values_def Let_def z)
qed

end
