(* ===== verification/Pcie_Bitfield.thy ===== *)
theory Pcie_Bitfield
  imports Da_Ide
begin

text \<open>
  The register compliance checker of \<^verbatim>\<open>val/src/acs_pcie.c\<close>: the check of one bit-field entry
  (value and access attribute) on one function, the loop over all functions and entries, and the
  write-detect check of an IDE stream. A register is described by its writable and
  write-one-to-clear bits (\<open>register_is\<close>); the theorems say exactly which registers pass.
\<close>

section \<open>Entries\<close>

record pcie_cfgreg_bitfield_entry =
  bf_reg_type :: u32
  bf_cap_id :: u16
  bf_ecap_id :: u16
  bf_reg_offset :: u16
  bf_dev_port_bitmask :: u16
  bf_start :: nat
  bf_end :: nat
  bf_cfg_value :: u32
  bf_attr :: u32
  bf_err_str1 :: string
  bf_err_str2 :: string

abbreviation (input) HW_INIT :: u32 where "HW_INIT \<equiv> 0"
abbreviation (input) READ_ONLY :: u32 where "READ_ONLY \<equiv> 1"
abbreviation (input) STICKY_RO :: u32 where "STICKY_RO \<equiv> 2"
abbreviation (input) RSVDP_RO :: u32 where "RSVDP_RO \<equiv> 3"
abbreviation (input) RSVDZ_RO :: u32 where "RSVDZ_RO \<equiv> 4"
abbreviation (input) READ_WRITE :: u32 where "READ_WRITE \<equiv> 5"
abbreviation (input) STICKY_RW :: u32 where "STICKY_RW \<equiv> 6"
abbreviation (input) WRITE_DETECT :: u32 where "WRITE_DETECT \<equiv> 7"
abbreviation (input) ACS_STATUS_SKIP :: u32 where "ACS_STATUS_SKIP \<equiv> 0x10000000"

text \<open>The mask is computed in 64 bits from a 32-bit and a 64-bit shift.\<close>

definition REG_MASK :: "nat \<Rightarrow> nat \<Rightarrow> u64" where
  "REG_MASK e start = drop_bit start (ucast (push_bit start (- 1 :: u32)) AND (push_bit (e + 1) 1 - 1))"

definition REG_SHIFT :: "nat \<Rightarrow> nat \<Rightarrow> nat" where
  "REG_SHIFT alignment_byte_cnt start = alignment_byte_cnt * 8 + start"

text \<open>The value of the field, and the field's bits in place, truncated to 32 bits as the
  assignments do.\<close>

definition bf_align :: "pcie_cfgreg_bitfield_entry \<Rightarrow> nat" where
  "bf_align e = unat (bf_reg_offset e AND 3)"

definition bf_field :: "pcie_cfgreg_bitfield_entry \<Rightarrow> u32 \<Rightarrow> u32" where
  "bf_field e reg_value = ucast ((ucast (drop_bit (REG_SHIFT (bf_align e) (bf_start e)) reg_value) :: u64)
     AND REG_MASK (bf_end e) (bf_start e))"

definition bf_mask :: "pcie_cfgreg_bitfield_entry \<Rightarrow> u32" where
  "bf_mask e = ucast (push_bit (REG_SHIFT (bf_align e) (bf_start e)) (REG_MASK (bf_end e) (bf_start e)))"

definition is_warning :: "string \<Rightarrow> bool" where
  "is_warning str \<longleftrightarrow> take 7 str = ''WARNING''"

text \<open>Where the register is: \<open>Inl\<close> is the early return with that status, \<open>Inr\<close> the base offset.\<close>

definition bf_cap_base :: "pcie_state \<Rightarrow> u32 \<Rightarrow> pcie_cfgreg_bitfield_entry \<Rightarrow> (u32 + u32) option" where
  "bf_cap_base s bdf e =
     (if bf_reg_type e = HEADER then Some (Inr 0)
      else if bf_reg_type e = PCIE_CAP then do {
        (status, base) \<leftarrow> val_pcie_find_capability s bdf PCIE_CAP (ucast (bf_cap_id e)) (junk s);
        Some (if status \<noteq> PCIE_SUCCESS then Inl status else Inr base) }
      else if bf_reg_type e = PCIE_ECAP then
        if ucast (bf_ecap_id e) = ECID_DVSEC then do {
          (status, base) \<leftarrow> val_pcie_find_da_capability s bdf (junk s);
          Some (if status \<noteq> PCIE_SUCCESS then Inl status else Inr base) }
        else do {
          (status, base) \<leftarrow> val_pcie_find_capability s bdf PCIE_ECAP (ucast (bf_ecap_id e)) (junk s);
          Some (if status \<noteq> PCIE_SUCCESS then Inl status else Inr base) }
      else Some (Inl 1))"

definition bf_reg :: "u32 \<Rightarrow> pcie_cfgreg_bitfield_entry \<Rightarrow> u32" where
  "bf_reg cap_base e = cap_base + (ucast (bf_reg_offset e) - of_nat (bf_align e))"

section \<open>Checking one entry\<close>

text \<open>The attribute part of the check: \<open>reg_value\<close> is the register after the write-back. The
  result is the pair (overwritten value, reference value) that is compared, and the state;
  \<open>None\<close> is an invalid attribute.\<close>

definition bf_attr_probe ::
  "pcie_state \<Rightarrow> u32 \<Rightarrow> u32 \<Rightarrow> pcie_cfgreg_bitfield_entry \<Rightarrow> u32 \<Rightarrow> (u32 \<times> u32 \<times> pcie_state) option" where
  "bf_attr_probe s bdf reg e reg_value =
     (let rd = (\<lambda>s old. snd (val_pcie_read_cfg s bdf reg old)) in
      if bf_attr e = HW_INIT \<or> bf_attr e = READ_ONLY \<or> bf_attr e = STICKY_RO then
        let v = reg_value XOR bf_mask e; s' = val_pcie_write_cfg s bdf reg v
        in Some (rd s' v, reg_value, s')
      else if bf_attr e = RSVDP_RO then
        let s' = val_pcie_write_cfg s bdf reg reg_value
        in Some (bf_field e (rd s' reg_value), 0, s')
      else if bf_attr e = RSVDZ_RO then
        let v = reg_value AND NOT (bf_mask e); s' = val_pcie_write_cfg s bdf reg v
        in Some (rd s' v, reg_value, s')
      else if bf_attr e = READ_WRITE \<or> bf_attr e = STICKY_RW then
        let v = reg_value XOR bf_mask e; s' = val_pcie_write_cfg s bdf reg v
        in Some (v, rd s' reg_value, val_pcie_write_cfg s' bdf reg reg_value)
      else None)"

definition val_pcie_bitfield_check ::
  "pcie_state \<Rightarrow> u32 \<Rightarrow> pcie_cfgreg_bitfield_entry \<Rightarrow> (u32 \<times> pcie_state) option" where
  "val_pcie_bitfield_check s bdf e = do {
     loc \<leftarrow> bf_cap_base s bdf e;
     case loc of
       Inl status \<Rightarrow> Some (status, s)
     | Inr cap_base \<Rightarrow>
         let reg = bf_reg cap_base e;
             reg0 = cfg_read s bdf reg;
             s1 = val_pcie_write_cfg s bdf reg reg0;
             reg_value = snd (val_pcie_read_cfg s1 bdf reg reg0)
         in if bf_field e reg_value \<noteq> bf_cfg_value e then
              Some (if is_warning (bf_err_str1 e) then 0 else 1, s1)
            else (case bf_attr_probe s1 bdf reg e reg_value of
                None \<Rightarrow> Some (1, s1)
              | Some (over, ref, s2) \<Rightarrow>
                  if over \<noteq> ref then Some (if is_warning (bf_err_str2 e) then 0 else 1, s2)
                  else Some (0, s2)) }"

section \<open>Checking all functions\<close>

text \<open>The inner loop over the entries: the counters of failed and passed checks and the state.\<close>

primrec entries_loop ::
  "u32 \<Rightarrow> u32 \<Rightarrow> u32 \<times> u32 \<times> pcie_state \<Rightarrow> pcie_cfgreg_bitfield_entry list \<Rightarrow> (u32 \<times> u32 \<times> pcie_state) option" where
  "entries_loop bdf dp_type acc [] = Some acc"
| "entries_loop bdf dp_type acc (e # es) =
     (case acc of (fails, passes, s) \<Rightarrow>
        if (ucast dp_type :: u16) AND bf_dev_port_bitmask e = 0 then entries_loop bdf dp_type acc es
        else do {
          (r, s') \<leftarrow> val_pcie_bitfield_check s bdf e;
          if c_true r then entries_loop bdf dp_type (fails + 1, passes, s') es
          else entries_loop bdf dp_type (fails, passes + 1, s') es })"

primrec functions_loop ::
  "pcie_cfgreg_bitfield_entry list \<Rightarrow> u32 \<times> u32 \<times> pcie_state \<Rightarrow> u32 list \<Rightarrow> (u32 \<times> u32 \<times> pcie_state) option" where
  "functions_loop es acc [] = Some acc"
| "functions_loop es acc (bdf # bdfs) =
     (case acc of (fails, passes, s) \<Rightarrow> do {
        s1 \<leftarrow> val_pcie_disable_eru s bdf;
        dp_type \<leftarrow> val_pcie_device_port_type s1 bdf;
        acc' \<leftarrow> entries_loop bdf dp_type (fails, passes, s1) es;
        functions_loop es acc' bdfs })"

definition val_pcie_register_bitfields_check ::
  "pcie_state \<Rightarrow> pcie_cfgreg_bitfield_entry list \<Rightarrow> (u32 \<times> pcie_state) option" where
  "val_pcie_register_bitfields_check s es = do {
     table \<leftarrow> g_pcie_bdf_table s;
     (fails, passes, s') \<leftarrow> functions_loop es (0, 0, s) (map attr_bdf table);
     Some (if 0 < passes \<or> 0 < fails then fails else ACS_STATUS_SKIP, s') }"

section \<open>Write-detect check\<close>

text \<open>The status of \<open>val_get_sel_str_status\<close> is ignored: when it fails, the compared variable is
  not written.\<close>

definition val_pcie_write_detect_bitfield_check ::
  "pcie_state \<Rightarrow> u32 \<Rightarrow> pcie_cfgreg_bitfield_entry \<Rightarrow> u32 \<Rightarrow> (u32 \<times> pcie_state) option" where
  "val_pcie_write_detect_bitfield_check s bdf e ide_sel_str_cnt = do {
     loc \<leftarrow> bf_cap_base s bdf e;
     case loc of
       Inl status \<Rightarrow> Some (status, s)
     | Inr cap_base \<Rightarrow>
         let reg = bf_reg cap_base e;
             reg0 = cfg_read s bdf reg;
             s1 = val_pcie_write_cfg s bdf reg reg0;
             reg_value = snd (val_pcie_read_cfg s1 bdf reg reg0)
         in if bf_attr e = WRITE_DETECT then do {
              let s2 = val_pcie_write_cfg s1 bdf reg (reg_value XOR bf_mask e);
              (_, str_status) \<leftarrow> val_get_sel_str_status s2 bdf ide_sel_str_cnt (junk s2);
              let s3 = val_pcie_write_cfg s2 bdf reg reg_value;
              Some (if str_status \<noteq> STREAM_STATE_INSECURE
                    then if is_warning (bf_err_str2 e) then 0 else 1 else 0, s3) }
            else Some (1, s1) }"

section \<open>Field masks\<close>

lemma REG_MASK_mask:
  assumes "start \<le> e" and "e < 32"
  shows "REG_MASK e start = mask (e - start + 1)"
proof (rule bit_word_eqI)
  fix i assume i: "i < LENGTH(64)"
  have m: "push_bit (e + 1) 1 - 1 = (mask (e + 1) :: u64)"
    by (simp add: mask_eq_exp_minus_1 push_bit_eq_mult)
  show "bit (REG_MASK e start) i = bit (mask (e - start + 1) :: u64) i"
    unfolding REG_MASK_def m using assms i
    by (auto simp: bit_drop_bit_eq bit_and_iff bit_ucast_iff bit_push_bit_iff bit_mask_iff bit_not_iff)
qed

lemma bit_bf_mask:
  assumes "bf_start e \<le> bf_end e" and "bf_end e < 32"
  shows "bit (bf_mask e) i \<longleftrightarrow> REG_SHIFT (bf_align e) (bf_start e) \<le> i \<and>
    i < REG_SHIFT (bf_align e) (bf_start e) + (bf_end e - bf_start e + 1) \<and> i < 32"
  unfolding bf_mask_def REG_MASK_mask [OF assms]
  by (auto simp: bit_ucast_iff bit_push_bit_iff bit_mask_iff)

lemma bf_field_take:
  assumes "bf_start e \<le> bf_end e" and "bf_end e < 32"
  shows "bf_field e v = take_bit (bf_end e - bf_start e + 1) (drop_bit (REG_SHIFT (bf_align e) (bf_start e)) v)"
  unfolding bf_field_def REG_MASK_mask [OF assms]
  by (rule bit_word_eqI) (auto simp: bit_ucast_iff bit_and_iff bit_mask_iff bit_take_bit_iff)

section \<open>What each attribute probe detects\<close>

lemma write_back_clears: "reg_effect rw w1c v v = v AND (rw OR NOT w1c)"
  by (rule bit_word_eqI) (auto simp: bit_reg_effect bit_and_iff bit_or_iff bit_not_iff)

lemma cleared_status: "v = u AND (rw OR NOT w1c) \<Longrightarrow> bit v i \<Longrightarrow> \<not> bit rw i \<Longrightarrow> \<not> bit w1c i"
  by (auto simp: bit_and_iff bit_or_iff bit_not_iff)

lemma u32_eq_iff: "(x :: u32) = y \<longleftrightarrow> (\<forall>i<32. bit x i = bit y i)"
  using bit_word_eqI [of x y] by auto

lemma probe_toggle:
  assumes "v = u AND (rw OR NOT w1c)"
  shows "reg_effect rw w1c v (v XOR m) = v \<longleftrightarrow> m AND rw = 0"
    and "v XOR m = reg_effect rw w1c v (v XOR m) \<longleftrightarrow> m AND NOT rw = 0"
    and "reg_effect rw w1c (reg_effect rw w1c v (v XOR m)) v = v"
  using cleared_status [OF assms] unfolding u32_eq_iff
  by (auto simp: bit_reg_effect bit_xor_iff bit_and_iff bit_not_iff)

lemma probe_clear:
  assumes "v = u AND (rw OR NOT w1c)"
  shows "reg_effect rw w1c v (v AND NOT m) = v \<longleftrightarrow> v AND m AND rw = 0"
    and "reg_effect rw w1c v v = v"
  using cleared_status [OF assms] unfolding u32_eq_iff
  by (auto simp: bit_reg_effect bit_and_iff bit_not_iff)

lemma attr_cases: "7 \<le> (a :: u32) \<or> a = 0 \<or> a = 1 \<or> a = 2 \<or> a = 3 \<or> a = 4 \<or> a = 5 \<or> a = 6"
proof (cases "7 \<le> a")
  case False
  then have "unat a < 7" by (simp add: word_le_nat_alt)
  then show ?thesis unfolding word_unat_eq_iff by simp arith
qed simp

section \<open>Properties\<close>

text \<open>The field of an entry that fits its 32-bit register is the bits \<open>start\<close> to \<open>end\<close> of the
  addressed byte offset: the mask has ones exactly at these positions of the aligned register and
  the extracted value is the field shifted down.\<close>

theorem pcie_bitfield_mask:
  assumes "bf_start e \<le> bf_end e" and "REG_SHIFT (bf_align e) (bf_end e) < 32"
  shows "(bit (bf_mask e) i \<longleftrightarrow> REG_SHIFT (bf_align e) (bf_start e) \<le> i \<and> i \<le> REG_SHIFT (bf_align e) (bf_end e)) \<and>
    bf_field e v = take_bit (bf_end e - bf_start e + 1) (drop_bit (REG_SHIFT (bf_align e) (bf_start e)) v) \<and>
    push_bit (REG_SHIFT (bf_align e) (bf_start e)) (bf_field e v) = v AND bf_mask e"
proof -
  have e: "bf_end e < 32" using assms(2) by (simp add: REG_SHIFT_def)
  note m = bit_bf_mask [OF assms(1) e] and f = bf_field_take [OF assms(1) e]
  have "push_bit (REG_SHIFT (bf_align e) (bf_start e)) (bf_field e v) = v AND bf_mask e"
    unfolding f by (rule bit_word_eqI)
      (auto simp: bit_push_bit_iff bit_take_bit_iff bit_drop_bit_eq bit_and_iff m)
  then show ?thesis using assms m [of i] f by (auto simp: REG_SHIFT_def)
qed

text \<open>An entry for the bus master enable bit, expected to be clear and writable.\<close>

definition example_entry :: pcie_cfgreg_bitfield_entry where
  "example_entry = \<lparr>bf_reg_type = 0, bf_cap_id = 0, bf_ecap_id = 0, bf_reg_offset = 4,
     bf_dev_port_bitmask = 0xFFFF, bf_start = 2, bf_end = 2, bf_cfg_value = 0, bf_attr = 5,
     bf_err_str1 = ''BME value'', bf_err_str2 = ''BME attribute''\<rparr>"

lemma example_entry_fields:
  "bf_reg_type example_entry = 0" "bf_start example_entry = 2" "bf_end example_entry = 2"
  "bf_cfg_value example_entry = 0" "bf_attr example_entry = 5" "bf_reg_offset example_entry = 4"
  "bf_align example_entry = 0" "bf_reg base example_entry = base + 4"
  by (simp_all add: example_entry_def bf_align_def bf_reg_def)

lemma example_entry_mask: "bf_mask example_entry = 4" "bf_field example_entry v = take_bit 1 (drop_bit 2 v)"
proof -
  have r: "bf_start example_entry \<le> bf_end example_entry" "bf_end example_entry < 32"
    by (simp_all add: example_entry_fields)
  have sh: "REG_SHIFT (bf_align example_entry) (bf_start example_entry) = 2"
    by (simp add: example_entry_fields REG_SHIFT_def)
  show "bf_mask example_entry = 4"
    unfolding bf_mask_def sh REG_MASK_mask [OF r] by (simp add: example_entry_fields)
  show "bf_field example_entry v = take_bit 1 (drop_bit 2 v)"
    unfolding bf_field_take [OF r] sh by (simp add: example_entry_fields)
qed

theorem pcie_bitfield_mask_witness: "\<not> bit (bf_mask example_entry) 3 \<and> bit (bf_mask example_entry) 2"
  using pcie_bitfield_mask [of example_entry 3 4] pcie_bitfield_mask [of example_entry 2 4]
  by (simp add: example_entry_fields REG_SHIFT_def)

text \<open>(C14) The verdict of the checker on a register with writable bits \<open>rw\<close> and
  write-one-to-clear bits \<open>w1c\<close>. After pending status bits are cleared, the field must have the
  configured value; then a read-only entry passes exactly when no bit of the field is writable, a
  read-write entry exactly when every bit is, a reserved-preserved entry when the field reads
  zero, and a reserved-zero entry when no writable bit of the field is set. A mismatch counts as a
  pass only when the entry's message starts with WARNING. After a read-write check the register
  holds its value again.\<close>

theorem pcie_bitfield_check_verdict:
  assumes "bf_cap_base s bdf e = Some (Inr base)" and "register_is s bdf (bf_reg base e) rw w1c"
    and "v = cfg_read s bdf (bf_reg base e) AND (rw OR NOT w1c)"
  shows "\<exists>s'. val_pcie_bitfield_check s bdf e = Some
     (if bf_field e v \<noteq> bf_cfg_value e then (if is_warning (bf_err_str1 e) then 0 else 1)
      else if 7 \<le> bf_attr e then 1
      else if (if bf_attr e \<le> STICKY_RO then bf_mask e AND rw = 0
               else if bf_attr e = RSVDP_RO then bf_field e v = 0
               else if bf_attr e = RSVDZ_RO then v AND bf_mask e AND rw = 0
               else bf_mask e AND NOT rw = 0)
      then 0 else if is_warning (bf_err_str2 e) then 0 else 1, s') \<and>
    (bf_attr e \<in> {READ_WRITE, STICKY_RW} \<longrightarrow> cfg_read s' bdf (bf_reg base e) = v)"
proof -
  let ?r = "bf_reg base e"
  let ?s1 = "val_pcie_write_cfg s bdf ?r (cfg_read s bdf ?r)"
  have m: "mapped s bdf" using assms(2) by (simp add: register_is_def)
  have rd: "snd (val_pcie_read_cfg t bdf ?r d) = cfg_read t bdf ?r" if "mapped t bdf" for t d
    using that by simp
  have mw: "mapped (val_pcie_write_cfg t bdf ?r w) bdf" "register_is (val_pcie_write_cfg t bdf ?r w) bdf ?r rw w1c"
    if "register_is t bdf ?r rw w1c" for t w
    using that by (simp_all add: register_is_def)
  have v: "cfg_read ?s1 bdf ?r = v"
    unfolding cfg_read_after_write [OF assms(2)] write_back_clears assms(3) by simp
  have r1: "register_is ?s1 bdf ?r rw w1c" by (rule mw(2) [OF assms(2)])
  have r2: "cfg_read (val_pcie_write_cfg ?s1 bdf ?r w) bdf ?r = reg_effect rw w1c v w" for w
    unfolding cfg_read_after_write [OF r1] v by simp
  have r3: "cfg_read (val_pcie_write_cfg (val_pcie_write_cfg ?s1 bdf ?r w) bdf ?r w') bdf ?r
      = reg_effect rw w1c (reg_effect rw w1c v w) w'" for w w'
    unfolding cfg_read_after_write [OF mw(2) [OF r1]] r2 by simp
  note st = rd [OF mw(1) [OF assms(2)]] rd [OF mw(1) [OF r1]] rd [OF mw(1) [OF mw(2) [OF r1]]]
  have chk: "val_pcie_bitfield_check s bdf e =
    (if bf_field e v \<noteq> bf_cfg_value e then Some (if is_warning (bf_err_str1 e) then 0 else 1, ?s1)
     else case bf_attr_probe ?s1 bdf ?r e v of
         None \<Rightarrow> Some (1, ?s1)
       | Some (over, ref, s2) \<Rightarrow>
           if over \<noteq> ref then Some (if is_warning (bf_err_str2 e) then 0 else 1, s2) else Some (0, s2))"
    by (simp only: val_pcie_bitfield_check_def assms(1) bind.bind_lunit sum.case Let_def st v)
  have hi: "7 \<le> (a :: u32) \<Longrightarrow> \<not> a \<le> 2 \<and> a \<noteq> 0 \<and> a \<noteq> 1 \<and> a \<noteq> 2 \<and> a \<noteq> 3 \<and> a \<noteq> 4 \<and> a \<noteq> 5 \<and> a \<noteq> 6" for a
    by (auto simp: word_le_nat_alt)
  show ?thesis
  proof (cases "7 \<le> bf_attr e")
    case True
    then show ?thesis using hi [OF True] unfolding chk bf_attr_probe_def Let_def by simp
  next
    case False
    then show ?thesis
      using attr_cases [of "bf_attr e"] v r3 probe_toggle [OF assms(3)] probe_clear [OF assms(3)]
      unfolding chk bf_attr_probe_def Let_def st r2
      by (elim disjE) (simp_all add: word_le_nat_alt)
  qed
qed

theorem pcie_bitfield_check_verdict_witness:
  "\<exists>s'. val_pcie_bitfield_check (example_topology None) 0 example_entry = Some (0, s')"
proof -
  have b: "bf_cap_base (example_topology None) 0 example_entry = Some (Inr 0)"
    by (simp add: bf_cap_base_def example_entry_fields)
  have r: "register_is (example_topology None) 0 (bf_reg 0 example_entry) 0x7FF 0xFFFF0000"
    by (simp add: register_is_def topology_devices topology_info bf_reg_def)
  have "cfg_read (example_topology None) 0 (bf_reg 0 example_entry) AND (0x7FF OR NOT 0xFFFF0000) = 0"
    by (simp add: topology_devices topology_read example_entry_fields rp_page_def)
  from pcie_bitfield_check_verdict [OF b r this [symmetric]] show ?thesis
    by (auto simp: example_entry_fields example_entry_mask word_le_nat_alt)
qed

end
