(* ===== verification/Val_Infra.thy ===== *)
theory Val_Infra
  imports Acs_Prelude
begin

text \<open>
  The test harness of the validation layer (\<^verbatim>\<open>val/src/acs_test_infra.c\<close>,
  \<^verbatim>\<open>val/src/acs_status.c\<close>, \<^verbatim>\<open>val/src/acs_pe_infra.c\<close>, \<^verbatim>\<open>val/src/test_entry_rme.c\<close>):
  the status words, the memory that the processing elements share, starting a test on other
  elements, waiting for their results, the verdict and the counters, and the order of the tests.

  The other elements work while the harness reads: what they do to the shared entries between two
  reads is the parameter \<open>secondary\<close>, and the power-on call of the firmware is the parameter
  \<open>execute_payload\<close>. Accesses outside the shared entries or the table of elements are \<open>None\<close>.
\<close>

section \<open>Status words\<close>

definition RESULT_PASS :: "u32 \<Rightarrow> u32 \<Rightarrow> u32" where
  "RESULT_PASS test_num st = push_bit 28 4 OR (push_bit 12 test_num OR st)"

definition RESULT_FAIL :: "u32 \<Rightarrow> u32 \<Rightarrow> u32" where
  "RESULT_FAIL test_num st = push_bit 28 8 OR (push_bit 12 test_num OR st)"

definition RESULT_SKIP :: "u32 \<Rightarrow> u32 \<Rightarrow> u32" where
  "RESULT_SKIP test_num st = push_bit 28 9 OR (push_bit 12 test_num OR st)"

definition RESULT_PENDING :: "u32 \<Rightarrow> u32" where
  "RESULT_PENDING test_num = push_bit 28 0xA OR push_bit 12 test_num"

definition IS_RESULT_PENDING :: "u32 \<Rightarrow> bool" where
  "IS_RESULT_PENDING v \<longleftrightarrow> drop_bit 28 v AND 0xF = 0xA"

definition IS_TEST_PASS :: "u32 \<Rightarrow> bool" where
  "IS_TEST_PASS v \<longleftrightarrow> drop_bit 28 v AND 0xF = 4"

definition IS_TEST_FAIL :: "u32 \<Rightarrow> bool" where
  "IS_TEST_FAIL v \<longleftrightarrow> drop_bit 28 v AND 0xF = 8"

definition IS_TEST_SKIP :: "u32 \<Rightarrow> bool" where
  "IS_TEST_SKIP v \<longleftrightarrow> drop_bit 28 v AND 0xF = 9"

definition IS_TEST_FAIL_SKIP :: "u32 \<Rightarrow> bool" where
  "IS_TEST_FAIL_SKIP v \<longleftrightarrow> IS_TEST_FAIL v \<or> IS_TEST_SKIP v"

abbreviation (input) ACS_STATUS_PASS :: u32 where "ACS_STATUS_PASS \<equiv> 0"
abbreviation (input) ACS_STATUS_FAIL :: u32 where "ACS_STATUS_FAIL \<equiv> 0x90000000"
abbreviation (input) ACS_STATUS_SKIP :: u32 where "ACS_STATUS_SKIP \<equiv> 0x10000000"
abbreviation (input) ACS_STATUS_ERR :: u32 where "ACS_STATUS_ERR \<equiv> 0xEDCB1234"

section \<open>State\<close>

record val_shared_mem =
  data0 :: u64
  data1 :: u64
  status :: u32

record pe_info_entry =
  pe_num :: u32
  pe_attr :: u32
  mpidr :: u64
  pmu_gsiv :: u32

record pe_info_table =
  num_of_pe :: u32
  pe_info :: "pe_info_entry list"

record val_world =
  shared_mem :: "val_shared_mem list"
  g_pe_info_table :: "pe_info_table option"
  mpidr_el1 :: u64
  esr_table :: "u32 \<Rightarrow> u64"
  g_rme_tests_total :: u32
  g_rme_tests_pass :: u32
  g_rme_tests_fail :: u32
  g_skip_test_num :: "u32 list"
  g_single_test :: u32
  g_single_module :: u32
  g_exception_ret_addr :: u64
  free_mem_var_pa :: u64
  free_mem_var_va :: u64
  unique_stream_id :: u32

record val_env =
  secondary :: "val_shared_mem list \<Rightarrow> val_shared_mem list"
  execute_payload :: "u64 \<Rightarrow> val_world \<Rightarrow> u64"
  default_esr :: u64
  timeout_large :: nat

abbreviation (input) SINGLE_TEST_SENTINEL :: u32 where "SINGLE_TEST_SENTINEL \<equiv> 10000"
abbreviation (input) SINGLE_MODULE_SENTINEL :: u32 where "SINGLE_MODULE_SENTINEL \<equiv> 10001"

section \<open>Elements and shared entries\<close>

definition val_set_status :: "u32 \<Rightarrow> u32 \<Rightarrow> val_world \<Rightarrow> val_world option" where
  "val_set_status index st w =
     (let i = unat index; l = shared_mem w in
      if i < length l then Some (w\<lparr>shared_mem := l[i := (l ! i)\<lparr>status := st\<rparr>]\<rparr>) else None)"

definition val_get_status :: "val_env \<Rightarrow> u32 \<Rightarrow> val_world \<Rightarrow> (u32 \<times> val_world) option" where
  "val_get_status env index w =
     (let i = unat index; l = secondary env (shared_mem w) in
      if i < length l then Some (status (l ! i), w\<lparr>shared_mem := l\<rparr>) else None)"

definition val_pe_get_num :: "val_world \<Rightarrow> u32" where
  "val_pe_get_num w = (case g_pe_info_table w of None \<Rightarrow> 0 | Some t \<Rightarrow> num_of_pe t)"

definition val_pe_get_mpid :: "val_world \<Rightarrow> u64" where
  "val_pe_get_mpid w = mpidr_el1 w AND 0xFF00FFFFFF"

definition val_pe_get_mpid_index :: "u32 \<Rightarrow> val_world \<Rightarrow> u64 option" where
  "val_pe_get_mpid_index index w = do {
     t \<leftarrow> g_pe_info_table w;
     if num_of_pe t < index then Some 0xFFFFFF
     else if unat index < length (pe_info t) then Some (mpidr (pe_info t ! unat index)) else None }"

primrec index_loop :: "u64 \<Rightarrow> nat \<Rightarrow> pe_info_entry list \<Rightarrow> u32 option" where
  "index_loop mpid 0 es = Some 0"
| "index_loop mpid (Suc i) es =
     (case es of [] \<Rightarrow> None
      | e # es' \<Rightarrow> if mpidr e = mpid then Some (pe_num e) else index_loop mpid i es')"

definition val_pe_get_index_mpid :: "u64 \<Rightarrow> val_world \<Rightarrow> u32 option" where
  "val_pe_get_index_mpid mpid w = do {
     t \<leftarrow> g_pe_info_table w;
     index_loop mpid (unat (num_of_pe t)) (pe_info t) }"

definition val_set_test_data :: "u32 \<Rightarrow> u64 \<Rightarrow> u64 \<Rightarrow> val_world \<Rightarrow> val_world option" where
  "val_set_test_data index addr test_data w =
     (if val_pe_get_num w < index then Some w
      else let i = unat index; l = shared_mem w in
        if i < length l then Some (w\<lparr>shared_mem := l[i := (l ! i)\<lparr>data0 := addr, data1 := test_data\<rparr>]\<rparr>) else None)"

text \<open>\<open>d\<close> holds the caller's variables, which a bad index leaves alone.\<close>

definition val_get_test_data :: "u32 \<Rightarrow> u64 \<times> u64 \<Rightarrow> val_world \<Rightarrow> (u64 \<times> u64) option" where
  "val_get_test_data index d w =
     (if val_pe_get_num w < index then Some d
      else let i = unat index; l = shared_mem w in
        if i < length l then Some (data0 (l ! i), data1 (l ! i)) else None)"

text \<open>The call that powers an element on gives a result code; \<open>-4\<close> says that the element still runs
  and is retried.\<close>

primrec power_on_loop :: "val_env \<Rightarrow> u32 \<Rightarrow> u64 \<Rightarrow> u64 \<Rightarrow> nat \<Rightarrow> val_world \<Rightarrow> (u64 \<times> val_world) option" where
  "power_on_loop env index payload arg 0 w = do {
     mpid \<leftarrow> val_pe_get_mpid_index index w;
     w1 \<leftarrow> val_set_test_data index payload arg w;
     Some (execute_payload env mpid w1, w1) }"
| "power_on_loop env index payload arg (Suc timeout) w = do {
     mpid \<leftarrow> val_pe_get_mpid_index index w;
     w1 \<leftarrow> val_set_test_data index payload arg w;
     (let r = execute_payload env mpid w1 in
      if r = -4 then power_on_loop env index payload arg timeout (w1\<lparr>shared_mem := secondary env (shared_mem w1)\<rparr>)
      else Some (r, w1)) }"

definition val_execute_on_pe :: "val_env \<Rightarrow> u32 \<Rightarrow> u64 \<Rightarrow> u64 \<Rightarrow> val_world \<Rightarrow> val_world option" where
  "val_execute_on_pe env index payload arg w = do {
     t \<leftarrow> g_pe_info_table w;
     if num_of_pe t < index then Some w
     else do {
       (r, w1) \<leftarrow> power_on_loop env index payload arg (timeout_large env) w;
       if r = 0 then Some w1
       else val_set_status index (RESULT_FAIL 0 (0x120 - ucast r)) w1 } }"

definition val_pe_install_esr :: "u32 \<Rightarrow> u64 \<Rightarrow> val_world \<Rightarrow> u32 \<times> val_world" where
  "val_pe_install_esr exception_type esr w =
     (if 3 < exception_type then (ACS_STATUS_ERR, w)
      else (0, w\<lparr>esr_table := (esr_table w)(exception_type := esr)\<rparr>))"

definition val_pe_initialize_default_exception_handler :: "u64 \<Rightarrow> val_world \<Rightarrow> val_world" where
  "val_pe_initialize_default_exception_handler esr w = snd (val_pe_install_esr 0 esr w)"

text \<open>The default handler records a failure and returns the address to continue at.\<close>

definition val_pe_default_esr :: "val_world \<Rightarrow> (u64 \<times> val_world) option" where
  "val_pe_default_esr w = do {
     index \<leftarrow> val_pe_get_index_mpid (val_pe_get_mpid w) w;
     w1 \<leftarrow> val_set_status index (RESULT_FAIL 0 1) w;
     Some (g_exception_ret_addr w, w1) }"

section \<open>A test\<close>

primrec pending_loop :: "u32 \<Rightarrow> nat \<Rightarrow> u32 \<Rightarrow> val_world \<Rightarrow> val_world option" where
  "pending_loop test_num 0 i w = Some w"
| "pending_loop test_num (Suc n) i w = do {
     w1 \<leftarrow> val_set_status i (RESULT_PENDING test_num) w;
     pending_loop test_num n (i + 1) w1 }"

definition val_initialize_test :: "val_env \<Rightarrow> u32 \<Rightarrow> u32 \<Rightarrow> val_world \<Rightarrow> (u32 \<times> val_world) option" where
  "val_initialize_test env test_num num_pe w = do {
     index \<leftarrow> val_pe_get_index_mpid (val_pe_get_mpid w) w;
     let w1 = val_pe_initialize_default_exception_handler (default_esr env) w;
     w2 \<leftarrow> pending_loop test_num (unat num_pe) 0 (w1\<lparr>g_rme_tests_total := g_rme_tests_total w1 + 1\<rparr>);
     if test_num \<in> set (g_skip_test_num w2) then do {
       w3 \<leftarrow> val_set_status index (RESULT_SKIP test_num 0) w2;
       Some (ACS_STATUS_SKIP, w3) }
     else if (g_single_test w2 \<noteq> SINGLE_TEST_SENTINEL \<and> test_num \<noteq> g_single_test w2) \<and>
         (g_single_module w2 = SINGLE_MODULE_SENTINEL \<or>
          (100 \<le> test_num - g_single_module w2 \<or> test_num - g_single_module w2 \<le> 0)) then do {
       w3 \<leftarrow> val_set_status index (RESULT_SKIP test_num 0) w2;
       Some (ACS_STATUS_SKIP, w3) }
     else Some (ACS_STATUS_PASS, w2) }"

text \<open>One round over the elements: \<open>j\<close> is one more than the last element that is still pending.\<close>

primrec poll :: "val_env \<Rightarrow> nat \<Rightarrow> u32 \<Rightarrow> u32 \<Rightarrow> val_world \<Rightarrow> (u32 \<times> val_world) option" where
  "poll env 0 i j w = Some (j, w)"
| "poll env (Suc n) i j w = do {
     (st, w1) \<leftarrow> val_get_status env i w;
     poll env n (i + 1) (if IS_RESULT_PENDING st then i + 1 else j) w1 }"

primrec wait_rounds :: "val_env \<Rightarrow> u32 \<Rightarrow> u32 \<Rightarrow> nat \<Rightarrow> u32 \<Rightarrow> val_world \<Rightarrow> val_world option" where
  "wait_rounds env test_num num_pe 0 j w = val_set_status (j - 1) (RESULT_FAIL test_num 0xF) w"
| "wait_rounds env test_num num_pe (Suc r) j w = do {
     (j1, w1) \<leftarrow> poll env (unat num_pe) 0 0 w;
     if j1 = 0 then Some w1 else wait_rounds env test_num num_pe r j1 w1 }"

text \<open>\<^verbatim>\<open>while (--timeout)\<close> runs \<open>timeout - 1\<close> rounds at 32 bits.\<close>

definition val_wait_for_test_completion :: "val_env \<Rightarrow> u32 \<Rightarrow> u32 \<Rightarrow> u32 \<Rightarrow> val_world \<Rightarrow> val_world option" where
  "val_wait_for_test_completion env test_num num_pe timeout w =
     (if num_pe = 1 then Some w else wait_rounds env test_num num_pe (unat (timeout - 1)) 0 w)"

primrec run_loop :: "val_env \<Rightarrow> u32 \<Rightarrow> u64 \<Rightarrow> u64 \<Rightarrow> nat \<Rightarrow> u32 \<Rightarrow> val_world \<Rightarrow> val_world option" where
  "run_loop env my_index payload arg 0 i w = Some w"
| "run_loop env my_index payload arg (Suc n) i w = do {
     w1 \<leftarrow> (if i \<noteq> my_index then val_execute_on_pe env i payload arg w else Some w);
     run_loop env my_index payload arg n (i + 1) w1 }"

text \<open>\<open>run\<close> is the effect of the payload at address \<open>payload\<close> on the present element.\<close>

definition val_run_test_payload ::
  "val_env \<Rightarrow> u32 \<Rightarrow> u32 \<Rightarrow> (val_world \<Rightarrow> val_world option) \<Rightarrow> u64 \<Rightarrow> u64 \<Rightarrow> val_world \<Rightarrow> val_world option" where
  "val_run_test_payload env test_num num_pe run payload arg w = do {
     my_index \<leftarrow> val_pe_get_index_mpid (val_pe_get_mpid w) w;
     w1 \<leftarrow> run w;
     if num_pe = 1 then Some w1
     else do {
       w2 \<leftarrow> run_loop env my_index payload arg (unat num_pe) 0 w1;
       val_wait_for_test_completion env test_num num_pe (of_nat (timeout_large env)) w2 } }"

primrec check_loop :: "val_env \<Rightarrow> nat \<Rightarrow> u32 \<Rightarrow> u32 \<Rightarrow> val_world \<Rightarrow> (u32 \<times> val_world) option" where
  "check_loop env 0 i st w = Some (st, w)"
| "check_loop env (Suc n) i st w = do {
     (st1, w1) \<leftarrow> val_get_status env i w;
     if IS_TEST_FAIL_SKIP st1 then Some (st1, w1) else check_loop env n (i + 1) st1 w1 }"

definition val_check_for_error :: "val_env \<Rightarrow> u32 \<Rightarrow> val_world \<Rightarrow> (u32 \<times> val_world) option" where
  "val_check_for_error env num_pe w = do {
     my_index \<leftarrow> val_pe_get_index_mpid (val_pe_get_mpid w) w;
     (st, w1) \<leftarrow> (if num_pe = 1 then val_get_status env my_index w else check_loop env (unat num_pe) 0 0 w);
     Some (if IS_TEST_PASS st then (ACS_STATUS_PASS, w1\<lparr>g_rme_tests_pass := g_rme_tests_pass w1 + 1\<rparr>)
           else if IS_TEST_SKIP st then (ACS_STATUS_SKIP, w1)
           else (ACS_STATUS_FAIL, w1\<lparr>g_rme_tests_fail := g_rme_tests_fail w1 + 1\<rparr>)) }"

text \<open>The shape of every test entry.\<close>

definition test_entry ::
  "val_env \<Rightarrow> u32 \<Rightarrow> u32 \<Rightarrow> (val_world \<Rightarrow> val_world option) \<Rightarrow> u64 \<Rightarrow> val_world \<Rightarrow> (u32 \<times> val_world) option" where
  "test_entry env test_num num_pe run payload w = do {
     (st, w1) \<leftarrow> val_initialize_test env test_num num_pe w;
     w2 \<leftarrow> (if st \<noteq> ACS_STATUS_SKIP then val_run_test_payload env test_num num_pe run payload 0 w1 else Some w1);
     val_check_for_error env num_pe w2 }"

section \<open>Free memory, stream identifiers, order of the tests\<close>

definition val_get_free_pa :: "u64 \<Rightarrow> u64 \<Rightarrow> val_world \<Rightarrow> u64 \<times> val_world" where
  "val_get_free_pa sz alignment w =
     (let mem_base = free_mem_var_pa w AND NOT (alignment - 1) in
      (mem_base, w\<lparr>free_mem_var_pa := (if alignment < sz then mem_base + sz else mem_base + alignment)\<rparr>))"

definition val_get_free_va :: "u64 \<Rightarrow> val_world \<Rightarrow> u64 \<times> val_world" where
  "val_get_free_va sz w = (free_mem_var_va w, w\<lparr>free_mem_var_va := free_mem_var_va w + sz\<rparr>)"

definition val_get_min_tg :: "u64 \<Rightarrow> u64" where
  "val_get_min_tg mmfr0 =
     (if drop_bit 28 (mmfr0 AND push_bit 28 0xF) = 0 then 4 * 1024
      else if drop_bit 24 (mmfr0 AND push_bit 24 0xF) = 0 then 16 * 1024
      else 64 * 1024)"

definition val_generate_stream_id :: "val_world \<Rightarrow> u32 \<times> val_world" where
  "val_generate_stream_id w =
     (let u = unique_stream_id w + 1; v = (if 255 < u then 1 else u)
      in (v, w\<lparr>unique_stream_id := v\<rparr>))"

text \<open>A test of a suite is an operation with a status; the statuses of a sequence are joined.\<close>

type_synonym 's test_op = "'s \<Rightarrow> u32 \<times> 's"

primrec join_tests :: "'s test_op list \<Rightarrow> u32 \<times> 's \<Rightarrow> u32 \<times> 's" where
  "join_tests [] r = r"
| "join_tests (t # ts) r = (case t (snd r) of (st, s) \<Rightarrow> join_tests ts (fst r OR st, s))"

text \<open>\<open>first t ts\<close>: the status starts over with \<open>t\<close>.\<close>

definition from_test :: "'s test_op \<Rightarrow> 's test_op list \<Rightarrow> 's \<Rightarrow> u32 \<times> 's" where
  "from_test t ts s = join_tests ts (t s)"

definition skip_module :: "u32 \<Rightarrow> u32 list \<Rightarrow> u32 \<Rightarrow> u32 \<Rightarrow> bool" where
  "skip_module base skips single_module single_test \<longleftrightarrow> base \<in> set skips \<or>
     (single_module \<noteq> SINGLE_MODULE_SENTINEL \<and> single_module \<noteq> base \<and>
      (single_test = SINGLE_MODULE_SENTINEL \<or> (100 < single_test - base \<or> single_test - base \<le> 0)))"

text \<open>\<open>rme n\<close> is the entry of test \<open>n\<close>. The flag of a reset decides where the sequence is entered;
  \<open>junk\<close> is the status variable that the last entry leaves unset. Tests after the label that is
  entered run in order, and the status starts over at each label.\<close>

definition val_rme_execute_tests ::
  "(nat \<Rightarrow> 's test_op) \<Rightarrow> u32 list \<Rightarrow> u32 \<Rightarrow> u32 \<Rightarrow> u32 \<Rightarrow> u32 \<Rightarrow> 's \<Rightarrow> u32 \<times> 's" where
  "val_rme_execute_tests rme skips single_module single_test reset_status junk s =
     (let done_32 = (\<lambda>s. from_test (rme 32) [] s);
          done_31 = (\<lambda>s. done_32 (snd (from_test (rme 31) [rme 32] s)));
          done_12 = (\<lambda>s. done_31 (snd (from_test (rme 12) (map rme [13..<32]) s)));
          done_2 = (\<lambda>s. done_12 (snd (from_test (rme 2) (map rme [3..<13]) s)))
      in if skip_module 0 skips single_module single_test then (ACS_STATUS_SKIP, s)
         else if reset_status = 12 then done_12 s
         else if reset_status = 31 then done_31 s
         else if reset_status = 32 then done_32 s
         else if reset_status = 34 then done_2 s
         else if reset_status = 500 \<or> reset_status = 503 then (junk, s)
         else done_2 (snd (from_test (rme 1) [rme 2] s)))"

definition val_rme_da_execute_tests ::
  "(nat \<Rightarrow> 's test_op) \<Rightarrow> u32 list \<Rightarrow> u32 \<Rightarrow> u32 \<Rightarrow> u32 \<Rightarrow> u32 \<Rightarrow> 's \<Rightarrow> u32 \<times> 's" where
  "val_rme_da_execute_tests da skips single_module single_test reset_status junk s =
     (if skip_module 600 skips single_module single_test then (ACS_STATUS_SKIP, s)
      else if reset_status \<noteq> 12 \<and> reset_status \<noteq> 31 \<and> reset_status \<noteq> 34 \<and> reset_status \<noteq> 500 \<and> reset_status \<noteq> 503
      then from_test (da 1) (map da [2..<21]) s
      else (junk, s))"

section \<open>What the other elements may do\<close>

text \<open>An element reports once: a pending status becomes a result.\<close>

definition settled :: "u32 \<Rightarrow> bool" where
  "settled st \<longleftrightarrow> IS_TEST_PASS st \<or> IS_TEST_FAIL st \<or> IS_TEST_SKIP st"

inductive report :: "val_shared_mem list \<Rightarrow> val_shared_mem list \<Rightarrow> bool" where
  report_result: "i < length l \<Longrightarrow> IS_RESULT_PENDING (status (l ! i)) \<Longrightarrow> settled st \<Longrightarrow>
     report l (l[i := (l ! i)\<lparr>status := st\<rparr>])"

inductive_cases reportE: "report l l'"

definition reports_once :: "val_env \<Rightarrow> bool" where
  "reports_once env \<longleftrightarrow> (\<forall>l. report\<^sup>*\<^sup>* l (secondary env l))"

definition known :: "val_shared_mem list \<Rightarrow> bool" where
  "known l \<longleftrightarrow> (\<forall>e\<in>set l. IS_RESULT_PENDING (status e) \<or> settled (status e))"

lemma settled_not_pending: "settled st \<Longrightarrow> \<not> IS_RESULT_PENDING st"
  by (auto simp: settled_def IS_TEST_PASS_def IS_TEST_FAIL_def IS_TEST_SKIP_def IS_RESULT_PENDING_def)

lemma pass_not_fail_skip: "IS_TEST_PASS st \<Longrightarrow> \<not> IS_TEST_FAIL_SKIP st"
  by (auto simp: IS_TEST_PASS_def IS_TEST_FAIL_SKIP_def IS_TEST_FAIL_def IS_TEST_SKIP_def)

lemma report_step:
  assumes "report l l'"
  shows "length l' = length l" and "known l \<Longrightarrow> known l'"
    and "i < length l \<Longrightarrow> \<not> IS_RESULT_PENDING (status (l ! i)) \<Longrightarrow> l' ! i = l ! i"
  using assms
  by (auto elim!: reportE simp: nth_list_update known_def settled_not_pending dest!: set_update_subset_insert [THEN subsetD])

lemma reports_invariants:
  assumes "report\<^sup>*\<^sup>* l l'"
  shows "length l' = length l \<and> (known l \<longrightarrow> known l') \<and>
    (\<forall>i<length l. \<not> IS_RESULT_PENDING (status (l ! i)) \<longrightarrow> l' ! i = l ! i)"
  using assms
proof (induction rule: rtranclp_induct)
  case base
  then show ?case by simp
next
  case (step y z)
  then show ?case using report_step [OF step.hyps(2)] by auto
qed

text \<open>A state that differs from \<open>w\<close> only by reports.\<close>

definition later :: "val_world \<Rightarrow> val_world \<Rightarrow> bool" where
  "later w w' \<longleftrightarrow> w' = w\<lparr>shared_mem := shared_mem w'\<rparr> \<and> report\<^sup>*\<^sup>* (shared_mem w) (shared_mem w')"

lemma later_refl: "later w w"
  by (simp add: later_def)

lemma later_trans:
  assumes "later w w'" and "later w' w''"
  shows "later w w''"
proof -
  have "w'' = w\<lparr>shared_mem := shared_mem w''\<rparr>"
    using assms unfolding later_def by (metis val_world.update_convs(1) val_world.surjective)
  then show ?thesis using assms unfolding later_def by (auto intro: rtranclp_trans)
qed

lemma laterD:
  assumes "later w w'"
  shows "length (shared_mem w') = length (shared_mem w)" and "known (shared_mem w) \<Longrightarrow> known (shared_mem w')"
    and "i < length (shared_mem w) \<Longrightarrow> \<not> IS_RESULT_PENDING (status (shared_mem w ! i)) \<Longrightarrow>
      shared_mem w' ! i = shared_mem w ! i"
  using assms reports_invariants [of "shared_mem w" "shared_mem w'"] by (auto simp: later_def)

lemma val_get_status_later:
  assumes "reports_once env" and "i < length (shared_mem w)" and "i < 2 ^ 32"
  shows "\<exists>w1. val_get_status env (of_nat i) w = Some (status (shared_mem w1 ! i), w1) \<and> later w w1"
proof -
  have r: "report\<^sup>*\<^sup>* (shared_mem w) (secondary env (shared_mem w))" using assms(1) by (simp add: reports_once_def)
  then have "length (secondary env (shared_mem w)) = length (shared_mem w)" using reports_invariants by blast
  then show ?thesis
    using r assms(2,3) by (auto simp: val_get_status_def unat_of_nat_small later_def Let_def)
qed

section \<open>Waiting and the verdict\<close>

lemma poll_later:
  assumes "reports_once env" and "i + n \<le> length (shared_mem w)" and "i + n < 2 ^ 32"
  shows "\<exists>j' w'. poll env n (of_nat i) j w = Some (j', w') \<and> later w w' \<and>
    (j' = j \<and> (\<forall>k. i \<le> k \<and> k < i + n \<longrightarrow> \<not> IS_RESULT_PENDING (status (shared_mem w' ! k))) \<or>
     (\<exists>k. i \<le> k \<and> k < i + n \<and> j' = of_nat (Suc k)))"
  using assms(2,3)
proof (induction n arbitrary: i j w)
  case 0
  then show ?case using later_refl [of w] by auto
next
  case (Suc n)
  obtain w1 where w1: "val_get_status env (of_nat i) w = Some (status (shared_mem w1 ! i), w1)" "later w w1"
    using val_get_status_later [OF assms(1), of i w] Suc.prems by auto
  have len: "length (shared_mem w1) = length (shared_mem w)" by (rule laterD(1) [OF w1(2)])
  define j1 where "j1 = (if IS_RESULT_PENDING (status (shared_mem w1 ! i)) then of_nat i + 1 else j)"
  obtain j' w' where r: "poll env n (of_nat (Suc i)) j1 w1 = Some (j', w')" "later w1 w'"
    and c: "j' = j1 \<and> (\<forall>k. Suc i \<le> k \<and> k < Suc i + n \<longrightarrow> \<not> IS_RESULT_PENDING (status (shared_mem w' ! k))) \<or>
      (\<exists>k. Suc i \<le> k \<and> k < Suc i + n \<and> j' = of_nat (Suc k))"
    using Suc.IH [of "Suc i" w1 j1] Suc.prems len by auto
  have run: "poll env (Suc n) (of_nat i) j w = Some (j', w')"
    using w1(1) r(1) by (simp add: j1_def add.commute)
  have stable: "\<not> IS_RESULT_PENDING (status (shared_mem w' ! i))" if "\<not> IS_RESULT_PENDING (status (shared_mem w1 ! i))"
    using laterD(3) [OF r(2), of i] that len Suc.prems by auto
  have "j' = j \<and> (\<forall>k. i \<le> k \<and> k < i + Suc n \<longrightarrow> \<not> IS_RESULT_PENDING (status (shared_mem w' ! k))) \<or>
     (\<exists>k. i \<le> k \<and> k < i + Suc n \<and> j' = of_nat (Suc k))"
    using c
  proof
    assume c: "j' = j1 \<and> (\<forall>k. Suc i \<le> k \<and> k < Suc i + n \<longrightarrow> \<not> IS_RESULT_PENDING (status (shared_mem w' ! k)))"
    show ?thesis
    proof (cases "IS_RESULT_PENDING (status (shared_mem w1 ! i))")
      case True
      then show ?thesis using c by (intro disjI2 exI [of _ i]) (simp add: j1_def)
    next
      case False
      have "\<not> IS_RESULT_PENDING (status (shared_mem w' ! k))" if "i \<le> k" "k < i + Suc n" for k
        using c stable [OF False] that by (cases "k = i") auto
      then show ?thesis using c False by (simp add: j1_def)
    qed
  next
    assume "\<exists>k. Suc i \<le> k \<and> k < Suc i + n \<and> j' = of_nat (Suc k)"
    then show ?thesis by (auto intro: Suc_leD)
  qed
  then show ?case using run later_trans [OF w1(2) r(2)] by blast
qed

text \<open>What waiting leaves behind: no element is pending, or one has failed or was skipped.\<close>

definition decided :: "nat \<Rightarrow> val_world \<Rightarrow> bool" where
  "decided n w \<longleftrightarrow> known (shared_mem w) \<and> length (shared_mem w) = n \<and>
     ((\<forall>k<n. \<not> IS_RESULT_PENDING (status (shared_mem w ! k))) \<or> (\<exists>k<n. IS_TEST_FAIL_SKIP (status (shared_mem w ! k))))"

lemma state_field_small:
  assumes "test_num < 2 ^ 16" and "st < 2 ^ 28"
  shows "drop_bit 28 (push_bit 28 (v :: u32) OR (push_bit 12 test_num OR st)) AND 0xF = take_bit 4 v"
proof (rule bit_word_eqI)
  fix n assume n: "n < LENGTH(32)"
  have "\<not> bit test_num k" if "16 \<le> k" for k
    using assms(1) that less_mask_eq [of test_num 16] bit_and_mask [of test_num 16 k] by simp
  moreover have "\<not> bit st k" if "28 \<le> k" for k
    using assms(2) that less_mask_eq [of st 28] bit_and_mask [of st 28 k] by simp
  moreover have f: "(0xF :: u32) = mask 4" by (simp add: mask_eq_exp_minus_1)
  ultimately show "bit (drop_bit 28 (push_bit 28 v OR (push_bit 12 test_num OR st)) AND 0xF) n = bit (take_bit 4 v) n"
    unfolding f using n by (simp only: bit_and_mask) (auto simp: bit_drop_bit_eq bit_or_iff bit_push_bit_iff bit_take_bit_iff)
qed

lemma RESULT_FAIL_fails: "test_num < 2 ^ 16 \<Longrightarrow> st < 2 ^ 28 \<Longrightarrow> IS_TEST_FAIL (RESULT_FAIL test_num st)"
  unfolding IS_TEST_FAIL_def RESULT_FAIL_def state_field_small by (simp add: take_bit_eq_mask mask_eq_exp_minus_1)

lemma known_update: "known l \<Longrightarrow> IS_RESULT_PENDING st \<or> settled st \<Longrightarrow> known (l[i := (l ! i)\<lparr>status := st\<rparr>])"
  unfolding known_def by (auto dest!: set_update_subset_insert [THEN subsetD])

lemma wait_rounds_decides:
  assumes "reports_once env" and "unat num_pe = n" and "test_num < 2 ^ 16"
    and "known (shared_mem w)" and "length (shared_mem w) = n" and "0 < r \<or> (\<exists>k<n. j = of_nat (Suc k))"
  shows "\<exists>w'. wait_rounds env test_num num_pe r j w = Some w' \<and> decided n w' \<and> w' = w\<lparr>shared_mem := shared_mem w'\<rparr>"
  using assms(4-6)
proof (induction r arbitrary: j w)
  case 0
  then obtain k where k: "k < n" "j = of_nat (Suc k)" by auto
  have n: "n < 2 ^ 32" using word_unat_less [of num_pe] assms(2) by simp
  let ?st = "RESULT_FAIL test_num 0xF"
  have f: "IS_TEST_FAIL ?st" using assms(3) by (rule RESULT_FAIL_fails) simp
  have "j - 1 = of_nat k" using k(2) by simp
  then have "val_set_status (j - 1) ?st w = Some (w\<lparr>shared_mem := (shared_mem w)[k := (shared_mem w ! k)\<lparr>status := ?st\<rparr>]\<rparr>)"
    using k(1) n 0 by (simp add: val_set_status_def unat_of_nat_small Let_def)
  moreover have "decided n (w\<lparr>shared_mem := (shared_mem w)[k := (shared_mem w ! k)\<lparr>status := ?st\<rparr>]\<rparr>)"
    using k(1) 0 f known_update [OF 0(1), of ?st k]
    by (auto simp: decided_def settled_def IS_TEST_FAIL_SKIP_def intro!: exI [of _ k])
  ultimately show ?case by simp
next
  case (Suc r)
  have n: "n < 2 ^ 32" using word_unat_less [of num_pe] assms(2) by simp
  obtain j1 w1 where p: "poll env n 0 0 w = Some (j1, w1)" "later w w1"
    and c: "j1 = 0 \<and> (\<forall>k<n. \<not> IS_RESULT_PENDING (status (shared_mem w1 ! k))) \<or> (\<exists>k<n. j1 = of_nat (Suc k))"
    using poll_later [OF assms(1), of 0 n w 0] Suc.prems(2) n by auto
  have l1: "known (shared_mem w1)" "length (shared_mem w1) = n" "w1 = w\<lparr>shared_mem := shared_mem w1\<rparr>"
    using laterD [OF p(2)] Suc.prems p(2) by (simp_all add: later_def)
  show ?case
  proof (cases "j1 = 0")
    case True
    have "of_nat (Suc k) \<noteq> (0 :: u32)" if "k < n" for k
      using that n unat_of_nat_small [of "Suc k", where 'a = 32] by auto
    then have "\<forall>k<n. \<not> IS_RESULT_PENDING (status (shared_mem w1 ! k))" using c True by metis
    then show ?thesis using p(1) True l1 assms(2) by (auto simp: decided_def)
  next
    case False
    then have "\<exists>k<n. j1 = of_nat (Suc k)" using c by blast
    then obtain w' where "wait_rounds env test_num num_pe r j1 w1 = Some w'" "decided n w'" "w' = w1\<lparr>shared_mem := shared_mem w'\<rparr>"
      using Suc.IH [OF l1(1,2)] by blast
    then show ?thesis
      using p(1) False assms(2) l1(3) by simp (metis val_world.update_convs(1) val_world.surjective)
  qed
qed

text \<open>The loop that looks for the first failed or skipped element, on elements that have reported.\<close>

lemma check_loop_result:
  assumes "reports_once env" and "i + n \<le> length (shared_mem w)" and "i + n < 2 ^ 32"
  shows "\<exists>st' w'. check_loop env n (of_nat i) st w = Some (st', w') \<and> later w w' \<and>
    ((\<exists>k. i \<le> k \<and> k < i + n \<and> st' = status (shared_mem w' ! k) \<and> IS_TEST_FAIL_SKIP st') \<or>
     (\<forall>k. i \<le> k \<and> k < i + n \<and> \<not> IS_RESULT_PENDING (status (shared_mem w ! k)) \<longrightarrow>
        \<not> IS_TEST_FAIL_SKIP (status (shared_mem w ! k))) \<and>
     (if n = 0 then st' = st
      else \<not> IS_RESULT_PENDING (status (shared_mem w ! (i + n - 1))) \<longrightarrow> st' = status (shared_mem w ! (i + n - 1))))"
  using assms(2,3)
proof (induction n arbitrary: i st w)
  case 0
  then show ?case using later_refl [of w] by auto
next
  case (Suc n)
  obtain w1 where w1: "val_get_status env (of_nat i) w = Some (status (shared_mem w1 ! i), w1)" "later w w1"
    using val_get_status_later [OF assms(1), of i w] Suc.prems by auto
  define st1 where "st1 = status (shared_mem w1 ! i)"
  have len: "length (shared_mem w1) = length (shared_mem w)" by (rule laterD(1) [OF w1(2)])
  have stable: "shared_mem w1 ! k = shared_mem w ! k"
    if "\<not> IS_RESULT_PENDING (status (shared_mem w ! k))" "k < i + Suc n" for k
    using laterD(3) [OF w1(2), of k] that Suc.prems by auto
  show ?case
  proof (cases "IS_TEST_FAIL_SKIP st1")
    case True
    then show ?thesis using w1 by (auto simp: st1_def intro!: exI [of _ i])
  next
    case False
    obtain st' w' where r: "check_loop env n (of_nat (Suc i)) st1 w1 = Some (st', w')" "later w1 w'"
      and c: "(\<exists>k. Suc i \<le> k \<and> k < Suc i + n \<and> st' = status (shared_mem w' ! k) \<and> IS_TEST_FAIL_SKIP st') \<or>
       (\<forall>k. Suc i \<le> k \<and> k < Suc i + n \<and> \<not> IS_RESULT_PENDING (status (shared_mem w1 ! k)) \<longrightarrow>
          \<not> IS_TEST_FAIL_SKIP (status (shared_mem w1 ! k))) \<and>
       (if n = 0 then st' = st1
        else \<not> IS_RESULT_PENDING (status (shared_mem w1 ! (Suc i + n - 1))) \<longrightarrow> st' = status (shared_mem w1 ! (Suc i + n - 1)))"
      using Suc.IH [of "Suc i" w1 st1] Suc.prems len by auto
    have run: "check_loop env (Suc n) (of_nat i) st w = Some (st', w')"
      using w1(1) r(1) False by (simp add: st1_def add.commute)
    from c have "(\<exists>k. i \<le> k \<and> k < i + Suc n \<and> st' = status (shared_mem w' ! k) \<and> IS_TEST_FAIL_SKIP st') \<or>
       (\<forall>k. i \<le> k \<and> k < i + Suc n \<and> \<not> IS_RESULT_PENDING (status (shared_mem w ! k)) \<longrightarrow>
          \<not> IS_TEST_FAIL_SKIP (status (shared_mem w ! k))) \<and>
       (\<not> IS_RESULT_PENDING (status (shared_mem w ! (i + n))) \<longrightarrow> st' = status (shared_mem w ! (i + n)))"
    proof
      assume "\<exists>k. Suc i \<le> k \<and> k < Suc i + n \<and> st' = status (shared_mem w' ! k) \<and> IS_TEST_FAIL_SKIP st'"
      then show ?thesis by (auto intro: Suc_leD)
    next
      assume c: "(\<forall>k. Suc i \<le> k \<and> k < Suc i + n \<and> \<not> IS_RESULT_PENDING (status (shared_mem w1 ! k)) \<longrightarrow>
          \<not> IS_TEST_FAIL_SKIP (status (shared_mem w1 ! k))) \<and>
       (if n = 0 then st' = st1
        else \<not> IS_RESULT_PENDING (status (shared_mem w1 ! (Suc i + n - 1))) \<longrightarrow> st' = status (shared_mem w1 ! (Suc i + n - 1)))"
      have "\<not> IS_TEST_FAIL_SKIP (status (shared_mem w ! k))"
        if "i \<le> k" "k < i + Suc n" "\<not> IS_RESULT_PENDING (status (shared_mem w ! k))" for k
      proof (cases "k = i")
        case True
        then show ?thesis using stable [OF that(3,2)] False by (simp add: st1_def)
      next
        case neq: False
        have "\<not> IS_TEST_FAIL_SKIP (status (shared_mem w1 ! k))"
          using c neq that stable [OF that(3,2)] by (intro conjunct1 [OF c, rule_format]) auto
        then show ?thesis by (simp add: stable [OF that(3,2)])
      qed
      moreover have "st' = status (shared_mem w ! (i + n))" if "\<not> IS_RESULT_PENDING (status (shared_mem w ! (i + n)))"
        using c stable [OF that] that by (cases "n = 0") (auto simp: st1_def)
      ultimately show ?thesis by blast
    qed
    then show ?thesis using run later_trans [OF w1(2) r(2)] by auto
  qed
qed

lemma decided_check:
  assumes "reports_once env" and "decided n w" and "unat (num_pe :: u32) = n" and "0 < n"
  shows "\<exists>st w'. check_loop env n 0 0 w = Some (st, w') \<and> later w w' \<and> settled st \<and>
    (IS_TEST_PASS st \<longleftrightarrow> (\<forall>k<n. IS_TEST_PASS (status (shared_mem w' ! k))))"
proof -
  have n: "n < 2 ^ 32" using word_unat_less [of num_pe] assms(3) by simp
  have len: "length (shared_mem w) = n" "known (shared_mem w)" using assms(2) by (simp_all add: decided_def)
  obtain st w' where r: "check_loop env n 0 0 w = Some (st, w')" "later w w'"
    and c: "(\<exists>k<n. st = status (shared_mem w' ! k) \<and> IS_TEST_FAIL_SKIP st) \<or>
      (\<forall>k<n. \<not> IS_RESULT_PENDING (status (shared_mem w ! k)) \<longrightarrow> \<not> IS_TEST_FAIL_SKIP (status (shared_mem w ! k))) \<and>
      (\<not> IS_RESULT_PENDING (status (shared_mem w ! (n - 1))) \<longrightarrow> st = status (shared_mem w ! (n - 1)))"
    using check_loop_result [OF assms(1), of 0 n w 0] len n assms(4) by auto
  from c show ?thesis
  proof
    assume "\<exists>k<n. st = status (shared_mem w' ! k) \<and> IS_TEST_FAIL_SKIP st"
    then obtain k where k: "k < n" "st = status (shared_mem w' ! k)" "IS_TEST_FAIL_SKIP st" by blast
    then have "\<not> IS_TEST_PASS st" "settled st"
      using pass_not_fail_skip by (auto simp: settled_def IS_TEST_FAIL_SKIP_def)
    then show ?thesis using r k by auto
  next
    assume c: "(\<forall>k<n. \<not> IS_RESULT_PENDING (status (shared_mem w ! k)) \<longrightarrow> \<not> IS_TEST_FAIL_SKIP (status (shared_mem w ! k))) \<and>
      (\<not> IS_RESULT_PENDING (status (shared_mem w ! (n - 1))) \<longrightarrow> st = status (shared_mem w ! (n - 1)))"
    have "\<not> IS_TEST_FAIL_SKIP (status (shared_mem w ! k))" if "k < n" for k
    proof
      assume f: "IS_TEST_FAIL_SKIP (status (shared_mem w ! k))"
      then have "\<not> IS_RESULT_PENDING (status (shared_mem w ! k))"
        by (intro settled_not_pending) (auto simp: settled_def IS_TEST_FAIL_SKIP_def)
      with c that f show False by blast
    qed
    then have np: "\<not> IS_RESULT_PENDING (status (shared_mem w ! k))" if "k < n" for k
      using assms(2) that by (auto simp: decided_def)
    have pass: "IS_TEST_PASS (status (shared_mem w ! k))" if "k < n" for k
    proof -
      have "settled (status (shared_mem w ! k))" using len np [OF that] that by (auto simp: known_def)
      moreover have "\<not> IS_TEST_FAIL_SKIP (status (shared_mem w ! k))" using c np [OF that] that by blast
      ultimately show ?thesis by (auto simp: settled_def IS_TEST_FAIL_SKIP_def)
    qed
    moreover have "shared_mem w' ! k = shared_mem w ! k" if "k < n" for k
      using laterD(3) [OF r(2), of k] np [OF that] that len by auto
    moreover have "st = status (shared_mem w ! (n - 1))" using c np [of "n - 1"] assms(4) by auto
    ultimately show ?thesis using r assms(4) by (auto simp: settled_def)
  qed
qed

section \<open>A test from beginning to end\<close>

text \<open>The shared entries and the table of elements that the harness needs.\<close>

definition harness_ok :: "nat \<Rightarrow> val_world \<Rightarrow> bool" where
  "harness_ok n w \<longleftrightarrow> length (shared_mem w) = n \<and> known (shared_mem w) \<and>
     (\<exists>t. g_pe_info_table w = Some t \<and> unat (num_of_pe t) = n \<and> length (pe_info t) = n)"

text \<open>The codes of the power-on call: success or one of the error codes \<open>-1\<close> to \<open>-8\<close>.\<close>

definition psci_codes :: "val_env \<Rightarrow> bool" where
  "psci_codes env \<longleftrightarrow> (\<forall>m w. \<exists>e\<le>8. execute_payload env m w = - of_nat e)"

definition only_shared :: "val_world \<Rightarrow> val_world \<Rightarrow> bool" where
  "only_shared w w' \<longleftrightarrow> w' = w\<lparr>shared_mem := shared_mem w'\<rparr>"

lemma only_shared_trans: "only_shared w w' \<Longrightarrow> only_shared w' w'' \<Longrightarrow> only_shared w w''"
  unfolding only_shared_def by (metis val_world.update_convs(1) val_world.surjective)

lemma only_sharedI: "only_shared w (w\<lparr>shared_mem := l\<rparr>)" "only_shared w w"
  by (simp_all add: only_shared_def)

lemma later_only_shared: "later w w' \<Longrightarrow> only_shared w w'"
  by (simp add: later_def only_shared_def)

lemma only_shared_fields:
  assumes "only_shared w w'"
  shows "g_pe_info_table w' = g_pe_info_table w" "mpidr_el1 w' = mpidr_el1 w" "g_rme_tests_total w' = g_rme_tests_total w"
    "g_rme_tests_pass w' = g_rme_tests_pass w" "g_rme_tests_fail w' = g_rme_tests_fail w"
    "g_skip_test_num w' = g_skip_test_num w" "g_single_test w' = g_single_test w" "g_single_module w' = g_single_module w"
    "val_pe_get_mpid w' = val_pe_get_mpid w" "val_pe_get_index_mpid m w' = val_pe_get_index_mpid m w"
proof -
  obtain l where "w' = w\<lparr>shared_mem := l\<rparr>" using assms by (auto simp: only_shared_def)
  then show "g_pe_info_table w' = g_pe_info_table w" "mpidr_el1 w' = mpidr_el1 w" "g_rme_tests_total w' = g_rme_tests_total w"
    "g_rme_tests_pass w' = g_rme_tests_pass w" "g_rme_tests_fail w' = g_rme_tests_fail w"
    "g_skip_test_num w' = g_skip_test_num w" "g_single_test w' = g_single_test w" "g_single_module w' = g_single_module w"
    "val_pe_get_mpid w' = val_pe_get_mpid w" "val_pe_get_index_mpid m w' = val_pe_get_index_mpid m w"
    by (simp_all add: val_pe_get_mpid_def val_pe_get_index_mpid_def)
qed

lemma set_status_ok:
  assumes "harness_ok n w" and "unat i < n" and "IS_RESULT_PENDING st \<or> settled st"
  shows "\<exists>w'. val_set_status i st w = Some w' \<and> harness_ok n w' \<and> only_shared w w' \<and>
    shared_mem w' = (shared_mem w)[unat i := (shared_mem w ! unat i)\<lparr>status := st\<rparr>]"
  using assms known_update [of "shared_mem w" st "unat i"]
  by (auto simp: val_set_status_def harness_ok_def Let_def only_shared_def)

lemma set_test_data_ok:
  assumes "harness_ok n w" and "unat i < n"
  shows "\<exists>w'. val_set_test_data i a b w = Some w' \<and> harness_ok n w' \<and> only_shared w w'"
  using assms
  by (auto simp: val_set_test_data_def harness_ok_def known_def Let_def only_shared_def val_pe_get_num_def
      split: option.splits dest!: set_update_subset_insert [THEN subsetD])

lemma secondary_ok:
  assumes "reports_once env" and "harness_ok n w"
  shows "harness_ok n (w\<lparr>shared_mem := secondary env (shared_mem w)\<rparr>)"
  using assms reports_invariants [of "shared_mem w" "secondary env (shared_mem w)"]
  by (auto simp: reports_once_def harness_ok_def)

lemma mpid_index_ok: "harness_ok n w \<Longrightarrow> unat i < n \<Longrightarrow> \<exists>m. val_pe_get_mpid_index i w = Some m"
  by (auto simp: harness_ok_def val_pe_get_mpid_index_def word_less_nat_alt)

lemma power_on_ok:
  assumes "reports_once env" and "psci_codes env" and "unat i < n" and "harness_ok n w"
  shows "\<exists>r w'. power_on_loop env i p a k w = Some (r, w') \<and> harness_ok n w' \<and> only_shared w w' \<and> (\<exists>e\<le>8. r = - of_nat e)"
  using assms(4)
proof (induction k arbitrary: w)
  case (Suc k)
  obtain m where m: "val_pe_get_mpid_index i w = Some m" using mpid_index_ok [OF Suc.prems assms(3)] by blast
  obtain w1 where w1: "val_set_test_data i p a w = Some w1" "harness_ok n w1" "only_shared w w1"
    using set_test_data_ok [OF Suc.prems assms(3)] by blast
  let ?w2 = "w1\<lparr>shared_mem := secondary env (shared_mem w1)\<rparr>"
  show ?case
  proof (cases "execute_payload env m w1 = -4")
    case True
    obtain r w' where "power_on_loop env i p a k ?w2 = Some (r, w')" "harness_ok n w'" "only_shared ?w2 w'" "\<exists>e\<le>8. r = - of_nat e"
      using Suc.IH [OF secondary_ok [OF assms(1) w1(2)]] by blast
    then show ?thesis
      using m w1 True only_shared_trans [OF w1(3) only_shared_trans [OF only_sharedI(1)]] by auto
  next
    case False
    then show ?thesis using m w1 assms(2) by (auto simp: psci_codes_def)
  qed
next
  case 0
  obtain m where m: "val_pe_get_mpid_index i w = Some m" using mpid_index_ok [OF 0 assms(3)] by blast
  obtain w1 where "val_set_test_data i p a w = Some w1" "harness_ok n w1" "only_shared w w1"
    using set_test_data_ok [OF 0 assms(3)] by blast
  then show ?case using m assms(2) by (auto simp: psci_codes_def)
qed

lemma psci_fail_code:
  assumes "e \<le> 8"
  shows "settled (RESULT_FAIL 0 (0x120 - ucast (- of_nat e :: u64)))"
proof -
  have "(ucast (- of_nat e :: u64) :: u32) = - of_nat e"
  proof -
    have "e = 0 \<or> e = 1 \<or> e = 2 \<or> e = 3 \<or> e = 4 \<or> e = 5 \<or> e = 6 \<or> e = 7 \<or> e = 8" using assms by linarith
    moreover have "(ucast (- 1 :: u64) :: u32) = - 1" by (rule bit_word_eqI) (simp add: bit_ucast_iff)
    ultimately show ?thesis by (elim disjE) simp_all
  qed
  then have "(0x120 - ucast (- of_nat e :: u64) :: u32) = of_nat (0x120 + e)" by simp
  moreover have "of_nat (0x120 + e) < (2 ^ 28 :: u32)"
    using assms by (simp add: word_less_nat_alt unat_of_nat_small del: of_nat_add)
  ultimately show ?thesis using RESULT_FAIL_fails [of 0] by (simp add: settled_def del: of_nat_add)
qed

lemma execute_on_pe_ok:
  assumes "reports_once env" and "psci_codes env" and "unat i < n" and "harness_ok n w"
  shows "\<exists>w'. val_execute_on_pe env i p a w = Some w' \<and> harness_ok n w' \<and> only_shared w w'"
proof -
  obtain t where t: "g_pe_info_table w = Some t" "\<not> num_of_pe t < i"
    using assms(3,4) by (auto simp: harness_ok_def word_less_nat_alt)
  obtain r w1 e where r: "power_on_loop env i p a (timeout_large env) w = Some (r, w1)" "harness_ok n w1" "only_shared w w1"
    "e \<le> 8" "r = - of_nat e"
    using power_on_ok [OF assms] by blast
  show ?thesis
  proof (cases "r = 0")
    case True
    then show ?thesis using t r by (auto simp: val_execute_on_pe_def)
  next
    case False
    obtain w2 where "val_set_status i (RESULT_FAIL 0 (0x120 - ucast r)) w1 = Some w2" "harness_ok n w2" "only_shared w1 w2"
      using set_status_ok [OF r(2) assms(3)] psci_fail_code [OF r(4)] r(5) by blast
    then show ?thesis using t r False only_shared_trans [OF r(3)] by (auto simp: val_execute_on_pe_def)
  qed
qed

lemma run_loop_ok:
  assumes "reports_once env" and "psci_codes env" and "i + k \<le> n" and "n < 2 ^ 32" and "harness_ok n w"
  shows "\<exists>w'. run_loop env ix p a k (of_nat i) w = Some w' \<and> harness_ok n w' \<and> only_shared w w'"
  using assms(3,5)
proof (induction k arbitrary: i w)
  case 0
  then show ?case by (simp add: only_sharedI)
next
  case (Suc k)
  have i: "unat (of_nat i :: u32) < n" using Suc.prems(1) assms(4) by (simp add: unat_of_nat_small)
  obtain w1 where w1: "(if of_nat i \<noteq> ix then val_execute_on_pe env (of_nat i) p a w else Some w) = Some w1"
    "harness_ok n w1" "only_shared w w1"
    using execute_on_pe_ok [OF assms(1,2) i Suc.prems(2), of p a] Suc.prems(2) only_sharedI(2) [of w]
    by (cases "of_nat i \<noteq> ix") auto
  obtain w' where "run_loop env ix p a k (of_nat (Suc i)) w1 = Some w'" "harness_ok n w'" "only_shared w1 w'"
    using Suc.IH [of "Suc i" w1] Suc.prems(1) w1(2) by auto
  then show ?case using w1 only_shared_trans [OF w1(3)] by (auto simp: add.commute)
qed

lemma pending_loop_ok:
  assumes "test_num < 2 ^ 16" and "i + k \<le> n" and "n < 2 ^ 32" and "length (shared_mem w) = n"
  shows "\<exists>w'. pending_loop test_num k (of_nat i) w = Some w' \<and> only_shared w w' \<and> length (shared_mem w') = n \<and>
    (\<forall>j<n. if i \<le> j \<and> j < i + k then status (shared_mem w' ! j) = RESULT_PENDING test_num
       else shared_mem w' ! j = shared_mem w ! j)"
  using assms(2,4)
proof (induction k arbitrary: i w)
  case 0
  then show ?case using only_sharedI(2) [of w] by auto
next
  case (Suc k)
  have i: "unat (of_nat i :: u32) = i" "i < n" using Suc.prems(1) assms(3) by (simp_all add: unat_of_nat_small)
  define w1 where "w1 = w\<lparr>shared_mem := (shared_mem w)[i := (shared_mem w ! i)\<lparr>status := RESULT_PENDING test_num\<rparr>]\<rparr>"
  have s: "val_set_status (of_nat i) (RESULT_PENDING test_num) w = Some w1"
    using i Suc.prems(2) by (simp add: val_set_status_def w1_def Let_def)
  obtain w' where "pending_loop test_num k (of_nat (Suc i)) w1 = Some w'" "only_shared w1 w'" "length (shared_mem w') = n"
    "\<forall>j<n. if Suc i \<le> j \<and> j < Suc i + k then status (shared_mem w' ! j) = RESULT_PENDING test_num
       else shared_mem w' ! j = shared_mem w1 ! j"
    using Suc.IH [of "Suc i" w1] Suc.prems by (auto simp: w1_def)
  moreover have "only_shared w w1" by (simp add: w1_def only_sharedI)
  ultimately show ?case
    using s i(2) Suc.prems(2) only_shared_trans
    by (intro exI [of _ w'] conjI allI impI) (auto simp: add.commute w1_def nth_list_update Suc_le_eq)
qed

lemma RESULT_PENDING_pending: "test_num < 2 ^ 16 \<Longrightarrow> IS_RESULT_PENDING (RESULT_PENDING test_num)"
  using state_field_small [of test_num 0 "0xA"]
  by (simp add: IS_RESULT_PENDING_def RESULT_PENDING_def take_bit_eq_mask mask_eq_exp_minus_1)

lemma RESULT_SKIP_skips: "test_num < 2 ^ 16 \<Longrightarrow> IS_TEST_SKIP (RESULT_SKIP test_num 0)"
  using state_field_small [of test_num 0 9]
  by (simp add: IS_TEST_SKIP_def RESULT_SKIP_def take_bit_eq_mask mask_eq_exp_minus_1)

text \<open>When the user's selection leaves a test out.\<close>

definition deselected :: "u32 \<Rightarrow> val_world \<Rightarrow> bool" where
  "deselected test_num w \<longleftrightarrow> test_num \<in> set (g_skip_test_num w) \<or>
     g_single_test w \<noteq> SINGLE_TEST_SENTINEL \<and> test_num \<noteq> g_single_test w \<and>
     (g_single_module w = SINGLE_MODULE_SENTINEL \<or> 100 \<le> test_num - g_single_module w \<or> test_num = g_single_module w)"

lemma initialize_result:
  assumes "test_num < 2 ^ 16" and "harness_ok n w" and "unat num_pe = n"
    and "val_pe_get_index_mpid (val_pe_get_mpid w) w = Some ix" and "unat ix < n"
  shows "\<exists>w1. val_initialize_test env test_num num_pe w =
      Some (if deselected test_num w then ACS_STATUS_SKIP else ACS_STATUS_PASS, w1) \<and>
    harness_ok n w1 \<and> (deselected test_num w \<longrightarrow> IS_TEST_SKIP (status (shared_mem w1 ! unat ix))) \<and>
    only_shared (w\<lparr>esr_table := (esr_table w)(0 := default_esr env), g_rme_tests_total := g_rme_tests_total w + 1\<rparr>) w1"
proof -
  let ?w0 = "w\<lparr>esr_table := (esr_table w)(0 := default_esr env), g_rme_tests_total := g_rme_tests_total w + 1\<rparr>"
  have n: "n < 2 ^ 32" using word_unat_less [of num_pe] assms(3) by simp
  have len: "length (shared_mem ?w0) = n" using assms(2) by (simp add: harness_ok_def)
  obtain w2 where w2: "pending_loop test_num n 0 ?w0 = Some w2" "only_shared ?w0 w2" "length (shared_mem w2) = n"
    "\<forall>j<n. status (shared_mem w2 ! j) = RESULT_PENDING test_num"
    using pending_loop_ok [OF assms(1), of 0 n n ?w0] n len by auto
  have h2: "harness_ok n w2"
    using w2(3,4) assms(2) RESULT_PENDING_pending [OF assms(1)] only_shared_fields(1) [OF w2(2)]
    by (auto simp: harness_ok_def known_def in_set_conv_nth)
  obtain w3 where w3: "val_set_status ix (RESULT_SKIP test_num 0) w2 = Some w3" "harness_ok n w3" "only_shared w2 w3"
    "shared_mem w3 = (shared_mem w2)[unat ix := (shared_mem w2 ! unat ix)\<lparr>status := RESULT_SKIP test_num 0\<rparr>]"
    using set_status_ok [OF h2 assms(5)] RESULT_SKIP_skips [OF assms(1)] by (auto simp: settled_def)
  have skip: "IS_TEST_SKIP (status (shared_mem w3 ! unat ix))"
    using w3(4) w2(3) assms(5) RESULT_SKIP_skips [OF assms(1)] by simp
  have d: "deselected test_num w \<longleftrightarrow> test_num \<in> set (g_skip_test_num w2) \<or>
     (g_single_test w2 \<noteq> SINGLE_TEST_SENTINEL \<and> test_num \<noteq> g_single_test w2) \<and>
         (g_single_module w2 = SINGLE_MODULE_SENTINEL \<or>
          (100 \<le> test_num - g_single_module w2 \<or> test_num - g_single_module w2 \<le> 0))"
    using only_shared_fields(6-8) [OF w2(2)] by (auto simp: deselected_def)
  show ?thesis
  proof (cases "deselected test_num w")
    case True
    then have "val_initialize_test env test_num num_pe w = Some (ACS_STATUS_SKIP, w3)"
      using assms(3,4) w2(1) w3(1) d
      by (auto simp: val_initialize_test_def val_pe_initialize_default_exception_handler_def val_pe_install_esr_def Let_def)
    then show ?thesis using True w3 skip only_shared_trans [OF w2(2) w3(3)] by auto
  next
    case False
    then have "val_initialize_test env test_num num_pe w = Some (ACS_STATUS_PASS, w2)"
      using assms(3,4) w2(1) d
      by (auto simp: val_initialize_test_def val_pe_initialize_default_exception_handler_def val_pe_install_esr_def Let_def)
    then show ?thesis using False h2 w2(2) by auto
  qed
qed

lemma run_payload_decides:
  assumes "reports_once env" and "psci_codes env" and "2 \<le> timeout_large env" and "timeout_large env < 2 ^ 32"
    and "test_num < 2 ^ 16" and "unat num_pe = n" and "2 \<le> n" and "harness_ok n w"
    and "val_pe_get_index_mpid (val_pe_get_mpid w) w = Some ix" and "unat ix < n" and "settled st"
  shows "\<exists>w'. val_run_test_payload env test_num num_pe (val_set_status ix st) p a w = Some w' \<and> decided n w' \<and> only_shared w w'"
proof -
  have n: "n < 2 ^ 32" "num_pe \<noteq> 1" using word_unat_less [of num_pe] assms(6,7) by auto
  obtain w1 where w1: "val_set_status ix st w = Some w1" "harness_ok n w1" "only_shared w w1"
    using set_status_ok [OF assms(8,10)] assms(11) by blast
  obtain w2 where w2: "run_loop env ix p a n 0 w1 = Some w2" "harness_ok n w2" "only_shared w1 w2"
    using run_loop_ok [OF assms(1,2), of 0 n n w1 ix p a] n w1(2) by auto
  have t: "0 < unat (of_nat (timeout_large env) - 1 :: u32)"
  proof -
    have "of_nat (timeout_large env) - 1 = (of_nat (timeout_large env - 1) :: u32)" using assms(3) by (simp add: of_nat_diff)
    then show ?thesis using assms(3,4) by (simp add: unat_of_nat_small del: of_nat_diff)
  qed
  obtain w3 where "wait_rounds env test_num num_pe (unat (of_nat (timeout_large env) - 1 :: u32)) 0 w2 = Some w3"
    "decided n w3" "only_shared w2 w3"
    using wait_rounds_decides [OF assms(1,6,5), of w2] w2(2) t by (auto simp: harness_ok_def only_shared_def)
  then show ?thesis
    using assms(6,9) n(2) w1 w2 only_shared_trans [OF w1(3) only_shared_trans [OF w2(3)]]
    by (auto simp: val_run_test_payload_def val_wait_for_test_completion_def)
qed

lemma check_result:
  assumes "reports_once env" and "decided n w" and "unat num_pe = n" and "2 \<le> n"
    and "val_pe_get_index_mpid (val_pe_get_mpid w) w = Some ix"
  shows "\<exists>st w1. later w w1 \<and> settled st \<and>
    (IS_TEST_PASS st \<longleftrightarrow> (\<forall>k<n. IS_TEST_PASS (status (shared_mem w1 ! k)))) \<and>
    val_check_for_error env num_pe w = Some (
      if IS_TEST_PASS st then (ACS_STATUS_PASS, w1\<lparr>g_rme_tests_pass := g_rme_tests_pass w1 + 1\<rparr>)
      else if IS_TEST_SKIP st then (ACS_STATUS_SKIP, w1)
      else (ACS_STATUS_FAIL, w1\<lparr>g_rme_tests_fail := g_rme_tests_fail w1 + 1\<rparr>))"
proof -
  have "num_pe \<noteq> 1" using assms(3,4) by auto
  moreover obtain st w1 where "check_loop env n 0 0 w = Some (st, w1)" "later w w1" "settled st"
    "IS_TEST_PASS st \<longleftrightarrow> (\<forall>k<n. IS_TEST_PASS (status (shared_mem w1 ! k)))"
    using decided_check [OF assms(1-3)] assms(4) by auto
  ultimately show ?thesis using assms(3,5) by (intro exI [of _ st] exI [of _ w1]) (simp add: val_check_for_error_def)
qed


text \<open>Three elements; the second and the third report a pass as soon as they are read.\<close>

definition example_report :: "val_shared_mem \<Rightarrow> val_shared_mem" where
  "example_report e = (if IS_RESULT_PENDING (status e) then e\<lparr>status := RESULT_PASS 0 1\<rparr> else e)"

definition example_harness :: val_world where
  "example_harness = \<lparr>shared_mem = replicate 3 \<lparr>data0 = 0, data1 = 0, status = RESULT_PENDING 0\<rparr>,
     g_pe_info_table = Some \<lparr>num_of_pe = 3, pe_info = map (\<lambda>i. \<lparr>pe_num = i, pe_attr = 0, mpidr = ucast i, pmu_gsiv = 23\<rparr>) [0, 1, 2]\<rparr>,
     mpidr_el1 = 0x80000000, esr_table = (\<lambda>_. 0), g_rme_tests_total = 7, g_rme_tests_pass = 5, g_rme_tests_fail = 1,
     g_skip_test_num = [], g_single_test = 10000, g_single_module = 10001, g_exception_ret_addr = 0,
     free_mem_var_pa = 0x880300000, free_mem_var_va = 0x880200000, unique_stream_id = 1\<rparr>"

definition example_val_env :: val_env where
  "example_val_env = \<lparr>secondary = map example_report, execute_payload = (\<lambda>_ _. 0), default_esr = 0x4000, timeout_large = 0x1000000\<rparr>"

lemma map_reports: "report\<^sup>*\<^sup>* l (map example_report (take i l) @ drop i l)"
proof (induction i)
  case (Suc i)
  show ?case
  proof (cases "i < length l")
    case True
    let ?l = "map example_report (take i l) @ drop i l"
    have at: "?l ! i = l ! i" "i < length ?l" using True by (simp_all add: nth_append)
    have "map example_report (take (Suc i) l) @ drop (Suc i) l = ?l[i := example_report (l ! i)]"
      using True by (simp add: take_Suc_conv_app_nth list_update_append Cons_nth_drop_Suc [symmetric])
    moreover have "report\<^sup>*\<^sup>* ?l (?l[i := example_report (l ! i)])"
    proof (cases "IS_RESULT_PENDING (status (l ! i))")
      case True
      have "settled (RESULT_PASS 0 1)"
        using state_field_small [of 0 1 4]
        by (simp add: settled_def IS_TEST_PASS_def RESULT_PASS_def take_bit_eq_mask mask_eq_exp_minus_1)
      then have "report ?l (?l[i := (?l ! i)\<lparr>status := RESULT_PASS 0 1\<rparr>])"
        using True at by (intro report_result) simp_all
      then show ?thesis using True at by (simp add: example_report_def)
    next
      case False
      then have "?l[i := example_report (l ! i)] = ?l" using at by (simp add: example_report_def) (metis at(1) list_update_id)
      then show ?thesis by simp
    qed
    ultimately show ?thesis using Suc.IH by simp
  next
    case False
    then show ?thesis using Suc.IH by simp
  qed
qed simp


section \<open>Suites, addresses and identifiers\<close>

lemma snd_join_tests: "snd (join_tests ts r) = fold (\<lambda>t s. snd (t s)) ts (snd r)"
  by (induction ts arbitrary: r) (auto split: prod.splits)

lemma snd_from_test: "snd (from_test t ts s) = fold (\<lambda>t s. snd (t s)) (t # ts) s"
  by (simp add: from_test_def snd_join_tests)

lemma join_tests_bits:
  "bit (fst (join_tests ts r)) n \<longleftrightarrow> bit (fst r) n \<or>
    (\<exists>k<length ts. bit (fst ((ts ! k) (fold (\<lambda>t s. snd (t s)) (take k ts) (snd r)))) n)"
proof (induction ts arbitrary: r)
  case (Cons t ts)
  show ?case by (simp add: Cons.IH bit_or_iff split: prod.splits) (auto simp: less_Suc_eq_0_disj ex_simps)
qed simp

text \<open>(C28) The consolidated status of the suites. A device assignment suite that runs reports every bit
  that any of its twenty tests reports. The RME suite runs all its tests in order, but the status
  starts over at each entry point for a reset: a run from the start reports only the status of the
  second run of the last test, so every failure before it is lost from the result.\<close>

theorem suite_status:
  assumes "\<not> skip_module 0 skips single_module single_test" and "\<not> skip_module 600 skips single_module single_test"
    and "reset_status \<notin> {12, 31, 32, 34, 500, 503}"
  shows "val_rme_execute_tests rme skips single_module single_test reset_status junk s =
      rme 32 (fold (\<lambda>n s. snd (rme n s)) ([1, 2] @ [2..<13] @ [12..<32] @ [31, 32]) s) \<and>
    (bit (fst (val_rme_da_execute_tests da skips single_module single_test reset_status junk s)) b \<longleftrightarrow>
      (\<exists>k<20. bit (fst (da (Suc k) (fold (\<lambda>n s. snd (da n s)) [1..<Suc k] s))) b))"
proof
  have run: "fold (\<lambda>t s. snd (t s)) (map f xs) s = fold (\<lambda>n s. snd (f n s)) xs s" for f :: "nat \<Rightarrow> 's test_op" and xs s
    by (simp add: fold_map o_def)
  have l: "[2..<13] = 2 # [3..<13]" "[12..<32] = 12 # [13..<32]" by (simp_all add: upt_rec)
  show "val_rme_execute_tests rme skips single_module single_test reset_status junk s =
      rme 32 (fold (\<lambda>n s. snd (rme n s)) ([1, 2] @ [2..<13] @ [12..<32] @ [31, 32]) s)"
    using assms(1,3) unfolding val_rme_execute_tests_def Let_def snd_from_test l
    by (simp add: from_test_def run del: upt_rec_numeral)
  show "bit (fst (val_rme_da_execute_tests da skips single_module single_test reset_status junk s)) b \<longleftrightarrow>
      (\<exists>k<20. bit (fst (da (Suc k) (fold (\<lambda>n s. snd (da n s)) [1..<Suc k] s))) b)"
  proof -
    let ?ts = "map da [2..<21]"
    have tk: "fold (\<lambda>t s. snd (t s)) (take j ?ts) (snd (da 1 s)) = fold (\<lambda>n s. snd (da n s)) [1..<Suc (Suc j)] s"
      if "j < 19" for j
    proof -
      have "take j ?ts = map da [2..<2 + j]" using that by (simp only: take_map take_upt)
      moreover have "[1..<Suc (Suc j)] = 1 # [2..<2 + j]" by (simp add: upt_rec numeral_2_eq_2)
      ultimately show ?thesis by (simp add: run)
    qed
    have at: "?ts ! j = da (Suc (Suc j))" if "j < 19" for j using that by (simp del: upt_rec_numeral)
    have "bit (fst (from_test (da 1) ?ts s)) b \<longleftrightarrow> bit (fst (da 1 s)) b \<or>
        (\<exists>j<19. bit (fst (da (Suc (Suc j)) (fold (\<lambda>n s. snd (da n s)) [1..<Suc (Suc j)] s))) b)"
      unfolding from_test_def join_tests_bits using tk at
      by (intro arg_cong2 [where f = "(\<or>)"] refl ex_cong1) (simp del: upt_rec_numeral upt_Suc cong: conj_cong)
    also have "\<dots> \<longleftrightarrow> (\<exists>k<Suc 19. bit (fst (da (Suc k) (fold (\<lambda>n s. snd (da n s)) [1..<Suc k] s))) b)"
      by (subst Ex_less_Suc2) simp
    finally show ?thesis using assms(2,3) by (simp add: val_rme_da_execute_tests_def del: upt_rec_numeral)
  qed
qed

theorem suite_status_witness:
  "fst (val_rme_execute_tests (\<lambda>n s. (if n = 5 then ACS_STATUS_FAIL else 0, s @ [n])) [] 10001 10000 0 0 []) = 0 \<and>
   bit (fst (val_rme_da_execute_tests (\<lambda>n s. (if n = 5 then ACS_STATUS_FAIL else 0, s @ [n])) [] 10001 10000 0 0 [])) 31"
proof -
  let ?t = "\<lambda>n s. (if n = 5 then ACS_STATUS_FAIL else 0, s @ [n]) :: u32 \<times> nat list"
  have pr: "\<not> skip_module 0 [] 10001 10000" "\<not> skip_module 600 [] 10001 10000" "0 \<notin> {12, 31, 32, 34, 500, 503 :: u32}"
    by (simp_all add: skip_module_def)
  have "\<exists>k<20. bit (fst (?t (Suc k) (fold (\<lambda>n s. snd (?t n s)) [1..<Suc k] []))) 31"
    by (intro exI [of _ 4]) simp
  then show ?thesis using suite_status [OF pr, of ?t 0 "[]" ?t 31] by simp
qed

text \<open>Stream identifiers stay between 1 and 255 and run through all of them.\<close>

lemma stream_id_range:
  assumes "1 \<le> unique_stream_id w" and "unique_stream_id w \<le> 255"
  shows "unat (fst (val_generate_stream_id w)) = unat (unique_stream_id w) mod 255 + 1"
    and "unique_stream_id (snd (val_generate_stream_id w)) = fst (val_generate_stream_id w)"
proof -
  have u: "unat (unique_stream_id w) \<le> 255" using assms(2) by (simp add: word_le_nat_alt)
  then have "unat (unique_stream_id w + 1) = unat (unique_stream_id w) + 1"
    by (simp add: unat_word_ariths)
  then show "unat (fst (val_generate_stream_id w)) = unat (unique_stream_id w) mod 255 + 1"
    using u by (cases "unat (unique_stream_id w) = 255") (auto simp: val_generate_stream_id_def Let_def word_less_nat_alt)
  show "unique_stream_id (snd (val_generate_stream_id w)) = fst (val_generate_stream_id w)"
    by (simp add: val_generate_stream_id_def Let_def)
qed

text \<open>The address that \<^verbatim>\<open>val_get_free_pa\<close> returns is rounded down, so the second of two requests overlaps
  the first unless the pointer was aligned.\<close>

lemma free_pa_rounds_down:
  assumes "k < 64"
  shows "fst (val_get_free_pa sz (2 ^ k) w) + take_bit k (free_mem_var_pa w) = free_mem_var_pa w"
proof -
  have "(2 ^ k - 1 :: u64) = mask k" by (simp add: mask_eq_exp_minus_1)
  then have "fst (val_get_free_pa sz (2 ^ k) w) = free_mem_var_pa w AND NOT (mask k)"
    by (simp add: val_get_free_pa_def Let_def)
  moreover have "free_mem_var_pa w AND NOT (mask k) = push_bit k (drop_bit k (free_mem_var_pa w))"
    by (rule bit_word_eqI) (auto simp: bit_and_iff bit_not_iff bit_mask_iff bit_push_bit_iff bit_drop_bit_eq)
  ultimately show ?thesis by (simp add: bits_ident)
qed

lemma free_pa_overlap:
  "let (b1, w1) = val_get_free_pa 0x1000 0x1000 example_harness; (b2, w2) = val_get_free_pa 0x10000 0x10000 w1
   in b1 = 0x880300000 \<and> b2 = 0x880300000"
  by (simp add: val_get_free_pa_def example_harness_def Let_def)

end
