(* ===== verification/Alloc_Spec.thy ===== *)
theory Alloc_Spec
  imports Acs_Prelude
begin

text \<open>
  What the clients of a memory allocator rely on. Two components provide one: the memory pool of the
  EL3 SMMU driver and the heap of the bare-metal platform layer. The contract is the locale
  \<open>zeroing_allocator\<close>: where a request is placed is a function of an abstract layout, a served request
  lies outside everything in use, is zero, and leaves what is in use unchanged. Its consequence for
  sequences of requests is proved once here. Rounding up to an alignment, which both allocators do with a
  mask, is here too.
\<close>

section \<open>Rounding up to an alignment\<close>

definition align_up :: "nat \<Rightarrow> nat \<Rightarrow> nat" where
  "align_up x al = (x + al - 1) div al * al"

lemma unat_and_not_mask: "unat ((w :: 'a::len word) AND NOT (mask k)) = unat w - unat w mod 2 ^ k"
proof -
  have "w AND NOT (mask k) = w - take_bit k w"
    by (subst disjunctive_diff_eq_and_not)
      (auto intro!: bit_word_eqI simp: bit_and_iff bit_not_iff bit_take_bit_iff bit_mask_iff)
  moreover have "take_bit k w \<le> w"
    by (simp add: word_le_nat_alt unat_take_bit_mod)
  ultimately show ?thesis by (simp add: unat_sub unat_take_bit_mod)
qed

lemma align_up_bounds:
  assumes "0 < al"
  shows "x \<le> align_up x al" and "align_up x al < x + al" and "al dvd align_up x al"
proof -
  have "align_up x al = (x + al - 1) - (x + al - 1) mod al"
    by (simp add: align_up_def minus_mod_eq_div_mult)
  moreover have "(x + al - 1) mod al < al" using assms by simp
  ultimately show "x \<le> align_up x al" "align_up x al < x + al" using assms by linarith+
qed (simp add: align_up_def)

text \<open>The C idiom \<^verbatim>\<open>(x + (al - 1)) & ~(al - 1)\<close> rounds up, as long as the sum does not wrap.\<close>

lemma mask_round_up:
  assumes "k < 64" and "x + 2 ^ k \<le> 2 ^ 64"
  shows "(of_nat x + (2 ^ k - 1)) AND NOT (2 ^ k - 1) = (of_nat (align_up x (2 ^ k)) :: u64)"
proof -
  have m: "(2 ^ k :: u64) - 1 = mask k" by (simp add: mask_eq_exp_minus_1)
  have u: "unat (of_nat x + mask k :: u64) = x + 2 ^ k - 1"
  proof -
    have "(of_nat x + mask k :: u64) = of_nat (x + 2 ^ k - 1)"
      by (simp add: mask_eq_exp_minus_1 of_nat_diff Suc_leI flip: add_diff_assoc)
    then show ?thesis using assms(2) by (simp add: unat_of_nat_small)
  qed
  have "unat ((of_nat x + mask k :: u64) AND NOT (mask k)) = align_up x (2 ^ k)"
    by (simp add: unat_and_not_mask u align_up_def minus_mod_eq_div_mult)
  then have "of_nat (unat ((of_nat x + mask k :: u64) AND NOT (mask k))) = (of_nat (align_up x (2 ^ k)) :: u64)"
    by (simp only:)
  then show ?thesis by (simp add: m)
qed

section \<open>Allocator interface\<close>

text \<open>An allocator whose placement of a request is a function of an abstract
  layout. A request is a size and the logarithm of its alignment.\<close>

primrec place_all :: "('b \<Rightarrow> 'r \<Rightarrow> ('b \<times> nat) option) \<Rightarrow> 'b \<Rightarrow> 'r list \<Rightarrow> ('b \<times> nat list) option" where
  "place_all place b [] = Some (b, [])"
| "place_all place b (r # rs) = do { (b1, q) \<leftarrow> place b r; (b2, qs) \<leftarrow> place_all place b1 rs; Some (b2, q # qs) }"

primrec alloc_all :: "('s \<Rightarrow> 'r \<Rightarrow> ('s \<times> u64) option) \<Rightarrow> 's \<Rightarrow> 'r list \<Rightarrow> ('s \<times> u64 list) option" where
  "alloc_all alloc s [] = Some (s, [])"
| "alloc_all alloc s (r # rs) = do { (s1, p) \<leftarrow> alloc s r; (s2, ps) \<leftarrow> alloc_all alloc s1 rs; Some (s2, p # ps) }"

locale zeroing_allocator =
  fixes alloc :: "'s \<Rightarrow> nat \<times> nat \<Rightarrow> ('s \<times> u64) option"
    and place :: "'b \<Rightarrow> nat \<times> nat \<Rightarrow> ('b \<times> nat) option"
    and inv :: "'b \<Rightarrow> 's \<Rightarrow> bool"
    and in_use :: "'b \<Rightarrow> nat \<Rightarrow> bool"
    and byte_at :: "'s \<Rightarrow> nat \<Rightarrow> u8"
  assumes alloc_placed: "inv b s \<Longrightarrow> place b r = Some (b', q) \<Longrightarrow>
      \<exists>s'. alloc s r = Some (s', of_nat q) \<and> inv b' s' \<and> (\<forall>i<fst r. byte_at s' (q + i) = 0) \<and>
        (\<forall>y. in_use b y \<longrightarrow> byte_at s' y = byte_at s y)"
    and place_fresh: "inv b s \<Longrightarrow> place b r = Some (b', q) \<Longrightarrow> i < fst r \<Longrightarrow> \<not> in_use b (q + i) \<and> in_use b' (q + i)"
    and place_aligned: "inv b s \<Longrightarrow> place b r = Some (b', q) \<Longrightarrow> 2 ^ snd r dvd q"
    and place_keeps: "inv b s \<Longrightarrow> place b r = Some (b', q) \<Longrightarrow> in_use b y \<Longrightarrow> in_use b' y"
begin

lemma alloc_all_placed:
  assumes "inv b s" and "place_all place b rs = Some (b', qs)"
  shows "\<exists>s'. alloc_all alloc s rs = Some (s', map of_nat qs) \<and> inv b' s' \<and> length qs = length rs \<and>
    (\<forall>j<length rs. 2 ^ snd (rs ! j) dvd qs ! j) \<and>
    (\<forall>y. in_use b y \<longrightarrow> in_use b' y \<and> byte_at s' y = byte_at s y) \<and>
    (\<forall>j<length rs. \<forall>i<fst (rs ! j). \<not> in_use b (qs ! j + i) \<and> in_use b' (qs ! j + i) \<and> byte_at s' (qs ! j + i) = 0) \<and>
    (\<forall>j<length rs. \<forall>j'<j. \<forall>i<fst (rs ! j). \<forall>i'<fst (rs ! j'). qs ! j + i \<noteq> qs ! j' + i')"
  using assms
proof (induction rs arbitrary: b s qs)
  case Nil
  then show ?case by simp
next
  case (Cons r rs)
  obtain b1 q qs1 where p: "place b r = Some (b1, q)" "place_all place b1 rs = Some (b', qs1)" "qs = q # qs1"
    using Cons.prems(2) by (auto split: Option.bind_splits)
  obtain s1 where s1: "alloc s r = Some (s1, of_nat q)" "inv b1 s1" "\<forall>i<fst r. byte_at s1 (q + i) = 0"
    "\<forall>y. in_use b y \<longrightarrow> byte_at s1 y = byte_at s y"
    using alloc_placed [OF Cons.prems(1) p(1)] by blast
  obtain s2 where s2: "alloc_all alloc s1 rs = Some (s2, map of_nat qs1)" "inv b' s2" "length qs1 = length rs"
    and al: "\<forall>j<length rs. 2 ^ snd (rs ! j) dvd qs1 ! j"
    and keep: "\<forall>y. in_use b1 y \<longrightarrow> in_use b' y \<and> byte_at s2 y = byte_at s1 y"
    and fresh: "\<forall>j<length rs. \<forall>i<fst (rs ! j). \<not> in_use b1 (qs1 ! j + i) \<and> in_use b' (qs1 ! j + i) \<and> byte_at s2 (qs1 ! j + i) = 0"
    and apart: "\<forall>j<length rs. \<forall>j'<j. \<forall>i<fst (rs ! j). \<forall>i'<fst (rs ! j'). qs1 ! j + i \<noteq> qs1 ! j' + i'"
    using Cons.IH [OF s1(2) p(2)] by blast
  note new = place_fresh [OF Cons.prems(1) p(1)] and old = place_keeps [OF Cons.prems(1) p(1)]
  have "alloc_all alloc s (r # rs) = Some (s2, map of_nat qs)" using s1(1) s2(1) p(3) by simp
  moreover have "2 ^ snd ((r # rs) ! j) dvd qs ! j" if "j < length (r # rs)" for j
    using that al place_aligned [OF Cons.prems(1) p(1)] p(3) by (cases j) auto
  moreover have "\<forall>y. in_use b y \<longrightarrow> in_use b' y \<and> byte_at s2 y = byte_at s y"
    using keep old s1(4) by auto
  moreover have "\<not> in_use b (qs ! j + i) \<and> in_use b' (qs ! j + i) \<and> byte_at s2 (qs ! j + i) = 0"
    if "j < length (r # rs)" "i < fst ((r # rs) ! j)" for j i
  proof (cases j)
    case 0
    then show ?thesis using that new s1(3) keep p(3) by auto
  next
    case (Suc k)
    then show ?thesis using that fresh old p(3) by auto
  qed
  moreover have "qs ! j + i \<noteq> qs ! j' + i'"
    if A: "j < length (r # rs)" "j' < j" "i < fst ((r # rs) ! j)" "i' < fst ((r # rs) ! j')" for j j' i i'
  proof (cases j')
    case 0
    obtain k where k: "j = Suc k" using A(2) by (cases j) auto
    have "in_use b1 (q + i')" "\<not> in_use b1 (qs1 ! k + i)" using new fresh A 0 k by auto
    then show ?thesis using 0 k p(3) by auto
  next
    case (Suc k')
    obtain k where "j = Suc k" using A(2) by (cases j) auto
    then show ?thesis using apart A Suc p(3) by auto
  qed
  ultimately show ?case using s2(2,3) p(3) by simp
qed

end

end
