(* ===== verification/El3_Pool.thy ===== *)
theory El3_Pool
  imports Alloc_Spec
begin

text \<open>
  The memory pool of the EL3 SMMU driver (\<^verbatim>\<open>val_el3/smmuv3_realm.c\<close>: \<^verbatim>\<open>memory_pool_init\<close>,
  \<^verbatim>\<open>split_block\<close>, \<^verbatim>\<open>align_size\<close>, \<^verbatim>\<open>my_malloc\<close>, \<^verbatim>\<open>my_free\<close>, \<^verbatim>\<open>my_calloc\<close>), a list of blocks
  linked through headers that lie in the memory they manage.

  The headers are modelled where the code keeps them, in byte-addressed memory: a
  \<^verbatim>\<open>BlockHeader\<close> at \<open>b\<close> has its size at \<open>b\<close>, the free flag at \<open>b + 8\<close> and the link at
  \<open>b + 16\<close>. The base address of the pool is the platform's \<^verbatim>\<open>FREE_MEM_SMMU\<close>, a parameter. The
  loops over the list follow links in memory and are \<open>None\<close> when they do not end. The abstract
  pool is a list of sizes and free flags that tile the pool; the operations are shown to
  implement first-fit allocation and pairwise coalescing on it.
\<close>

section \<open>The pool\<close>

record mem_pool =
  pool_mem :: memory
  free_list :: u64

abbreviation (input) MEMORY_POOL_SIZE :: nat where "MEMORY_POOL_SIZE \<equiv> 2097152"

abbreviation block_size :: "memory \<Rightarrow> u64 \<Rightarrow> u64" where "block_size m b \<equiv> ld64 m b"
abbreviation block_is_free :: "memory \<Rightarrow> u64 \<Rightarrow> bool" where "block_is_free m b \<equiv> ld32 m (b + 8) \<noteq> 0"
abbreviation block_next :: "memory \<Rightarrow> u64 \<Rightarrow> u64" where "block_next m b \<equiv> ld64 m (b + 16)"

definition memory_pool_init :: "u64 \<Rightarrow> mem_pool \<Rightarrow> mem_pool" where
  "memory_pool_init base s =
     \<lparr>pool_mem = st64 (st32 (st64 (pool_mem s) base (of_nat MEMORY_POOL_SIZE - 24)) (base + 8) 1) (base + 16) 0,
      free_list = base\<rparr>"

definition split_block :: "memory \<Rightarrow> u64 \<Rightarrow> u64 \<Rightarrow> memory" where
  "split_block m block sz =
     (let new_block = block + 24 + sz;
          m1 = st64 m new_block (block_size m block - sz - 24);
          m2 = st32 m1 (new_block + 8) 1;
          m3 = st64 m2 (new_block + 16) (block_next m2 block);
          m4 = st64 m3 block sz
      in st64 m4 (block + 16) new_block)"

definition align_size :: "u64 \<Rightarrow> u64 \<Rightarrow> u64" where
  "align_size sz alignment = (sz + (alignment - 1)) AND NOT (alignment - 1)"

partial_function (option) malloc_loop :: "memory \<Rightarrow> u64 \<Rightarrow> u64 \<Rightarrow> u64 \<Rightarrow> (memory \<times> u64) option" where
  "malloc_loop m sz alignment current =
     (if current = 0 then Some (m, 0)
      else let block_start = current + 24;
               aligned_start = align_size block_start alignment;
               alignment_padding = aligned_start - block_start
        in if block_is_free m current \<and> sz + alignment_padding \<le> block_size m current then
             let m1 = (if sz + alignment_padding + 24 < block_size m current
                       then split_block m current (sz + alignment_padding) else m)
             in Some (st32 m1 (current + 8) 0, aligned_start)
           else malloc_loop m sz alignment (block_next m current))"

definition my_malloc :: "u64 \<Rightarrow> mem_pool \<Rightarrow> u64 \<Rightarrow> u64 \<Rightarrow> (mem_pool \<times> u64) option" where
  "my_malloc base s0 sz alignment =
     (let s = (if free_list s0 = 0 then memory_pool_init base s0 else s0)
      in case malloc_loop (pool_mem s) (align_size sz alignment) alignment (free_list s) of
           None \<Rightarrow> None | Some (m, p) \<Rightarrow> Some (s\<lparr>pool_mem := m\<rparr>, p))"

partial_function (option) coalesce_loop :: "memory \<Rightarrow> u64 \<Rightarrow> memory option" where
  "coalesce_loop m current =
     (if current = 0 then Some m
      else let nxt = block_next m current;
               m' = (if block_is_free m current \<and> nxt \<noteq> 0 \<and> block_is_free m nxt then
                       let m1 = st64 m current (block_size m current + (block_size m nxt + 24))
                       in st64 m1 (current + 16) (block_next m1 nxt)
                     else m)
        in coalesce_loop m' (block_next m' current))"

definition my_free :: "mem_pool \<Rightarrow> u64 \<Rightarrow> mem_pool option" where
  "my_free s ptr =
     (if ptr = 0 then Some s
      else case coalesce_loop (st32 (pool_mem s) (ptr - 24 + 8) 1) (free_list s) of
             None \<Rightarrow> None | Some m \<Rightarrow> Some (s\<lparr>pool_mem := m\<rparr>))"

definition memset :: "memory \<Rightarrow> u64 \<Rightarrow> u8 \<Rightarrow> nat \<Rightarrow> memory" where
  "memset m a v n = (\<lambda>x. if unat (x - a) < n then v else m x)"

definition my_calloc :: "u64 \<Rightarrow> mem_pool \<Rightarrow> u64 \<Rightarrow> u64 \<Rightarrow> u64 \<Rightarrow> (mem_pool \<times> u64) option" where
  "my_calloc base s num sz alignment =
     (let total_size = num * sz in
      case my_malloc base s total_size alignment of
        None \<Rightarrow> None
      | Some (s', ptr) \<Rightarrow>
          Some (if ptr \<noteq> 0 then s'\<lparr>pool_mem := memset (pool_mem s') ptr 0 (unat total_size)\<rparr> else s', ptr))"

section \<open>The abstract pool\<close>

text \<open>The blocks from address \<open>a\<close> to the end \<open>e\<close> of the pool, with the headers in memory.\<close>

type_synonym blocks = "(nat \<times> bool) list"

fun tiled :: "memory \<Rightarrow> nat \<Rightarrow> nat \<Rightarrow> u64 \<Rightarrow> blocks \<Rightarrow> bool" where
  "tiled m a e p [] \<longleftrightarrow> p = 0 \<and> a = e"
| "tiled m a e p ((sz, f) # bs) \<longleftrightarrow>
     p = of_nat a \<and> a + 24 + sz \<le> e \<and> block_size m p = of_nat sz \<and> block_is_free m p = f \<and>
     tiled m (a + 24 + sz) e (block_next m p) bs"

definition pool_ok :: "nat \<Rightarrow> blocks \<Rightarrow> mem_pool \<Rightarrow> bool" where
  "pool_ok base bs s \<longleftrightarrow> 0 < base \<and> base + MEMORY_POOL_SIZE < 2 ^ 64 \<and> bs \<noteq> [] \<and>
     tiled (pool_mem s) base (base + MEMORY_POOL_SIZE) (free_list s) bs"

fun first_fit :: "nat \<Rightarrow> blocks \<Rightarrow> nat \<Rightarrow> nat \<Rightarrow> (blocks \<times> nat) option" where
  "first_fit a [] n al = None"
| "first_fit a ((sz, f) # bs) n al =
     (let p = align_up (a + 24) al; need = n + (p - (a + 24)) in
      if f \<and> need \<le> sz then
        Some (if need + 24 < sz then (need, False) # (sz - need - 24, True) # bs else (sz, False) # bs, p)
      else case first_fit (a + 24 + sz) bs n al of
             None \<Rightarrow> None | Some (bs', q) \<Rightarrow> Some ((sz, f) # bs', q))"

fun coalesce :: "blocks \<Rightarrow> blocks" where
  "coalesce [] = []"
| "coalesce [b] = [b]"
| "coalesce (b # c # bs) =
     (if snd b \<and> snd c then (fst b + fst c + 24, True) # coalesce bs else b # coalesce (c # bs))"

text \<open>Start and length of the payloads of the blocks in use.\<close>

fun payloads :: "nat \<Rightarrow> blocks \<Rightarrow> (nat \<times> nat) list" where
  "payloads a [] = []"
| "payloads a ((sz, f) # bs) = (if f then [] else [(a + 24, sz)]) @ payloads (a + 24 + sz) bs"

section \<open>Headers in memory\<close>

text \<open>The header of a block is unchanged when its 24 bytes are, and the blocks of a region when the
  region is.\<close>

lemma header_agree:
  assumes "\<And>y. a \<le> y \<Longrightarrow> y < a + 24 \<Longrightarrow> m' (of_nat y) = m (of_nat y)"
  shows "block_size m' (of_nat a) = block_size m (of_nat a)"
    and "ld32 m' (of_nat a + 8) = ld32 m (of_nat a + 8)"
    and "block_next m' (of_nat a) = block_next m (of_nat a)"
  using ld64_agree [of a m' m] ld32_agree [of "a + 8" m' m] ld64_agree [of "a + 16" m' m] assms
  by simp_all

lemma tiled_agree:
  assumes "\<And>y. a \<le> y \<Longrightarrow> y < e \<Longrightarrow> m' (of_nat y) = m (of_nat y)"
  shows "tiled m' a e p bs = tiled m a e p bs"
  using assms
proof (induction bs arbitrary: a p)
  case (Cons b bs)
  obtain sz f where b: "b = (sz, f)" by (cases b)
  show ?case
  proof (cases "p = of_nat a \<and> a + 24 + sz \<le> e")
    case True
    note h = header_agree [of a m' m]
    have h: "block_size m' (of_nat a) = block_size m (of_nat a)"
      "ld32 m' (of_nat a + 8) = ld32 m (of_nat a + 8)" "block_next m' (of_nat a) = block_next m (of_nat a)"
      using True Cons.prems by (auto intro!: h)
    have "tiled m' (a + 24 + sz) e q bs = tiled m (a + 24 + sz) e q bs" for q
      by (rule Cons.IH) (simp add: Cons.prems)
    then show ?thesis using True by (simp add: b h)
  qed (auto simp: b)
qed simp


text \<open>Changing the flag of the first block.\<close>

lemma tiled_set_free:
  assumes "tiled m a e p ((sz, f) # bs)" and "e < 2 ^ 64"
  shows "tiled (st32 m (p + 8) v) a e p ((sz, v \<noteq> 0) # bs)"
proof -
  have p: "p = of_nat a" "p + 8 = of_nat (a + 8)" "p + 16 = of_nat (a + 16)" and le: "a + 24 + sz \<le> e"
    using assms(1) by auto
  let ?m = "st32 m (of_nat (a + 8)) v"
  have "tiled ?m (a + 24 + sz) e q bs = tiled m (a + 24 + sz) e q bs" for q
    by (rule tiled_agree) (use assms(2) le in \<open>simp add: st32_at del: of_nat_add\<close>)
  moreover have "ld64 ?m (of_nat a) = ld64 m (of_nat a)"
    by (rule ld64_agree) (use assms(2) le in \<open>simp add: st32_at del: of_nat_add\<close>)
  moreover have "ld64 ?m (of_nat (a + 16)) = ld64 m (of_nat (a + 16))"
    by (rule ld64_agree) (use assms(2) le in \<open>simp add: st32_at del: of_nat_add\<close>)
  ultimately show ?thesis
    using assms(1) by (simp add: p c32.ld_st_same)
qed

text \<open>An operation on the blocks after the first one.\<close>

lemma tiled_tail_update:
  assumes "tiled m a e p ((sz, f) # bs)" and "tiled m' (a + 24 + sz) e (block_next m p) bs'"
    and "\<And>y. y < a + 24 \<Longrightarrow> m' (of_nat y) = m (of_nat y)"
  shows "tiled m' a e p ((sz, f) # bs')"
  using assms header_agree [of a m' m] by auto

section \<open>Allocation\<close>

lemma align_size_up:
  assumes "k < 64" and "x + 2 ^ k \<le> 2 ^ 64"
  shows "align_size (of_nat x) (2 ^ k) = of_nat (align_up x (2 ^ k))"
  using mask_round_up [OF assms] by (simp add: align_size_def algebra_simps)

text \<open>Splitting a block into one of the needed size and a free rest.\<close>

lemma split_block_tiled:
  assumes t: "tiled m a e p ((sz, f) # bs)" and e: "e < 2 ^ 64" and need: "need + 24 \<le> sz"
  shows "tiled (split_block m p (of_nat need)) a e p ((need, f) # (sz - need - 24, True) # bs)"
    and "y < 2 ^ 64 \<Longrightarrow> y < a \<or> a + 24 \<le> y \<and> y < a + 24 + need \<or> a + 48 + need \<le> y \<Longrightarrow>
      split_block m p (of_nat need) (of_nat y) = m (of_nat y)"
proof -
  define b where "b = a + 24 + need"
  have p: "p = of_nat a" "p + 8 = of_nat (a + 8)" "p + 16 = of_nat (a + 16)" "p + 24 + of_nat need = of_nat b"
    "of_nat b + 8 = (of_nat (b + 8) :: u64)" "of_nat b + 16 = (of_nat (b + 16) :: u64)"
    and le: "a + 24 + sz \<le> e"
    using t by (auto simp: b_def)
  have w: "b + 24 \<le> e" "e < 2 ^ 64" "a + 24 \<le> b" using need le e by (simp_all add: b_def)
  have nx: "ld64 m (of_nat (a + 16)) = block_next m p" by (simp add: p)
  have rest: "block_size m p - of_nat need - 24 = (of_nat (sz - need - 24) :: u64)"
    using t need by (auto simp: of_nat_diff)
  define m1 where "m1 = st64 m (of_nat b) (of_nat (sz - need - 24))"
  define m2 where "m2 = st32 m1 (of_nat (b + 8)) 1"
  define m3 where "m3 = st64 m2 (of_nat (b + 16)) (ld64 m2 (of_nat (a + 16)))"
  define m4 where "m4 = st64 m3 (of_nat a) (of_nat need)"
  define m5 where "m5 = st64 m4 (of_nat (a + 16)) (of_nat b)"
  have sb: "split_block m p (of_nat need) = m5"
    unfolding split_block_def Let_def rest p(2-6) m1_def m2_def m3_def m4_def m5_def by (simp only: p(1))
  note ms = m1_def m2_def m3_def m4_def m5_def
  have l: "ld64 m5 (of_nat a) = of_nat need" "ld64 m5 (of_nat (a + 16)) = of_nat b"
    "ld64 m5 (of_nat b) = of_nat (sz - need - 24)" "ld32 m5 (of_nat (b + 8)) = 1"
    "ld64 m5 (of_nat (b + 16)) = ld64 m (of_nat (a + 16))" "ld32 m5 (of_nat (a + 8)) = ld32 m (of_nat (a + 8))"
    using w by (simp_all add: ms ld_at c64.ld_st_same c32.ld_st_same del: of_nat_add of_nat_diff)
  have fr: "m5 (of_nat y) = m (of_nat y)"
    if "y < 2 ^ 64" "y < a \<or> a + 24 \<le> y \<and> y < b \<or> b + 24 \<le> y" for y
    using that w by (auto simp: ms st64_at st32_at simp del: of_nat_add of_nat_diff)
  have tl: "tiled m5 (a + 24 + sz) e q bs = tiled m (a + 24 + sz) e q bs" for q
    by (rule tiled_agree) (rule fr, use w need in \<open>auto simp: b_def\<close>)
  have b': "a + 24 + need = b" "b + 24 + (sz - (need + 24)) = a + 24 + sz" using need by (simp_all add: b_def)
  show "tiled (split_block m p (of_nat need)) a e p ((need, f) # (sz - need - 24, True) # bs)"
    unfolding sb using t w l [unfolded of_nat_add of_nat_numeral] by (auto simp: b' tl)
  show "split_block m p (of_nat need) (of_nat y) = m (of_nat y)"
    if "y < 2 ^ 64" "y < a \<or> a + 24 \<le> y \<and> y < a + 24 + need \<or> a + 48 + need \<le> y"
    unfolding sb by (rule fr) (use that in \<open>auto simp: b_def\<close>)
qed


text \<open>The bytes an allocation must not touch: outside the pool and in the payloads of the blocks in
  use.\<close>

definition kept :: "nat \<Rightarrow> nat \<Rightarrow> blocks \<Rightarrow> nat \<Rightarrow> bool" where
  "kept a e bs y \<longleftrightarrow> y < 2 ^ 64 \<and> (y < a \<or> e \<le> y \<or> (\<exists>(st, n) \<in> set (payloads a bs). st \<le> y \<and> y < st + n))"

lemma payloads_from: "(st, n) \<in> set (payloads a bs) \<Longrightarrow> a + 24 \<le> st"
  by (induction bs arbitrary: a) (fastforce split: if_splits)+

lemma kept_step:
  assumes "kept a e ((sz, f) # bs) y"
  shows "kept (a + 24 + sz) e bs y" and "f \<Longrightarrow> y < a \<or> a + 24 + sz \<le> y \<or> e \<le> y"
  using assms payloads_from [of _ _ "a + 24 + sz" bs] by (fastforce simp: kept_def split: if_splits)+

lemma malloc_loop_tiled:
  assumes "tiled m a e p bs" and "0 < a" and "k < 64" and "e + n + 2 ^ k < 2 ^ 64"
  shows "case first_fit a bs n (2 ^ k) of
      None \<Rightarrow> malloc_loop m (of_nat n) (2 ^ k) p = Some (m, 0)
    | Some (bs', q) \<Rightarrow> \<exists>m'. malloc_loop m (of_nat n) (2 ^ k) p = Some (m', of_nat q) \<and>
        tiled m' a e p bs' \<and> (\<forall>y. kept a e bs y \<longrightarrow> m' (of_nat y) = m (of_nat y))"
  using assms
proof (induction bs arbitrary: a p)
  case Nil
  then show ?case by (simp add: malloc_loop.simps)
next
  case (Cons b bs)
  obtain sz f where b: "b = (sz, f)" by (cases b)
  define q where "q = align_up (a + 24) (2 ^ k)"
  define need where "need = n + (q - (a + 24))"
  have t: "p = of_nat a" "a + 24 + sz \<le> e" "block_size m p = of_nat sz" "block_is_free m p = f"
    "tiled m (a + 24 + sz) e (block_next m p) bs"
    using Cons.prems(1) by (auto simp: b)
  have q: "a + 24 \<le> q" "q < a + 24 + 2 ^ k"
    using align_up_bounds [of "2 ^ k" "a + 24"] by (simp_all add: q_def)
  have wq: "align_size (p + 24) (2 ^ k) = of_nat q"
    using align_size_up [of k "a + 24"] Cons.prems(3,4) t(1,2) by (simp add: q_def)
  have wpad: "of_nat n + (of_nat q - (p + 24)) = (of_nat need :: u64)"
    using q by (simp add: need_def of_nat_diff t(1))
  have p0: "p \<noteq> 0" using Cons.prems(2,4) t(1,2) unat_of_nat_small [of a, where 'a = 64] by auto
  have lt: "need + 24 < 2 ^ 64" "sz < 2 ^ 64" using Cons.prems(4) t(2) q by (simp_all add: need_def)
  have cmp: "(of_nat need :: u64) \<le> of_nat sz \<longleftrightarrow> need \<le> sz"
    "(of_nat need + 24 :: u64) < of_nat sz \<longleftrightarrow> need + 24 < sz"
    using lt unat_of_nat_small [of "need + 24", where 'a = 64]
    by (simp_all add: word_le_nat_alt word_less_nat_alt unat_of_nat_small)
  note unf = malloc_loop.simps [of m "of_nat n" "2 ^ k" p]
  show ?case
  proof (cases "f \<and> need \<le> sz")
    case True
    define m1 where "m1 = (if need + 24 < sz then split_block m p (of_nat need) else m)"
    define bs1 where "bs1 = (if need + 24 < sz then (need, False) # (sz - need - 24, True) # bs else (sz, False) # bs)"
    have ff: "first_fit a (b # bs) n (2 ^ k) = Some (bs1, q)"
      using True by (simp add: b q_def [symmetric] need_def [symmetric] bs1_def)
    have run: "malloc_loop m (of_nat n) (2 ^ k) p = Some (st32 m1 (p + 8) 0, of_nat q)"
      unfolding unf using True p0 t(3,4) by (simp add: wq wpad cmp m1_def add.assoc)
    have e: "e < 2 ^ 64" using Cons.prems(4) by simp
    have "tiled (st32 m1 (p + 8) 0) a e p bs1"
    proof (cases "need + 24 < sz")
      case split: True
      then have "need + 24 \<le> sz" by simp
      from tiled_set_free [OF split_block_tiled(1) [OF Cons.prems(1) [unfolded b] e this] e, of 0]
      show ?thesis using split by (simp add: m1_def bs1_def del: tiled.simps)
    next
      case False
      with tiled_set_free [OF Cons.prems(1) [unfolded b] e, of 0] show ?thesis
        by (simp add: m1_def bs1_def del: tiled.simps)
    qed
    moreover have "st32 m1 (p + 8) 0 (of_nat y) = m (of_nat y)" if "kept a e (b # bs) y" for y
    proof -
      have y: "y < 2 ^ 64" "y < a \<or> a + 24 + sz \<le> y"
        using kept_step(2) [OF that [unfolded b]] that True t(2) by (auto simp: kept_def)
      have "p + 8 = of_nat (a + 8)" by (simp add: t(1))
      moreover have "m1 (of_nat y) = m (of_nat y)"
        using split_block_tiled(2) [OF Cons.prems(1) [unfolded b] e, of need y] y by (auto simp: m1_def)
      ultimately show ?thesis
        using y t(2) e st32_at [of "a + 8" y m1 0] by (auto simp del: of_nat_add)
    qed
    ultimately show ?thesis using ff run by simp
  next
    case False
    have run: "malloc_loop m (of_nat n) (2 ^ k) p = malloc_loop m (of_nat n) (2 ^ k) (block_next m p)"
      unfolding unf using False p0 t(3,4) by (auto simp: wq wpad cmp Let_def)
    have ff: "first_fit a (b # bs) n (2 ^ k) = (case first_fit (a + 24 + sz) bs n (2 ^ k) of
        None \<Rightarrow> None | Some (bs', r) \<Rightarrow> Some ((sz, f) # bs', r))"
      using False by (auto simp: b q_def [symmetric] need_def [symmetric])
    note IH = Cons.IH [OF t(5) _ Cons.prems(3,4)]
    show ?thesis
    proof (cases "first_fit (a + 24 + sz) bs n (2 ^ k)")
      case None
      with IH show ?thesis by (simp add: ff run)
    next
      case (Some r)
      obtain bs' q' where r: "r = (bs', q')" by (cases r)
      from IH obtain m' where m': "malloc_loop m (of_nat n) (2 ^ k) (block_next m p) = Some (m', of_nat q')"
        "tiled m' (a + 24 + sz) e (block_next m p) bs'"
        and fr: "\<And>y. kept (a + 24 + sz) e bs y \<Longrightarrow> m' (of_nat y) = m (of_nat y)"
        by (auto simp: Some r)
      have "m' (of_nat y) = m (of_nat y)" if "y < a + 24" for y
        by (rule fr) (use that t(2) Cons.prems(4) in \<open>auto simp: kept_def\<close>)
      then have "tiled m' a e p ((sz, f) # bs')"
        by (rule tiled_tail_update [OF Cons.prems(1) [unfolded b] m'(2)])
      then show ?thesis using m'(1) fr kept_step(1) [of a e sz f bs]
        unfolding ff Some r by (auto simp: run b simp del: tiled.simps)
    qed
  qed
qed


section \<open>Release\<close>

lemma tiled_length: "tiled m a e p bs \<Longrightarrow> a \<le> e"
  by (induction bs arbitrary: a p) auto

lemma coalesce_step:
  assumes t: "tiled m a e p ((s, True) # (t, True) # bs)" and e: "e < 2 ^ 64"
  defines "m' \<equiv> st64 (st64 m p (of_nat s + (of_nat t + 24))) (p + 16)
    (block_next (st64 m p (of_nat s + (of_nat t + 24))) (block_next m p))"
  shows "tiled m' a e p ((s + t + 24, True) # bs)"
    and "y < 2 ^ 64 \<Longrightarrow> y < a \<or> a + 24 \<le> y \<Longrightarrow> m' (of_nat y) = m (of_nat y)"
proof -
  define b where "b = a + 24 + s"
  have p: "p = of_nat a" "p + 8 = of_nat (a + 8)" "p + 16 = of_nat (a + 16)" "block_next m p = of_nat b"
    "of_nat b + 16 = (of_nat (b + 16) :: u64)" and w: "b + 24 + t \<le> e" "e < 2 ^ 64" "a + 24 \<le> b"
    using t e by (auto simp: b_def)
  define m1 where "m1 = st64 m (of_nat a) (of_nat (s + t + 24))"
  have m': "m' = st64 m1 (of_nat (a + 16)) (ld64 m1 (of_nat (b + 16)))"
    unfolding m'_def p(4) unfolding p(2,3,5) m1_def by (simp add: p(1) add.assoc)
  have fr: "m' (of_nat y) = m (of_nat y)" if "y < 2 ^ 64" "y < a \<or> a + 24 \<le> y" for y
    using that w by (auto simp: m' m1_def st64_at simp del: of_nat_add)
  have l: "ld64 m' (of_nat a) = of_nat (s + t + 24)" "ld64 m' (of_nat (a + 16)) = ld64 m (of_nat (b + 16))"
    "ld32 m' (of_nat (a + 8)) = ld32 m (of_nat (a + 8))"
    using w by (simp_all add: m' m1_def ld_at c64.ld_st_same del: of_nat_add)
  have tl: "tiled m' (b + 24 + t) e q bs = tiled m (b + 24 + t) e q bs" for q
    by (rule tiled_agree) (rule fr, use w in auto)
  have b': "a + 24 + (s + t + 24) = b + 24 + t" by (simp add: b_def)
  have h: "tiled m (b + 24 + t) e (ld64 m (of_nat (b + 16))) bs" "block_is_free m p"
    using t by (auto simp: b_def)
  show "tiled m' a e p ((s + t + 24, True) # bs)"
    using l h w unfolding tiled.simps b' tl p(2,3) by (simp add: p(1))
  show "m' (of_nat y) = m (of_nat y)" if "y < 2 ^ 64" "y < a \<or> a + 24 \<le> y"
    using that by (rule fr)
qed

lemma coalesce_loop_cons:
  assumes t: "tiled m a e p ((sz, f) # bs)" and a: "0 < a" and e: "e < 2 ^ 64"
    and run: "coalesce_loop m0 p = coalesce_loop m (block_next m p)"
    and IH: "\<exists>m'. coalesce_loop m (block_next m p) = Some m' \<and>
      tiled m' (a + 24 + sz) e (block_next m p) bs' \<and>
      (\<forall>y. kept (a + 24 + sz) e bs y \<longrightarrow> m' (of_nat y) = m (of_nat y))"
  shows "\<exists>m'. coalesce_loop m0 p = Some m' \<and> tiled m' a e p ((sz, f) # bs') \<and>
    (\<forall>y. kept a e ((sz, f) # bs) y \<longrightarrow> m' (of_nat y) = m (of_nat y))"
proof -
  from IH obtain m' where m': "coalesce_loop m (block_next m p) = Some m'"
    "tiled m' (a + 24 + sz) e (block_next m p) bs'"
    and fr: "\<And>y. kept (a + 24 + sz) e bs y \<Longrightarrow> m' (of_nat y) = m (of_nat y)" by blast
  have "m' (of_nat y) = m (of_nat y)" if "y < a + 24" for y
    by (rule fr) (use that t e in \<open>auto simp: kept_def\<close>)
  then have "tiled m' a e p ((sz, f) # bs')" by (rule tiled_tail_update [OF t m'(2)])
  then show ?thesis using run m'(1) fr kept_step(1) [of a e sz f bs] by auto
qed

lemma tiled_nonnull: "tiled m a e p (b # bs) \<Longrightarrow> 0 < a \<Longrightarrow> e < 2 ^ 64 \<Longrightarrow> p \<noteq> 0"
  using unat_of_nat_small [of a, where 'a = 64] by (cases b) auto

lemma coalesce_loop_tiled:
  assumes "tiled m a e p bs" and "0 < a" and "e < 2 ^ 64"
  shows "\<exists>m'. coalesce_loop m p = Some m' \<and> tiled m' a e p (coalesce bs) \<and>
    (\<forall>y. kept a e bs y \<longrightarrow> m' (of_nat y) = m (of_nat y))"
  using assms
proof (induction bs arbitrary: m a p rule: coalesce.induct)
  case 1
  then show ?case by (simp add: coalesce_loop.simps)
next
  case (2 b)
  obtain sz f where b: "b = (sz, f)" by (cases b)
  have "block_next m p = 0" using "2.prems" by (auto simp: b)
  then show ?case using "2.prems" tiled_nonnull [OF "2.prems"]
    by (simp add: coalesce_loop.simps [of m p] coalesce_loop.simps [of m 0])
next
  case (3 b c bs)
  obtain s f t g where b: "b = (s, f)" "c = (t, g)" by (cases b, cases c)
  note p0 = tiled_nonnull [OF "3.prems"]
  have tl: "tiled m (a + 24 + s) e (block_next m p) (c # bs)" and h: "block_size m p = of_nat s" "block_is_free m p = f"
    using "3.prems"(1) by (auto simp: b)
  note q0 = tiled_nonnull [OF tl _ "3.prems"(3)]
  have h2: "block_size m (block_next m p) = of_nat t" "block_is_free m (block_next m p) = g"
    using tl by (auto simp: b)
  show ?case
  proof (cases "f \<and> g")
    case True
    define m1 where "m1 = st64 (st64 m p (of_nat s + (of_nat t + 24))) (p + 16)
      (block_next (st64 m p (of_nat s + (of_nat t + 24))) (block_next m p))"
    have T: "tiled m a e p ((s, True) # (t, True) # bs)" using "3.prems"(1) True by (simp add: b del: tiled.simps)
    note cs = coalesce_step [OF T "3.prems"(3), folded m1_def]
    have "coalesce_loop m p = coalesce_loop m1 (block_next m1 p)"
      using p0 q0 True h h2 by (simp add: coalesce_loop.simps [of m p] m1_def Let_def)
    then have "\<exists>m'. coalesce_loop m p = Some m' \<and> tiled m' a e p ((s + t + 24, True) # coalesce bs) \<and>
      (\<forall>y. kept a e ((s + t + 24, True) # bs) y \<longrightarrow> m' (of_nat y) = m1 (of_nat y))"
      by (rule coalesce_loop_cons [OF cs(1) "3.prems"(2,3)])
        (rule "3.IH"(1), use True cs(1) "3.prems" in \<open>auto simp: b\<close>)
    moreover have k: "kept a e (b # c # bs) y = kept a e ((s + t + 24, True) # bs) y" for y
      using True by (simp add: b kept_def algebra_simps)
    moreover have "m1 (of_nat y) = m (of_nat y)" if "kept a e (b # c # bs) y" for y
      by (rule cs(2)) (use kept_step(2) [OF that [unfolded k]] that cs(1) in \<open>auto simp: kept_def\<close>)
    ultimately show ?thesis using True by (auto simp: b simp del: tiled.simps)
  next
    case False
    then have "coalesce_loop m p = coalesce_loop m (block_next m p)"
      using p0 q0 h h2 by (auto simp: coalesce_loop.simps [of m p] Let_def)
    then have "\<exists>m'. coalesce_loop m p = Some m' \<and> tiled m' a e p ((s, f) # coalesce (c # bs)) \<and>
      (\<forall>y. kept a e ((s, f) # c # bs) y \<longrightarrow> m' (of_nat y) = m (of_nat y))"
      by (rule coalesce_loop_cons [OF "3.prems"(1) [unfolded b(1)] "3.prems"(2,3)])
        (rule "3.IH"(2), use False tl "3.prems" in \<open>auto simp: b\<close>)
    then show ?thesis using False by (auto simp: b simp del: tiled.simps)
  qed
qed


section \<open>The contract of the pool\<close>

lemma pool_ok_init:
  assumes "0 < base" and "base + MEMORY_POOL_SIZE < 2 ^ 64"
  shows "pool_ok base [(MEMORY_POOL_SIZE - 24, True)] (memory_pool_init (of_nat base) s)"
    and "kept base (base + MEMORY_POOL_SIZE) [] y \<Longrightarrow>
      pool_mem (memory_pool_init (of_nat base) s) (of_nat y) = pool_mem s (of_nat y)"
proof -
  define m where "m = st64 (st32 (st64 (pool_mem s) (of_nat base) (of_nat MEMORY_POOL_SIZE - 24))
    (of_nat (base + 8)) 1) (of_nat (base + 16)) 0"
  have i: "memory_pool_init (of_nat base) s = \<lparr>pool_mem = m, free_list = of_nat base\<rparr>"
    by (simp add: memory_pool_init_def m_def)
  have "ld64 m (of_nat base) = of_nat MEMORY_POOL_SIZE - 24" "ld32 m (of_nat (base + 8)) = 1"
    "ld64 m (of_nat (base + 16)) = 0"
    using assms by (simp_all add: m_def ld_at c64.ld_st_same c32.ld_st_same del: of_nat_add)
  then show "pool_ok base [(MEMORY_POOL_SIZE - 24, True)] (memory_pool_init (of_nat base) s)"
    using assms by (simp add: pool_ok_def i)
  show "pool_mem (memory_pool_init (of_nat base) s) (of_nat y) = pool_mem s (of_nat y)"
    if "kept base (base + MEMORY_POOL_SIZE) [] y"
    using that assms by (auto simp: i m_def kept_def st64_at st32_at simp del: of_nat_add)
qed

lemma pool_ok_head: "pool_ok base bs s \<Longrightarrow> free_list s = of_nat base \<and> free_list s \<noteq> 0"
  using tiled_nonnull [of "pool_mem s" base "base + MEMORY_POOL_SIZE" "free_list s" "hd bs" "tl bs"]
  by (cases bs) (auto simp: pool_ok_def)

text \<open>What a first-fit allocation does to the blocks: the result is aligned, lies in a block that
  was free and is now in use, and all other blocks in use stay as they are.\<close>

lemma first_fit_sound:
  assumes "first_fit a bs n al = Some (bs', q)" and "0 < al"
  shows "al dvd q \<and> bs' \<noteq> [] \<and> (\<exists>st len. a + 24 \<le> st \<and> st \<le> q \<and> q + n \<le> st + len \<and>
      set (payloads a bs') = insert (st, len) (set (payloads a bs)) \<and>
      (\<forall>(st', len') \<in> set (payloads a bs). st + len \<le> st' \<or> st' + len' \<le> st))"
  using assms
proof (induction bs arbitrary: a bs')
  case (Cons b bs)
  obtain sz f where b: "b = (sz, f)" by (cases b)
  define p where "p = align_up (a + 24) al"
  define need where "need = n + (p - (a + 24))"
  have p: "a + 24 \<le> p" "al dvd p" using align_up_bounds [OF Cons.prems(2)] by (simp_all add: p_def)
  have beyond: "\<forall>(st', len') \<in> set (payloads (a + 24 + sz) bs). a + 24 + sz + 24 \<le> st'"
    using payloads_from by fastforce
  show ?case
  proof (cases "f \<and> need \<le> sz")
    case True
    then have q: "q = p" and bs': "bs' = (if need + 24 < sz then (need, False) # (sz - need - 24, True) # bs
        else (sz, False) # bs)"
      using Cons.prems(1) by (auto simp: b p_def [symmetric] need_def [symmetric] split: if_splits)
    define len where "len = (if need + 24 < sz then need else sz)"
    have "set (payloads a bs') = insert (a + 24, len) (set (payloads a (b # bs)))"
      using True by (auto simp: b bs' len_def add.commute add.left_commute)
    moreover have "need \<le> len" "len \<le> sz" using True by (auto simp: len_def)
    moreover have "\<forall>(st', len') \<in> set (payloads a (b # bs)). a + 24 + len \<le> st' \<or> st' + len' \<le> a + 24"
      using True beyond \<open>len \<le> sz\<close> by (auto simp: b)
    moreover have "p + n \<le> a + 24 + len" "bs' \<noteq> []" using p \<open>need \<le> len\<close> by (auto simp: need_def bs')
    ultimately show ?thesis using p unfolding q by blast
  next
    case False
    then obtain bs2 where ff: "first_fit (a + 24 + sz) bs n al = Some (bs2, q)" and bs': "bs' = (sz, f) # bs2"
      using Cons.prems(1)
      by (auto simp: b p_def [symmetric] need_def [symmetric] split: option.splits if_splits)
    from Cons.IH [OF ff Cons.prems(2)] obtain st len where
      "al dvd q" "a + 24 + sz + 24 \<le> st" "st \<le> q" "q + n \<le> st + len"
      "set (payloads (a + 24 + sz) bs2) = insert (st, len) (set (payloads (a + 24 + sz) bs))"
      "\<forall>(st', len') \<in> set (payloads (a + 24 + sz) bs). st + len \<le> st' \<or> st' + len' \<le> st" by auto
    then show ?thesis
      by (intro conjI exI [of _ st] exI [of _ len]) (auto simp: bs' b)
  qed
qed simp

lemma malloc_contract:
  assumes "pool_ok base bs s" and "k < 64"
    and "base + MEMORY_POOL_SIZE + align_up n (2 ^ k) + 2 ^ k < 2 ^ 64"
  shows "(case first_fit base bs (align_up n (2 ^ k)) (2 ^ k) of
      None \<Rightarrow> my_malloc (of_nat base) s (of_nat n) (2 ^ k) = Some (s, 0)
    | Some (bs', q) \<Rightarrow> \<exists>s' st len.
        my_malloc (of_nat base) s (of_nat n) (2 ^ k) = Some (s', of_nat q) \<and> pool_ok base bs' s' \<and>
        2 ^ k dvd q \<and> st \<le> q \<and> q + n \<le> st + len \<and>
        set (payloads base bs') = insert (st, len) (set (payloads base bs)) \<and>
        (\<forall>(st', len') \<in> set (payloads base bs). st + len \<le> st' \<or> st' + len' \<le> st) \<and>
        (\<forall>y. kept base (base + MEMORY_POOL_SIZE) bs y \<longrightarrow> pool_mem s' (of_nat y) = pool_mem s (of_nat y)))
    \<and> (free_list s0 = 0 \<longrightarrow> pool_ok base [(MEMORY_POOL_SIZE - 24, True)] (memory_pool_init (of_nat base) s0) \<and>
        my_malloc (of_nat base) s0 (of_nat n) (2 ^ k) =
        my_malloc (of_nat base) (memory_pool_init (of_nat base) s0) (of_nat n) (2 ^ k))"
proof
  let ?e = "base + MEMORY_POOL_SIZE" and ?n = "align_up n (2 ^ k)"
  have P: "0 < base" "?e < 2 ^ 64" "tiled (pool_mem s) base ?e (free_list s) bs"
    using assms(1) by (simp_all add: pool_ok_def)
  have up: "n \<le> ?n" by (rule align_up_bounds) simp
  have al: "align_size (of_nat n) (2 ^ k) = of_nat ?n"
    by (rule align_size_up) (use assms(2,3) up in auto)
  note ml = malloc_loop_tiled [OF P(3,1) assms(2,3)]
  have run: "my_malloc (of_nat base) s (of_nat n) (2 ^ k) =
      map_option (\<lambda>(m, p). (s\<lparr>pool_mem := m\<rparr>, p)) (malloc_loop (pool_mem s) (of_nat ?n) (2 ^ k) (free_list s))"
    using pool_ok_head [OF assms(1)] by (auto simp: my_malloc_def al split: option.split)
  show "case first_fit base bs ?n (2 ^ k) of
      None \<Rightarrow> my_malloc (of_nat base) s (of_nat n) (2 ^ k) = Some (s, 0)
    | Some (bs', q) \<Rightarrow> \<exists>s' st len.
        my_malloc (of_nat base) s (of_nat n) (2 ^ k) = Some (s', of_nat q) \<and> pool_ok base bs' s' \<and>
        2 ^ k dvd q \<and> st \<le> q \<and> q + n \<le> st + len \<and>
        set (payloads base bs') = insert (st, len) (set (payloads base bs)) \<and>
        (\<forall>(st', len') \<in> set (payloads base bs). st + len \<le> st' \<or> st' + len' \<le> st) \<and>
        (\<forall>y. kept base ?e bs y \<longrightarrow> pool_mem s' (of_nat y) = pool_mem s (of_nat y))"
  proof (cases "first_fit base bs ?n (2 ^ k)")
    case None
    with ml show ?thesis by (simp add: run)
  next
    case (Some r)
    obtain bs' q where r: "r = (bs', q)" by (cases r)
    from ml obtain m' where m': "malloc_loop (pool_mem s) (of_nat ?n) (2 ^ k) (free_list s) = Some (m', of_nat q)"
      "tiled m' base ?e (free_list s) bs'" "\<forall>y. kept base ?e bs y \<longrightarrow> m' (of_nat y) = pool_mem s (of_nat y)"
      by (auto simp: Some r)
    from first_fit_sound [OF Some [unfolded r]] obtain st len where q: "2 ^ k dvd q" "bs' \<noteq> []"
        "st \<le> q" "q + ?n \<le> st + len" "set (payloads base bs') = insert (st, len) (set (payloads base bs))"
        "\<forall>(st', len') \<in> set (payloads base bs). st + len \<le> st' \<or> st' + len' \<le> st" by auto
    have "my_malloc (of_nat base) s (of_nat n) (2 ^ k) = Some (s\<lparr>pool_mem := m'\<rparr>, of_nat q)"
      by (simp add: run m'(1))
    moreover have "pool_ok base bs' (s\<lparr>pool_mem := m'\<rparr>)" using m'(2) P q(2) by (simp add: pool_ok_def)
    moreover have "q + n \<le> st + len" using q(4) up by simp
    ultimately show ?thesis using q m'(3) unfolding Some r option.case prod.case
      by (intro exI [of _ "s\<lparr>pool_mem := m'\<rparr>"] exI [of _ st] exI [of _ len] conjI) simp_all
  qed
  show "free_list s0 = 0 \<longrightarrow> pool_ok base [(MEMORY_POOL_SIZE - 24, True)] (memory_pool_init (of_nat base) s0) \<and>
        my_malloc (of_nat base) s0 (of_nat n) (2 ^ k) =
        my_malloc (of_nat base) (memory_pool_init (of_nat base) s0) (of_nat n) (2 ^ k)"
  proof (intro impI conjI)
    show ok: "pool_ok base [(MEMORY_POOL_SIZE - 24, True)] (memory_pool_init (of_nat base) s0)"
      by (rule pool_ok_init(1) [OF P(1,2)])
    assume "free_list s0 = 0"
    then show "my_malloc (of_nat base) s0 (of_nat n) (2 ^ k) =
        my_malloc (of_nat base) (memory_pool_init (of_nat base) s0) (of_nat n) (2 ^ k)"
      using conjunct2 [OF pool_ok_head [OF ok]] by (simp add: my_malloc_def del: One_nat_def)
  qed
qed


text \<open>(C6) Allocation. On a pool whose headers tile it, \<^verbatim>\<open>my_malloc\<close> (size and alignment a
  power of two, no wrap-around of addresses) terminates and is exactly a first-fit search of the
  block list: when no block fits it returns the null pointer and changes nothing; otherwise the
  result is aligned, lies in a block that was free and is now in use, that block is disjoint from
  every other block in use, which all stay in use, the headers tile the pool again and no byte
  outside the pool or in the payload of a block in use changes. The first call on an unused pool
  sets up one free block and then behaves in the same way.\<close>

theorem my_malloc_first_fit:
  assumes "pool_ok base bs s" and "k < 64"
    and "base + MEMORY_POOL_SIZE + align_up n (2 ^ k) + 2 ^ k < 2 ^ 64"
  shows "(case first_fit base bs (align_up n (2 ^ k)) (2 ^ k) of
      None \<Rightarrow> my_malloc (of_nat base) s (of_nat n) (2 ^ k) = Some (s, 0)
    | Some (bs', q) \<Rightarrow> \<exists>s' st len.
        my_malloc (of_nat base) s (of_nat n) (2 ^ k) = Some (s', of_nat q) \<and> pool_ok base bs' s' \<and>
        2 ^ k dvd q \<and> st \<le> q \<and> q + n \<le> st + len \<and>
        set (payloads base bs') = insert (st, len) (set (payloads base bs)) \<and>
        (\<forall>(st', len') \<in> set (payloads base bs). st + len \<le> st' \<or> st' + len' \<le> st) \<and>
        (\<forall>y. kept base (base + MEMORY_POOL_SIZE) bs y \<longrightarrow> pool_mem s' (of_nat y) = pool_mem s (of_nat y)))
    \<and> (free_list s0 = 0 \<longrightarrow> pool_ok base [(MEMORY_POOL_SIZE - 24, True)] (memory_pool_init (of_nat base) s0) \<and>
        my_malloc (of_nat base) s0 (of_nat n) (2 ^ k) =
        my_malloc (of_nat base) (memory_pool_init (of_nat base) s0) (of_nat n) (2 ^ k))"
  using assms by (rule malloc_contract)

definition example_pool :: mem_pool where
  "example_pool = memory_pool_init 0x1000 \<lparr>pool_mem = (\<lambda>_. 0), free_list = 0\<rparr>"

lemma example_pool_ok: "pool_ok 0x1000 [(MEMORY_POOL_SIZE - 24, True)] example_pool"
  using pool_ok_init(1) [of "0x1000" "\<lparr>pool_mem = (\<lambda>_. 0), free_list = 0\<rparr>"] by (simp add: example_pool_def)

theorem my_malloc_first_fit_witness:
  "pool_ok 0x1000 [(MEMORY_POOL_SIZE - 24, True)] example_pool \<and>
   (\<exists>s'. my_malloc 0x1000 example_pool 100 (2 ^ 12) = Some (s', 0x2000) \<and>
     pool_ok 0x1000 [(8168, False), (2088936, True)] s')"
  using my_malloc_first_fit [OF example_pool_ok, of 12 100] example_pool_ok
  by (auto simp: align_up_def)

text \<open>Marking a block in the middle of the list.\<close>

definition block_at :: "nat \<Rightarrow> blocks \<Rightarrow> nat" where
  "block_at a xs = a + sum_list (map (\<lambda>b. fst b + 24) xs)"

lemma tiled_block_at:
  assumes "tiled m a e p (xs @ (sz, f) # ys)" and "e < 2 ^ 64"
  shows "block_at a xs + 24 + sz \<le> e"
    and "tiled (st32 m (of_nat (block_at a xs + 8)) v) a e p (xs @ (sz, v \<noteq> 0) # ys)"
proof -
  have "block_at a xs + 24 + sz \<le> e \<and>
      tiled (st32 m (of_nat (block_at a xs + 8)) v) a e p (xs @ (sz, v \<noteq> 0) # ys)"
    using assms(1)
  proof (induction xs arbitrary: a p)
    case Nil
    then show ?case using tiled_set_free [OF Nil [unfolded append_Nil] assms(2), of v]
      by (auto simp: block_at_def simp del: tiled.simps) (auto)
  next
    case (Cons b xs)
    obtain sz' f' where b: "b = (sz', f')" by (cases b)
    have t: "tiled m (a + 24 + sz') e (block_next m p) (xs @ (sz, f) # ys)"
      using Cons.prems by (auto simp: b)
    have ba: "block_at a (b # xs) = block_at (a + 24 + sz') xs" by (simp add: block_at_def b)
    have ge: "a + 24 + sz' \<le> block_at (a + 24 + sz') xs" by (simp add: block_at_def)
    note IH = Cons.IH [OF t]
    have "tiled (st32 m (of_nat (block_at a (b # xs) + 8)) v) a e p ((sz', f') # (xs @ (sz, v \<noteq> 0) # ys))"
    proof (rule tiled_tail_update)
      show "tiled m a e p ((sz', f') # (xs @ (sz, f) # ys))" using Cons.prems by (simp only: b append_Cons)
      show "st32 m (of_nat (block_at a (b # xs) + 8)) v (of_nat y) = m (of_nat y)" if "y < a + 24" for y
        by (rule st32_at) (use that ge IH assms(2) in \<open>auto simp: ba\<close>)
    qed (use IH ba in simp)
    then show ?case using IH unfolding ba by (simp only: b append_Cons simp_thms)
  qed
  then show "block_at a xs + 24 + sz \<le> e"
    "tiled (st32 m (of_nat (block_at a xs + 8)) v) a e p (xs @ (sz, v \<noteq> 0) # ys)" by auto
qed


text \<open>Bytes of a payload are not header bytes: changing them keeps the blocks.\<close>

lemma tiled_in_payload:
  assumes "tiled m a e p (xs @ (sz, f) # ys)" and "e < 2 ^ 64"
    and "\<And>y. y < 2 ^ 64 \<Longrightarrow> y < block_at a xs + 24 \<or> block_at a xs + 24 + sz \<le> y \<Longrightarrow> m' (of_nat y) = m (of_nat y)"
  shows "tiled m' a e p (xs @ (sz, f) # ys)"
  using assms(1,3)
proof (induction xs arbitrary: a p)
  case Nil
  have le: "a + 24 + sz \<le> e" using Nil(1) by simp
  have "tiled m' (a + 24 + sz) e q ys = tiled m (a + 24 + sz) e q ys" for q
    by (rule tiled_agree) (rule Nil(2), use assms(2) in \<open>auto simp: block_at_def\<close>)
  then have "tiled m' (a + 24 + sz) e (block_next m p) ys" using Nil(1) by auto
  then show ?case using Nil le assms(2)
    by (auto intro!: tiled_tail_update [of m a e p sz f ys m', OF Nil(1) [unfolded append_Nil]]
        simp: block_at_def simp del: tiled.simps)
next
  case (Cons b xs)
  obtain sz' f' where b: "b = (sz', f')" by (cases b)
  have ba: "block_at a (b # xs) = block_at (a + 24 + sz') xs" by (simp add: block_at_def b)
  have ge: "a + 24 + sz' \<le> block_at (a + 24 + sz') xs" by (simp add: block_at_def)
  have t: "tiled m (a + 24 + sz') e (block_next m p) (xs @ (sz, f) # ys)" "a + 24 + sz' \<le> e"
    using Cons.prems(1) by (auto simp: b)
  have "tiled m' (a + 24 + sz') e (block_next m p) (xs @ (sz, f) # ys)"
    by (rule Cons.IH [OF t(1)]) (rule Cons.prems(2), auto simp: ba)
  then have "tiled m' a e p ((sz', f') # (xs @ (sz, f) # ys))"
  proof (rule tiled_tail_update [OF Cons.prems(1) [unfolded b append_Cons]])
    show "m' (of_nat y) = m (of_nat y)" if "y < a + 24" for y
      by (rule Cons.prems(2)) (use that t(2) ge assms(2) in \<open>auto simp: ba\<close>)
  qed
  then show ?case by (simp only: b append_Cons)
qed

lemma payload_not_header:
  assumes "(st, n) \<in> set (payloads a (xs @ (sz, f) # ys))"
  shows "st + n \<le> block_at a xs \<or> block_at a xs + 24 \<le> st"
  using assms
proof (induction xs arbitrary: a)
  case Nil
  then show ?case using payloads_from [of st n "a + 24 + sz" ys] by (auto simp: block_at_def split: if_splits)
next
  case (Cons b xs)
  obtain sz' f' where b: "b = (sz', f')" by (cases b)
  have "block_at a (b # xs) = block_at (a + 24 + sz') xs" by (simp add: block_at_def b)
  moreover have "a + 24 + sz' \<le> block_at (a + 24 + sz') xs" by (simp add: block_at_def)
  ultimately show ?case using Cons.prems Cons.IH [of "a + 24 + sz'"] by (auto simp: b split: if_splits)
qed

lemma payloads_split:
  assumes "(st, n) \<in> set (payloads a bs)"
  shows "\<exists>xs ys. bs = xs @ (n, False) # ys \<and> st = block_at a xs + 24"
  using assms
proof (induction bs arbitrary: a)
  case (Cons b bs)
  obtain sz f where b: "b = (sz, f)" by (cases b)
  show ?case
  proof (cases "\<not> f \<and> st = a + 24 \<and> n = sz")
    case True
    then show ?thesis by (intro exI [of _ "[]"] exI [of _ bs]) (simp add: b block_at_def)
  next
    case False
    with Cons.prems have "(st, n) \<in> set (payloads (a + 24 + sz) bs)" by (auto simp: b split: if_splits)
    from Cons.IH [OF this] obtain xs ys where "bs = xs @ (n, False) # ys" "st = block_at (a + 24 + sz) xs + 24" by blast
    then show ?thesis by (intro exI [of _ "b # xs"] exI [of _ ys]) (simp add: b block_at_def)
  qed
qed simp

lemma coalesce_nonempty: "bs \<noteq> [] \<Longrightarrow> coalesce bs \<noteq> []"
  by (induction bs rule: coalesce.induct) auto


text \<open>(C30) Release. \<^verbatim>\<open>my_free\<close> of the address right after a header terminates, marks that block
  free and merges neighbouring free blocks pairwise in one pass over the list; the headers tile
  the pool again and the blocks still in use keep their contents. Freeing the null pointer does
  nothing.\<close>

theorem my_free_releases:
  assumes "pool_ok base (xs @ (sz, f) # ys) s"
  shows "(\<exists>s'. my_free s (of_nat (block_at base xs + 24)) = Some s' \<and>
      pool_ok base (coalesce (xs @ (sz, True) # ys)) s' \<and>
      (\<forall>y. kept base (base + MEMORY_POOL_SIZE) (xs @ (sz, True) # ys) y \<longrightarrow>
        pool_mem s' (of_nat y) = pool_mem s (of_nat y))) \<and> my_free s 0 = Some s"
proof -
  let ?e = "base + MEMORY_POOL_SIZE" and ?b = "block_at base xs"
  have P: "0 < base" "?e < 2 ^ 64" "tiled (pool_mem s) base ?e (free_list s) (xs @ (sz, f) # ys)"
    using assms(1) by (simp_all add: pool_ok_def)
  define m where "m = st32 (pool_mem s) (of_nat (?b + 8)) 1"
  have le: "?b + 24 + sz \<le> ?e" and t: "tiled m base ?e (free_list s) (xs @ (sz, True) # ys)"
    using tiled_block_at(1) [OF P(3,2)] tiled_block_at(2) [OF P(3,2), of 1] by (simp_all add: m_def del: of_nat_add)
  have p0: "of_nat (?b + 24) \<noteq> (0 :: u64)"
    using le P(2) unat_of_nat_small [of "?b + 24", where 'a = 64] by auto
  from coalesce_loop_tiled [OF t P(1,2)] obtain m' where m': "coalesce_loop m (free_list s) = Some m'"
    "tiled m' base ?e (free_list s) (coalesce (xs @ (sz, True) # ys))"
    "\<forall>y. kept base ?e (xs @ (sz, True) # ys) y \<longrightarrow> m' (of_nat y) = m (of_nat y)" by blast
  have "of_nat (?b + 24) - 24 + 8 = (of_nat (?b + 8) :: u64)" by simp
  then have "my_free s (of_nat (?b + 24)) = Some (s\<lparr>pool_mem := m'\<rparr>)"
    using p0 m'(1) unfolding my_free_def m_def by (simp only: if_False option.case)
  moreover have "pool_ok base (coalesce (xs @ (sz, True) # ys)) (s\<lparr>pool_mem := m'\<rparr>)"
    using m'(2) P coalesce_nonempty [of "xs @ (sz, True) # ys"] by (simp add: pool_ok_def)
  moreover have "m (of_nat y) = pool_mem s (of_nat y)" if "kept base ?e (xs @ (sz, True) # ys) y" for y
    unfolding m_def
  proof (rule st32_at)
    show "?b + 8 + 4 \<le> y \<or> y < ?b + 8" "y < 2 ^ 64"
      using that payload_not_header [of _ _ base xs sz True ys] le by (fastforce simp: kept_def block_at_def)+
  qed (use le P(2) in simp)
  moreover have "my_free s 0 = Some s" by (simp add: my_free_def)
  ultimately show ?thesis using m'(3) by auto
qed

theorem my_free_releases_witness:
  "pool_ok 0x1000 ([] @ (MEMORY_POOL_SIZE - 24, True) # []) example_pool \<and>
   (\<exists>s'. my_free example_pool 0x1018 = Some s' \<and> pool_ok 0x1000 [(MEMORY_POOL_SIZE - 24, True)] s')"
  using my_free_releases [of "0x1000" "[]" "MEMORY_POOL_SIZE - 24" True "[]" example_pool] example_pool_ok
  by (auto simp: block_at_def)

text \<open>A block whose payload was aligned is not released. When the result of \<^verbatim>\<open>my_malloc\<close> is not
  right after the header (alignment padding of at least 16 bytes), \<^verbatim>\<open>my_free\<close> takes the 24 bytes
  before the pointer for the header: it writes into the padding and the block stays in use.\<close>

theorem my_free_padded_leaks:
  assumes "pool_ok base (xs @ (sz, False) # ys) s" and "16 \<le> pad" and "pad \<le> sz"
  shows "\<exists>s'. my_free s (of_nat (block_at base xs + 24 + pad)) = Some s' \<and>
      pool_ok base (coalesce (xs @ (sz, False) # ys)) s'"
proof -
  let ?e = "base + MEMORY_POOL_SIZE" and ?b = "block_at base xs"
  have P: "0 < base" "?e < 2 ^ 64" "tiled (pool_mem s) base ?e (free_list s) (xs @ (sz, False) # ys)"
    using assms(1) by (simp_all add: pool_ok_def)
  define m where "m = st32 (pool_mem s) (of_nat (?b + 8 + pad)) 1"
  have le: "?b + 24 + sz \<le> ?e" using tiled_block_at(1) [OF P(3,2)] .
  have t: "tiled m base ?e (free_list s) (xs @ (sz, False) # ys)"
    using P(3,2)
  proof (rule tiled_in_payload)
    show "m (of_nat y) = pool_mem s (of_nat y)" if "y < 2 ^ 64" "y < ?b + 24 \<or> ?b + 24 + sz \<le> y" for y
      unfolding m_def by (rule st32_at) (use that assms(2,3) le P(2) in auto)
  qed
  have p0: "of_nat (?b + 24 + pad) \<noteq> (0 :: u64)"
    using le assms(3) P(2) unat_of_nat_small [of "?b + 24 + pad", where 'a = 64] by auto
  from coalesce_loop_tiled [OF t P(1,2)] obtain m' where m': "coalesce_loop m (free_list s) = Some m'"
    "tiled m' base ?e (free_list s) (coalesce (xs @ (sz, False) # ys))" by blast
  have "of_nat (?b + 24 + pad) - 24 + 8 = (of_nat (?b + 8 + pad) :: u64)" by simp
  then have "my_free s (of_nat (?b + 24 + pad)) = Some (s\<lparr>pool_mem := m'\<rparr>)"
    using p0 m'(1) unfolding my_free_def m_def by (simp only: if_False option.case)
  moreover have "pool_ok base (coalesce (xs @ (sz, False) # ys)) (s\<lparr>pool_mem := m'\<rparr>)"
    using m'(2) P coalesce_nonempty [of "xs @ (sz, False) # ys"] by (simp add: pool_ok_def)
  ultimately show ?thesis by blast
qed

theorem my_free_padded_leaks_witness:
  "\<exists>s1 s2. my_malloc 0x1000 example_pool 100 (2 ^ 12) = Some (s1, 0x2000) \<and>
     my_free s1 0x2000 = Some s2 \<and> pool_ok 0x1000 [(8168, False), (2088936, True)] s2"
proof -
  obtain s1 where s1: "my_malloc 0x1000 example_pool 100 (2 ^ 12) = Some (s1, 0x2000)"
    and ok: "pool_ok 0x1000 ([] @ (8168, False) # [(2088936, True)]) s1"
    using malloc_contract [OF example_pool_ok, of 12 100] by (auto simp: align_up_def)
  show ?thesis
    using s1 my_free_padded_leaks [OF ok, of 4072] by (auto simp: block_at_def)
qed


lemma calloc_contract:
  assumes "pool_ok base bs s" and "k < 64"
    and "base + MEMORY_POOL_SIZE + align_up n (2 ^ k) + 2 ^ k < 2 ^ 64"
    and "num * sz = of_nat n" and "first_fit base bs (align_up n (2 ^ k)) (2 ^ k) = Some (bs', q)"
  shows "\<exists>s'. my_calloc (of_nat base) s num sz (2 ^ k) = Some (s', of_nat q) \<and> pool_ok base bs' s' \<and>
      (\<forall>i < n. pool_mem s' (of_nat (q + i)) = 0) \<and>
      (\<exists>xs len ys. bs' = xs @ (len, False) # ys \<and> block_at base xs + 24 \<le> q \<and> q + n \<le> block_at base xs + 24 + len) \<and>
      2 ^ k dvd q \<and> base < q \<and> q + n \<le> base + MEMORY_POOL_SIZE \<and>
      (\<forall>y. kept base (base + MEMORY_POOL_SIZE) bs y \<longrightarrow> pool_mem s' (of_nat y) = pool_mem s (of_nat y))"
proof -
  let ?e = "base + MEMORY_POOL_SIZE"
  from conjunct1 [OF malloc_contract [OF assms(1-3), of s]] assms(5) obtain s1 st len where dv: "2 ^ k dvd q" and
    s1: "my_malloc (of_nat base) s (of_nat n) (2 ^ k) = Some (s1, of_nat q)" "pool_ok base bs' s1"
    and q: "st \<le> q" "q + n \<le> st + len" "set (payloads base bs') = insert (st, len) (set (payloads base bs))"
    "\<forall>(st', len') \<in> set (payloads base bs). st + len \<le> st' \<or> st' + len' \<le> st"
    and fr: "\<forall>y. kept base ?e bs y \<longrightarrow> pool_mem s1 (of_nat y) = pool_mem s (of_nat y)"
    by auto
  obtain xs ys where bs': "bs' = xs @ (len, False) # ys" "st = block_at base xs + 24"
    using payloads_split [of st len base bs'] q(3) by blast
  have P: "0 < base" "?e < 2 ^ 64" "tiled (pool_mem s1) base ?e (free_list s1) bs'"
    using s1(2) by (simp_all add: pool_ok_def)
  have le: "st + len \<le> ?e" "base \<le> st" "0 < st"
    using tiled_block_at(1) [OF P(3) [unfolded bs'(1)] P(2)] P(1) bs'(2) by (simp_all add: block_at_def)
  have up: "n \<le> align_up n (2 ^ k)" by (rule align_up_bounds) simp
  then have n: "unat (num * sz) = n" using assms(3,4) by (simp add: unat_of_nat_small)
  have q0: "of_nat q \<noteq> (0 :: u64)"
    using q le P(2) unat_of_nat_small [of q, where 'a = 64] by auto
  define m where "m = memset (pool_mem s1) (of_nat q) 0 n"
  have run: "my_calloc (of_nat base) s num sz (2 ^ k) = Some (s1\<lparr>pool_mem := m\<rparr>, of_nat q)"
    using s1(1) q0 n assms(4) by (simp add: my_calloc_def m_def)
  have out: "m (of_nat y) = pool_mem s1 (of_nat y)" if "y < 2 ^ 64" "y < st \<or> st + len \<le> y" for y
    using that q le P(2) unat_diff_of_nat [of q y] by (auto simp: m_def memset_def split: if_splits)
  have zero: "m (of_nat (q + i)) = 0" if "i < n" for i
    using that q le P(2) unat_diff_of_nat [of q "q + i"] by (simp add: m_def memset_def unat_of_nat_small)
  have "tiled m base ?e (free_list s1) bs'"
    unfolding bs'(1) by (rule tiled_in_payload [OF P(3) [unfolded bs'(1)] P(2)]) (rule out, auto simp: bs'(2))
  then have "pool_ok base bs' (s1\<lparr>pool_mem := m\<rparr>)" using P bs'(1) by (simp add: pool_ok_def)
  moreover have "m (of_nat y) = pool_mem s (of_nat y)" if "kept base ?e bs y" for y
    using that fr out [of y] q(4) le by (fastforce simp: kept_def)
  moreover have "\<exists>xs len ys. bs' = xs @ (len, False) # ys \<and> block_at base xs + 24 \<le> q \<and> q + n \<le> block_at base xs + 24 + len"
    using bs' q(1,2) by blast
  moreover have "base < q" "q + n \<le> ?e" using bs'(2) q(1,2) le by (auto simp: block_at_def)
  ultimately show ?thesis using run zero dv by (intro exI [of _ "s1\<lparr>pool_mem := m\<rparr>"]) simp
qed

text \<open>Zeroed allocation. When the request fits, \<^verbatim>\<open>my_calloc\<close> returns the same block as
  \<^verbatim>\<open>my_malloc\<close> of the product (taken at 64 bits), all its requested bytes are zero, the headers
  stay intact and no block in use before changes.\<close>

theorem my_calloc_zeroes:
  assumes "pool_ok base bs s" and "k < 64"
    and "base + MEMORY_POOL_SIZE + align_up n (2 ^ k) + 2 ^ k < 2 ^ 64"
    and "num * sz = of_nat n" and "first_fit base bs (align_up n (2 ^ k)) (2 ^ k) = Some (bs', q)"
  shows "\<exists>s'. my_calloc (of_nat base) s num sz (2 ^ k) = Some (s', of_nat q) \<and> pool_ok base bs' s' \<and>
      (\<forall>i < n. pool_mem s' (of_nat (q + i)) = 0) \<and>
      (\<forall>y. kept base (base + MEMORY_POOL_SIZE) bs y \<longrightarrow> pool_mem s' (of_nat y) = pool_mem s (of_nat y))"
  using calloc_contract [OF assms] by blast

theorem my_calloc_zeroes_witness:
  "\<exists>s'. my_calloc 0x1000 example_pool 2 50 (2 ^ 12) = Some (s', 0x2000) \<and>
     pool_ok 0x1000 [(8168, False), (2088936, True)] s' \<and> pool_mem s' 0x2063 = 0"
  using my_calloc_zeroes [OF example_pool_ok, of 12 100 2 50 "[(8168, False), (2088936, True)]" "0x2000"]
  by (auto simp: align_up_def dest: spec [of _ 99])

section \<open>The pool as an allocator\<close>

text \<open>The pool provides it: layouts are lists of blocks, placement is first fit.\<close>

definition pool_place :: "nat \<Rightarrow> blocks \<Rightarrow> nat \<times> nat \<Rightarrow> (blocks \<times> nat) option" where
  "pool_place base bs r =
     (if snd r < 64 \<and> base + MEMORY_POOL_SIZE + align_up (fst r) (2 ^ snd r) + 2 ^ snd r < 2 ^ 64
      then first_fit base bs (align_up (fst r) (2 ^ snd r)) (2 ^ snd r) else None)"

definition pool_in_use :: "nat \<Rightarrow> blocks \<Rightarrow> nat \<Rightarrow> bool" where
  "pool_in_use base bs y \<longleftrightarrow> y < 2 ^ 64 \<and> (\<exists>(st, n) \<in> set (payloads base bs). st \<le> y \<and> y < st + n)"

definition pool_request :: "nat \<Rightarrow> mem_pool \<Rightarrow> nat \<times> nat \<Rightarrow> (mem_pool \<times> u64) option" where
  "pool_request base s r = my_calloc (of_nat base) s 1 (of_nat (fst r)) (2 ^ snd r)"

interpretation pool: zeroing_allocator "pool_request base" "pool_place base" "pool_ok base" "pool_in_use base"
  "\<lambda>s y. pool_mem s (of_nat y)"
proof
  fix b s r b' q assume inv: "pool_ok base b s" and "pool_place base b r = Some (b', q)"
  then have c: "snd r < 64" "base + MEMORY_POOL_SIZE + align_up (fst r) (2 ^ snd r) + 2 ^ snd r < 2 ^ 64"
    "first_fit base b (align_up (fst r) (2 ^ snd r)) (2 ^ snd r) = Some (b', q)"
    by (auto simp: pool_place_def split: if_splits)
  note calloc = calloc_contract [OF inv c(1,2) _ c(3), of 1 "of_nat (fst r)"]
  from calloc show "\<exists>s'. pool_request base s r = Some (s', of_nat q) \<and> pool_ok base b' s' \<and>
      (\<forall>i<fst r. pool_mem s' (of_nat (q + i)) = 0) \<and>
      (\<forall>y. pool_in_use base b y \<longrightarrow> pool_mem s' (of_nat y) = pool_mem s (of_nat y))"
    by (auto simp: pool_request_def pool_in_use_def kept_def)
  obtain st len where m: "st \<le> q" "q + fst r \<le> st + len" "set (payloads base b') = insert (st, len) (set (payloads base b))"
    "\<forall>(st', len') \<in> set (payloads base b). st + len \<le> st' \<or> st' + len' \<le> st"
    using conjunct1 [OF malloc_contract [OF inv c(1,2), of s]] c(3) by auto
  show "2 ^ snd r dvd q"
    using conjunct1 [OF malloc_contract [OF inv c(1,2), of s]] c(3) by auto
  have top: "q + fst r < 2 ^ 64" using calloc inv by (auto simp: pool_ok_def)
  show "\<not> pool_in_use base b (q + i) \<and> pool_in_use base b' (q + i)" if "i < fst r" for i
    using m that top by (fastforce simp: pool_in_use_def)
  show "pool_in_use base b' y" if "pool_in_use base b y" for y
    using m(3) that by (auto simp: pool_in_use_def)
qed



end
