(* ===== verification/Smmu_Queue.thy ===== *)
theory Smmu_Queue
  imports El3_Pool
begin

text \<open>
  The register, queue and command layer of the EL3 SMMU driver (\<^verbatim>\<open>val_el3/smmuv3_realm.c\<close>,
  \<^verbatim>\<open>val_el3/smmuv3_el3.h\<close>): register access, the command queue, probing and resetting the
  SMMU's realm programming interface.

  Registers, queues and tables are in one byte-addressed memory. The SMMU works on its own
  between the accesses of the driver: \<open>tick\<close>, a parameter of every operation that reads a
  register, is what the device does to memory before the read. Addresses of structures the
  device shares with the driver are kept as the code keeps them; barriers have no model.
\<close>

section \<open>Data\<close>

type_synonym tick = "memory \<Rightarrow> memory"

record smmu_queue =
  q_prod :: u32
  q_cons :: u32
  log2nent :: u32

record smmu_queue_type =
  queue :: smmu_queue
  base_ptr :: u64
  q_base :: u64
  base_phys :: u64
  queue_base :: u64
  entry_size :: u64
  prod_reg :: u64
  cons_reg :: u64

record smmu_strtab_l1_desc =
  span :: u8
  l2ptr :: u64
  l2desc64 :: u64
  l2desc_phys :: u64

record smmu_strtab_config =
  strtab_ptr :: u64
  strtab64 :: u64
  strtab_phys :: u64
  l1_desc_ptr :: u64
  l1_desc :: "smmu_strtab_l1_desc list"
  l1_ent_count :: u32
  strtab_base :: u64
  strtab_base_cfg :: u32

record smmu_dev =
  dev_base :: u64
  dev_ias :: u64
  dev_oas :: u64
  ssid_bits :: u32
  sid_bits :: u32
  cmd_type :: smmu_queue_type
  evnt_type :: smmu_queue_type
  strtab_cfg :: smmu_strtab_config
  st_level_2lvl :: bool
  cd2l :: bool
  hyp :: bool
  s1p :: bool
  s2p :: bool

text \<open>A structure fresh from \<^verbatim>\<open>val_memory_calloc\<close>.\<close>

definition zero_queue :: smmu_queue_type where
  "zero_queue = \<lparr>queue = \<lparr>q_prod = 0, q_cons = 0, log2nent = 0\<rparr>, base_ptr = 0, q_base = 0, base_phys = 0,
     queue_base = 0, entry_size = 0, prod_reg = 0, cons_reg = 0\<rparr>"

definition zero_l1_desc :: smmu_strtab_l1_desc where
  "zero_l1_desc = \<lparr>span = 0, l2ptr = 0, l2desc64 = 0, l2desc_phys = 0\<rparr>"

definition zero_dev :: smmu_dev where
  "zero_dev = \<lparr>dev_base = 0, dev_ias = 0, dev_oas = 0, ssid_bits = 0, sid_bits = 0,
     cmd_type = zero_queue, evnt_type = zero_queue,
     strtab_cfg = \<lparr>strtab_ptr = 0, strtab64 = 0, strtab_phys = 0, l1_desc_ptr = 0, l1_desc = [],
       l1_ent_count = 0, strtab_base = 0, strtab_base_cfg = 0\<rparr>,
     st_level_2lvl = False, cd2l = False, hyp = False, s1p = False, s2p = False\<rparr>"

definition BITFIELD_GET :: "nat \<Rightarrow> nat \<Rightarrow> 'a::len word \<Rightarrow> 'a word" where
  "BITFIELD_GET msb lsb val = drop_bit lsb val AND mask (msb - lsb + 1)"

definition BITFIELD_SET :: "nat \<Rightarrow> nat \<Rightarrow> 'a::len word \<Rightarrow> 'a word" where
  "BITFIELD_SET msb lsb val = push_bit lsb (val AND mask (msb - lsb + 1))"

abbreviation (input) SMMU_R_CR0 :: u64 where "SMMU_R_CR0 \<equiv> 0x40020"
abbreviation (input) SMMU_R_CR0ACK :: u64 where "SMMU_R_CR0ACK \<equiv> 0x40024"
abbreviation (input) SMMU_R_CR1 :: u64 where "SMMU_R_CR1 \<equiv> 0x40028"
abbreviation (input) SMMU_R_CR2 :: u64 where "SMMU_R_CR2 \<equiv> 0x4002C"
abbreviation (input) SMMU_R_GERROR :: u64 where "SMMU_R_GERROR \<equiv> 0x40060"
abbreviation (input) SMMU_R_STRTAB_BASE :: u64 where "SMMU_R_STRTAB_BASE \<equiv> 0x40080"
abbreviation (input) SMMU_R_STRTAB_BASE_CFG :: u64 where "SMMU_R_STRTAB_BASE_CFG \<equiv> 0x40088"
abbreviation (input) SMMU_R_CMDQ_BASE :: u64 where "SMMU_R_CMDQ_BASE \<equiv> 0x40090"
abbreviation (input) SMMU_R_CMDQ_PROD :: u64 where "SMMU_R_CMDQ_PROD \<equiv> 0x40098"
abbreviation (input) SMMU_R_CMDQ_CONS :: u64 where "SMMU_R_CMDQ_CONS \<equiv> 0x4009C"
abbreviation (input) SMMU_R_EVTQ_BASE :: u64 where "SMMU_R_EVTQ_BASE \<equiv> 0x400A0"
abbreviation (input) SMMU_R_EVTQ_PROD :: u64 where "SMMU_R_EVTQ_PROD \<equiv> 0x500A8"
abbreviation (input) SMMU_R_EVTQ_CONS :: u64 where "SMMU_R_EVTQ_CONS \<equiv> 0x500AC"

abbreviation (input) CMDQ_OP_PREFETCH_CFG :: u8 where "CMDQ_OP_PREFETCH_CFG \<equiv> 0x1"
abbreviation (input) CMDQ_OP_CFGI_STE :: u8 where "CMDQ_OP_CFGI_STE \<equiv> 0x3"
abbreviation (input) CMDQ_OP_CFGI_ALL :: u8 where "CMDQ_OP_CFGI_ALL \<equiv> 0x4"
abbreviation (input) CMDQ_OP_TLBI_EL2_ALL :: u8 where "CMDQ_OP_TLBI_EL2_ALL \<equiv> 0x20"
abbreviation (input) CMDQ_OP_TLBI_NSNH_ALL :: u8 where "CMDQ_OP_TLBI_NSNH_ALL \<equiv> 0x30"
abbreviation (input) CMDQ_OP_CMD_SYNC :: u8 where "CMDQ_OP_CMD_SYNC \<equiv> 0x46"

section \<open>Register access\<close>

definition val_mmio_write :: "u64 \<Rightarrow> u32 \<Rightarrow> memory \<Rightarrow> memory" where
  "val_mmio_write addr val m = st32 m addr val"

definition val_mmio_write64 :: "u64 \<Rightarrow> u64 \<Rightarrow> memory \<Rightarrow> memory" where
  "val_mmio_write64 addr val m = st64 m addr val"

definition val_mmio_read :: "tick \<Rightarrow> u64 \<Rightarrow> memory \<Rightarrow> u32 \<times> memory" where
  "val_mmio_read tick addr m = (let m' = tick m in (ld32 m' addr, m'))"

definition align_to_size :: "u64 \<Rightarrow> u64 \<Rightarrow> u64" where
  "align_to_size addr sz = (sz - (addr AND (sz - 1)) + addr) AND NOT (sz - 1)"

section \<open>Command queue\<close>

definition smmu_cmdq_inc_prod :: "smmu_queue \<Rightarrow> u32" where
  "smmu_cmdq_inc_prod q = ucast ((ucast (q_prod q + 1) :: u64) AND (push_bit (unat (log2nent q) + 1) 1 - 1))"

definition index_mask :: "smmu_queue \<Rightarrow> u32" where
  "index_mask q = ucast (push_bit (unat (log2nent q)) (1 :: u64) - 1)"

definition wrap_mask :: "smmu_queue \<Rightarrow> u32" where
  "wrap_mask q = ucast (push_bit (unat (log2nent q)) (1 :: u64))"

definition smmu_queue_full :: "smmu_queue \<Rightarrow> bool" where
  "smmu_queue_full q \<longleftrightarrow> q_prod q AND index_mask q = q_cons q AND index_mask q \<and>
     q_prod q AND wrap_mask q \<noteq> q_cons q AND wrap_mask q"

definition smmu_queue_empty :: "smmu_queue \<Rightarrow> bool" where
  "smmu_queue_empty q \<longleftrightarrow> q_prod q AND index_mask q = q_cons q AND index_mask q \<and>
     q_prod q AND wrap_mask q = q_cons q AND wrap_mask q"

text \<open>The command as its two double words; an unsupported opcode has none.\<close>

definition smmu_cmdq_build_cmd :: "u32 \<Rightarrow> u8 \<Rightarrow> (u64 \<times> u64) option" where
  "smmu_cmdq_build_cmd g_sid opcode =
     (let cmd0 = BITFIELD_SET 7 0 (ucast opcode :: u64) in
      if opcode = CMDQ_OP_TLBI_EL2_ALL \<or> opcode = CMDQ_OP_TLBI_NSNH_ALL \<or> opcode = CMDQ_OP_CMD_SYNC
        then Some (cmd0, 0)
      else if opcode = CMDQ_OP_CFGI_ALL then Some (cmd0, BITFIELD_SET 4 0 31)
      else if opcode = CMDQ_OP_PREFETCH_CFG
        then Some (cmd0 OR push_bit 32 (ucast (g_sid AND 0xFFFFFFFF)), 0)
      else if opcode = CMDQ_OP_CFGI_STE
        then Some (cmd0 OR push_bit 32 (ucast (g_sid AND 0xFFFFFFFF)), 1)
      else None)"

text \<open>The wait for space tests the driver's copy of the queue, which nothing changes in the
  meantime: a full copy runs into the timeout.\<close>

definition smmu_cmdq_write_cmd :: "tick \<Rightarrow> smmu_dev \<Rightarrow> u64 \<times> u64 \<Rightarrow> memory \<Rightarrow> int \<times> memory" where
  "smmu_cmdq_write_cmd tick smmu cmd m =
     (let cmdq = cmd_type smmu in
      if smmu_queue_full (queue cmdq) then (- 1, m)
      else let
        (p, m1) = val_mmio_read tick (prod_reg cmdq) m;
        q = \<lparr>q_prod = p, q_cons = 0, log2nent = log2nent (queue cmdq)\<rparr>;
        cmd_dst = q_base cmdq + (ucast p AND (push_bit (unat (log2nent q)) 1 - 1)) * entry_size cmdq;
        m2 = st64 (st64 m1 cmd_dst (fst cmd)) (cmd_dst + 8) (snd cmd)
      in (0, val_mmio_write (prod_reg cmdq) (smmu_cmdq_inc_prod q) m2))"

definition smmu_cmdq_issue_cmd :: "tick \<Rightarrow> u32 \<Rightarrow> smmu_dev \<Rightarrow> u8 \<Rightarrow> memory \<Rightarrow> int \<times> memory" where
  "smmu_cmdq_issue_cmd tick g_sid smmu opcode m =
     (case smmu_cmdq_build_cmd g_sid opcode of
        None \<Rightarrow> (- 1, m) | Some cmd \<Rightarrow> smmu_cmdq_write_cmd tick smmu cmd m)"

abbreviation (input) SMMU_CMDQ_POLL_TIMEOUT :: nat where "SMMU_CMDQ_POLL_TIMEOUT \<equiv> 0x100000"

primrec consumed_poll :: "tick \<Rightarrow> u64 \<Rightarrow> nat \<Rightarrow> smmu_queue \<Rightarrow> memory \<Rightarrow> bool \<times> memory" where
  "consumed_poll tick creg 0 q m = (False, m)"
| "consumed_poll tick creg (Suc timeout) q m =
     (if smmu_queue_empty q then (True, m)
      else let (c, m1) = val_mmio_read tick creg m
        in consumed_poll tick creg timeout (q\<lparr>q_cons := c\<rparr>) m1)"

text \<open>On a timeout three registers are read for the message.\<close>

definition smmu_cmdq_poll_until_consumed :: "tick \<Rightarrow> smmu_dev \<Rightarrow> memory \<Rightarrow> memory" where
  "smmu_cmdq_poll_until_consumed tick smmu m =
     (let cmdq = cmd_type smmu;
          (p, m1) = val_mmio_read tick (prod_reg cmdq) m;
          (c, m2) = val_mmio_read tick (cons_reg cmdq) m1;
          q = \<lparr>q_prod = p, q_cons = c, log2nent = log2nent (queue cmdq)\<rparr>;
          (done, m3) = consumed_poll tick (cons_reg cmdq) SMMU_CMDQ_POLL_TIMEOUT q m2
      in if done then m3 else tick (tick (tick m3)))"

definition smmu_tlbi_cached_ste :: "tick \<Rightarrow> u32 \<Rightarrow> smmu_dev \<Rightarrow> memory \<Rightarrow> memory" where
  "smmu_tlbi_cached_ste tick g_sid smmu m =
     (let m1 = snd (smmu_cmdq_issue_cmd tick g_sid smmu CMDQ_OP_CFGI_STE m);
          m2 = snd (smmu_cmdq_issue_cmd tick g_sid smmu CMDQ_OP_CMD_SYNC m1)
      in smmu_cmdq_poll_until_consumed tick smmu m2)"

definition smmu_tlbi_prefetch_cfg :: "tick \<Rightarrow> u32 \<Rightarrow> smmu_dev \<Rightarrow> memory \<Rightarrow> memory" where
  "smmu_tlbi_prefetch_cfg tick g_sid smmu m =
     (let m1 = snd (smmu_cmdq_issue_cmd tick g_sid smmu CMDQ_OP_CFGI_STE m)
      in smmu_cmdq_poll_until_consumed tick smmu m1)"

definition smmu_tlbi_cfgi :: "tick \<Rightarrow> u32 \<Rightarrow> smmu_dev \<Rightarrow> memory \<Rightarrow> memory" where
  "smmu_tlbi_cfgi tick g_sid smmu m =
     (let m1 = snd (smmu_cmdq_issue_cmd tick g_sid smmu CMDQ_OP_CFGI_ALL m);
          m2 = (if hyp smmu then snd (smmu_cmdq_issue_cmd tick g_sid smmu CMDQ_OP_TLBI_EL2_ALL m1) else m1);
          m3 = snd (smmu_cmdq_issue_cmd tick g_sid smmu CMDQ_OP_TLBI_NSNH_ALL m2);
          m4 = snd (smmu_cmdq_issue_cmd tick g_sid smmu CMDQ_OP_CMD_SYNC m3)
      in smmu_cmdq_poll_until_consumed tick smmu m4)"

section \<open>Probing, reset and state of an SMMU\<close>

primrec sync_poll :: "tick \<Rightarrow> u64 \<Rightarrow> u32 \<Rightarrow> nat \<Rightarrow> memory \<Rightarrow> int \<times> memory" where
  "sync_poll tick ack val 0 m = (1, m)"
| "sync_poll tick ack val (Suc timeout) m =
     (let (reg, m1) = val_mmio_read tick ack m in
      if reg = val then (0, m1) else sync_poll tick ack val timeout m1)"

definition smmu_reg_write_sync :: "tick \<Rightarrow> smmu_dev \<Rightarrow> u32 \<Rightarrow> u64 \<Rightarrow> u64 \<Rightarrow> memory \<Rightarrow> int \<times> memory" where
  "smmu_reg_write_sync tick smmu val reg_off ack_off m =
     sync_poll tick (dev_base smmu + ack_off) val 0x1000000
       (val_mmio_write (dev_base smmu + reg_off) val m)"

definition smmu_dev_disable :: "tick \<Rightarrow> smmu_dev \<Rightarrow> memory \<Rightarrow> int \<times> memory" where
  "smmu_dev_disable tick smmu m = smmu_reg_write_sync tick smmu 0 SMMU_R_CR0 SMMU_R_CR0ACK m"

definition smmu_reset_cr1 :: u32 where
  "smmu_reset_cr1 = BITFIELD_SET 11 10 3 OR BITFIELD_SET 5 4 3 OR BITFIELD_SET 7 6 1
     OR BITFIELD_SET 1 0 1 OR BITFIELD_SET 9 8 1 OR BITFIELD_SET 3 2 1"

text \<open>The writes of the base registers, between disabling the SMMU and enabling its queues.\<close>

definition smmu_reset_bases :: "smmu_dev \<Rightarrow> memory \<Rightarrow> memory" where
  "smmu_reset_bases smmu m =
     (let b = dev_base smmu;
          m1 = val_mmio_write64 (b + SMMU_R_STRTAB_BASE) (strtab_base (strtab_cfg smmu)) m;
          m2 = val_mmio_write (b + SMMU_R_STRTAB_BASE_CFG) (strtab_base_cfg (strtab_cfg smmu)) m1;
          m3 = val_mmio_write64 (b + SMMU_R_CMDQ_BASE) (queue_base (cmd_type smmu)) m2;
          m4 = val_mmio_write (b + SMMU_R_CMDQ_PROD) (q_prod (queue (cmd_type smmu))) m3;
          m5 = val_mmio_write (b + SMMU_R_CMDQ_CONS) (q_cons (queue (cmd_type smmu))) m4;
          m6 = val_mmio_write64 (b + SMMU_R_EVTQ_BASE) (queue_base (evnt_type smmu)) m5;
          m7 = val_mmio_write (b + SMMU_R_EVTQ_PROD) (q_prod (queue (evnt_type smmu))) m6
      in val_mmio_write (b + SMMU_R_EVTQ_CONS) (q_cons (queue (evnt_type smmu))) m7)"

definition smmu_reset :: "tick \<Rightarrow> u32 \<Rightarrow> smmu_dev \<Rightarrow> memory \<Rightarrow> int \<times> memory" where
  "smmu_reset tick g_sid smmu m0 =
     (let b = dev_base smmu;
          (r_cr0, m1) = val_mmio_read tick (b + SMMU_R_CR0) m0;
          (ret, m2) = smmu_reg_write_sync tick smmu (r_cr0 AND NOT 1) SMMU_R_CR0 SMMU_R_CR0ACK m1
      in if ret \<noteq> 0 then (ret, m2)
         else let
           m3 = val_mmio_write (b + SMMU_R_CR1) smmu_reset_cr1 m2;
           (r_cr2, m4) = val_mmio_read tick (b + SMMU_R_CR2) m3;
           m5 = smmu_reset_bases smmu (val_mmio_write (b + SMMU_R_CR2) (r_cr2 OR 1) m4);
           (r_cr0, m6) = val_mmio_read tick (b + SMMU_R_CR0) m5;
           r_cr0 = r_cr0 OR 8;
           (ret, m7) = smmu_reg_write_sync tick smmu r_cr0 SMMU_R_CR0 SMMU_R_CR0ACK m6
         in if ret \<noteq> 0 then (ret, m7)
            else let
              r_cr0 = r_cr0 OR 4;
              (ret, m8) = smmu_reg_write_sync tick smmu r_cr0 SMMU_R_CR0 SMMU_R_CR0ACK m7
            in if ret \<noteq> 0 then (ret, m8)
               else let
                 m9 = smmu_tlbi_cfgi tick g_sid smmu m8;
                 (ret, m10) = smmu_reg_write_sync tick smmu (r_cr0 OR 1) SMMU_R_CR0 SMMU_R_CR0ACK m9
               in if ret \<noteq> 0 then (ret, m10) else (1, m10))"

definition smmu_set_state :: "tick \<Rightarrow> u32 \<Rightarrow> smmu_dev list \<Rightarrow> u32 \<Rightarrow> bool \<Rightarrow> memory \<Rightarrow> (int \<times> memory) option" where
  "smmu_set_state tick g_num_smmus g_smmu smmu_index en m =
     (if g_num_smmus \<le> smmu_index then Some (1, m)
      else if length g_smmu \<le> unat smmu_index then None
      else let smmu = g_smmu ! unat smmu_index in
        if dev_base smmu = 0 then Some (1, m)
        else let
          (cr0_val, m1) = val_mmio_read tick (dev_base smmu + 0x20) m;
          cr0_val = (if en then cr0_val OR 1 else cr0_val AND NOT 1)
        in Some (smmu_reg_write_sync tick smmu cr0_val 0x20 0x24 m1))"

definition val_smmu_disable :: "tick \<Rightarrow> u32 \<Rightarrow> smmu_dev list \<Rightarrow> u32 \<Rightarrow> memory \<Rightarrow> (int \<times> memory) option" where
  "val_smmu_disable tick g_num_smmus g_smmu smmu_index m =
     smmu_set_state tick g_num_smmus g_smmu smmu_index False m"

definition val_smmu_enable :: "tick \<Rightarrow> u32 \<Rightarrow> smmu_dev list \<Rightarrow> u32 \<Rightarrow> memory \<Rightarrow> (int \<times> memory) option" where
  "val_smmu_enable tick g_num_smmus g_smmu smmu_index m =
     smmu_set_state tick g_num_smmus g_smmu smmu_index True m"

definition smmu_oas :: "u64 list" where
  "smmu_oas = [32, 36, 40, 42, 44, 48, 52]"

text \<open>The features are read and kept even when the probe then fails.\<close>

definition probe_features :: "u32 \<Rightarrow> smmu_dev \<Rightarrow> smmu_dev" where
  "probe_features idr0 smmu = smmu\<lparr>
     st_level_2lvl := BITFIELD_GET 28 27 idr0 = 1 \<or> st_level_2lvl smmu,
     cd2l := idr0 AND push_bit 19 1 \<noteq> 0 \<or> cd2l smmu,
     hyp := idr0 AND push_bit 9 1 \<noteq> 0 \<or> hyp smmu,
     s1p := idr0 AND push_bit 1 1 \<noteq> 0 \<or> s1p smmu,
     s2p := idr0 AND 1 \<noteq> 0 \<or> s2p smmu\<rparr>"

definition smmu_probe :: "tick \<Rightarrow> smmu_dev \<Rightarrow> memory \<Rightarrow> bool \<times> smmu_dev \<times> memory" where
  "smmu_probe tick smmu m0 =
     (let b = dev_base smmu;
          (idr0, m1) = val_mmio_read tick (b + 0x0) m0;
          s1 = probe_features idr0 smmu
      in if idr0 AND (push_bit 1 1 OR 1) = 0 then (False, s1, m1)
         else if BITFIELD_GET 3 2 idr0 \<noteq> 3 \<and> BITFIELD_GET 3 2 idr0 \<noteq> 2 then (False, s1, m1)
         else let
           s2 = (if BITFIELD_GET 3 2 idr0 = 3 then s1\<lparr>dev_ias := 40\<rparr> else s1);
           (idr1, m2) = val_mmio_read tick (b + 0x4) m1
         in if idr1 AND (push_bit 30 1 OR push_bit 29 1) \<noteq> 0 then (False, s2, m2)
            else let
              s3 = s2\<lparr>cmd_type := (cmd_type s2)\<lparr>queue := (queue (cmd_type s2))\<lparr>log2nent := BITFIELD_GET 25 21 idr1\<rparr>\<rparr>,
                      sid_bits := BITFIELD_GET 5 0 idr1, ssid_bits := BITFIELD_GET 10 6 idr1\<rparr>;
              s4 = (if sid_bits s3 \<le> 8 then s3\<lparr>st_level_2lvl := False\<rparr> else s3);
              (idr5, m3) = val_mmio_read tick (b + 0x14) m2
            in if 7 \<le> BITFIELD_GET 2 0 idr5 then (False, s4, m3)
               else let
                 oas = smmu_oas ! unat (BITFIELD_GET 2 0 idr5)
               in (True, s4\<lparr>dev_oas := oas, dev_ias := max (dev_ias s4) oas\<rparr>, m3))"


section \<open>Queue arithmetic\<close>

lemma ucast_mask_less: "n \<le> LENGTH('b) \<Longrightarrow> ucast (mask n :: 'a::len word) = (mask (min n LENGTH('a)) :: 'b::len word)"
  by (rule bit_word_eqI) (auto simp: bit_ucast_iff bit_mask_iff)

lemma push_bit_mask: "push_bit n 1 - 1 = (mask n :: 'a::len word)"
  by (simp add: push_bit_eq_mult mask_eq_exp_minus_1)

lemma index_mask_eq: "unat (log2nent q) < 32 \<Longrightarrow> index_mask q = mask (unat (log2nent q))"
  unfolding index_mask_def push_bit_mask by (simp add: ucast_mask_less)

lemma wrap_mask_eq: "unat (log2nent q) < 32 \<Longrightarrow> wrap_mask q = push_bit (unat (log2nent q)) 1"
  by (rule bit_word_eqI) (auto simp: wrap_mask_def bit_ucast_iff bit_push_bit_iff bit_exp_iff)

text \<open>The number of entries between the consumer and the producer index, which have one bit
  more than needed to address the entries.\<close>

definition occupancy :: "nat \<Rightarrow> u32 \<Rightarrow> u32 \<Rightarrow> nat" where
  "occupancy n p c = unat (p - c) mod 2 ^ (n + 1)"

lemma occupancy_int:
  assumes "n < 32"
  shows "int (occupancy n p c) = (uint p - uint c) mod 2 ^ (n + 1)"
proof -
  have "(2 :: int) ^ (n + 1) dvd 2 ^ 32" using assms by (intro le_imp_power_dvd) simp
  then show ?thesis
    by (simp add: occupancy_def zmod_int uint_word_ariths mod_mod_cancel del: power_Suc)
qed

lemma mod_double:
  fixes x N :: int assumes "0 < N"
  shows "x mod (2 * N) = x mod N + N * (x div N mod 2)"
  using zmod_zmult2_eq [of 2 x N] by (simp add: mult.commute)

lemma diff_mod_double:
  fixes x y N :: int assumes "0 < N"
  shows "(x - y) mod (2 * N) = 0 \<longleftrightarrow> x mod N = y mod N \<and> x div N mod 2 = y div N mod 2"
    and "(x - y) mod (2 * N) = N \<longleftrightarrow> x mod N = y mod N \<and> x div N mod 2 \<noteq> y div N mod 2"
proof -
  define r s a b where "r = x mod N" "s = y mod N" "a = x div N mod 2" "b = y div N mod 2"
  have bounds: "0 \<le> r" "r < N" "0 \<le> s" "s < N" "a = 0 \<or> a = 1" "b = 0 \<or> b = 1"
    using assms by (auto simp: r_s_a_b_def)
  have eq: "(x - y) mod (2 * N) = (r + N * a - (s + N * b)) mod (2 * N)"
    unfolding r_s_a_b_def using mod_double [OF assms] by (metis mod_diff_eq)
  have m: "z mod (2 * N) = (if z < 0 then z + 2 * N else z)" if "- (2 * N) < z" "z < 2 * N" for z :: int
    using that assms mod_pos_pos_trivial [of "z + 2 * N" "2 * N"] by auto
  have e: "(x - y) mod (2 * N) = (if r - s + N * (a - b) < 0 then r - s + N * (a - b) + 2 * N else r - s + N * (a - b))"
  proof -
    have eq': "r + N * a - (s + N * b) = r - s + N * (a - b)" by (simp add: algebra_simps)
    show ?thesis unfolding eq eq' using m [of "r - s + N * (a - b)"] bounds by auto
  qed
  show "(x - y) mod (2 * N) = 0 \<longleftrightarrow> x mod N = y mod N \<and> x div N mod 2 = y div N mod 2"
    unfolding e r_s_a_b_def [symmetric] using bounds by (elim disjE; simp; linarith)
  show "(x - y) mod (2 * N) = N \<longleftrightarrow> x mod N = y mod N \<and> x div N mod 2 \<noteq> y div N mod 2"
    unfolding e r_s_a_b_def [symmetric] using bounds by (elim disjE; simp; linarith)
qed

lemma bit_div: "bit (w :: 'a::len word) n \<longleftrightarrow> uint w div 2 ^ n mod 2 = 1"
proof -
  have "bit w n \<longleftrightarrow> bit (uint w) n" by (auto simp: bit_uint_iff dest: bit_imp_le_length)
  then show ?thesis by (simp add: bit_iff_odd odd_iff_mod_2_eq_one)
qed

lemma queue_state:
  assumes "unat (log2nent q) < 32"
  shows "smmu_queue_full q \<longleftrightarrow> occupancy (unat (log2nent q)) (q_prod q) (q_cons q) = 2 ^ unat (log2nent q)"
    and "smmu_queue_empty q \<longleftrightarrow> occupancy (unat (log2nent q)) (q_prod q) (q_cons q) = 0"
proof -
  let ?n = "unat (log2nent q)" and ?p = "q_prod q" and ?c = "q_cons q"
  have idx: "?p AND index_mask q = ?c AND index_mask q \<longleftrightarrow> uint ?p mod 2 ^ ?n = uint ?c mod 2 ^ ?n"
  proof -
    have key: "uint w mod 2 ^ ?n = int (unat w mod 2 ^ ?n)" for w :: u32 by (simp add: zmod_int)
    have "unat v mod 2 ^ ?n = unat w mod 2 ^ ?n \<longleftrightarrow> uint v mod 2 ^ ?n = uint w mod 2 ^ ?n" for v w :: u32
      by (simp only: key of_nat_eq_iff)
    then show ?thesis
      unfolding index_mask_eq [OF assms] word_and_mask_eq_take_bit take_bit_eq_iff_mod .
  qed
  have wrap: "?p AND wrap_mask q = ?c AND wrap_mask q \<longleftrightarrow> uint ?p div 2 ^ ?n mod 2 = uint ?c div 2 ^ ?n mod 2"
  proof -
    have "?p AND wrap_mask q = ?c AND wrap_mask q \<longleftrightarrow> bit ?p ?n = bit ?c ?n"
      using assms
      by (auto simp: wrap_mask_eq bit_eq_iff [where 'a = "32 word"] bit_and_iff bit_push_bit_iff bit_exp_iff)
    also have "\<dots> \<longleftrightarrow> uint ?p div 2 ^ ?n mod 2 = uint ?c div 2 ^ ?n mod 2"
      unfolding bit_div by (auto simp: not_mod_2_eq_1_eq_0)
    finally show ?thesis .
  qed
  note d = diff_mod_double [of "2 ^ ?n" "uint ?p" "uint ?c"]
  have "int (occupancy ?n ?p ?c) = (uint ?p - uint ?c) mod (2 * 2 ^ ?n)"
    using occupancy_int [OF assms] by simp
  then have "occupancy ?n ?p ?c = 0 \<longleftrightarrow> (uint ?p - uint ?c) mod (2 * 2 ^ ?n) = 0"
    "occupancy ?n ?p ?c = 2 ^ ?n \<longleftrightarrow> (uint ?p - uint ?c) mod (2 * 2 ^ ?n) = 2 ^ ?n"
    by (simp_all flip: of_nat_eq_iff [where 'a = int])
  then show "smmu_queue_full q \<longleftrightarrow> occupancy ?n ?p ?c = 2 ^ ?n" "smmu_queue_empty q \<longleftrightarrow> occupancy ?n ?p ?c = 0"
    by (simp_all add: smmu_queue_full_def smmu_queue_empty_def idx wrap d)
qed


lemma inc_prod_eq:
  assumes "unat (log2nent q) < 31"
  shows "unat (smmu_cmdq_inc_prod q) = unat (q_prod q + 1) mod 2 ^ (unat (log2nent q) + 1)"
proof -
  have "smmu_cmdq_inc_prod q = ucast (take_bit (unat (log2nent q) + 1) (ucast (q_prod q + 1) :: u64))"
    unfolding smmu_cmdq_inc_prod_def push_bit_mask word_and_mask_eq_take_bit ..
  also have "\<dots> = take_bit (unat (log2nent q) + 1) (q_prod q + 1)"
    by (rule bit_word_eqI) (auto simp: bit_ucast_iff bit_take_bit_iff)
  finally show ?thesis by (simp only: unat_take_bit_mod)
qed

lemma inc_prod_occupancy:
  assumes "unat (log2nent q) < 31"
  shows "occupancy (unat (log2nent q)) (smmu_cmdq_inc_prod q) c =
    (occupancy (unat (log2nent q)) (q_prod q) c + 1) mod 2 ^ (unat (log2nent q) + 1)"
proof -
  let ?n = "unat (log2nent q)" and ?M = "2 ^ Suc (unat (log2nent q)) :: int"
  have d: "?M dvd 4294967296" using le_imp_power_dvd [of "Suc ?n" 32 "2 :: int"] assms by simp
  have "uint (smmu_cmdq_inc_prod q) = (uint (q_prod q) + 1) mod ?M"
    using arg_cong [OF inc_prod_eq [OF assms], of int]
    by (simp add: zmod_int uint_word_ariths mod_mod_cancel [OF d] del: power_Suc)
  then have "int (occupancy ?n (smmu_cmdq_inc_prod q) c) = (uint (q_prod q) + 1 - uint c) mod ?M"
    using assms by (simp add: occupancy_int mod_diff_left_eq del: power_Suc)
  also have "\<dots> = ((uint (q_prod q) - uint c) mod ?M + 1) mod ?M"
    unfolding mod_add_left_eq by (simp add: algebra_simps del: power_Suc)
  also have "\<dots> = int ((occupancy ?n (q_prod q) c + 1) mod 2 ^ Suc ?n)"
    using assms occupancy_int [of ?n "q_prod q" c] by (simp add: zmod_int add.commute del: power_Suc)
  finally show ?thesis by simp
qed

text \<open>Index arithmetic of the queues. With \<open>2 ^ log2nent\<close> entries and indices that carry one
  wrap bit, a queue is full exactly when all entries lie between the consumer and the producer,
  empty exactly when none does, advancing the producer adds one entry, and the index stays below
  twice the number of entries.\<close>

theorem smmu_queue_indices:
  assumes "unat (log2nent q) < 31"
  shows "(smmu_queue_full q \<longleftrightarrow> occupancy (unat (log2nent q)) (q_prod q) (q_cons q) = 2 ^ unat (log2nent q)) \<and>
    (smmu_queue_empty q \<longleftrightarrow> occupancy (unat (log2nent q)) (q_prod q) (q_cons q) = 0) \<and>
    occupancy (unat (log2nent q)) (smmu_cmdq_inc_prod q) c =
      (occupancy (unat (log2nent q)) (q_prod q) c + 1) mod 2 ^ (unat (log2nent q) + 1) \<and>
    unat (smmu_cmdq_inc_prod q) < 2 ^ (unat (log2nent q) + 1)"
  using queue_state [of q] assms inc_prod_occupancy [OF assms] by (simp add: inc_prod_eq)

theorem smmu_queue_indices_witness:
  "smmu_queue_full \<lparr>q_prod = 4, q_cons = 0, log2nent = 2\<rparr> \<and>
   smmu_cmdq_inc_prod \<lparr>q_prod = 7, q_cons = 6, log2nent = 2\<rparr> = 0"
  using smmu_queue_indices [of "\<lparr>q_prod = 4, q_cons = 0, log2nent = 2\<rparr>"]
  by (simp add: occupancy_def smmu_cmdq_inc_prod_def)


section \<open>The command queue as a FIFO\<close>

text \<open>The command in entry \<open>i\<close> and the \<open>k\<close> commands from consumer index \<open>c\<close> on.\<close>

definition slot :: "smmu_queue_type \<Rightarrow> nat \<Rightarrow> u64" where
  "slot cmdq i = q_base cmdq + of_nat (i mod 2 ^ unat (log2nent (queue cmdq))) * 16"

definition slot_cmd :: "smmu_queue_type \<Rightarrow> memory \<Rightarrow> nat \<Rightarrow> u64 \<times> u64" where
  "slot_cmd cmdq m i = (ld64 m (slot cmdq i), ld64 m (slot cmdq i + 8))"

definition pending :: "smmu_queue_type \<Rightarrow> memory \<Rightarrow> u32 \<Rightarrow> nat \<Rightarrow> (u64 \<times> u64) list" where
  "pending cmdq m c k = map (\<lambda>j. slot_cmd cmdq m (unat c + j)) [0..<k]"

text \<open>Where a command queue lies: its entries do not wrap around the address space and do not
  overlap its producer register.\<close>

definition cmdq_ok :: "smmu_queue_type \<Rightarrow> bool" where
  "cmdq_ok cmdq \<longleftrightarrow> unat (log2nent (queue cmdq)) < 31 \<and> entry_size cmdq = 16 \<and>
     unat (q_base cmdq) + 16 * 2 ^ unat (log2nent (queue cmdq)) \<le> 2 ^ 64 \<and>
     apart (16 * 2 ^ unat (log2nent (queue cmdq))) 4 (q_base cmdq) (prod_reg cmdq)"

text \<open>What the device does before a read of the producer register: not touch it or the entries.\<close>

definition quiet_cmdq :: "tick \<Rightarrow> smmu_queue_type \<Rightarrow> memory \<Rightarrow> bool" where
  "quiet_cmdq tick cmdq m \<longleftrightarrow> ld32 (tick m) (prod_reg cmdq) = ld32 m (prod_reg cmdq) \<and>
     (\<forall>i. slot_cmd cmdq (tick m) i = slot_cmd cmdq m i)"

lemma apart_sub:
  assumes "apart n k a b" and "off + l \<le> n" and "0 < l"
  shows "apart l k (a + of_nat off) b"
proof -
  have n: "n \<le> unat (b - a)" and k: "k \<le> unat (a - b)" using assms(1) by (simp_all add: apart_def)
  have lt: "off < 2 ^ 64" using n assms(2,3) word_unat_less [of "b - a"] by simp
  have "b \<noteq> a" using n assms(2,3) by auto
  then have s: "unat (a - b) + unat (b - a) = 2 ^ 64"
    using word_unat_less [of a] word_unat_less [of b] by (auto simp: unat_sub_if' word_unat_eq_iff)
  have "of_nat off \<le> b - a" using lt n assms(2,3) by (simp add: word_le_nat_alt unat_of_nat_small)
  then have "unat (b - (a + of_nat off)) = unat (b - a) - off"
    using lt by (simp add: unat_sub unat_of_nat_small flip: diff_diff_eq)
  moreover have "unat (a + of_nat off - b) = unat (a - b) + off"
  proof -
    have "a + of_nat off - b = (a - b) + of_nat off" by simp
    then show ?thesis using s n assms(2,3) lt by (simp only: unat_word_ariths) (simp add: unat_of_nat_small)
  qed
  ultimately show ?thesis using n k assms(2) by (simp add: apart_def)
qed

lemma apart_sub_right: "apart n k a b \<Longrightarrow> off + l \<le> k \<Longrightarrow> 0 < l \<Longrightarrow> apart n l a (b + of_nat off)"
  using apart_sub [of k n b a off l] by (simp add: apart_sym)

lemma slot_at:
  assumes "cmdq_ok cmdq"
  shows "slot cmdq i = of_nat (unat (q_base cmdq) + 16 * (i mod 2 ^ unat (log2nent (queue cmdq))))"
    and "unat (q_base cmdq) + 16 * (i mod 2 ^ unat (log2nent (queue cmdq))) + 16 \<le> 2 ^ 64"
proof -
  have "i mod 2 ^ unat (log2nent (queue cmdq)) + 1 \<le> 2 ^ unat (log2nent (queue cmdq))" by (simp add: Suc_leI)
  then show "unat (q_base cmdq) + 16 * (i mod 2 ^ unat (log2nent (queue cmdq))) + 16 \<le> 2 ^ 64"
    using assms unfolding cmdq_ok_def by linarith
qed (simp add: slot_def mult.commute)

lemma slot_apart:
  assumes "cmdq_ok cmdq" and "i mod 2 ^ unat (log2nent (queue cmdq)) \<noteq> j mod 2 ^ unat (log2nent (queue cmdq))"
  shows "apart 16 16 (slot cmdq i) (slot cmdq j)"
  unfolding slot_at(1) [OF assms(1)]
  by (rule apart_at) (use slot_at(2) [OF assms(1)] assms(2) in auto)

lemma slot_prod_apart:
  assumes "cmdq_ok cmdq"
  shows "apart 16 4 (slot cmdq i) (prod_reg cmdq)"
proof -
  let ?N = "2 ^ unat (log2nent (queue cmdq)) :: nat"
  have "16 * (i mod ?N) + 16 \<le> 16 * ?N" using Suc_leI [of "i mod ?N" ?N] by simp
  from apart_sub [OF _ this] show ?thesis
    using assms by (simp add: cmdq_ok_def slot_def mult.commute)
qed

lemma write_cmd_entry:
  assumes ok: "cmdq_ok (cmd_type smmu)" and nf: "\<not> smmu_queue_full (queue (cmd_type smmu))"
    and qt: "quiet_cmdq tick (cmd_type smmu) m"
  defines "cmdq \<equiv> cmd_type smmu" and "p \<equiv> ld32 m (prod_reg (cmd_type smmu))"
  shows "\<exists>m'. smmu_cmdq_write_cmd tick smmu cmd m = (0, m') \<and>
    ld32 m' (prod_reg cmdq) = smmu_cmdq_inc_prod \<lparr>q_prod = p, q_cons = 0, log2nent = log2nent (queue cmdq)\<rparr> \<and>
    (\<forall>i. slot_cmd cmdq m' i = (if i mod 2 ^ unat (log2nent (queue cmdq)) = unat p mod 2 ^ unat (log2nent (queue cmdq))
        then cmd else slot_cmd cmdq m i))"
proof -
  let ?n = "unat (log2nent (queue cmdq))"
  define d where "d = slot cmdq (unat p)"
  define m2 where "m2 = st64 (st64 (tick m) d (fst cmd)) (d + 8) (snd cmd)"
  define m3 where "m3 = st32 m2 (prod_reg cmdq)
    (smmu_cmdq_inc_prod \<lparr>q_prod = p, q_cons = 0, log2nent = log2nent (queue cmdq)\<rparr>)"
  have es: "entry_size cmdq = 16" using ok by (simp add: cmdq_ok_def cmdq_def)
  have "unat p mod 2 ^ ?n < 2 ^ 64"
    by (rule le_less_trans [OF mod_less_eq_dividend]) (use word_unat_less [of p] in simp)
  then have ix: "(ucast p AND (push_bit ?n 1 - 1) :: u64) = of_nat (unat p mod 2 ^ ?n)"
    unfolding push_bit_mask word_and_mask_eq_take_bit
    by (simp add: word_unat_eq_iff unat_take_bit_mod unat_ucast_up unat_of_nat_small)
  have tp: "ld32 (tick m) (prod_reg cmdq) = p" using qt by (simp add: quiet_cmdq_def p_def cmdq_def)
  have run: "smmu_cmdq_write_cmd tick smmu cmd m = (0, m3)"
    unfolding smmu_cmdq_write_cmd_def val_mmio_read_def val_mmio_write_def Let_def cmdq_def [symmetric]
      prod.case tp smmu_queue.select_convs ix es m3_def m2_def d_def slot_def
    using nf by (simp add: cmdq_def)
  have pr: "apart 16 4 (slot cmdq i) (prod_reg cmdq)" for i
    by (rule slot_prod_apart) (use ok in \<open>simp add: cmdq_def\<close>)
  have e: "slot_cmd cmdq m3 i = slot_cmd cmdq m2 i" for i
    unfolding m3_def slot_cmd_def
    using apart_sub [OF pr [of i], of 0 8] apart_sub [OF pr [of i], of 8 8]
    by (simp add: c64.ld_frame [OF c32.st_outside] apart_sym [of 8 4])
  have same: "slot_cmd cmdq m2 i = cmd" if "i mod 2 ^ ?n = unat p mod 2 ^ ?n" for i
  proof -
    have "slot cmdq i = d" using that by (simp add: d_def slot_def)
    moreover have "apart 8 8 (d + 8) d" by (simp add: apart_def)
    ultimately show ?thesis by (simp add: slot_cmd_def m2_def c64.ld_st_same c64.ld_st_apart)
  qed
  have other: "slot_cmd cmdq m2 i = slot_cmd cmdq m i" if "i mod 2 ^ ?n \<noteq> unat p mod 2 ^ ?n" for i
  proof -
    have a: "apart 16 16 d (slot cmdq i)"
      unfolding d_def by (rule slot_apart) (use ok that in \<open>auto simp: cmdq_def\<close>)
    have "apart 8 8 (d + of_nat x) (slot cmdq i + of_nat y)" if "x + 8 \<le> 16" "y + 8 \<le> 16" for x y
      using apart_sub_right [OF apart_sub [OF a that(1)] that(2)] by simp
    from this [of 0 0] this [of 0 8] this [of 8 0] this [of 8 8]
    have "slot_cmd cmdq m2 i = slot_cmd cmdq (tick m) i"
      by (simp add: slot_cmd_def m2_def c64.ld_st_apart)
    then show ?thesis using qt by (simp add: quiet_cmdq_def cmdq_def)
  qed
  show ?thesis using run e same other by (auto simp: m3_def c32.ld_st_same)
qed

lemma occupancy_index:
  assumes "n < 32" and "occupancy n p c = k"
  shows "unat p mod 2 ^ n = (unat c + k) mod 2 ^ n"
proof -
  have d: "(2 :: int) ^ n dvd 2 ^ (n + 1)" by simp
  have "(uint c + int k) mod 2 ^ n = (uint c + (uint p - uint c) mod 2 ^ (n + 1)) mod 2 ^ n"
    using occupancy_int [OF assms(1), of p c] assms(2) by simp
  also have "\<dots> = (uint c + (uint p - uint c)) mod 2 ^ n"
    by (metis d mod_add_right_eq mod_mod_cancel)
  finally have "int ((unat c + k) mod 2 ^ n) = int (unat p mod 2 ^ n)" by (simp add: zmod_int)
  then show ?thesis by (simp only: of_nat_eq_iff)
qed

lemma mod_add_inj: "j < k \<Longrightarrow> k < (N :: nat) \<Longrightarrow> (c + j) mod N \<noteq> (c + k) mod N"
  using mod_eq_dvd_iff_nat [of "c + j" "c + k" N] by (auto dest!: dvd_imp_le)

text \<open>(C7) Issuing a command. With a device that leaves the producer register and the entries
  alone, a supported command is put into the entry of the producer index and the index advances.
  While the queue has room, the waiting commands are those of before followed by the new one: the
  queue is a FIFO. An unsupported opcode changes nothing and fails.\<close>

theorem smmu_cmdq_issue_fifo:
  assumes "cmdq_ok (cmd_type smmu)" and "quiet_cmdq tick (cmd_type smmu) m"
    and "q_prod (queue (cmd_type smmu)) = 0" and "q_cons (queue (cmd_type smmu)) = 0"
    and "occupancy (unat (log2nent (queue (cmd_type smmu)))) (ld32 m (prod_reg (cmd_type smmu))) c = k"
    and "k < 2 ^ unat (log2nent (queue (cmd_type smmu)))"
  shows "case smmu_cmdq_build_cmd g_sid opcode of
      None \<Rightarrow> smmu_cmdq_issue_cmd tick g_sid smmu opcode m = (- 1, m)
    | Some cmd \<Rightarrow> \<exists>m'. smmu_cmdq_issue_cmd tick g_sid smmu opcode m = (0, m') \<and>
        pending (cmd_type smmu) m' c (k + 1) = pending (cmd_type smmu) m c k @ [cmd] \<and>
        occupancy (unat (log2nent (queue (cmd_type smmu)))) (ld32 m' (prod_reg (cmd_type smmu))) c = k + 1"
proof -
  let ?q = "cmd_type smmu" and ?n = "unat (log2nent (queue (cmd_type smmu)))"
  let ?p = "ld32 m (prod_reg ?q)"
  have n: "?n < 31" using assms(1) by (simp add: cmdq_ok_def)
  then have nf: "\<not> smmu_queue_full (queue ?q)"
    using queue_state(1) [of "queue ?q"] assms(3,4) by (simp add: occupancy_def)
  show ?thesis
  proof (cases "smmu_cmdq_build_cmd g_sid opcode")
    case None
    then show ?thesis by (simp add: smmu_cmdq_issue_cmd_def)
  next
    case (Some cmd)
    from write_cmd_entry [OF assms(1) nf assms(2), of cmd] obtain m' where
      m': "smmu_cmdq_write_cmd tick smmu cmd m = (0, m')"
        "ld32 m' (prod_reg ?q) = smmu_cmdq_inc_prod \<lparr>q_prod = ?p, q_cons = 0, log2nent = log2nent (queue ?q)\<rparr>"
      and sl: "\<And>i. slot_cmd ?q m' i = (if i mod 2 ^ ?n = unat ?p mod 2 ^ ?n then cmd else slot_cmd ?q m i)"
      by blast
    have ix: "unat ?p mod 2 ^ ?n = (unat c + k) mod 2 ^ ?n"
      using occupancy_index [of ?n ?p c k] n assms(5) by simp
    have "pending ?q m' c (k + 1) = pending ?q m c k @ [cmd]"
      using assms(6) by (auto simp: pending_def sl ix mod_add_inj)
    moreover have "occupancy ?n (ld32 m' (prod_reg ?q)) c = k + 1"
      using inc_prod_occupancy [of "\<lparr>q_prod = ?p, q_cons = 0, log2nent = log2nent (queue ?q)\<rparr>" c] n assms(5,6)
      by (simp add: m'(2))
    ultimately show ?thesis using m'(1) Some by (simp add: smmu_cmdq_issue_cmd_def)
  qed
qed

text \<open>The check for space never fires. The driver tests its own copy of the indices, which stays
  zero, so a command is also accepted when every entry still waits for the device: it replaces the
  oldest waiting command and the producer index runs past the consumer index.\<close>

theorem smmu_cmdq_full_overwrites:
  assumes "cmdq_ok (cmd_type smmu)" and "quiet_cmdq tick (cmd_type smmu) m"
    and "q_prod (queue (cmd_type smmu)) = 0" and "q_cons (queue (cmd_type smmu)) = 0"
    and "smmu_queue_full \<lparr>q_prod = ld32 m (prod_reg (cmd_type smmu)), q_cons = c,
      log2nent = log2nent (queue (cmd_type smmu))\<rparr>"
  shows "\<exists>m'. smmu_cmdq_write_cmd tick smmu cmd m = (0, m') \<and> slot_cmd (cmd_type smmu) m' (unat c) = cmd \<and>
    occupancy (unat (log2nent (queue (cmd_type smmu)))) (ld32 m' (prod_reg (cmd_type smmu))) c =
      (2 ^ unat (log2nent (queue (cmd_type smmu))) + 1) mod 2 ^ (unat (log2nent (queue (cmd_type smmu))) + 1)"
proof -
  let ?q = "cmd_type smmu" and ?n = "unat (log2nent (queue (cmd_type smmu)))"
  let ?p = "ld32 m (prod_reg ?q)"
  have n: "?n < 31" using assms(1) by (simp add: cmdq_ok_def)
  then have nf: "\<not> smmu_queue_full (queue ?q)"
    using queue_state(1) [of "queue ?q"] assms(3,4) by (simp add: occupancy_def)
  have occ: "occupancy ?n ?p c = 2 ^ ?n"
    using queue_state(1) [of "\<lparr>q_prod = ?p, q_cons = c, log2nent = log2nent (queue ?q)\<rparr>"] n assms(5) by simp
  then have ix: "unat ?p mod 2 ^ ?n = unat c mod 2 ^ ?n"
    using occupancy_index [of ?n ?p c "2 ^ ?n"] n by simp
  show ?thesis
    using write_cmd_entry [OF assms(1) nf assms(2), of cmd] ix occ n
      inc_prod_occupancy [of "\<lparr>q_prod = ?p, q_cons = 0, log2nent = log2nent (queue ?q)\<rparr>" c]
    by auto
qed

definition example_smmu :: smmu_dev where
  "example_smmu = zero_dev\<lparr>dev_base := 0x2B400000, cmd_type := zero_queue\<lparr>
     queue := \<lparr>q_prod = 0, q_cons = 0, log2nent = 2\<rparr>, q_base := 0x100000, entry_size := 16,
     prod_reg := 0x2B440098, cons_reg := 0x2B44009C\<rparr>\<rparr>"

lemma example_smmu_cmdq:
  "cmd_type example_smmu = zero_queue\<lparr>queue := \<lparr>q_prod = 0, q_cons = 0, log2nent = 2\<rparr>, q_base := 0x100000,
     entry_size := 16, prod_reg := 0x2B440098, cons_reg := 0x2B44009C\<rparr>"
  by (simp add: example_smmu_def)

lemma example_cmdq_ok: "cmdq_ok (cmd_type example_smmu)"
  by (simp add: cmdq_ok_def example_smmu_cmdq apart_def)

lemma quiet_id: "quiet_cmdq id cmdq m"
  by (simp add: quiet_cmdq_def)

lemma ld32_zero: "ld32 (\<lambda>_. 0) a = 0"
  by (simp add: ld32_def)

theorem smmu_cmdq_issue_fifo_witness:
  "\<exists>m'. smmu_cmdq_issue_cmd id 5 example_smmu 3 (\<lambda>_. 0) = (0, m') \<and>
     pending (cmd_type example_smmu) m' 0 1 = [(0x500000003, 1)]"
  using smmu_cmdq_issue_fifo [OF example_cmdq_ok quiet_id, of "\<lambda>_. 0" 0 0 5 3]
  by (auto simp: example_smmu_cmdq ld32_zero occupancy_def smmu_cmdq_build_cmd_def BITFIELD_SET_def pending_def
      mask_eq_exp_minus_1)

theorem smmu_cmdq_full_overwrites_witness:
  "\<exists>m'. smmu_cmdq_write_cmd id example_smmu (0x46, 0) (st32 (\<lambda>_. 0) 0x2B440098 4) = (0, m') \<and>
     slot_cmd (cmd_type example_smmu) m' 0 = (0x46, 0)"
  using smmu_cmdq_full_overwrites [OF example_cmdq_ok quiet_id, of "st32 (\<lambda>_. 0) 0x2B440098 4" 0 "(0x46, 0)"]
  by (auto simp: example_smmu_cmdq c32.ld_st_same queue_state occupancy_def)


section \<open>Register synchronisation, probing and reset\<close>

lemma sync_poll_result:
  "fst (sync_poll tick ack v n m) = (if \<exists>i<n. ld32 ((tick ^^ Suc i) m) ack = v then 0 else 1)"
proof (induction n arbitrary: m)
  case (Suc n)
  have "(\<exists>i<Suc n. ld32 ((tick ^^ Suc i) m) ack = v) \<longleftrightarrow>
      ld32 (tick m) ack = v \<or> (\<exists>i<n. ld32 ((tick ^^ Suc i) (tick m)) ack = v)"
    by (subst Ex_less_Suc2) (simp add: funpow_swap1)
  then show ?case
    using Suc.IH [of "tick m"] by (simp add: val_mmio_read_def Let_def del: funpow.simps)
qed simp

lemma sync_poll_mem: "\<exists>i\<le>n. snd (sync_poll tick ack v n m) = (tick ^^ i) m"
proof (induction n arbitrary: m)
  case (Suc n)
  obtain i where "i \<le> n" "snd (sync_poll tick ack v n (tick m)) = (tick ^^ i) (tick m)" using Suc by blast
  moreover have "(tick ^^ i) (tick m) = (tick ^^ Suc i) m" by (simp add: funpow_swap1)
  moreover have "tick m = (tick ^^ Suc 0) m" by simp
  ultimately show ?case
    by (cases "ld32 (tick m) ack = v") (force simp: val_mmio_read_def Let_def simp del: funpow.simps)+
qed simp

text \<open>Writing a register with acknowledgement returns 0 exactly when one of the reads of the
  acknowledge register within the bound returns the written value, and 1 otherwise; apart from
  what the device does, the register write is the only effect. Setting the state of an SMMU fails
  with 1 for an index outside the table and for an SMMU that was not initialised, without effect,
  and otherwise writes the enable bit of the control register and keeps its other bits.\<close>

theorem smmu_reg_write_sync_result:
  "fst (smmu_reg_write_sync tick smmu v reg ack m) =
     (if \<exists>i<0x1000000. ld32 ((tick ^^ Suc i) (st32 m (dev_base smmu + reg) v)) (dev_base smmu + ack) = v
      then 0 else 1) \<and>
   (\<exists>i. snd (smmu_reg_write_sync tick smmu v reg ack m) = (tick ^^ i) (st32 m (dev_base smmu + reg) v)) \<and>
   (length g_smmu = unat num \<longrightarrow>
     smmu_set_state tick num g_smmu idx en m =
       Some (if num \<le> idx \<or> dev_base (g_smmu ! unat idx) = 0 then (1, m)
         else smmu_reg_write_sync tick (g_smmu ! unat idx)
           (if en then ld32 (tick m) (dev_base (g_smmu ! unat idx) + 0x20) OR 1
            else ld32 (tick m) (dev_base (g_smmu ! unat idx) + 0x20) AND NOT 1) 0x20 0x24 (tick m)))"
proof -
  have "fst (smmu_reg_write_sync tick smmu v reg ack m) =
     (if \<exists>i<0x1000000. ld32 ((tick ^^ Suc i) (st32 m (dev_base smmu + reg) v)) (dev_base smmu + ack) = v
      then 0 else 1)"
    unfolding smmu_reg_write_sync_def val_mmio_write_def by (rule sync_poll_result)
  moreover have "\<exists>i. snd (smmu_reg_write_sync tick smmu v reg ack m) = (tick ^^ i) (st32 m (dev_base smmu + reg) v)"
    unfolding smmu_reg_write_sync_def val_mmio_write_def using sync_poll_mem by blast
  ultimately show ?thesis
    by (auto simp: smmu_set_state_def val_mmio_read_def Let_def word_le_nat_alt simp del: funpow.simps)
qed

theorem smmu_reg_write_sync_result_witness:
  "fst (smmu_reg_write_sync id (example_smmu\<lparr>dev_base := 0x1000\<rparr>) 5 0x20 0x20 (\<lambda>_. 0)) = 0 \<and>
   smmu_set_state id 1 [example_smmu\<lparr>dev_base := 0x1000\<rparr>] 1 True (\<lambda>_. 0) = Some (1, \<lambda>_. 0)"
  using smmu_reg_write_sync_result [of id "example_smmu\<lparr>dev_base := 0x1000\<rparr>" 5 "0x20" "0x20" "\<lambda>_. 0"
      "[example_smmu\<lparr>dev_base := 0x1000\<rparr>]" 1 1 True]
  by (auto simp: c32.ld_st_same id_funpow intro!: exI [of _ 0])


text \<open>The words the device changes on its own: the acknowledge register, the consumer index of the
  command queue, the error register and the producer index of the event queue. A responsive device
  changes nothing else and acknowledges the control register within the bound of the driver.\<close>

definition dev_owned :: "u64 \<Rightarrow> u64 \<Rightarrow> bool" where
  "dev_owned b x \<longleftrightarrow> unat (x - (b + SMMU_R_CR0ACK)) < 4 \<or> unat (x - (b + SMMU_R_CMDQ_CONS)) < 4 \<or>
     unat (x - (b + SMMU_R_GERROR)) < 4 \<or> unat (x - (b + SMMU_R_EVTQ_PROD)) < 4"

definition smmu_responsive :: "u64 \<Rightarrow> tick \<Rightarrow> bool" where
  "smmu_responsive b tick \<longleftrightarrow> (\<forall>m x. \<not> dev_owned b x \<longrightarrow> tick m x = m x) \<and>
     (\<forall>m. \<exists>i<0x1000000. ld32 ((tick ^^ Suc i) m) (b + SMMU_R_CR0ACK) = ld32 m (b + SMMU_R_CR0))"

text \<open>An SMMU whose command queue was set up: the index registers are those of the realm interface
  and the entries lie outside its two register pages.\<close>

definition smmu_set_up :: "smmu_dev \<Rightarrow> bool" where
  "smmu_set_up smmu \<longleftrightarrow> entry_size (cmd_type smmu) = 16 \<and> unat (log2nent (queue (cmd_type smmu))) < 31 \<and>
     apart (16 * 2 ^ unat (log2nent (queue (cmd_type smmu)))) 0x20000 (q_base (cmd_type smmu)) (dev_base smmu + 0x40000) \<and>
     prod_reg (cmd_type smmu) = dev_base smmu + SMMU_R_CMDQ_PROD \<and>
     cons_reg (cmd_type smmu) = dev_base smmu + SMMU_R_CMDQ_CONS"

text \<open>The bytes that issuing commands may change.\<close>

definition cmd_area :: "smmu_dev \<Rightarrow> u64 \<Rightarrow> bool" where
  "cmd_area smmu x \<longleftrightarrow> dev_owned (dev_base smmu) x \<or> unat (x - prod_reg (cmd_type smmu)) < 4 \<or>
     unat (x - q_base (cmd_type smmu)) < 16 * 2 ^ unat (log2nent (queue (cmd_type smmu)))"

definition same_off :: "(u64 \<Rightarrow> bool) \<Rightarrow> memory \<Rightarrow> memory \<Rightarrow> bool" where
  "same_off A m m' \<longleftrightarrow> (\<forall>x. \<not> A x \<longrightarrow> m' x = m x)"

lemma same_off_refl [simp]: "same_off A m m"
  by (simp add: same_off_def)

lemma same_off_trans: "same_off A m m1 \<Longrightarrow> same_off A m1 m2 \<Longrightarrow> same_off A m m2"
  by (simp add: same_off_def)

lemma same_off_st:
  "(\<And>x. unat (x - a) < 4 \<Longrightarrow> A x) \<Longrightarrow> same_off A m (st32 m a v)"
  "(\<And>x. unat (x - a) < 8 \<Longrightarrow> A x) \<Longrightarrow> same_off A m (st64 m a w)"
  unfolding same_off_def using c32.st_outside c64.st_outside by (meson not_le)+

lemma same_off_ld:
  assumes "same_off A m m'" and "\<And>i. i < n \<Longrightarrow> \<not> A (a + of_nat i)"
  shows "n = 4 \<Longrightarrow> ld32 m' a = ld32 m a" and "n = 8 \<Longrightarrow> ld64 m' a = ld64 m a"
  using assms by (auto simp: same_off_def intro!: c32.ld_cong c64.ld_cong)

lemma tick_same: "smmu_responsive (dev_base smmu) tick \<Longrightarrow> same_off (cmd_area smmu) m (tick m)"
  by (simp add: same_off_def smmu_responsive_def cmd_area_def)

lemma ticks_same: "smmu_responsive (dev_base smmu) tick \<Longrightarrow> same_off (cmd_area smmu) m ((tick ^^ i) m)"
  by (induction i) (auto intro: same_off_trans tick_same)

lemma in_region:
  assumes "unat (x - (q + of_nat off)) < l" and "off + l \<le> L" and "L \<le> 2 ^ 64"
  shows "unat (x - q :: u64) < L"
proof -
  have "x - q = (x - (q + of_nat off)) + of_nat off" by simp
  then have "unat (x - q) = (unat (x - (q + of_nat off)) + unat (of_nat off :: u64)) mod 2 ^ 64"
    by (simp only: unat_word_ariths len_num1 len_bit0) simp
  moreover have "unat (x - (q + of_nat off)) + off < 2 ^ 64" "off < 2 ^ 64" using assms by simp_all
  ultimately have "unat (x - q) = unat (x - (q + of_nat off)) + off" by (simp add: unat_of_nat_small)
  then show ?thesis using assms by simp
qed

lemma write_cmd_same:
  assumes "smmu_responsive (dev_base smmu) tick" and "smmu_set_up smmu"
  shows "same_off (cmd_area smmu) m (snd (smmu_cmdq_write_cmd tick smmu cmd m))"
proof (cases "smmu_queue_full (queue (cmd_type smmu))")
  case True
  then show ?thesis by (simp add: smmu_cmdq_write_cmd_def)
next
  case False
  let ?q = "cmd_type smmu" and ?n = "unat (log2nent (queue (cmd_type smmu)))"
  let ?p = "ld32 (tick m) (prod_reg ?q)"
  define off where "off = unat (take_bit ?n (ucast ?p :: u64))"
  have off: "off < 2 ^ ?n" by (simp add: off_def unat_take_bit_mod)
  have n: "16 * 2 ^ ?n \<le> (2 ^ 64 :: nat)" "entry_size ?q = 16"
    using assms(2) power_increasing [of ?n 30 "2 :: nat"] by (simp_all add: smmu_set_up_def)
  define d where "d = q_base ?q + of_nat (16 * off)"
  have dst: "q_base ?q + (ucast ?p AND (push_bit ?n 1 - 1)) * entry_size ?q = d"
    unfolding push_bit_mask word_and_mask_eq_take_bit d_def off_def by (simp add: n mult.commute)
  define m2 where "m2 = st64 (st64 (tick m) d (fst cmd)) (d + 8) (snd cmd)"
  have "snd (smmu_cmdq_write_cmd tick smmu cmd m) = st32 m2 (prod_reg ?q)
      (smmu_cmdq_inc_prod \<lparr>q_prod = ?p, q_cons = 0, log2nent = log2nent (queue ?q)\<rparr>)"
    unfolding smmu_cmdq_write_cmd_def val_mmio_read_def val_mmio_write_def Let_def prod.case
      smmu_queue.select_convs dst m2_def using False by simp
  moreover have "same_off (cmd_area smmu) (tick m) (st64 (tick m) d (fst cmd))"
    by (rule same_off_st(2)) (use in_region [of _ "q_base ?q" "16 * off" 8 "16 * 2 ^ ?n"] off n(1) in
        \<open>auto simp: cmd_area_def d_def\<close>)
  moreover have "same_off (cmd_area smmu) (st64 (tick m) d (fst cmd)) m2"
    unfolding m2_def
    by (rule same_off_st(2)) (use in_region [of _ "q_base ?q" "16 * off + 8" 8 "16 * 2 ^ ?n"] off n(1) in
        \<open>auto simp: cmd_area_def d_def algebra_simps\<close>)
  moreover have "same_off (cmd_area smmu) m2 (st32 m2 (prod_reg ?q) v)" for v
    by (rule same_off_st(1)) (simp add: cmd_area_def)
  ultimately show ?thesis using tick_same [OF assms(1), of m] by (metis same_off_trans)
qed


lemma issue_cmd_same:
  assumes "smmu_responsive (dev_base smmu) tick" and "smmu_set_up smmu"
  shows "same_off (cmd_area smmu) m (snd (smmu_cmdq_issue_cmd tick g_sid smmu opcode m))"
  using write_cmd_same [OF assms] by (simp add: smmu_cmdq_issue_cmd_def split: option.split)

lemma consumed_poll_same:
  assumes "smmu_responsive (dev_base smmu) tick"
  shows "same_off (cmd_area smmu) m (snd (consumed_poll tick r k q m))"
proof (induction k arbitrary: q m)
  case (Suc k)
  show ?case
    using same_off_trans [OF tick_same [OF assms, of m] Suc.IH [of "tick m" "q\<lparr>q_cons := ld32 (tick m) r\<rparr>"]]
    by (simp add: val_mmio_read_def Let_def)
qed simp

lemma poll_same:
  assumes "smmu_responsive (dev_base smmu) tick"
  shows "same_off (cmd_area smmu) m (smmu_cmdq_poll_until_consumed tick smmu m)"
proof -
  let ?m2 = "tick (tick m)"
  obtain fin m3 where r: "consumed_poll tick (cons_reg (cmd_type smmu)) SMMU_CMDQ_POLL_TIMEOUT
      \<lparr>q_prod = ld32 (tick m) (prod_reg (cmd_type smmu)), q_cons = ld32 ?m2 (cons_reg (cmd_type smmu)),
        log2nent = log2nent (queue (cmd_type smmu))\<rparr> ?m2 = (fin, m3)"
    by (metis surj_pair)
  have "same_off (cmd_area smmu) m ?m2" using ticks_same [OF assms, of m 2] by (simp add: eval_nat_numeral)
  moreover have "same_off (cmd_area smmu) ?m2 m3" using consumed_poll_same [OF assms] r by (metis snd_conv)
  moreover have "same_off (cmd_area smmu) m3 (tick (tick (tick m3)))"
    using ticks_same [OF assms, of m3 3] by (simp add: eval_nat_numeral)
  ultimately have "same_off (cmd_area smmu) m m3" "same_off (cmd_area smmu) m (tick (tick (tick m3)))"
    by (blast intro: same_off_trans)+
  then show ?thesis
    unfolding smmu_cmdq_poll_until_consumed_def val_mmio_read_def Let_def prod.case r by simp
qed

lemma tlbi_same:
  assumes "smmu_responsive (dev_base smmu) tick" and "smmu_set_up smmu"
  shows "same_off (cmd_area smmu) m (smmu_tlbi_cfgi tick g_sid smmu m)"
    and "same_off (cmd_area smmu) m (smmu_tlbi_cached_ste tick g_sid smmu m)"
    and "same_off (cmd_area smmu) m (smmu_tlbi_prefetch_cfg tick g_sid smmu m)"
  unfolding smmu_tlbi_cfgi_def smmu_tlbi_cached_ste_def smmu_tlbi_prefetch_cfg_def Let_def
  by (auto intro!: same_off_trans [OF _ poll_same [OF assms(1)]] same_off_trans [OF _ issue_cmd_same [OF assms]])

text \<open>Registers of the realm interface that commands do not touch.\<close>

definition stable :: "smmu_dev \<Rightarrow> nat \<Rightarrow> u64 \<Rightarrow> bool" where
  "stable smmu n a \<longleftrightarrow> (\<forall>i<n. \<not> cmd_area smmu (a + of_nat i))"

lemma stable_ld:
  assumes "same_off (cmd_area smmu) m m'"
  shows "stable smmu 4 a \<Longrightarrow> ld32 m' a = ld32 m a" and "stable smmu 8 a \<Longrightarrow> ld64 m' a = ld64 m a"
  using same_off_ld [OF assms, of 4 a] same_off_ld [OF assms, of 8 a] by (auto simp: stable_def)

lemma stable_reg:
  assumes "smmu_set_up smmu" and "r + n \<le> 0x20000"
    and "\<forall>w \<in> {0x24, 0x98, 0x9C, 0x60, 0x100A8}. r + n \<le> w \<or> w + 4 \<le> r"
  shows "stable smmu n (dev_base smmu + 0x40000 + of_nat r)"
  unfolding stable_def
proof (intro allI impI)
  fix i assume i: "i < n"
  let ?b = "dev_base smmu" and ?x = "dev_base smmu + 0x40000 + of_nat r + of_nat i"
  have d: "unat (?x - (?b + 0x40000 + of_nat w)) \<ge> 4" if "r + n \<le> w \<or> w + 4 \<le> r" "w < 0x20000" for w
  proof -
    have "unat (?x - (?b + 0x40000 + of_nat w)) = unat (of_nat (r + i) - of_nat w :: u64)"
      by (simp add: add_diff_eq)
    also have "\<dots> = (if w \<le> r + i then r + i - w else r + i + 2 ^ 64 - w)"
      by (rule unat_diff_of_nat) (use that i assms(2) in auto)
    finally show ?thesis using that i assms(2) by (simp split: if_splits)
  qed
  have "16 * 2 ^ unat (log2nent (queue (cmd_type smmu))) \<le> unat (?x - q_base (cmd_type smmu))"
    using apart_outside [of _ "0x20000" "q_base (cmd_type smmu)" "?b + 0x40000" "r + i"] assms(1,2) i
    by (simp add: smmu_set_up_def add.assoc)
  then show "\<not> cmd_area smmu ?x"
    using d [of "0x24"] d [of "0x98"] d [of "0x9C"] d [of "0x60"] d [of "0x100A8"] assms(1,3)
    by (simp add: cmd_area_def dev_owned_def smmu_set_up_def not_less add.assoc)
qed


lemma stable_regs:
  assumes "smmu_set_up smmu"
  shows "stable smmu 4 (dev_base smmu + SMMU_R_CR0)" "stable smmu 4 (dev_base smmu + SMMU_R_CR1)"
    "stable smmu 4 (dev_base smmu + SMMU_R_CR2)" "stable smmu 8 (dev_base smmu + SMMU_R_STRTAB_BASE)"
    "stable smmu 4 (dev_base smmu + SMMU_R_STRTAB_BASE_CFG)" "stable smmu 8 (dev_base smmu + SMMU_R_CMDQ_BASE)"
    "stable smmu 8 (dev_base smmu + SMMU_R_EVTQ_BASE)" "stable smmu 4 (dev_base smmu + SMMU_R_EVTQ_CONS)"
  using stable_reg [OF assms, of "0x20" 4] stable_reg [OF assms, of "0x28" 4] stable_reg [OF assms, of "0x2C" 4]
    stable_reg [OF assms, of "0x80" 8] stable_reg [OF assms, of "0x88" 4] stable_reg [OF assms, of "0x90" 8]
    stable_reg [OF assms, of "0xA0" 8] stable_reg [OF assms, of "0x100AC" 4]
  by (simp_all add: add.assoc)

text \<open>The registers a reset programs.\<close>

definition programmed :: "smmu_dev \<Rightarrow> u32 \<Rightarrow> memory \<Rightarrow> bool" where
  "programmed smmu cr2 m \<longleftrightarrow> (let b = dev_base smmu in
     ld32 m (b + SMMU_R_CR1) = smmu_reset_cr1 \<and> ld32 m (b + SMMU_R_CR2) = cr2 \<and>
     ld64 m (b + SMMU_R_STRTAB_BASE) = strtab_base (strtab_cfg smmu) \<and>
     ld32 m (b + SMMU_R_STRTAB_BASE_CFG) = strtab_base_cfg (strtab_cfg smmu) \<and>
     ld64 m (b + SMMU_R_CMDQ_BASE) = queue_base (cmd_type smmu) \<and>
     ld64 m (b + SMMU_R_EVTQ_BASE) = queue_base (evnt_type smmu) \<and>
     ld32 m (b + SMMU_R_EVTQ_CONS) = q_cons (queue (evnt_type smmu)))"

lemma programmed_same:
  assumes "smmu_set_up smmu" and "same_off (cmd_area smmu) m m'"
  shows "programmed smmu cr2 m' = programmed smmu cr2 m"
  using stable_ld [OF assms(2)] stable_regs [OF assms(1)] by (simp add: programmed_def Let_def)

lemma programmed_cr0: "programmed smmu cr2 (st32 m (dev_base smmu + SMMU_R_CR0) v) = programmed smmu cr2 m"
  by (simp add: programmed_def Let_def c32.ld_st_apart c64.ld_frame [OF c32.st_outside] apart_def)

lemma cr0_sync:
  assumes "smmu_responsive (dev_base smmu) tick"
  shows "\<exists>m'. smmu_reg_write_sync tick smmu v SMMU_R_CR0 SMMU_R_CR0ACK m = (0, m') \<and>
    same_off (cmd_area smmu) (st32 m (dev_base smmu + SMMU_R_CR0) v) m'"
proof -
  let ?m = "st32 m (dev_base smmu + SMMU_R_CR0) v"
  have "\<exists>i<0x1000000. ld32 ((tick ^^ Suc i) ?m) (dev_base smmu + SMMU_R_CR0ACK) = v"
    using assms unfolding smmu_responsive_def by (metis c32.ld_st_same)
  then have "fst (smmu_reg_write_sync tick smmu v SMMU_R_CR0 SMMU_R_CR0ACK m) = 0"
    unfolding smmu_reg_write_sync_def val_mmio_write_def sync_poll_result by simp
  moreover obtain i where "snd (smmu_reg_write_sync tick smmu v SMMU_R_CR0 SMMU_R_CR0ACK m) = (tick ^^ i) ?m"
    unfolding smmu_reg_write_sync_def val_mmio_write_def using sync_poll_mem by blast
  ultimately show ?thesis using ticks_same [OF assms, of ?m i] by (metis prod.collapse)
qed

lemma reset_bases_programmed:
  assumes "ld32 m (dev_base smmu + SMMU_R_CR1) = smmu_reset_cr1" and "ld32 m (dev_base smmu + SMMU_R_CR2) = cr2"
  shows "programmed smmu cr2 (smmu_reset_bases smmu m)"
    and "ld32 (smmu_reset_bases smmu m) (dev_base smmu + SMMU_R_CR0) = ld32 m (dev_base smmu + SMMU_R_CR0)"
  using assms
  by (simp_all add: programmed_def smmu_reset_bases_def val_mmio_write_def val_mmio_write64_def Let_def
      c32.ld_st_apart c64.ld_st_apart c32.ld_st_same c64.ld_st_same c64.ld_frame [OF c32.st_outside]
      c32.ld_frame [OF c64.st_outside] apart_def)


text \<open>(C22) Reset. On a responsive device, \<^verbatim>\<open>smmu_reset\<close> programs the memory attributes, the stream
  table base and format and the bases of both queues, sets the host mode bit of the second control
  register and leaves the SMMU enabled with its command and event queues, keeping the other bits
  of the control register. The value it returns is 1 for every device, also for one that never
  acknowledges.\<close>

theorem smmu_reset_programs:
  "fst (smmu_reset tick' g_sid smmu' m0) = 1 \<and>
   (smmu_responsive (dev_base smmu) tick \<and> smmu_set_up smmu \<longrightarrow>
     (\<exists>m'. smmu_reset tick g_sid smmu m = (1, m') \<and>
       programmed smmu (ld32 m (dev_base smmu + SMMU_R_CR2) OR 1) m' \<and>
       ld32 m' (dev_base smmu + SMMU_R_CR0) =
         (ld32 m (dev_base smmu + SMMU_R_CR0) AND NOT 1) OR 8 OR 4 OR 1))"
proof (intro conjI impI)
  have "fst (smmu_reg_write_sync tick' smmu' v r a m) \<in> {0, 1}" for v r a m
    unfolding smmu_reg_write_sync_def sync_poll_result by simp
  then show "fst (smmu_reset tick' g_sid smmu' m0) = 1"
    by (auto simp: smmu_reset_def val_mmio_read_def Let_def split: prod.split) (metis fst_conv insertE singletonD)+
next
  assume "smmu_responsive (dev_base smmu) tick \<and> smmu_set_up smmu"
  then have rs: "smmu_responsive (dev_base smmu) tick" and su: "smmu_set_up smmu" by auto
  let ?b = "dev_base smmu" and ?A = "cmd_area smmu" and ?cr0 = "ld32 m (dev_base smmu + SMMU_R_CR0)"
  let ?cr2 = "ld32 m (dev_base smmu + SMMU_R_CR2)"
  note st = stable_regs [OF su] and ld = stable_ld
  obtain m2 where m2: "smmu_reg_write_sync tick smmu (?cr0 AND NOT 1) SMMU_R_CR0 SMMU_R_CR0ACK (tick m) = (0, m2)"
    "same_off ?A (st32 (tick m) (?b + SMMU_R_CR0) (?cr0 AND NOT 1)) m2" using cr0_sync [OF rs] by blast
  have t: "ld32 (tick m) (?b + SMMU_R_CR0) = ?cr0" "ld32 (tick m) (?b + SMMU_R_CR2) = ?cr2"
    using ld(1) [OF tick_same [OF rs]] st by blast+
  define m3 where "m3 = st32 m2 (?b + SMMU_R_CR1) smmu_reset_cr1"
  have m3: "ld32 (tick m3) (?b + SMMU_R_CR2) = ?cr2" "ld32 (tick m3) (?b + SMMU_R_CR1) = smmu_reset_cr1"
    "ld32 (tick m3) (?b + SMMU_R_CR0) = ?cr0 AND NOT 1"
    using ld(1) [OF tick_same [OF rs, of m3]] ld(1) [OF m2(2)] st t
    by (simp_all add: m3_def c32.ld_st_same c32.ld_st_apart apart_def)
  define m5 where "m5 = smmu_reset_bases smmu (st32 (tick m3) (?b + SMMU_R_CR2) (?cr2 OR 1))"
  have m5: "programmed smmu (?cr2 OR 1) m5" "ld32 m5 (?b + SMMU_R_CR0) = ?cr0 AND NOT 1"
    unfolding m5_def using m3
    by (auto intro!: reset_bases_programmed(1) simp: reset_bases_programmed(2) c32.ld_st_same c32.ld_st_apart apart_def)
  have "programmed smmu (?cr2 OR 1) (tick m5)" "ld32 (tick m5) (?b + SMMU_R_CR0) = ?cr0 AND NOT 1"
    using m5 programmed_same [OF su tick_same [OF rs]] ld(1) [OF tick_same [OF rs, of m5]] st by simp_all
  note m6 = this
  define v where "v = (?cr0 AND NOT 1) OR 8"
  obtain m7 where m7: "smmu_reg_write_sync tick smmu v SMMU_R_CR0 SMMU_R_CR0ACK (tick m5) = (0, m7)"
    "same_off ?A (st32 (tick m5) (?b + SMMU_R_CR0) v) m7" using cr0_sync [OF rs] by blast
  obtain m8 where m8: "smmu_reg_write_sync tick smmu (v OR 4) SMMU_R_CR0 SMMU_R_CR0ACK m7 = (0, m8)"
    "same_off ?A (st32 m7 (?b + SMMU_R_CR0) (v OR 4)) m8" using cr0_sync [OF rs] by blast
  define m9 where "m9 = smmu_tlbi_cfgi tick g_sid smmu m8"
  have s9: "same_off ?A m8 m9" unfolding m9_def by (rule tlbi_same(1) [OF rs su])
  obtain m10 where m10: "smmu_reg_write_sync tick smmu ((v OR 4) OR 1) SMMU_R_CR0 SMMU_R_CR0ACK m9 = (0, m10)"
    "same_off ?A (st32 m9 (?b + SMMU_R_CR0) ((v OR 4) OR 1)) m10" using cr0_sync [OF rs] by blast
  have "smmu_reset tick g_sid smmu m = (1, m10)"
    unfolding smmu_reset_def val_mmio_read_def val_mmio_write_def Let_def prod.case t m2(1)
      m3_def [symmetric] m3(1) m5_def [symmetric] m6(2) v_def [symmetric] m7(1) m8(1) m9_def [symmetric] m10(1)
    by simp
  moreover have "programmed smmu (?cr2 OR 1) m10"
    unfolding programmed_same [OF su m10(2)] programmed_cr0 programmed_same [OF su s9] programmed_same [OF su m8(2)]
      programmed_same [OF su m7(2)] by (rule m6(1))
  moreover have "ld32 m10 (?b + SMMU_R_CR0) = (?cr0 AND NOT 1) OR 8 OR 4 OR 1"
    using ld(1) [OF m10(2) st(1)] by (simp add: c32.ld_st_same v_def or.assoc)
  ultimately show "\<exists>m'. smmu_reset tick g_sid smmu m = (1, m') \<and> programmed smmu (?cr2 OR 1) m' \<and>
       ld32 m' (?b + SMMU_R_CR0) = (?cr0 AND NOT 1) OR 8 OR 4 OR 1" by blast
qed


text \<open>A device that acknowledges at once.\<close>

definition acking :: "u64 \<Rightarrow> tick" where
  "acking b m = st32 m (b + SMMU_R_CR0ACK) (ld32 m (b + SMMU_R_CR0))"

lemma acking_responsive: "smmu_responsive b (acking b)"
proof -
  have "\<not> dev_owned b x \<Longrightarrow> acking b m x = m x" for m x
    unfolding acking_def by (rule c32.st_outside) (simp add: dev_owned_def)
  moreover have "ld32 ((acking b ^^ Suc 0) m) (b + SMMU_R_CR0ACK) = ld32 m (b + SMMU_R_CR0)" for m
    by (simp add: acking_def c32.ld_st_same)
  ultimately show ?thesis unfolding smmu_responsive_def by (auto intro!: exI [of _ 0])
qed

lemma example_set_up: "smmu_set_up example_smmu"
  by (simp add: smmu_set_up_def example_smmu_cmdq apart_def) (simp add: example_smmu_def)

theorem smmu_reset_programs_witness:
  "\<exists>m'. smmu_reset (acking 0x2B400000) 0 example_smmu (\<lambda>_. 0) = (1, m') \<and>
     programmed example_smmu 1 m' \<and> ld32 m' 0x2B440020 = 0xD"
proof -
  have b: "dev_base example_smmu = 0x2B400000" by (simp add: example_smmu_def)
  show ?thesis
    using smmu_reset_programs [of id 0 example_smmu "\<lambda>_. 0" example_smmu "acking 0x2B400000" "\<lambda>_. 0"]
      acking_responsive [of "0x2B400000"] example_set_up by (simp add: b ld32_zero)
qed

lemma two_bits:
  fixes x :: u32
  shows "take_bit 2 x = 3 \<longleftrightarrow> bit x 0 \<and> bit x 1" and "take_bit 2 x = 2 \<longleftrightarrow> \<not> bit x 0 \<and> bit x 1"
proof -
  have e: "take_bit 2 x = of_bool (bit x 0) + 2 * of_bool (bit x 1)"
    by (simp add: numeral_2_eq_2 take_bit_Suc bit_0 bit_Suc) (simp add: mod_2_eq_odd)
  show "take_bit 2 x = 3 \<longleftrightarrow> bit x 0 \<and> bit x 1" "take_bit 2 x = 2 \<longleftrightarrow> \<not> bit x 0 \<and> bit x 1"
    unfolding e by auto
qed

lemma and_two_bits:
  fixes x :: u32
  shows "i < 32 \<Longrightarrow> j < 32 \<Longrightarrow> x AND (push_bit i 1 OR push_bit j 1) = 0 \<longleftrightarrow> \<not> bit x i \<and> \<not> bit x j"
  by (auto simp: bit_eq_iff [where 'a = "32 word"] bit_and_iff bit_or_iff bit_push_bit_iff bit_exp_iff)

lemma probe_fields:
  fixes x :: u32
  shows "BITFIELD_GET 3 2 x = 3 \<longleftrightarrow> bit x 2 \<and> bit x 3" "BITFIELD_GET 3 2 x = 2 \<longleftrightarrow> \<not> bit x 2 \<and> bit x 3"
    "BITFIELD_GET 28 27 x = take_bit 2 (drop_bit 27 x)" "BITFIELD_GET 25 21 x = take_bit 5 (drop_bit 21 x)"
    "BITFIELD_GET 5 0 x = take_bit 6 x" "BITFIELD_GET 10 6 x = take_bit 5 (drop_bit 6 x)"
    "BITFIELD_GET 2 0 x = take_bit 3 x"
    "x AND (push_bit 1 1 OR 1) = 0 \<longleftrightarrow> \<not> bit x 1 \<and> \<not> bit x 0"
    "x AND (push_bit 30 1 OR push_bit 29 1) = 0 \<longleftrightarrow> \<not> bit x 30 \<and> \<not> bit x 29"
  using two_bits [of "drop_bit 2 x"] and_two_bits [of 1 0 x] and_two_bits [of 30 29 x]
  by (simp_all add: BITFIELD_GET_def bit_drop_bit_eq numeral_2_eq_2 [symmetric] flip: word_and_mask_eq_take_bit)

text \<open>Probing. With identification registers that do not change, \<^verbatim>\<open>smmu_probe\<close> accepts an SMMU
  exactly when it translates at stage 1 or 2, supports the AArch64 table format, has no preset
  tables or queues and reports a known output size. It then takes the stream table format (two
  levels only for more than 8 bits of stream identifier), the sizes of identifiers and of the
  command queue and the address sizes from the registers. The size of the event queue is not read.\<close>

theorem smmu_probe_result:
  fixes m :: memory and smmu :: smmu_dev
  defines "b \<equiv> dev_base smmu"
  assumes "\<forall>k. ld32 ((tick ^^ k) m) b = idr0 \<and> ld32 ((tick ^^ k) m) (b + 4) = idr1 \<and> ld32 ((tick ^^ k) m) (b + 0x14) = idr5"
    and "\<not> st_level_2lvl smmu"
  shows "case smmu_probe tick smmu m of (ok, smmu', m') \<Rightarrow>
    (ok \<longleftrightarrow> (bit idr0 0 \<or> bit idr0 1) \<and> bit idr0 3 \<and> \<not> bit idr1 29 \<and> \<not> bit idr1 30 \<and> take_bit 3 idr5 \<noteq> 7) \<and>
    (ok \<longrightarrow> log2nent (queue (cmd_type smmu')) = take_bit 5 (drop_bit 21 idr1) \<and>
      sid_bits smmu' = take_bit 6 idr1 \<and> ssid_bits smmu' = take_bit 5 (drop_bit 6 idr1) \<and>
      (st_level_2lvl smmu' \<longleftrightarrow> take_bit 2 (drop_bit 27 idr0) = 1 \<and> 8 < take_bit 6 idr1) \<and>
      dev_oas smmu' = smmu_oas ! unat (take_bit 3 idr5) \<and>
      dev_ias smmu' = max (if bit idr0 2 then 40 else dev_ias smmu) (dev_oas smmu') \<and>
      log2nent (queue (evnt_type smmu')) = log2nent (queue (evnt_type smmu)))"
proof -
  have t: "ld32 (tick m) b = idr0" "ld32 (tick (tick m)) (b + 4) = idr1" "ld32 (tick (tick (tick m))) (b + 0x14) = idr5"
    using spec [OF assms(2), of 1] spec [OF assms(2), of 2] spec [OF assms(2), of 3] by (simp_all add: eval_nat_numeral)
  have oas: "7 \<le> take_bit 3 idr5 \<longleftrightarrow> take_bit 3 idr5 = 7"
    using unat_take_bit_less [of 3 idr5] by (auto simp: word_le_nat_alt word_unat_eq_iff)
  show ?thesis
    unfolding smmu_probe_def val_mmio_read_def Let_def prod.case b_def [symmetric] add_0_right t probe_fields
    using assms(3) oas by (auto simp: probe_features_def probe_fields not_le)
qed


definition example_idr :: memory where
  "example_idr = st32 (st32 (st32 (\<lambda>_. 0) 0x2B400000 0x800000A) 0x2B400004 0x00A00410) 0x2B400014 5"

theorem smmu_probe_result_witness:
  "case smmu_probe id example_smmu example_idr of (ok, smmu', m') \<Rightarrow>
     ok \<and> log2nent (queue (cmd_type smmu')) = 5 \<and> sid_bits smmu' = 16 \<and> st_level_2lvl smmu' \<and> dev_oas smmu' = 48"
proof -
  have b: "dev_base example_smmu = 0x2B400000" "\<not> st_level_2lvl example_smmu"
    by (simp_all add: example_smmu_def zero_dev_def)
  have r: "ld32 example_idr 0x2B400000 = 0x800000A" "ld32 example_idr 0x2B400004 = 0x00A00410"
    "ld32 example_idr 0x2B400014 = 5"
    by (simp_all add: example_idr_def c32.ld_st_same c32.ld_st_apart apart_def)
  show ?thesis
    using smmu_probe_result [where m = example_idr and smmu = example_smmu and tick = id and
        ?idr0.0 = "0x800000A" and ?idr1.0 = "0x00A00410" and ?idr5.0 = 5] b r
    by (auto simp: id_funpow take_bit_eq_mask mask_eq_exp_minus_1 smmu_oas_def split: prod.splits)
qed

text \<open>Aligning a doubled buffer. For a power of two \<open>sz\<close>, \<^verbatim>\<open>align_to_size\<close> moves an address up to
  the next multiple of \<open>sz\<close>, always by at least one byte and at most \<open>sz\<close>: a table of \<open>sz\<close> bytes
  at the result lies in a buffer of \<open>2 * sz\<close> bytes at the address.\<close>

lemma align_to_size_fits:
  assumes "k < 63" and "unat addr + 2 * 2 ^ k \<le> 2 ^ 64"
  shows "2 ^ k dvd unat (align_to_size addr (2 ^ k)) \<and> unat addr < unat (align_to_size addr (2 ^ k)) \<and>
    unat (align_to_size addr (2 ^ k)) + 2 ^ k \<le> unat addr + 2 * 2 ^ k"
proof -
  let ?r = "unat addr mod 2 ^ k"
  have m: "(2 ^ k :: u64) - 1 = mask k" by (simp add: mask_eq_exp_minus_1)
  have r: "?r < 2 ^ k" by simp
  have p: "unat (2 ^ k :: u64) = 2 ^ k"
    using power_strict_increasing [of k 64 "2 :: nat"] assms(1) unat_of_nat_small [of "2 ^ k", where 'a = 64] by simp
  have d: "unat (2 ^ k - take_bit k addr) = 2 ^ k - ?r"
    using r by (simp add: unat_sub word_le_nat_alt p unat_take_bit_mod less_imp_le)
  have lt: "2 ^ k - ?r + unat addr < 2 ^ 64"
    using assms(2) r diff_le_self [of "2 ^ k" ?r] by linarith
  have v: "unat (2 ^ k - take_bit k addr + addr) = 2 ^ k - ?r + unat addr"
    using mod_less [OF lt] by (simp only: unat_word_ariths(1) d) simp
  have "2 ^ k - ?r + unat addr = 2 ^ k * (unat addr div 2 ^ k + 1)"
    using r mult_div_mod_eq [of "2 ^ k" "unat addr"] unfolding distrib_left mult_1_right by linarith
  then have "unat (align_to_size addr (2 ^ k)) = 2 ^ k * (unat addr div 2 ^ k + 1)"
    unfolding align_to_size_def m word_and_mask_eq_take_bit unat_and_not_mask v by simp
  moreover have "unat addr < 2 ^ k * (unat addr div 2 ^ k + 1)" "2 ^ k * (unat addr div 2 ^ k + 1) \<le> unat addr + 2 ^ k"
    using r mult_div_mod_eq [of "2 ^ k" "unat addr"] unfolding distrib_left mult_1_right by linarith+
  ultimately show ?thesis by simp
qed

end
