(* ===== verification/El3_Gpt.thy ===== *)
theory El3_Gpt
  imports Acs_Prelude
begin

text \<open>
  The root-world state of the EL3 firmware and its granule protection table service
  (\<^verbatim>\<open>val_el3/pgt_common.c\<close>: \<^verbatim>\<open>add_gpt_entry\<close>, \<^verbatim>\<open>get_gpt_index\<close>, \<^verbatim>\<open>is_gpi_valid\<close>,
  \<^verbatim>\<open>modify_gpt_gpi\<close>).

  The state has the system registers the firmware reads, memory as bytes and the trace of
  maintenance operations (cache, TLB) and other effects outside memory, in the order they are
  issued. A read beyond a constant table of the code has no defined result and is \<open>None\<close>.
\<close>

section \<open>State of EL3\<close>

datatype el3_event =
  Cln_and_invldt_cache u64 | Clean_cache u64 | Invalidate_cache u64
| Tlbi_paallos | Tlbi_vae3 u64 | Cmo_cipapa u64 | Set_daif
| Ns_encryption bool | Legacy_tz u64 | Pas_filter_active_mode u64

record el3_state =
  el3_mem :: memory
  gpccr_el3 :: u64
  gptbr_el3 :: u64
  tcr_el3 :: u64
  ttbr_el3 :: u64
  scr_el3 :: u64
  sctlr_el3 :: u64
  sctlr_el2 :: u64
  mair_el3 :: u64
  esr_el3 :: u64
  elr_el3 :: u64
  spsr_el3 :: u64
  vbar_el3 :: u64
  free_pa :: u64
  trace :: "el3_event list"

definition emit :: "el3_event \<Rightarrow> el3_state \<Rightarrow> el3_state" where
  "emit ev s = s\<lparr>trace := trace s @ [ev]\<rparr>"

definition store64 :: "u64 \<Rightarrow> u64 \<Rightarrow> el3_state \<Rightarrow> el3_state" where
  "store64 a v s = s\<lparr>el3_mem := st64 (el3_mem s) a v\<rparr>"

abbreviation load64 :: "el3_state \<Rightarrow> u64 \<Rightarrow> u64" where
  "load64 s a \<equiv> ld64 (el3_mem s) a"

lemma emit_simps [simp]:
  "el3_mem (emit ev s) = el3_mem s" "gpccr_el3 (emit ev s) = gpccr_el3 s"
  "gptbr_el3 (emit ev s) = gptbr_el3 s" "trace (emit ev s) = trace s @ [ev]"
  "free_pa (emit ev s) = free_pa s" "tcr_el3 (emit ev s) = tcr_el3 s" "ttbr_el3 (emit ev s) = ttbr_el3 s"
  by (simp_all add: emit_def)

lemma store64_simps [simp]:
  "el3_mem (store64 a v s) = st64 (el3_mem s) a v" "gpccr_el3 (store64 a v s) = gpccr_el3 s"
  "gptbr_el3 (store64 a v s) = gptbr_el3 s" "trace (store64 a v s) = trace s"
  "free_pa (store64 a v s) = free_pa s" "tcr_el3 (store64 a v s) = tcr_el3 s" "ttbr_el3 (store64 a v s) = ttbr_el3 s"
  by (simp_all add: store64_def)

section \<open>Granule protection table service\<close>

abbreviation (input) GPT_NOACCESS :: u64 where "GPT_NOACCESS \<equiv> 0"
abbreviation (input) GPT_SECURE :: u64 where "GPT_SECURE \<equiv> 8"
abbreviation (input) GPT_REALM :: u64 where "GPT_REALM \<equiv> 0xB"
abbreviation (input) GPT_ANY :: u64 where "GPT_ANY \<equiv> 0xF"

definition IS_GPT_ENTRY_TABLE :: "u64 \<Rightarrow> bool" where
  "IS_GPT_ENTRY_TABLE val \<longleftrightarrow> val AND 0xF = 3"

definition IS_GPT_ENTRY_CONTIG :: "u64 \<Rightarrow> bool" where
  "IS_GPT_ENTRY_CONTIG val \<longleftrightarrow> val AND 0xF = 1"

definition is_gpi_valid :: "u64 \<Rightarrow> bool" where
  "is_gpi_valid gpi \<longleftrightarrow> gpi = GPT_NOACCESS \<or> gpi = GPT_ANY \<or> (GPT_SECURE \<le> gpi \<and> gpi \<le> GPT_REALM)"

text \<open>The level 0 mask is a 32-bit shift, the level 1 mask a 64-bit one.\<close>

definition get_gpt_index :: "u64 \<Rightarrow> nat \<Rightarrow> nat \<Rightarrow> nat \<Rightarrow> nat \<Rightarrow> u64" where
  "get_gpt_index pa level l0gptsz pps p =
     (if level = 0 then drop_bit l0gptsz pa AND ucast (push_bit (pps - l0gptsz) (1 :: u32) - 1)
      else if level = 1 then drop_bit (p + 4) pa AND (push_bit (l0gptsz - (p + 4)) 1 - 1)
      else 0)"

text \<open>An invalid old encoding is only reported.\<close>

definition modify_gpt_gpi :: "u64 \<Rightarrow> u64 \<Rightarrow> nat \<Rightarrow> nat \<Rightarrow> u64 \<Rightarrow> u64" where
  "modify_gpt_gpi entry pa level p GPI =
     (if level = 0 \<or> (level = 1 \<and> IS_GPT_ENTRY_CONTIG entry) then
        let gpi = drop_bit 4 entry AND 0xf in
        if gpi \<noteq> GPI then (entry AND NOT (push_bit 4 0xf)) OR push_bit 4 GPI else entry
      else if level = 1 then
        let gpi_index = unat (drop_bit p pa AND 0xf);
            gpi = drop_bit (4 * gpi_index) entry AND 0xf in
        if gpi \<noteq> GPI then (entry AND NOT (push_bit (4 * gpi_index) 0xf)) OR push_bit (4 * gpi_index) GPI
        else entry
      else entry)"

text \<open>The constant tables of the function, indexed by fields of \<^verbatim>\<open>GPCCR_EL3\<close>. The field masks are
  those of \<^verbatim>\<open>ack_include.h\<close>: the granule size field keeps only its upper bit.\<close>

definition pgs_bits :: "nat list" where
  "pgs_bits = [12, 16, 14]"

definition pps_bits :: "nat list" where
  "pps_bits = [32, 36, 40, 42, 44, 48, 52]"

definition gpccr_pps :: "u64 \<Rightarrow> nat" where
  "gpccr_pps val = unat (val AND 7)"

definition gpccr_l0gptsz :: "u64 \<Rightarrow> nat" where
  "gpccr_l0gptsz val = unat (drop_bit 20 (val AND push_bit 20 0xf))"

definition gpccr_pgs :: "u64 \<Rightarrow> nat" where
  "gpccr_pgs val = unat (drop_bit 14 (val AND push_bit 14 2))"

definition gpt_l0_base :: "u64 \<Rightarrow> nat \<Rightarrow> nat \<Rightarrow> u64" where
  "gpt_l0_base base pps l0gptsz =
     (let l0_idx_width = (if l0gptsz < pps then pps - l0gptsz else 0);
          x = max (l0_idx_width + 3) 12
      in push_bit 12 base AND NOT (push_bit x 1 - 1))"

definition add_gpt_entry :: "el3_state \<Rightarrow> u64 \<Rightarrow> u64 \<Rightarrow> el3_state option" where
  "add_gpt_entry s PA gpi =
     (let val = gpccr_el3 s in
      if length pps_bits \<le> gpccr_pps val then None
      else let
        p = pgs_bits ! gpccr_pgs val;
        pps = pps_bits ! gpccr_pps val;
        l0gptsz = gpccr_l0gptsz val + 30;
        gpt_base = gpt_l0_base (gptbr_el3 s) pps l0gptsz;
        l0_entry = gpt_base + 8 * get_gpt_index PA 0 l0gptsz pps p;
        e0 = load64 s l0_entry
      in if IS_GPT_ENTRY_TABLE e0 then
           let e0' = e0 AND NOT (push_bit 52 (mask 12) OR push_bit 4 (mask 8));
               s1 = store64 l0_entry e0' s;
               gpt_base_1 = e0' AND push_bit 12 (mask 40);
               l1_entry = gpt_base_1 + 8 * get_gpt_index PA 1 l0gptsz pps p;
               e1 = load64 s1 l1_entry
           in Some (emit (Cln_and_invldt_cache l1_entry)
                (store64 l1_entry (modify_gpt_gpi e1 PA 1 p gpi) s1))
         else Some (emit (Cln_and_invldt_cache l0_entry)
                (store64 l0_entry (modify_gpt_gpi e0 PA 0 p gpi) s)))"

section \<open>Architectural lookup\<close>

text \<open>What the hardware does with the table: the granule size, the entry addresses, and the
  position (address of the descriptor, bit offset) of the four bits that hold the protection
  information of a physical address.\<close>

definition arch_pps :: "el3_state \<Rightarrow> nat" where
  "arch_pps s = pps_bits ! gpccr_pps (gpccr_el3 s)"

definition arch_t :: "el3_state \<Rightarrow> nat" where
  "arch_t s = 30 + unat (get_field 20 4 (gpccr_el3 s))"

definition arch_p :: "el3_state \<Rightarrow> nat" where
  "arch_p s = (case unat (get_field 14 2 (gpccr_el3 s)) of 0 \<Rightarrow> 12 | Suc 0 \<Rightarrow> 16 | _ \<Rightarrow> 14)"

definition arch_l0 :: "el3_state \<Rightarrow> u64 \<Rightarrow> u64" where
  "arch_l0 s pa = gpt_l0_base (gptbr_el3 s) (arch_pps s) (arch_t s)
     + 8 * take_bit (arch_pps s - arch_t s) (drop_bit (arch_t s) pa)"

definition arch_l1 :: "el3_state \<Rightarrow> u64 \<Rightarrow> u64" where
  "arch_l1 s pa = (load64 s (arch_l0 s pa) AND push_bit 12 (mask 40))
     + 8 * take_bit (arch_t s - (arch_p s + 4)) (drop_bit (arch_p s + 4) pa)"

definition gpt_slot :: "el3_state \<Rightarrow> u64 \<Rightarrow> u64 \<times> nat" where
  "gpt_slot s pa =
     (if load64 s (arch_l0 s pa) AND 0xF = 3 then
        if load64 s (arch_l1 s pa) AND 0xF = 1 then (arch_l1 s pa, 4)
        else (arch_l1 s pa, 4 * unat (take_bit 4 (drop_bit (arch_p s) pa)))
      else (arch_l0 s pa, 4))"

definition gpt_lookup :: "el3_state \<Rightarrow> u64 \<Rightarrow> u64" where
  "gpt_lookup s pa = (case gpt_slot s pa of (a, sh) \<Rightarrow> get_field sh 4 (load64 s a))"

text \<open>A configuration that the code reads as the architecture does, and a table whose level 0 and
  level 1 descriptors are different words.\<close>

definition gpt_config_ok :: "el3_state \<Rightarrow> bool" where
  "gpt_config_ok s \<longleftrightarrow> gpccr_pps (gpccr_el3 s) < 7 \<and> arch_t s \<le> arch_pps s \<and>
     (get_field 14 2 (gpccr_el3 s) = 0 \<or> get_field 14 2 (gpccr_el3 s) = 2)"

definition gpt_separate :: "el3_state \<Rightarrow> bool" where
  "gpt_separate s \<longleftrightarrow> (\<forall>pa pa'. load64 s (arch_l0 s pa') AND 0xF = 3 \<longrightarrow> arch_l0 s pa \<noteq> arch_l1 s pa')"

section \<open>The code reads the configuration as the architecture does\<close>

lemma gpt_fields:
  assumes "gpt_config_ok s"
  shows "pgs_bits ! gpccr_pgs (gpccr_el3 s) = arch_p s" and "gpccr_l0gptsz (gpccr_el3 s) + 30 = arch_t s"
proof -
  let ?v = "gpccr_el3 s"
  have b: "drop_bit 14 (?v AND push_bit 14 2) = get_field 14 2 ?v AND 2"
  proof -
    have "drop_bit 14 (?v AND push_bit 14 2) = drop_bit 14 ?v AND 2" by (simp flip: drop_bit_and add: drop_bit_and)
    also have "\<dots> = drop_bit 14 ?v AND (3 AND 2)" by simp
    finally show ?thesis by (simp add: get_field_def mask_eq_exp_minus_1 and.assoc)
  qed
  show "pgs_bits ! gpccr_pgs ?v = arch_p s"
    using assms b by (auto simp: gpt_config_ok_def gpccr_pgs_def arch_p_def pgs_bits_def)
  have "drop_bit 20 (?v AND push_bit 20 0xf) = get_field 20 4 ?v"
    by (simp add: get_field_def drop_bit_and mask_eq_exp_minus_1)
  then show "gpccr_l0gptsz ?v + 30 = arch_t s" by (simp add: gpccr_l0gptsz_def arch_t_def)
qed

lemma gpt_index_0:
  assumes "t \<le> pps" and "pps - t < 32"
  shows "get_gpt_index pa 0 t pps p = take_bit (pps - t) (drop_bit t pa)"
proof -
  have "push_bit (pps - t) (1 :: u32) - 1 = mask (pps - t)"
    by (simp add: mask_eq_exp_minus_1 push_bit_eq_mult)
  moreover have "(ucast (mask (pps - t) :: u32) :: u64) = mask (pps - t)"
    by (rule bit_word_eqI) (use assms(2) in \<open>auto simp: bit_ucast_iff bit_mask_iff\<close>)
  ultimately show ?thesis by (simp add: get_gpt_index_def take_bit_eq_mask)
qed

lemma gpt_index_1: "get_gpt_index pa 1 t pps p = take_bit (t - (p + 4)) (drop_bit (p + 4) pa)"
  by (simp add: get_gpt_index_def take_bit_eq_mask mask_eq_exp_minus_1 push_bit_eq_mult)

lemma modify_gpi_field:
  assumes "take_bit 4 g = g"
  shows "modify_gpt_gpi e pa 0 p g = set_field 4 4 g e"
    and "modify_gpt_gpi e pa 1 p g =
      set_field (if e AND 0xF = 1 then 4 else 4 * unat (take_bit 4 (drop_bit p pa))) 4 g e"
proof -
  have f: "(if drop_bit k e AND 0xf \<noteq> g then (e AND NOT (push_bit k 0xf)) OR push_bit k g else e)
      = set_field k 4 g e" for k
  proof (cases "drop_bit k e AND 0xf = g")
    case True
    then show ?thesis using set_field_get_same [of k 4 e g] by (simp add: get_field_def mask_eq_exp_minus_1)
  next
    case False
    then show ?thesis by (simp add: set_field_def mask_eq_exp_minus_1)
  qed
  have i: "drop_bit p pa AND 0xf = take_bit 4 (drop_bit p pa)" by (simp add: take_bit_eq_mask mask_eq_exp_minus_1)
  show "modify_gpt_gpi e pa 0 p g = set_field 4 4 g e"
    unfolding modify_gpt_gpi_def Let_def f by simp
  show "modify_gpt_gpi e pa 1 p g =
      set_field (if e AND 0xF = 1 then 4 else 4 * unat (take_bit 4 (drop_bit p pa))) 4 g e"
    unfolding modify_gpt_gpi_def Let_def f i IS_GPT_ENTRY_CONTIG_def by simp
qed

lemma gpi_small: "is_gpi_valid g \<Longrightarrow> take_bit 4 g = g \<and> g \<noteq> 1"
proof -
  assume "is_gpi_valid g"
  then have "unat g < 16 \<and> g \<noteq> 1" by (auto simp: is_gpi_valid_def word_le_nat_alt)
  then show ?thesis by (simp add: word_unat_eq_iff unat_take_bit_mod)
qed

section \<open>Alignment\<close>

lemma and7_iff: "(x :: u64) AND 7 = 0 \<longleftrightarrow> take_bit 3 x = 0"
  by (simp add: take_bit_eq_mask mask_eq_exp_minus_1)

lemma take_bit_3_times_8: "take_bit 3 (8 * y :: u64) = 0"
proof -
  have "8 * y = push_bit 3 y" by (simp add: push_bit_eq_mult)
  then show ?thesis by (simp only: take_bit_push_bit) simp
qed

lemma entry_aligned: "take_bit 3 b = 0 \<Longrightarrow> (b + 8 * i) AND 7 = (0 :: u64)"
  by (simp add: and7_iff take_bit_add_zero take_bit_3_times_8)

lemma arch_aligned: "arch_l0 s pa AND 7 = 0" "arch_l1 s pa AND 7 = 0"
proof -
  have "take_bit 3 (push_bit 12 x AND y) = (0 :: u64)" for x y :: u64
    by (rule bit_word_eqI) (auto simp: bit_take_bit_iff bit_and_iff bit_push_bit_iff)
  moreover have "take_bit 3 (y AND push_bit 12 x) = (0 :: u64)" for x y :: u64
    by (rule bit_word_eqI) (auto simp: bit_take_bit_iff bit_and_iff bit_push_bit_iff)
  ultimately show "arch_l0 s pa AND 7 = 0" "arch_l1 s pa AND 7 = 0"
    unfolding arch_l0_def arch_l1_def gpt_l0_base_def Let_def by (simp_all add: entry_aligned)
qed

lemma load_store_aligned:
  "a AND 7 = 0 \<Longrightarrow> b AND 7 = 0 \<Longrightarrow> load64 (store64 a v s) b = (if a = b then v else load64 s b)"
  by (simp add: c64.ld_st_same c64.ld_st_apart aligned8_apart)

section \<open>Effect of the two stores on lookups\<close>

lemma arch_store [simp]:
  "arch_l0 (store64 a v s) pa = arch_l0 s pa" "arch_p (store64 a v s) = arch_p s"
  "arch_t (store64 a v s) = arch_t s" "arch_pps (store64 a v s) = arch_pps s"
  by (simp_all add: arch_l0_def arch_p_def arch_t_def arch_pps_def)

lemma arch_emit [simp]:
  "arch_l0 (emit ev s) pa = arch_l0 s pa" "arch_l1 (emit ev s) pa = arch_l1 s pa"
  "gpt_slot (emit ev s) pa = gpt_slot s pa" "gpt_lookup (emit ev s) pa = gpt_lookup s pa"
  by (simp_all add: arch_l0_def arch_l1_def arch_p_def arch_t_def arch_pps_def gpt_slot_def gpt_lookup_def)

lemma low_nibble: "(x :: u64) AND 0xF = get_field 0 4 x"
  by (simp add: get_field_def mask_eq_exp_minus_1)

definition table_at :: "el3_state \<Rightarrow> u64 \<Rightarrow> bool" where
  "table_at s pa \<longleftrightarrow> load64 s (arch_l0 s pa) AND 0xF = 3"

lemma separateD: "gpt_separate s \<Longrightarrow> table_at s pa' \<Longrightarrow> arch_l0 s pa \<noteq> arch_l1 s pa'"
  by (simp add: gpt_separate_def table_at_def)

lemma clear_res0_bits:
  fixes e :: u64
  defines "e' \<equiv> e AND NOT (push_bit 52 (mask 12) OR push_bit 4 (mask 8))"
  shows "e' AND 0xF = e AND 0xF" and "e' AND push_bit 12 (mask 40) = e AND push_bit 12 (mask 40)"
proof -
  have m: "(0xF :: u64) = mask 4" by (simp add: mask_eq_exp_minus_1)
  show "e' AND 0xF = e AND 0xF" unfolding m e'_def
    by (rule bit_word_eqI) (auto simp: bit_and_iff bit_or_iff bit_not_iff bit_push_mask bit_mask_iff)
  show "e' AND push_bit 12 (mask 40) = e AND push_bit 12 (mask 40)" unfolding e'_def
    by (rule bit_word_eqI) (auto simp: bit_and_iff bit_or_iff bit_not_iff bit_push_mask)
qed

lemma clear_res0_lookup:
  assumes sep: "gpt_separate s" and tab: "table_at s PA"
  defines "s1 \<equiv> store64 (arch_l0 s PA)
      (load64 s (arch_l0 s PA) AND NOT (push_bit 52 (mask 12) OR push_bit 4 (mask 8))) s"
  shows "arch_l1 s1 pa = arch_l1 s pa" and "table_at s1 pa = table_at s pa"
    and "gpt_slot s1 pa = gpt_slot s pa" and "gpt_lookup s1 pa = gpt_lookup s pa"
    and "table_at s pa \<Longrightarrow> load64 s1 (arch_l1 s pa) = load64 s (arch_l1 s pa)"
proof -
  note ld = load_store_aligned [OF arch_aligned(1)]
  have l0: "load64 s1 (arch_l0 s pa) AND 0xF = load64 s (arch_l0 s pa) AND 0xF"
    "load64 s1 (arch_l0 s pa) AND push_bit 12 (mask 40) = load64 s (arch_l0 s pa) AND push_bit 12 (mask 40)" for pa
    unfolding s1_def ld [OF arch_aligned(1)] if_distrib [of "\<lambda>x. x AND _"] clear_res0_bits by simp_all
  show a1: "arch_l1 s1 pa = arch_l1 s pa" for pa
    using l0(2) [of pa] by (simp add: arch_l1_def s1_def)
  show t1: "table_at s1 pa = table_at s pa" for pa
    using l0(1) [of pa] by (simp add: table_at_def s1_def)
  show l1: "load64 s1 (arch_l1 s pa) = load64 s (arch_l1 s pa)" if "table_at s pa" for pa
    using separateD [OF sep that, of PA] unfolding s1_def ld [OF arch_aligned(2)] by simp
  have s1: "arch_l0 s1 pa = arch_l0 s pa" "arch_p s1 = arch_p s" for pa by (simp_all add: s1_def)
  show slot: "gpt_slot s1 pa = gpt_slot s pa" for pa
    using l0(1) [of pa] a1 l1 [of pa] by (auto simp: gpt_slot_def s1 table_at_def)
  show "gpt_lookup s1 pa = gpt_lookup s pa"
  proof (cases "table_at s pa")
    case True
    then have "fst (gpt_slot s pa) = arch_l1 s pa" by (simp add: gpt_slot_def table_at_def)
    then show ?thesis using l1 [OF True] by (cases "gpt_slot s pa") (simp add: gpt_lookup_def slot)
  next
    case False
    then have "arch_l0 s PA \<noteq> arch_l0 s pa" using tab by (auto simp: table_at_def)
    then have "load64 s1 (arch_l0 s pa) = load64 s (arch_l0 s pa)"
      unfolding s1_def ld [OF arch_aligned(1)] by simp
    moreover have "gpt_slot s pa = (arch_l0 s pa, 4)" using False by (simp add: gpt_slot_def table_at_def)
    ultimately show ?thesis by (simp add: gpt_lookup_def slot)
  qed
qed

lemma nibble_shift: "\<exists>k<16. snd (gpt_slot s pa) = 4 * k"
proof -
  have "unat (take_bit 4 (drop_bit (arch_p s) pa)) < 16"
    using unat_take_bit_less [of 4 "drop_bit (arch_p s) pa"] by simp
  then show ?thesis by (auto simp: gpt_slot_def intro: exI [of _ 1])
qed

lemma nibble_update:
  assumes "k < 16" and "k' < 16" and "take_bit 4 g = g"
  shows "get_field (4 * k') 4 (set_field (4 * k) 4 g (e :: u64))
    = (if k' = k then g else get_field (4 * k') 4 e)"
proof (cases "k' = k")
  case True
  then show ?thesis using assms by (simp add: get_set_field_same)
next
  case False
  then have "4 * k' + 4 \<le> 4 * k \<or> 4 * k + 4 \<le> 4 * k'" by arith
  with False show ?thesis using assms by (subst get_set_field_other) auto
qed

lemma write_gpi_lookup:
  assumes sep: "gpt_separate s" and g: "is_gpi_valid g" and slot: "gpt_slot s PA = (a, sh)"
  defines "s' \<equiv> store64 a (set_field sh 4 g (load64 s a)) s"
  shows "gpt_slot s' pa = gpt_slot s pa"
    and "gpt_lookup s' pa = (if gpt_slot s pa = (a, sh) then g else gpt_lookup s pa)"
proof -
  note small = gpi_small [OF g]
  obtain k where k: "k < 16" "sh = 4 * k" using nibble_shift [of s PA] slot by auto
  have al: "a AND 7 = 0" using slot by (auto simp: gpt_slot_def arch_aligned split: if_splits)
  have ld: "load64 s' b = (if a = b then set_field sh 4 g (load64 s a) else load64 s b)"
    if "b AND 7 = 0" for b unfolding s'_def using load_store_aligned [OF al that] by simp
  note ld0 = ld [OF arch_aligned(1)] and ld1 = ld [OF arch_aligned(2)]
  have nib: "get_field (4 * k') 4 (load64 s' b)
      = (if a = b \<and> k' = k then g else get_field (4 * k') 4 (load64 s b))"
    if "b AND 7 = 0" "k' < 16" for b k'
    unfolding ld [OF that(1)] k(2)
    using nibble_update [OF k(1) that(2), of g "load64 s a"] small by auto
  have low: "load64 s' b AND 0xF = (if a = b \<and> k = 0 then g else load64 s b AND 0xF)"
    if "b AND 7 = 0" for b using nib [OF that, of 0] by (auto simp: low_nibble)
  have s': "arch_l0 s' pa = arch_l0 s pa" "arch_p s' = arch_p s" for pa by (simp_all add: s'_def)
  have t0: "load64 s' (arch_l0 s pa) AND 0xF = load64 s (arch_l0 s pa) AND 0xF \<and>
      (table_at s pa \<longrightarrow> load64 s' (arch_l0 s pa) = load64 s (arch_l0 s pa))" for pa
  proof (cases "table_at s PA")
    case True
    then have "a = arch_l1 s PA" using slot by (auto simp: gpt_slot_def table_at_def split: if_splits)
    then have "a \<noteq> arch_l0 s pa" using separateD [OF sep True, of pa] by simp
    then show ?thesis by (simp add: ld0)
  next
    case False
    then have "a = arch_l0 s PA" "k = 1" using slot k by (auto simp: gpt_slot_def table_at_def)
    then show ?thesis using low [OF arch_aligned(1) [of s pa]] False ld [OF arch_aligned(1) [of s pa]] by (auto simp: table_at_def)
  qed
  have a1: "arch_l1 s' pa = arch_l1 s pa" if "table_at s pa" for pa
    using t0 [of pa] that by (simp add: arch_l1_def s' ) (simp add: s'_def)
  have c1: "(load64 s' (arch_l1 s pa) AND 0xF = 1) = (load64 s (arch_l1 s pa) AND 0xF = 1)"
    if tp: "table_at s pa" for pa
  proof (cases "a = arch_l1 s pa \<and> k = 0")
    case True
    have "table_at s PA"
    proof (rule ccontr)
      assume "\<not> table_at s PA"
      then have "k = 1" using slot k by (auto simp: gpt_slot_def table_at_def)
      with True show False by simp
    qed
    then have "load64 s a AND 0xF \<noteq> 1" using slot k True by (auto simp: gpt_slot_def table_at_def split: if_splits)
    then show ?thesis using low [OF arch_aligned(2) [of s pa]] True small by simp
  next
    case False
    then show ?thesis using low [OF arch_aligned(2) [of s pa]] by auto
  qed
  show sl: "gpt_slot s' pa = gpt_slot s pa" for pa
    using t0 [of pa] a1 [of pa] c1 [of pa] by (auto simp: gpt_slot_def s' table_at_def)
  obtain b k' where b: "gpt_slot s pa = (b, 4 * k')" "k' < 16"
    using nibble_shift [of s pa] by (cases "gpt_slot s pa") auto
  have "b AND 7 = 0" using b(1) by (auto simp: gpt_slot_def arch_aligned split: if_splits)
  from nib [OF this b(2)] show "gpt_lookup s' pa = (if gpt_slot s pa = (a, sh) then g else gpt_lookup s pa)"
    by (auto simp: gpt_lookup_def sl b(1) k(2))
qed

section \<open>The service as a sequence of the two stores\<close>

lemma pps_minus_t: "gpt_config_ok s \<Longrightarrow> arch_pps s - arch_t s < 32"
proof -
  assume c: "gpt_config_ok s"
  have "arch_pps s \<in> set pps_bits"
    unfolding arch_pps_def using c by (intro nth_mem) (simp add: gpt_config_ok_def pps_bits_def)
  then have "arch_pps s \<le> 52" by (auto simp: pps_bits_def)
  moreover have "30 \<le> arch_t s" by (simp add: arch_t_def)
  ultimately show ?thesis by simp
qed

lemma add_gpt_entry_stores:
  assumes c: "gpt_config_ok s" and g: "is_gpi_valid gpi" and sep: "gpt_separate s"
  shows "add_gpt_entry s PA gpi = Some (
    let s1 = (if table_at s PA then store64 (arch_l0 s PA)
                (load64 s (arch_l0 s PA) AND NOT (push_bit 52 (mask 12) OR push_bit 4 (mask 8))) s else s);
        (a, sh) = gpt_slot s PA
    in emit (Cln_and_invldt_cache a) (store64 a (set_field sh 4 gpi (load64 s1 a)) s1))"
proof -
  have pps: "\<not> length pps_bits \<le> gpccr_pps (gpccr_el3 s)" "pps_bits ! gpccr_pps (gpccr_el3 s) = arch_pps s"
    using c by (simp_all add: gpt_config_ok_def pps_bits_def arch_pps_def)
  have t: "arch_t s \<le> arch_pps s" using c by (simp add: gpt_config_ok_def)
  note sm = gpi_small [OF g, THEN conjunct1]
  have l0: "gpt_l0_base (gptbr_el3 s) (arch_pps s) (arch_t s)
      + 8 * get_gpt_index PA 0 (arch_t s) (arch_pps s) (arch_p s) = arch_l0 s PA"
    by (simp add: arch_l0_def gpt_index_0 [OF t pps_minus_t [OF c]])
  note defs = add_gpt_entry_def Let_def pps(2) gpt_fields [OF c] l0 gpt_index_1 modify_gpi_field [OF sm]
  show ?thesis
  proof (cases "table_at s PA")
    case True
    let ?e = "load64 s (arch_l0 s PA)"
    have tab: "IS_GPT_ENTRY_TABLE ?e" using True by (simp add: IS_GPT_ENTRY_TABLE_def table_at_def)
    have l1: "((?e AND NOT (push_bit 52 (mask 12) OR push_bit 4 (mask 8))) AND push_bit 12 (mask 40))
        + 8 * take_bit (arch_t s - (arch_p s + 4)) (drop_bit (arch_p s + 4) PA) = arch_l1 s PA"
      using clear_res0_bits(2) [of ?e] by (simp only: arch_l1_def)
    have ld: "load64 (store64 (arch_l0 s PA) v s) (arch_l1 s PA) = load64 s (arch_l1 s PA)" for v
      using separateD [OF sep True, of PA] load_store_aligned [OF arch_aligned(1,2), of s PA v] by simp
    show ?thesis
      unfolding defs using True tab pps(1)
      by (simp add: l1 [simplified] ld [simplified] gpt_slot_def table_at_def)
  next
    case False
    then show ?thesis
      unfolding defs using pps(1)
      by (simp add: IS_GPT_ENTRY_TABLE_def gpt_slot_def table_at_def)
  qed
qed

section \<open>Properties\<close>

text \<open>The granule protection service refines the architectural table: on a configuration with
  4KB or 16KB granules and a table whose two levels do not overlap, setting the protection of a
  physical address to a valid encoding succeeds, and afterwards the architectural lookup gives
  that encoding for every address that shares the descriptor field of the address, and the
  previous encoding for every other address. The descriptor positions of all addresses stay.\<close>

theorem gpt_entry_refines_lookup:
  assumes "gpt_config_ok s" and "gpt_separate s" and "is_gpi_valid gpi"
  shows "\<exists>s'. add_gpt_entry s PA gpi = Some s' \<and> gpt_lookup s' PA = gpi \<and>
    (\<forall>pa. gpt_slot s' pa = gpt_slot s pa \<and>
      gpt_lookup s' pa = (if gpt_slot s pa = gpt_slot s PA then gpi else gpt_lookup s pa)) \<and>
    trace s' = trace s @ [Cln_and_invldt_cache (fst (gpt_slot s PA))]"
proof -
  obtain a sh where slot: "gpt_slot s PA = (a, sh)" by fastforce
  define s1 where "s1 = (if table_at s PA then store64 (arch_l0 s PA)
      (load64 s (arch_l0 s PA) AND NOT (push_bit 52 (mask 12) OR push_bit 4 (mask 8))) s else s)"
  have same: "gpt_slot s1 pa = gpt_slot s pa" "gpt_lookup s1 pa = gpt_lookup s pa"
    "arch_l1 s1 pa = arch_l1 s pa" "table_at s1 pa = table_at s pa" "arch_l0 s1 pa = arch_l0 s pa" for pa
    using clear_res0_lookup [OF assms(2), of PA pa] by (auto simp: s1_def)
  have sep1: "gpt_separate s1"
    using assms(2) same(4) unfolding gpt_separate_def table_at_def same(3,5) by simp
  have slot1: "gpt_slot s1 PA = (a, sh)" by (simp add: same(1) slot)
  have tr: "trace s1 = trace s" by (simp add: s1_def)
  note w = write_gpi_lookup [OF sep1 assms(3) slot1]
  have "add_gpt_entry s PA gpi = Some (emit (Cln_and_invldt_cache a)
      (store64 a (set_field sh 4 gpi (load64 s1 a)) s1))"
    using add_gpt_entry_stores [OF assms(1,3,2), of PA] by (simp add: s1_def slot Let_def)
  then show ?thesis by (simp add: w same slot tr)
qed

text \<open>A 4GB protected space with 4KB granules: the level 0 table is at 0x80000, its first entry
  points to a level 1 table at 0xA0000.\<close>

definition example_regs_el3 :: el3_state where
  "example_regs_el3 = \<lparr>el3_mem = (\<lambda>_. 0), gpccr_el3 = 0, gptbr_el3 = 0x80, tcr_el3 = 0, ttbr_el3 = 0,
     scr_el3 = 0, sctlr_el3 = 0, sctlr_el2 = 0, mair_el3 = 0, esr_el3 = 0, elr_el3 = 0, spsr_el3 = 0,
     vbar_el3 = 0, free_pa = 0, trace = []\<rparr>"

definition example_gpt :: el3_state where
  "example_gpt = store64 0x80000 0xA0003 example_regs_el3"

lemma example_gpt_config: "gpt_config_ok example_gpt" "arch_p example_gpt = 12" "arch_t example_gpt = 30"
  "arch_pps example_gpt = 32"
  by (simp_all add: gpt_config_ok_def example_gpt_def example_regs_el3_def arch_t_def arch_pps_def arch_p_def
      gpccr_pps_def pps_bits_def get_field_def)

lemma example_gpt_l0: "arch_l0 example_gpt pa = 0x80000 + 8 * take_bit 2 (drop_bit 30 pa)"
proof -
  have "gptbr_el3 example_gpt = 0x80" by (simp add: example_gpt_def example_regs_el3_def)
  then show ?thesis by (simp add: arch_l0_def example_gpt_config gpt_l0_base_def)
qed

lemma load_zero_mem: "ld64 (\<lambda>_. 0) a = 0"
  by (simp add: ld64_def ld32_def)

lemma example_gpt_load:
  "b AND 7 = 0 \<Longrightarrow> load64 example_gpt b = (if b = 0x80000 then 0xA0003 else 0)"
  using load_store_aligned [of "0x80000" b "0xA0003" example_regs_el3]
  by (auto simp: example_gpt_def) (simp_all add: example_regs_el3_def load_zero_mem)

lemma example_gpt_separate: "gpt_separate example_gpt"
  unfolding gpt_separate_def
proof (intro allI impI)
  fix pa pa' :: u64 assume "load64 example_gpt (arch_l0 example_gpt pa') AND 0xF = 3"
  then have "load64 example_gpt (arch_l0 example_gpt pa') = 0xA0003"
    using example_gpt_load [OF arch_aligned(1) [of example_gpt pa']] by (simp split: if_splits)
  then have l1: "arch_l1 example_gpt pa' = 0xA0000 + 8 * take_bit 14 (drop_bit 16 pa')"
    by (simp add: arch_l1_def example_gpt_config mask_eq_exp_minus_1)
  let ?x = "take_bit 2 (drop_bit 30 pa)" and ?y = "take_bit 14 (drop_bit 16 pa')"
  have "unat ?x < 4" "unat ?y < 16384"
    using unat_take_bit_less [of 2 "drop_bit 30 pa"] unat_take_bit_less [of 14 "drop_bit 16 pa'"] by simp_all
  then have "unat (0x80000 + 8 * ?x) < 0x80020" "0xA0000 \<le> unat (0xA0000 + 8 * ?y)"
    by (simp_all add: unat_word_ariths)
  then have "unat (0x80000 + 8 * ?x) \<noteq> unat (0xA0000 + 8 * ?y)" by linarith
  then show "arch_l0 example_gpt pa \<noteq> arch_l1 example_gpt pa'"
    unfolding example_gpt_l0 l1 by metis
qed

theorem gpt_entry_refines_lookup_witness:
  "\<exists>s'. add_gpt_entry example_gpt 0x5000 9 = Some s' \<and> gpt_lookup s' 0x5000 = 9"
  using gpt_entry_refines_lookup [OF example_gpt_config(1) example_gpt_separate, of 9 "0x5000"]
  by (auto simp: is_gpi_valid_def word_le_nat_alt)

text \<open>The granule size field is decoded with a mask that keeps only its upper bit: the code
  takes a 64KB configuration for a 4KB one, so it computes other entry positions than the
  hardware; the encodings of 4KB and 16KB are decoded correctly.\<close>

theorem gpt_64kb_decoded_as_4kb:
  "(get_field 14 2 (gpccr_el3 s) = 1 \<longrightarrow> pgs_bits ! gpccr_pgs (gpccr_el3 s) = 12 \<and> arch_p s = 16) \<and>
   (get_field 14 2 (gpccr_el3 s) = 0 \<or> get_field 14 2 (gpccr_el3 s) = 2 \<longrightarrow>
      pgs_bits ! gpccr_pgs (gpccr_el3 s) = arch_p s)"
proof -
  have "drop_bit 14 (v AND push_bit 14 2) = get_field 14 2 v AND 2" for v :: u64
  proof -
    have "drop_bit 14 (v AND push_bit 14 2) = drop_bit 14 v AND (3 AND 2)" by (simp add: drop_bit_and)
    then show ?thesis by (simp add: get_field_def mask_eq_exp_minus_1 and.assoc)
  qed
  then show ?thesis by (auto simp: gpccr_pgs_def pgs_bits_def arch_p_def)
qed

theorem gpt_64kb_decoded_as_4kb_witness:
  "pgs_bits ! gpccr_pgs 0x4000 = 12 \<and> arch_p (example_regs_el3\<lparr>gpccr_el3 := 0x4000\<rparr>) = 16"
  using gpt_64kb_decoded_as_4kb [of "example_regs_el3\<lparr>gpccr_el3 := 0x4000\<rparr>"]
  by (simp add: get_field_def mask_eq_exp_minus_1)

end
