(* ===== verification/Smmu_Realm.thy ===== *)
theory Smmu_Realm
  imports Smmu_Queue El3_Mmu
begin

text \<open>
  Stream tables, context descriptors and masters of the EL3 SMMU driver
  (\<^verbatim>\<open>val_el3/smmuv3_realm.c\<close>): building the stream table, mapping and unmapping a stream,
  initialising and stopping the SMMUs.

  The structures the device reads are in memory; the driver's own structures are records, and
  a pointer to a master or to an SMMU is its position in the list. The allocations of the
  driver's structures are made from the pool as the code makes them. \<open>None\<close> stands for an access
  outside an array, a shift beyond the width of the type or a walk over a damaged pool that does
  not end.
\<close>

section \<open>Data\<close>

record smmu_cdtab_l1_ctx_desc =
  cd_l2ptr :: u64
  cd_l2desc64 :: u64
  cd_l2desc_phys :: u64

record smmu_cdtab_config =
  cdtab_ptr :: u64
  cdtab64 :: u64
  cdtab_phys :: u64
  cd_l1_ptr :: u64
  cd_l1_desc :: "smmu_cdtab_l1_ctx_desc list"
  cd_l1_ent_count :: u32

record smmu_cdtab_ctx_desc =
  cd_asid :: "16 word"
  cd_ttbr :: u64
  cd_tcr :: u64
  cd_mair :: u64

record smmu_stage1_config =
  cdcfg :: smmu_cdtab_config
  cd :: smmu_cdtab_ctx_desc
  s1fmt :: u8
  s1cdmax :: u8

record smmu_stage2_config =
  vmid :: "16 word"
  vttbr :: u64
  vtcr :: u64

datatype smmu_stage = SMMU_STAGE_S1 | SMMU_STAGE_S2 | SMMU_STAGE_BYPASS

record smmu_master =
  m_smmu :: "nat option"
  stage :: smmu_stage
  stage1_config :: smmu_stage1_config
  stage2_config :: smmu_stage2_config
  m_sid :: u32
  m_ssid :: u32
  m_ssid_bits :: u32

definition zero_master :: smmu_master where
  "zero_master = \<lparr>m_smmu = None, stage = SMMU_STAGE_S1,
     stage1_config = \<lparr>cdcfg = \<lparr>cdtab_ptr = 0, cdtab64 = 0, cdtab_phys = 0, cd_l1_ptr = 0, cd_l1_desc = [],
         cd_l1_ent_count = 0\<rparr>,
       cd = \<lparr>cd_asid = 0, cd_ttbr = 0, cd_tcr = 0, cd_mair = 0\<rparr>, s1fmt = 0, s1cdmax = 0\<rparr>,
     stage2_config = \<lparr>vmid = 0, vttbr = 0, vtcr = 0\<rparr>, m_sid = 0, m_ssid = 0, m_ssid_bits = 0\<rparr>"

record smmu_world =
  pool :: mem_pool
  g_smmu_ptr :: u64
  g_smmu :: "smmu_dev list"
  g_num_smmus :: u32
  g_sid :: u32
  master_list :: "smmu_master list"

record smmu_master_attributes =
  smmu_index :: u32
  streamid :: u32
  substreamid :: u32
  attr_ssid_bits :: u32
  stage2 :: u32
  bypass :: u32

record pgt_descriptor =
  pgt_base :: u64
  pgt_mair :: u64
  pgt_tcr :: tcr_el3_info
  pgt_irgn :: u64

abbreviation (input) SIZE_16KB :: u64 where "SIZE_16KB \<equiv> 0x4000"

definition val_memory_alloc :: "u64 \<Rightarrow> mem_pool \<Rightarrow> u32 \<Rightarrow> u64 \<Rightarrow> (mem_pool \<times> u64) option" where
  "val_memory_alloc pbase p sz alignment = my_malloc pbase p (ucast sz) alignment"

definition val_memory_calloc :: "u64 \<Rightarrow> mem_pool \<Rightarrow> u32 \<Rightarrow> u32 \<Rightarrow> u64 \<Rightarrow> (mem_pool \<times> u64) option" where
  "val_memory_calloc pbase p num sz alignment = my_calloc pbase p (ucast num) (ucast sz) alignment"

definition val_memory_free :: "mem_pool \<Rightarrow> u64 \<Rightarrow> mem_pool option" where
  "val_memory_free p addr = my_free p addr"

definition on_mem :: "(memory \<Rightarrow> memory) \<Rightarrow> mem_pool \<Rightarrow> mem_pool" where
  "on_mem f p = p\<lparr>pool_mem := f (pool_mem p)\<rparr>"

section \<open>Stream table\<close>

text \<open>The bypass entry.\<close>

definition write_bypass_ste :: "u64 \<Rightarrow> memory \<Rightarrow> memory" where
  "write_bypass_ste ste m =
     st64 (st64 (st64 m ste (1 OR BITFIELD_SET 3 1 4)) (ste + 8) (BITFIELD_SET 45 44 1)) (ste + 16) 0"

definition smmu_strtab_write_ste ::
  "tick \<Rightarrow> u32 \<Rightarrow> smmu_master option \<Rightarrow> u64 \<Rightarrow> smmu_dev \<Rightarrow> memory \<Rightarrow> memory" where
  "smmu_strtab_write_ste tick gsid master ste smmu m =
     (case master of
        None \<Rightarrow> write_bypass_ste ste m
      | Some ma \<Rightarrow>
        (case stage ma of
           SMMU_STAGE_BYPASS \<Rightarrow> write_bypass_ste ste m
         | SMMU_STAGE_S2 \<Rightarrow>
             let cfg = stage2_config ma;
                 m1 = st64 m (ste + 8) (ld64 m (ste + 8) OR BITFIELD_SET 31 30 2 OR BITFIELD_SET 29 28 1);
                 m2 = st64 m1 (ste + 16) (BITFIELD_SET 15 0 (ucast (vmid cfg)) OR BITFIELD_SET 50 32 (vtcr cfg)
                        OR push_bit 54 1 OR push_bit 51 1 OR push_bit 58 1);
                 m3 = st64 m2 (ste + 24) (vttbr cfg AND mask 48);
                 m4 = st64 m3 ste (1 OR BITFIELD_SET 3 1 6)
             in smmu_tlbi_prefetch_cfg tick gsid smmu (smmu_tlbi_cached_ste tick gsid smmu m4)
         | SMMU_STAGE_S1 \<Rightarrow>
             let cfg = stage1_config ma;
                 m1 = st64 m (ste + 8) (BITFIELD_SET 1 0 2 OR BITFIELD_SET 3 2 1 OR BITFIELD_SET 5 4 1
                        OR BITFIELD_SET 7 6 3 OR BITFIELD_SET 29 28 1);
                 m2 = st64 m1 ste (1 OR (cdtab_phys (cdcfg cfg) AND push_bit 6 (mask 46)) OR BITFIELD_SET 3 1 5
                        OR BITFIELD_SET 63 59 (ucast (s1cdmax cfg)) OR BITFIELD_SET 5 4 (ucast (s1fmt cfg)))
             in smmu_tlbi_prefetch_cfg tick gsid smmu (smmu_tlbi_cached_ste tick gsid smmu m2)))"

primrec ste_loop :: "nat \<Rightarrow> u64 \<Rightarrow> memory \<Rightarrow> memory" where
  "ste_loop 0 ste m = m"
| "ste_loop (Suc n) ste m = ste_loop n (ste + 64) (write_bypass_ste ste m)"

definition smmu_strtab_init_linear :: "u64 \<Rightarrow> smmu_dev \<Rightarrow> mem_pool \<Rightarrow> (bool \<times> smmu_dev \<times> mem_pool) option" where
  "smmu_strtab_init_linear pbase smmu p =
     (if 31 \<le> sid_bits smmu then None
      else do {
        let sz = push_bit (unat (sid_bits smmu)) 1 * (64 :: u32);
        (p1, ptr) \<leftarrow> val_memory_calloc pbase p 2 sz SIZE_4KB;
        let cfg = (strtab_cfg smmu)\<lparr>strtab_ptr := ptr\<rparr>;
        if ptr = 0 then Some (False, smmu\<lparr>strtab_cfg := cfg\<rparr>, p1)
        else do {
          let cfg = cfg\<lparr>strtab_phys := align_to_size ptr (ucast sz), strtab64 := align_to_size ptr (ucast sz),
                l1_ent_count := push_bit (unat (sid_bits smmu)) 1,
                strtab_base_cfg := BITFIELD_SET 17 16 0 OR BITFIELD_SET 5 0 (sid_bits smmu)\<rparr>;
          Some (True, smmu\<lparr>strtab_cfg := cfg\<rparr>, on_mem (ste_loop (unat (l1_ent_count cfg)) (strtab64 cfg)) p1)
        }
      })"

text \<open>Both queues are set up alike; they differ in their index registers.\<close>

definition queue_bytes :: "smmu_queue_type \<Rightarrow> u32" where
  "queue_bytes q = (let n = push_bit 3 (push_bit (unat (log2nent (queue q))) 1 * 2) in if n < 32 then 32 else n)"

definition queue_init ::
  "u64 \<Rightarrow> u64 \<Rightarrow> u64 \<Rightarrow> smmu_queue_type \<Rightarrow> mem_pool \<Rightarrow> (bool \<times> smmu_queue_type \<times> mem_pool) option" where
  "queue_init pbase preg creg q p = do {
     (p1, ptr) \<leftarrow> val_memory_calloc pbase p 2 (queue_bytes q) SIZE_4KB;
     if ptr = 0 then Some (False, q\<lparr>base_ptr := ptr\<rparr>, p1)
     else Some (True, q\<lparr>base_ptr := ptr, base_phys := ptr, q_base := ptr, prod_reg := preg, cons_reg := creg,
       entry_size := 16,
       queue_base := push_bit 62 1 OR (ptr AND push_bit 5 (mask 47)) OR BITFIELD_SET 4 0 (ucast (log2nent (queue q))),
       queue := (queue q)\<lparr>q_prod := 0, q_cons := 0\<rparr>\<rparr>, p1) }"

definition smmu_event_queue_init :: "u64 \<Rightarrow> smmu_dev \<Rightarrow> mem_pool \<Rightarrow> (bool \<times> smmu_dev \<times> mem_pool) option" where
  "smmu_event_queue_init pbase smmu p = do {
     (ok, q, p1) \<leftarrow> queue_init pbase (dev_base smmu + SMMU_R_EVTQ_PROD) (dev_base smmu + SMMU_R_EVTQ_CONS) (evnt_type smmu) p;
     Some (ok, smmu\<lparr>evnt_type := q\<rparr>, p1) }"

definition smmu_cmd_queue_init :: "u64 \<Rightarrow> smmu_dev \<Rightarrow> mem_pool \<Rightarrow> (bool \<times> smmu_dev \<times> mem_pool) option" where
  "smmu_cmd_queue_init pbase smmu p = do {
     (ok, q, p1) \<leftarrow> queue_init pbase (dev_base smmu + SMMU_R_CMDQ_PROD) (dev_base smmu + SMMU_R_CMDQ_CONS) (cmd_type smmu) p;
     Some (ok, smmu\<lparr>cmd_type := q\<rparr>, p1) }"

primrec free_all :: "u64 list \<Rightarrow> mem_pool \<Rightarrow> mem_pool option" where
  "free_all [] p = Some p"
| "free_all (a # as) p = do { p1 \<leftarrow> (if a \<noteq> 0 then val_memory_free p a else Some p); free_all as p1 }"

definition smmu_free_strtab :: "smmu_dev \<Rightarrow> mem_pool \<Rightarrow> mem_pool option" where
  "smmu_free_strtab smmu p =
     (let cfg = strtab_cfg smmu in
      if strtab_ptr cfg = 0 then Some p
      else do {
        p1 \<leftarrow> (if st_level_2lvl smmu \<and> l1_desc_ptr cfg \<noteq> 0 then do {
                 p0 \<leftarrow> free_all (map l2ptr (l1_desc cfg)) p;
                 val_memory_free p0 (l1_desc_ptr cfg) }
               else Some p);
        val_memory_free p1 (strtab_ptr cfg) })"

definition smmu_strtab_write_level1_desc :: "u64 \<Rightarrow> smmu_strtab_l1_desc \<Rightarrow> memory \<Rightarrow> memory" where
  "smmu_strtab_write_level1_desc dst desc m =
     st64 m dst (BITFIELD_SET 4 0 (ucast (span desc)) OR (l2desc_phys desc AND push_bit 6 (mask 46)))"

definition smmu_strtab_init_level2 ::
  "u64 \<Rightarrow> smmu_dev \<Rightarrow> u32 \<Rightarrow> mem_pool \<Rightarrow> (bool \<times> smmu_dev \<times> mem_pool) option" where
  "smmu_strtab_init_level2 pbase smmu sid p =
     (let cfg = strtab_cfg smmu; i = unat (drop_bit 8 sid) in
      if length (l1_desc cfg) \<le> i then None
      else let desc = l1_desc cfg ! i in
        if l2ptr desc \<noteq> 0 then Some (True, smmu, p)
        else do {
          let strtab = strtab64 cfg + ucast (drop_bit 8 sid) * 8;
          (p1, ptr) \<leftarrow> val_memory_calloc pbase p 2 0x4000 SIZE_16KB;
          let desc = desc\<lparr>span := 9, l2ptr := ptr\<rparr>;
          if ptr = 0 then Some (False, smmu\<lparr>strtab_cfg := cfg\<lparr>l1_desc := (l1_desc cfg)[i := desc]\<rparr>\<rparr>, p1)
          else do {
            let desc = desc\<lparr>l2desc_phys := align_to_size ptr 0x4000, l2desc64 := align_to_size ptr 0x4000\<rparr>;
            Some (True, smmu\<lparr>strtab_cfg := cfg\<lparr>l1_desc := (l1_desc cfg)[i := desc]\<rparr>\<rparr>,
              on_mem (smmu_strtab_write_level1_desc strtab desc \<circ> ste_loop 256 (l2desc64 desc)) p1) } })"

definition smmu_strtab_init_level1 :: "u64 \<Rightarrow> smmu_dev \<Rightarrow> mem_pool \<Rightarrow> (bool \<times> smmu_dev \<times> mem_pool) option" where
  "smmu_strtab_init_level1 pbase smmu p = do {
     let cfg = strtab_cfg smmu;
     (p1, ptr) \<leftarrow> val_memory_calloc pbase p (l1_ent_count cfg) 32 SIZE_4KB;
     Some (ptr \<noteq> 0, smmu\<lparr>strtab_cfg := cfg\<lparr>l1_desc_ptr := ptr,
       l1_desc := replicate (unat (l1_ent_count cfg)) zero_l1_desc\<rparr>\<rparr>, p1) }"

definition smmu_strtab_init_2level :: "u64 \<Rightarrow> smmu_dev \<Rightarrow> mem_pool \<Rightarrow> (bool \<times> smmu_dev \<times> mem_pool) option" where
  "smmu_strtab_init_2level pbase smmu p =
     (let log2size = sid_bits smmu - 8 in
      if 31 \<le> log2size then None
      else do {
        let cfg = (strtab_cfg smmu)\<lparr>l1_ent_count := push_bit (unat log2size) 1\<rparr>;
        let l1_tbl_size = l1_ent_count cfg * 8;
        (p1, ptr) \<leftarrow> val_memory_alloc pbase p (2 * l1_tbl_size) SIZE_4KB;
        let cfg = cfg\<lparr>strtab_ptr := ptr\<rparr>;
        if ptr = 0 then Some (False, smmu\<lparr>strtab_cfg := cfg\<rparr>, p1)
        else do {
          let cfg = cfg\<lparr>strtab_phys := ptr, strtab64 := ptr,
                strtab_base_cfg := BITFIELD_SET 17 16 1 OR BITFIELD_SET 5 0 (log2size + 8) OR BITFIELD_SET 10 6 8\<rparr>;
          (ok, smmu1, p2) \<leftarrow> smmu_strtab_init_level1 pbase (smmu\<lparr>strtab_cfg := cfg\<rparr>) p1;
          if ok then Some (True, smmu1, p2)
          else do { p3 \<leftarrow> val_memory_free p2 (strtab_ptr (strtab_cfg smmu1)); Some (False, smmu1, p3) } } })"

definition smmu_strtab_init :: "u64 \<Rightarrow> smmu_dev \<Rightarrow> mem_pool \<Rightarrow> (bool \<times> smmu_dev \<times> mem_pool) option" where
  "smmu_strtab_init pbase smmu p = do {
     (ok, smmu1, p1) \<leftarrow> (if st_level_2lvl smmu then smmu_strtab_init_2level pbase smmu p
                        else smmu_strtab_init_linear pbase smmu p);
     if \<not> ok then Some (False, smmu1, p1)
     else do {
       let data = (strtab_phys (strtab_cfg smmu1) AND push_bit 6 (mask 46)) OR push_bit 62 1;
       Some (True, smmu1\<lparr>strtab_cfg := (strtab_cfg smmu1)\<lparr>strtab_base := data\<rparr>\<rparr>, p1) } }"

definition smmu_strtab_get_ste_for_sid :: "smmu_dev \<Rightarrow> u32 \<Rightarrow> u64 option" where
  "smmu_strtab_get_ste_for_sid smmu sid =
     (let cfg = strtab_cfg smmu in
      if \<not> st_level_2lvl smmu then Some (strtab64 cfg + ucast (sid * 8) * 8)
      else let i = unat (drop_bit 8 sid) in
        if length (l1_desc cfg) \<le> i then None
        else Some (l2desc64 (l1_desc cfg ! i) + ucast ((sid AND 0xFF) * 8) * 8))"

section \<open>Context descriptors\<close>

definition smmu_cdtab_write_l1_desc :: "u64 \<Rightarrow> smmu_cdtab_l1_ctx_desc \<Rightarrow> memory \<Rightarrow> memory" where
  "smmu_cdtab_write_l1_desc dst desc m = st64 m dst ((cd_l2desc_phys desc AND push_bit 12 (mask 40)) OR 1)"

definition smmu_cdtab_alloc_leaf_table ::
  "u64 \<Rightarrow> smmu_cdtab_l1_ctx_desc \<Rightarrow> mem_pool \<Rightarrow> (bool \<times> smmu_cdtab_l1_ctx_desc \<times> mem_pool) option" where
  "smmu_cdtab_alloc_leaf_table pbase desc p = do {
     (p1, ptr) \<leftarrow> val_memory_alloc pbase p (0x10000 * 2) 8;
     if ptr = 0 then Some (False, desc\<lparr>cd_l2ptr := ptr\<rparr>, p1)
     else Some (True, desc\<lparr>cd_l2ptr := ptr, cd_l2desc_phys := align_to_size ptr 0x10000,
       cd_l2desc64 := align_to_size ptr 0x10000\<rparr>, p1) }"

text \<open>The context descriptor of the master's substream, with its leaf table allocated on demand; the
  null pointer when that fails.\<close>

definition smmu_cdtab_get_ctx_desc :: "u64 \<Rightarrow> smmu_master \<Rightarrow> mem_pool \<Rightarrow> (u64 \<times> smmu_master \<times> mem_pool) option" where
  "smmu_cdtab_get_ctx_desc pbase ma p =
     (let s1 = stage1_config ma; cfg = cdcfg s1 in
      if s1fmt s1 = 0 then Some (cdtab64 cfg + ucast (m_ssid ma * 8) * 8, ma, p)
      else let i = unat (drop_bit 10 (m_ssid ma)) in
        if length (cd_l1_desc cfg) \<le> i then None
        else do {
          let desc = cd_l1_desc cfg ! i;
          (ok, desc, p1) \<leftarrow> (if cd_l2ptr desc \<noteq> 0 then Some (True, desc, p)
                           else smmu_cdtab_alloc_leaf_table pbase desc p);
          let ma1 = ma\<lparr>stage1_config := s1\<lparr>cdcfg := cfg\<lparr>cd_l1_desc := (cd_l1_desc cfg)[i := desc]\<rparr>\<rparr>\<rparr>;
          if \<not> ok then Some (0, ma1, p1)
          else do {
            let p2 = (if cd_l2ptr (cd_l1_desc cfg ! i) \<noteq> 0 then p1
                      else on_mem (smmu_cdtab_write_l1_desc (cdtab64 cfg + of_nat i * 8) desc) p1);
            Some (cd_l2desc64 desc + ucast ((m_ssid ma AND 0x3FF) * 8) * 8, ma1, p2) } })"

definition smmu_cdtab_write_ctx_desc ::
  "u64 \<Rightarrow> smmu_master \<Rightarrow> u32 \<Rightarrow> smmu_cdtab_ctx_desc \<Rightarrow> mem_pool \<Rightarrow> (bool \<times> smmu_master \<times> mem_pool) option" where
  "smmu_cdtab_write_ctx_desc pbase ma ssid cdesc p =
     (if 31 \<le> s1cdmax (stage1_config ma) then None
      else if sint (push_bit (unat (s1cdmax (stage1_config ma))) (1 :: u32)) \<le> sint ssid then Some (False, ma, p)
      else do {
        (cdptr, ma1, p1) \<leftarrow> smmu_cdtab_get_ctx_desc pbase ma p;
        if cdptr = 0 then Some (False, ma1, p1)
        else do {
          let val = cd_tcr cdesc OR push_bit 45 1 OR push_bit 46 1 OR push_bit 47 1 OR push_bit 41 1
                    OR BITFIELD_SET 63 48 (ucast (cd_asid cdesc)) OR push_bit 31 1;
          Some (True, ma1, on_mem (\<lambda>m. st64 (st64 (st64 (st64 m (cdptr + 8) (cd_ttbr cdesc AND mask 48))
            (cdptr + 16) 0) (cdptr + 24) (cd_mair cdesc)) cdptr val) p1) } })"

definition smmu_cdtab_free :: "smmu_dev \<Rightarrow> smmu_master \<Rightarrow> mem_pool \<Rightarrow> (smmu_master \<times> mem_pool) option" where
  "smmu_cdtab_free smmu ma p =
     (let s1 = stage1_config ma; cfg = cdcfg s1 in
      if 31 \<le> s1cdmax s1 then None
      else let max_contexts = push_bit (unat (s1cdmax s1)) (1 :: u32) in do {
        p1 \<leftarrow> (if cd2l smmu \<and> 0x400 < max_contexts then
                 if length (cd_l1_desc cfg) < unat ((max_contexts + 0x3FF) div 0x400) then None
                 else do {
                   p0 \<leftarrow> free_all (map cd_l2ptr (take (unat ((max_contexts + 0x3FF) div 0x400)) (cd_l1_desc cfg))) p;
                   val_memory_free p0 (cd_l1_ptr cfg) }
               else Some p);
        p2 \<leftarrow> val_memory_free p1 (cdtab_ptr cfg);
        Some (ma\<lparr>stage1_config := s1\<lparr>cdcfg := cfg\<lparr>cdtab_ptr := 0\<rparr>\<rparr>\<rparr>, p2) })"

definition smmu_cdtab_alloc :: "u64 \<Rightarrow> smmu_dev \<Rightarrow> smmu_master \<Rightarrow> mem_pool \<Rightarrow> (bool \<times> smmu_master \<times> mem_pool) option" where
  "smmu_cdtab_alloc pbase smmu ma p =
     (let s1 = stage1_config ma; cfg = cdcfg s1 in
      if 31 \<le> s1cdmax s1 then None
      else let cdmax = push_bit (unat (s1cdmax s1)) (1 :: u32) in do {
        (ok, s1, l1_tbl_size, p1) \<leftarrow>
          (if cd2l smmu \<and> 0x400 < cdmax then do {
             let n = (cdmax + 0x3FF) div 0x400;
             (p1, ptr) \<leftarrow> val_memory_calloc pbase p n 24 8;
             Some (ptr \<noteq> 0, s1\<lparr>s1fmt := 2, cdcfg := cfg\<lparr>cd_l1_ent_count := n, cd_l1_ptr := ptr,
               cd_l1_desc := replicate (unat n) \<lparr>cd_l2ptr = 0, cd_l2desc64 = 0, cd_l2desc_phys = 0\<rparr>\<rparr>\<rparr>, n * 8, p1) }
           else Some (True, s1\<lparr>s1fmt := 0, cdcfg := cfg\<lparr>cd_l1_ent_count := cdmax\<rparr>\<rparr>, cdmax * 64, p));
        if \<not> ok then Some (False, ma\<lparr>stage1_config := s1\<rparr>, p1)
        else do {
          (p2, ptr) \<leftarrow> val_memory_calloc pbase p1 2 l1_tbl_size 8;
          let s1 = s1\<lparr>cdcfg := (cdcfg s1)\<lparr>cdtab_ptr := ptr\<rparr>\<rparr>;
          if ptr = 0 then Some (False, ma\<lparr>stage1_config := s1\<rparr>, p2)
          else Some (True, ma\<lparr>stage1_config := s1\<lparr>cdcfg := (cdcfg s1)\<lparr>cdtab_phys := align_to_size ptr (ucast l1_tbl_size),
            cdtab64 := align_to_size ptr (ucast l1_tbl_size)\<rparr>\<rparr>\<rparr>, p2) } })"


section \<open>Masters, mapping and initialisation\<close>

primrec master_index :: "u32 \<Rightarrow> smmu_master list \<Rightarrow> nat option" where
  "master_index sid [] = None"
| "master_index sid (ma # ms) = (if m_sid ma = sid then Some 0 else map_option Suc (master_index sid ms))"

text \<open>The position of the master with the stream identifier; a new one is put in front. No position
  when an allocation fails.\<close>

definition smmu_master_at :: "u64 \<Rightarrow> u32 \<Rightarrow> smmu_world \<Rightarrow> (nat option \<times> smmu_world) option" where
  "smmu_master_at pbase sid w =
     (case master_index sid (master_list w) of
        Some i \<Rightarrow> Some (Some i, w)
      | None \<Rightarrow> do {
          (p1, node) \<leftarrow> val_memory_alloc pbase (pool w) 16 8;
          if node = 0 then Some (None, w\<lparr>pool := p1\<rparr>)
          else do {
            (p2, ma) \<leftarrow> val_memory_calloc pbase p1 1 136 8;
            if ma = 0 then do { p3 \<leftarrow> val_memory_free p2 node; Some (None, w\<lparr>pool := p3\<rparr>) }
            else Some (Some 0, w\<lparr>pool := p2, master_list := zero_master # master_list w\<rparr>) } })"

definition vtcr_of :: "pgt_descriptor \<Rightarrow> u64" where
  "vtcr_of pgt = BITFIELD_SET 5 0 (tcr_tsz (pgt_tcr pgt)) OR BITFIELD_SET 7 6 (tcr_sh (pgt_tcr pgt))
     OR BITFIELD_SET 9 8 (pgt_irgn pgt) OR BITFIELD_SET 11 10 (tcr_orgn (pgt_tcr pgt))
     OR BITFIELD_SET 13 12 (tcr_sh (pgt_tcr pgt)) OR BITFIELD_SET 15 14 (tcr_tg (pgt_tcr pgt))
     OR BITFIELD_SET 18 16 (tcr_ps (pgt_tcr pgt))"

definition cd_tcr_of :: "pgt_descriptor \<Rightarrow> u64" where
  "cd_tcr_of pgt = BITFIELD_SET 5 0 (tcr_tsz (pgt_tcr pgt)) OR BITFIELD_SET 7 6 (tcr_tg (pgt_tcr pgt))
     OR BITFIELD_SET 9 8 (pgt_irgn pgt) OR BITFIELD_SET 11 10 (tcr_orgn (pgt_tcr pgt))
     OR BITFIELD_SET 13 12 (tcr_sh (pgt_tcr pgt)) OR BITFIELD_SET 34 32 (tcr_ps (pgt_tcr pgt))
     OR push_bit 30 1 OR push_bit 41 1"

text \<open>The stage configuration of the master: for stage 2 the table base and control value, for
  stage 1 a context descriptor as well.\<close>

definition configure_stage ::
  "u64 \<Rightarrow> smmu_dev \<Rightarrow> pgt_descriptor \<Rightarrow> smmu_master \<Rightarrow> mem_pool \<Rightarrow> (bool \<times> smmu_master \<times> mem_pool) option" where
  "configure_stage pbase smmu pgt ma p =
     (case stage ma of
        SMMU_STAGE_BYPASS \<Rightarrow> Some (True, ma, p)
      | SMMU_STAGE_S2 \<Rightarrow> Some (True, ma\<lparr>stage2_config := \<lparr>vmid = 0, vttbr = pgt_base pgt, vtcr = vtcr_of pgt\<rparr>\<rparr>, p)
      | SMMU_STAGE_S1 \<Rightarrow> do {
          let ma0 = ma\<lparr>stage1_config := (stage1_config ma)\<lparr>s1cdmax := ucast (m_ssid_bits ma)\<rparr>\<rparr>;
          (ok, ma1, p1) \<leftarrow> (if cdtab_ptr (cdcfg (stage1_config ma0)) = 0 then smmu_cdtab_alloc pbase smmu ma0 p
                          else Some (True, ma0, p));
          if \<not> ok then Some (False, ma1, p1)
          else do {
            let cdesc = \<lparr>cd_asid = 0, cd_ttbr = pgt_base pgt, cd_tcr = cd_tcr_of pgt, cd_mair = pgt_mair pgt\<rparr>;
            smmu_cdtab_write_ctx_desc pbase (ma1\<lparr>stage1_config := (stage1_config ma1)\<lparr>cd := cdesc\<rparr>\<rparr>) (m_ssid ma1) cdesc p1
          } })"

definition val_smmu_rlm_map ::
  "tick \<Rightarrow> u64 \<Rightarrow> smmu_master_attributes \<Rightarrow> pgt_descriptor \<Rightarrow> smmu_world \<Rightarrow> (u32 \<times> smmu_world) option" where
  "val_smmu_rlm_map tick pbase attr pgt w0 =
     (let w = w0\<lparr>g_sid := streamid attr\<rparr>; k = unat (smmu_index attr) in
      if g_smmu_ptr w = 0 then Some (1, w)
      else if g_num_smmus w \<le> smmu_index attr then Some (1, w)
      else if length (g_smmu w) \<le> k then None
      else let smmu = g_smmu w ! k in
      if dev_base smmu = 0 then Some (1, w)
      else do {
        (pos, w1) \<leftarrow> smmu_master_at pbase (streamid attr) w;
        case pos of None \<Rightarrow> Some (1, w1)
        | Some i \<Rightarrow> do {
            let ma = master_list w1 ! i;
            let ma = (if m_smmu ma = None then ma\<lparr>m_smmu := Some k, m_sid := streamid attr,
                        m_ssid_bits := attr_ssid_bits attr\<rparr> else ma);
            let put = (\<lambda>ma p. w1\<lparr>pool := p, master_list := (master_list w1)[i := ma]\<rparr>);
            if stage2 attr \<noteq> 0 \<and> \<not> s2p smmu then Some (1, put ma (pool w1))
            else if stage2 attr = 0 \<and> bypass attr = 0 \<and> \<not> s1p smmu then Some (1, put ma (pool w1))
            else do {
              let ma = (if stage2 attr \<noteq> 0 then ma\<lparr>stage := SMMU_STAGE_S2\<rparr>
                        else if bypass attr \<noteq> 0 then ma\<lparr>stage := SMMU_STAGE_BYPASS\<rparr>
                        else ma\<lparr>stage := SMMU_STAGE_S1, m_ssid := substreamid attr\<rparr>);
              if push_bit (unat (sid_bits smmu)) 1 \<le> (ucast (streamid attr) :: u64) then Some (1, put ma (pool w1))
              else do {
                (ok, smmu1, p2) \<leftarrow> (if st_level_2lvl smmu then smmu_strtab_init_level2 pbase smmu (g_sid w) (pool w1)
                                    else Some (True, smmu, pool w1));
                let put = (\<lambda>ma p. (put ma p)\<lparr>g_smmu := (g_smmu w1)[k := smmu1]\<rparr>);
                if \<not> ok then Some (1, put ma p2)
                else do {
                  (ok, ma, p3) \<leftarrow> configure_stage pbase smmu1 pgt ma p2;
                  if \<not> ok then Some (1, put ma p3)
                  else do {
                    ste \<leftarrow> smmu_strtab_get_ste_for_sid smmu1 (m_sid ma);
                    let p4 = on_mem (smmu_tlbi_cfgi tick (g_sid w) smmu1 \<circ>
                               smmu_strtab_write_ste tick (g_sid w) (Some ma) ste smmu1) p3;
                    Some (0, put ma p4) } } } } } })"

definition val_smmu_unmap :: "tick \<Rightarrow> u64 \<Rightarrow> smmu_master_attributes \<Rightarrow> smmu_world \<Rightarrow> smmu_world option" where
  "val_smmu_unmap tick pbase attr w =
     (let k = unat (smmu_index attr) in
      if length (g_smmu w) \<le> k then None
      else let smmu = g_smmu w ! k in
      if dev_base smmu = 0 then Some w
      else do {
        (pos, w1) \<leftarrow> smmu_master_at pbase (streamid attr) w;
        case pos of None \<Rightarrow> Some w1
        | Some i \<Rightarrow> (case m_smmu (master_list w1 ! i) of
            None \<Rightarrow> Some w1
          | Some k' \<Rightarrow>
              if length (g_smmu w1) \<le> k' then None
              else let msmmu = g_smmu w1 ! k' in
              if push_bit (unat (sid_bits msmmu)) 1 \<le> (ucast (streamid attr) :: u64) then Some w1
              else do {
                let strtab = strtab64 (strtab_cfg msmmu) + ucast (streamid attr * 8) * 8;
                let p1 = on_mem (smmu_strtab_write_ste tick (g_sid w1) None strtab smmu) (pool w1);
                (ma, p2) \<leftarrow> smmu_cdtab_free msmmu (master_list w1 ! i) p1;
                let p3 = on_mem (smmu_tlbi_cfgi tick (g_sid w1) msmmu) p2;
                Some (w1\<lparr>pool := p3, master_list := (master_list w1)[i := zero_master]\<rparr>) }) })"

definition smmu_init :: "tick \<Rightarrow> u64 \<Rightarrow> u32 \<Rightarrow> smmu_dev \<Rightarrow> mem_pool \<Rightarrow> (u32 \<times> smmu_dev \<times> mem_pool) option" where
  "smmu_init tick pbase gsid smmu p =
     (if dev_base smmu = 0 then Some (1, smmu, p)
      else let (ok, smmu1, m1) = smmu_probe tick smmu (pool_mem p); p1 = p\<lparr>pool_mem := m1\<rparr> in
      if \<not> ok then Some (1, smmu1, p1)
      else do {
        (ok, smmu2, p2) \<leftarrow> smmu_cmd_queue_init pbase smmu1 p1;
        if \<not> ok then Some (1, smmu2, p2)
        else do {
          (ok, smmu3, p3) \<leftarrow> smmu_event_queue_init pbase smmu2 p2;
          if \<not> ok then Some (1, smmu3, p3)
          else do {
            (ok, smmu4, p4) \<leftarrow> smmu_strtab_init pbase smmu3 p3;
            if \<not> ok then Some (1, smmu4, p4)
            else let (ret, m5) = smmu_reset tick gsid smmu4 (pool_mem p4)
              in Some (if ret = 0 then 1 else 0, smmu4, p4\<lparr>pool_mem := m5\<rparr>) } } })"

primrec stop_loop :: "tick \<Rightarrow> smmu_dev list \<Rightarrow> mem_pool \<Rightarrow> mem_pool option" where
  "stop_loop tick [] p = Some p"
| "stop_loop tick (smmu # ss) p =
     (if dev_base smmu = 0 then stop_loop tick ss p
      else do {
        let p1 = on_mem (\<lambda>m. snd (smmu_dev_disable tick smmu m)) p;
        p2 \<leftarrow> (if base_ptr (cmd_type smmu) \<noteq> 0 then val_memory_free p1 (base_ptr (cmd_type smmu)) else Some p1);
        p3 \<leftarrow> smmu_free_strtab smmu p2;
        stop_loop tick ss p3 })"

definition val_smmu_stop :: "tick \<Rightarrow> smmu_world \<Rightarrow> smmu_world option" where
  "val_smmu_stop tick w = do {
     p1 \<leftarrow> stop_loop tick (g_smmu w) (pool w);
     p2 \<leftarrow> val_memory_free p1 (g_smmu_ptr w);
     Some (w\<lparr>pool := p2\<rparr>) }"

text \<open>The loop over the SMMUs; every one is at the platform's base address. An SMMU of another
  architecture revision is skipped.\<close>

primrec init_loop :: "tick \<Rightarrow> u64 \<Rightarrow> u64 \<Rightarrow> u32 \<Rightarrow> nat \<Rightarrow> smmu_dev list \<Rightarrow> mem_pool \<Rightarrow> (u32 \<times> smmu_dev list \<times> mem_pool) option" where
  "init_loop tick pbase root gsid 0 devs p = Some (0, devs, p)"
| "init_loop tick pbase root gsid (Suc n) devs p =
     (let i = length devs - Suc n; (aidr, m1) = val_mmio_read tick (root + 0x1C) (pool_mem p); p1 = p\<lparr>pool_mem := m1\<rparr> in
      if aidr AND 0xFF \<noteq> 3 then init_loop tick pbase root gsid n devs p1
      else do {
        (ret, smmu, p2) \<leftarrow> smmu_init tick pbase gsid ((devs ! i)\<lparr>dev_base := root\<rparr>) p1;
        if ret \<noteq> 0 then Some (1, devs[i := smmu\<lparr>dev_base := 0\<rparr>], p2)
        else init_loop tick pbase root gsid n (devs[i := smmu]) p2 })"

definition val_smmu_init :: "tick \<Rightarrow> u64 \<Rightarrow> u64 \<Rightarrow> u32 \<Rightarrow> smmu_world \<Rightarrow> (u32 \<times> smmu_world) option" where
  "val_smmu_init tick pbase root num_smmu w0 =
     (let w = w0\<lparr>g_num_smmus := num_smmu\<rparr> in
      if num_smmu = 0 then Some (1, w)
      else do {
        (p1, ptr) \<leftarrow> val_memory_calloc pbase (pool w) num_smmu 240 8;
        if ptr = 0 then Some (1, w\<lparr>pool := p1, g_smmu_ptr := ptr, g_smmu := []\<rparr>)
        else do {
          (ret, devs, p2) \<leftarrow> init_loop tick pbase root (g_sid w) (unat num_smmu) (replicate (unat num_smmu) zero_dev) p1;
          Some (ret, w\<lparr>pool := p2, g_smmu_ptr := ptr, g_smmu := devs\<rparr>) } })"


section \<open>Stream table entries\<close>

text \<open>A valid entry that lets the stream bypass translation.\<close>

definition is_bypass :: "memory \<Rightarrow> u64 \<Rightarrow> bool" where
  "is_bypass m ste \<longleftrightarrow> ld64 m ste = 9 \<and> ld64 m (ste + 8) = push_bit 44 1 \<and> ld64 m (ste + 16) = 0"

lemma write_bypass_ste: "is_bypass (write_bypass_ste ste m) ste"
  by (simp add: is_bypass_def write_bypass_ste_def c64.ld_st_same c64.ld_st_apart apart_def BITFIELD_SET_def
      mask_eq_exp_minus_1)

lemma write_bypass_outside:
  assumes "24 \<le> unat (x - ste)"
  shows "write_bypass_ste ste m x = m x"
proof -
  have "unat (x - (ste + 8)) = unat (x - ste) - 8" "unat (x - (ste + 16)) = unat (x - ste) - 16"
    using assms by (simp_all add: unat_sub_if' diff_diff_eq [symmetric] word_le_nat_alt)
  then show ?thesis using assms by (simp add: write_bypass_ste_def c64.st_outside)
qed

lemma is_bypass_cong:
  assumes "\<And>i. i < 24 \<Longrightarrow> m' (ste + of_nat i) = m (ste + of_nat i)"
  shows "is_bypass m' ste = is_bypass m ste"
proof -
  have "ld64 m' (ste + of_nat k) = ld64 m (ste + of_nat k)" if "k + 8 \<le> 24" for k
  proof (rule c64.ld_cong)
    show "m' (ste + of_nat k + of_nat i) = m (ste + of_nat k + of_nat i)" if "i < 8" for i
      using assms [of "k + i"] that \<open>k + 8 \<le> 24\<close> by (simp add: add.assoc)
  qed
  from this [of 0] this [of 8] this [of 16] show ?thesis by (simp add: is_bypass_def)
qed

text \<open>Writing a table entry by entry. An entry has 64 bytes; what is written is decided by its first 24 bytes.\<close>

primrec write_entries :: "(u64 \<Rightarrow> memory \<Rightarrow> memory) \<Rightarrow> nat \<Rightarrow> u64 \<Rightarrow> memory \<Rightarrow> memory" where
  "write_entries wr 0 ste m = m"
| "write_entries wr (Suc n) ste m = write_entries wr n (ste + 64) (wr ste m)"

locale stream_entry =
  fixes wr :: "u64 \<Rightarrow> memory \<Rightarrow> memory" and ok :: "memory \<Rightarrow> u64 \<Rightarrow> bool"
  assumes written: "ok (wr ste m) ste"
    and outside: "24 \<le> unat (x - ste) \<Longrightarrow> wr ste m x = m x"
    and local: "(\<And>i. i < 24 \<Longrightarrow> m' (ste + of_nat i) = m (ste + of_nat i)) \<Longrightarrow> ok m' ste = ok m ste"
begin

lemma entries_at:
  assumes "a + 64 * n \<le> 2 ^ 64"
  shows "(\<forall>i<n. ok (write_entries wr n (of_nat a) m) (of_nat (a + 64 * i))) \<and>
    (\<forall>y<2 ^ 64. y < a \<or> a + 64 * n \<le> y \<longrightarrow> write_entries wr n (of_nat a) m (of_nat y) = m (of_nat y))"
  using assms
proof (induction n arbitrary: a m)
  case (Suc n)
  let ?m = "wr (of_nat a) m"
  have s: "write_entries wr (Suc n) (of_nat a) m = write_entries wr n (of_nat (a + 64)) ?m" by simp
  have IH: "(\<forall>i<n. ok (write_entries wr n (of_nat (a + 64)) ?m) (of_nat (a + 64 + 64 * i))) \<and>
    (\<forall>y<2 ^ 64. y < a + 64 \<or> a + 64 + 64 * n \<le> y \<longrightarrow> write_entries wr n (of_nat (a + 64)) ?m (of_nat y) = ?m (of_nat y))"
    by (rule Suc.IH) (use Suc.prems in simp)
  have 0: "ok (write_entries wr n (of_nat (a + 64)) ?m) (of_nat a)"
  proof -
    have "write_entries wr n (of_nat (a + 64)) ?m (of_nat (a + i)) = ?m (of_nat (a + i))" if "i < 24" for i
      using IH that Suc.prems by (auto simp del: of_nat_add)
    then show ?thesis using local [of "write_entries wr n (of_nat (a + 64)) ?m" "of_nat a" ?m] written by simp
  qed
  have out: "?m (of_nat y) = m (of_nat y)" if "y < 2 ^ 64" "y < a \<or> a + 64 \<le> y" for y
    by (rule outside) (use that Suc.prems unat_diff_of_nat [of a y] in auto)
  show ?case
    unfolding s using IH 0 out Suc.prems by (auto simp: less_Suc_eq_0_disj add.assoc simp del: of_nat_add)
qed simp

end

interpretation bypass_entry: stream_entry write_bypass_ste is_bypass
  by unfold_locales (fact write_bypass_ste, erule write_bypass_outside, rule is_bypass_cong, blast)

lemma ste_loop_entries: "ste_loop n ste m = write_entries write_bypass_ste n ste m"
  by (induction n arbitrary: ste m) simp_all

lemmas ste_loop_at = bypass_entry.entries_at [folded ste_loop_entries]

lemma tiled_payload_update:
  assumes "pool_ok base (xs @ (len, False) # ys) p"
    and "\<And>y. y < 2 ^ 64 \<Longrightarrow> y < block_at base xs + 24 \<or> block_at base xs + 24 + len \<le> y \<Longrightarrow> f (pool_mem p) (of_nat y) = pool_mem p (of_nat y)"
  shows "pool_ok base (xs @ (len, False) # ys) (on_mem f p)"
  using assms tiled_in_payload [of "pool_mem p" base "base + MEMORY_POOL_SIZE" "free_list p" xs len False ys "f (pool_mem p)"]
  by (simp add: pool_ok_def on_mem_def)

text \<open>(C31) A linear stream table. When the pool has room, \<^verbatim>\<open>smmu_strtab_init_linear\<close> succeeds: the
  table of \<open>2 ^ sid_bits\<close> entries is aligned to its size, lies inside the new block of the pool,
  every entry is valid and bypasses translation, and the pool stays well formed with the blocks of
  a first-fit allocation.\<close>

theorem smmu_strtab_linear_bypass:
  assumes "pool_ok base bs p" and "sid_bits smmu = of_nat k" and "k \<le> 13"
    and "base + MEMORY_POOL_SIZE + align_up (128 * 2 ^ k) (2 ^ 12) + 2 ^ 12 < 2 ^ 64"
    and "first_fit base bs (align_up (128 * 2 ^ k) (2 ^ 12)) (2 ^ 12) = Some (bs', q)"
  shows "\<exists>smmu' p' t. smmu_strtab_init_linear (of_nat base) smmu p = Some (True, smmu', p') \<and>
    pool_ok base bs' p' \<and> strtab64 (strtab_cfg smmu') = of_nat t \<and> strtab_phys (strtab_cfg smmu') = of_nat t \<and>
    64 * 2 ^ k dvd t \<and> q \<le> t \<and> t + 64 * 2 ^ k \<le> q + 128 * 2 ^ k \<and>
    (\<forall>i < 2 ^ k. is_bypass (pool_mem p') (of_nat (t + 64 * i)))"
proof -
  let ?sz = "push_bit k 1 * (64 :: u32)"
  have kl: "(2 :: nat) ^ k \<le> 2 ^ 13" using assms(3) by (intro power_increasing) simp_all
  have sb: "unat (sid_bits smmu) = k" "\<not> 31 \<le> sid_bits smmu"
    using assms(2,3) by (simp_all add: unat_of_nat_small word_le_nat_alt)
  have sz: "unat ?sz = 64 * 2 ^ k"
  proof -
    have "?sz = of_nat (64 * 2 ^ k)" by (simp add: push_bit_eq_mult mult.commute)
    then show ?thesis using kl by (simp only:) (subst unat_of_nat_small, simp_all)
  qed
  have usz: "(ucast ?sz :: u64) = 2 ^ (k + 6)"
  proof -
    have "?sz = 2 ^ (k + 6)" by (simp add: push_bit_eq_mult power_add)
    moreover have "ucast ((2 :: u32) ^ (k + 6)) = (2 :: u64) ^ (k + 6)"
      using assms(3) by (intro bit_word_eqI) (auto simp: bit_ucast_iff bit_exp_iff)
    ultimately show ?thesis by simp
  qed
  from calloc_contract [OF assms(1) _ assms(4) _ assms(5), of 2 "ucast ?sz"] usz obtain p1 xs len ys where
    c: "my_calloc (of_nat base) p 2 (ucast ?sz) (2 ^ 12) = Some (p1, of_nat q)" "pool_ok base bs' p1"
      "bs' = xs @ (len, False) # ys" "block_at base xs + 24 \<le> q" "q + 128 * 2 ^ k \<le> block_at base xs + 24 + len"
      "base < q" "q + 128 * 2 ^ k \<le> base + MEMORY_POOL_SIZE"
    by (auto simp: power_add)
  have q: "unat (of_nat q :: u64) = q" "of_nat q \<noteq> (0 :: u64)" "base + MEMORY_POOL_SIZE < 2 ^ 64"
    using c(6,7) assms(4) unat_of_nat_small [of q, where 'a = 64] by auto
  define t where "t = unat (align_to_size (of_nat q) (2 ^ (k + 6)))"
  have t: "2 ^ (k + 6) dvd t" "q < t" "t + 2 ^ (k + 6) \<le> q + 2 * 2 ^ (k + 6)"
    using align_to_size_fits [of "k + 6" "of_nat q"] assms(3) q c(7) by (simp_all add: t_def power_add)
  let ?p = "on_mem (ste_loop (2 ^ k) (of_nat t)) p1"
  have lim: "t + 64 * 2 ^ k \<le> q + 128 * 2 ^ k" "t + 64 * 2 ^ k \<le> 2 ^ 64"
    using t c(7) q(3) by (simp_all add: power_add)
  note sl = ste_loop_at [OF lim(2), of "pool_mem p1"]
  have "pool_ok base bs' ?p"
    unfolding c(3) by (rule tiled_payload_update) (use c(2-5) t(2) lim sl in auto)
  moreover have "\<forall>i < 2 ^ k. is_bypass (pool_mem ?p) (of_nat (t + 64 * i))"
    using sl by (simp add: on_mem_def del: of_nat_add)
  moreover obtain smmu' where "smmu_strtab_init_linear (of_nat base) smmu p = Some (True, smmu', ?p)"
    "strtab64 (strtab_cfg smmu') = of_nat t" "strtab_phys (strtab_cfg smmu') = of_nat t"
  proof
    have e: "unat (push_bit k 1 :: u32) = 2 ^ k"
      using kl unat_of_nat_small [of "2 ^ k", where 'a = 32] by (simp add: push_bit_eq_mult)
    show "smmu_strtab_init_linear (of_nat base) smmu p =
      Some (True, smmu\<lparr>strtab_cfg := (strtab_cfg smmu)\<lparr>strtab_ptr := of_nat q, strtab_phys := of_nat t, strtab64 := of_nat t,
        l1_ent_count := push_bit k 1, strtab_base_cfg := BITFIELD_SET 17 16 0 OR BITFIELD_SET 5 0 (sid_bits smmu)\<rparr>\<rparr>, ?p)"
      using sb q(2) c(1) by (simp add: smmu_strtab_init_linear_def val_memory_calloc_def Let_def t_def
          usz [unfolded push_bit_eq_mult mult_1] e [unfolded push_bit_eq_mult mult_1])
  qed simp_all
  ultimately show ?thesis using t lim by (auto simp: power_add mult.commute)
qed


theorem smmu_strtab_linear_bypass_witness:
  "\<exists>smmu' p' t. smmu_strtab_init_linear 0x1000 (example_smmu\<lparr>sid_bits := 4\<rparr>) example_pool = Some (True, smmu', p') \<and>
     strtab64 (strtab_cfg smmu') = of_nat t \<and> is_bypass (pool_mem p') (of_nat (t + 64 * 15))"
proof -
  obtain smmu' p' t where "smmu_strtab_init_linear 0x1000 (example_smmu\<lparr>sid_bits := 4\<rparr>) example_pool = Some (True, smmu', p')"
    "strtab64 (strtab_cfg smmu') = of_nat t" and b: "\<forall>i < 16. is_bypass (pool_mem p') (of_nat (t + 64 * i))"
    using smmu_strtab_linear_bypass [OF example_pool_ok, of "example_smmu\<lparr>sid_bits := 4\<rparr>" 4
        "[(8168, False), (2088936, True)]" "0x2000"] by (auto simp: align_up_def simp del: of_nat_add of_nat_mult)
  then show ?thesis using spec [OF b, of 15] by (intro exI [of _ smmu'] exI [of _ p'] exI [of _ t]) simp
qed

text \<open>Setting up the command queue. When the pool has room and the register pages lie outside
  it, \<^verbatim>\<open>smmu_cmd_queue_init\<close> succeeds and leaves the queue as the command layer needs it: the index
  registers of the realm interface, entries of 16 bytes in zeroed memory of the pool that overlap
  neither the register pages nor wrap around, and both indices zero.\<close>

theorem smmu_cmd_queue_ready:
  assumes "pool_ok base bs p" and "log2nent (queue (cmd_type smmu)) = of_nat n" and "1 \<le> n" and "n \<le> 15"
    and "base + MEMORY_POOL_SIZE + align_up (32 * 2 ^ n) (2 ^ 12) + 2 ^ 12 < 2 ^ 64"
    and "first_fit base bs (align_up (32 * 2 ^ n) (2 ^ 12)) (2 ^ 12) = Some (bs', q)"
    and "apart MEMORY_POOL_SIZE 0x20000 (of_nat base) (dev_base smmu + 0x40000)"
  shows "\<exists>smmu' p'. smmu_cmd_queue_init (of_nat base) smmu p = Some (True, smmu', p') \<and> pool_ok base bs' p' \<and>
    smmu_set_up smmu' \<and> cmdq_ok (cmd_type smmu') \<and> q_base (cmd_type smmu') = of_nat q \<and>
    q_prod (queue (cmd_type smmu')) = 0 \<and> q_cons (queue (cmd_type smmu')) = 0 \<and>
    (\<forall>i < 16 * 2 ^ n. pool_mem p' (of_nat (q + i)) = 0)"
proof -
  have nl: "(2 :: nat) ^ n \<le> 2 ^ 15" "(2 :: nat) ^ 1 \<le> 2 ^ n" 
    by (rule power_increasing; use assms(3,4) in simp)+
  have ln: "unat (log2nent (queue (cmd_type smmu))) = n" using assms(2,4) by (simp add: unat_of_nat_small)
  have qb: "queue_bytes (cmd_type smmu) = of_nat (16 * 2 ^ n)"
  proof -
    have e: "push_bit 3 (push_bit n (1 :: u32) * 2) = of_nat (16 * 2 ^ n)" by (simp add: push_bit_eq_mult)
    have "unat (of_nat (16 * 2 ^ n) :: u32) = 16 * 2 ^ n" using nl by (intro unat_of_nat_small) simp
    then have "\<not> (of_nat (16 * 2 ^ n) :: u32) < 32" using nl by (simp add: word_less_nat_alt del: of_nat_mult)
    then show ?thesis unfolding queue_bytes_def Let_def ln e by simp
  qed
  have "(ucast (of_nat (16 * 2 ^ n) :: u32) :: u64) = of_nat (16 * 2 ^ n)"
    using nl by (simp only: word_unat_eq_iff) (simp add: unat_ucast_up unat_of_nat_small del: of_nat_mult of_nat_power)
  then have "2 * (ucast (queue_bytes (cmd_type smmu)) :: u64) = of_nat (32 * 2 ^ n)" by (simp add: qb)
  from calloc_contract [OF assms(1) _ assms(5) this assms(6)] obtain p1 where
    c: "my_calloc (of_nat base) p 2 (ucast (queue_bytes (cmd_type smmu))) (2 ^ 12) = Some (p1, of_nat q)" "pool_ok base bs' p1"
      "\<forall>i < 32 * 2 ^ n. pool_mem p1 (of_nat (q + i)) = 0" "base < q" "q + 32 * 2 ^ n \<le> base + MEMORY_POOL_SIZE"
    by auto
  have q: "unat (of_nat q :: u64) = q" "of_nat q \<noteq> (0 :: u64)" "base + MEMORY_POOL_SIZE < 2 ^ 64"
    using c(4,5) assms(5) unat_of_nat_small [of q, where 'a = 64] by auto
  have ap: "apart (16 * 2 ^ n) 0x20000 (of_nat q) (dev_base smmu + 0x40000)"
    using apart_sub [OF assms(7), of "q - base" "16 * 2 ^ n"] c(4,5) by (simp add: of_nat_diff)
  then have ap4: "apart (16 * 2 ^ n) 4 (of_nat q) (dev_base smmu + 0x40098)"
    using apart_sub_right [OF ap, of "0x98" 4] by (simp add: add.assoc)
  define qt where "qt = (cmd_type smmu)\<lparr>base_ptr := of_nat q, base_phys := of_nat q, q_base := of_nat q,
    prod_reg := dev_base smmu + SMMU_R_CMDQ_PROD, cons_reg := dev_base smmu + SMMU_R_CMDQ_CONS, entry_size := 16,
    queue_base := push_bit 62 1 OR (of_nat q AND push_bit 5 (mask 47)) OR BITFIELD_SET 4 0 (ucast (log2nent (queue (cmd_type smmu)))),
    queue := (queue (cmd_type smmu))\<lparr>q_prod := 0, q_cons := 0\<rparr>\<rparr>"
  have "smmu_cmd_queue_init (of_nat base) smmu p = Some (True, smmu\<lparr>cmd_type := qt\<rparr>, p1)"
    using c(1) q(2) by (simp add: smmu_cmd_queue_init_def queue_init_def val_memory_calloc_def qt_def)
  moreover have "smmu_set_up (smmu\<lparr>cmd_type := qt\<rparr>)" "cmdq_ok qt"
    using ap ap4 ln assms(4) c(5) q by (simp_all add: smmu_set_up_def cmdq_ok_def qt_def)
  ultimately show ?thesis using c(2,3) by (auto simp: qt_def)
qed

theorem smmu_cmd_queue_ready_witness:
  "\<exists>smmu' p'. smmu_cmd_queue_init 0x1000 (example_smmu\<lparr>cmd_type := zero_queue\<lparr>queue := \<lparr>q_prod = 0, q_cons = 0, log2nent = 5\<rparr>\<rparr>\<rparr>)
     example_pool = Some (True, smmu', p') \<and> smmu_set_up smmu' \<and> pool_ok 0x1000 [(8168, False), (2088936, True)] p'"
  using smmu_cmd_queue_ready [OF example_pool_ok, of "example_smmu\<lparr>cmd_type := zero_queue\<lparr>queue := \<lparr>q_prod = 0, q_cons = 0, log2nent = 5\<rparr>\<rparr>\<rparr>"
      5 "[(8168, False), (2088936, True)]" "0x2000"]
  by (auto simp: align_up_def apart_def example_smmu_def zero_dev_def)


section \<open>Mapping and unmapping a stream\<close>

lemma master_index_Some:
  "master_index sid ms = Some i \<Longrightarrow> i < length ms \<and> m_sid (ms ! i) = sid"
  by (induction ms arbitrary: i) (auto split: if_splits)

lemma master_at_facts:
  assumes "smmu_master_at pbase sid w = Some (Some i, w1)"
  shows "i < length (master_list w1)" "g_smmu w1 = g_smmu w" "g_sid w1 = g_sid w"
    "m_smmu (master_list w1 ! i) = None \<or> m_sid (master_list w1 ! i) = sid"
proof -
  have "i < length (master_list w1) \<and> g_smmu w1 = g_smmu w \<and> g_sid w1 = g_sid w \<and>
      (m_smmu (master_list w1 ! i) = None \<or> m_sid (master_list w1 ! i) = sid)"
  proof (cases "master_index sid (master_list w)")
    case None
    with assms show ?thesis
      by (auto simp: smmu_master_at_def zero_master_def split: bind_splits if_splits)
  next
    case (Some j)
    with assms master_index_Some [OF Some] show ?thesis by (auto simp: smmu_master_at_def)
  qed
  then show "i < length (master_list w1)" "g_smmu w1 = g_smmu w" "g_sid w1 = g_sid w"
    "m_smmu (master_list w1 ! i) = None \<or> m_sid (master_list w1 ! i) = sid" by auto
qed

lemma bypass_stable:
  assumes "stable smmu 24 ste" and "same_off (cmd_area smmu) m m'"
  shows "is_bypass m' ste = is_bypass m ste"
  using assms by (intro is_bypass_cong) (simp add: stable_def same_off_def)



lemma stable_apart:
  assumes "apart 4 n (dev_base smmu + SMMU_R_CR0ACK) a" "apart 4 n (dev_base smmu + SMMU_R_CMDQ_CONS) a"
    "apart 4 n (dev_base smmu + SMMU_R_GERROR) a" "apart 4 n (dev_base smmu + SMMU_R_EVTQ_PROD) a"
    "apart 4 n (prod_reg (cmd_type smmu)) a"
    "apart (16 * 2 ^ unat (log2nent (queue (cmd_type smmu)))) n (q_base (cmd_type smmu)) a"
  shows "stable smmu n a"
  unfolding stable_def cmd_area_def dev_owned_def de_Morgan_disj not_less
  using assms [THEN apart_outside] by blast

definition example_world :: smmu_world where
  "example_world = \<lparr>pool = example_pool, g_smmu_ptr = 0x3000,
     g_smmu = [example_smmu\<lparr>sid_bits := 4, strtab_cfg := (strtab_cfg example_smmu)\<lparr>strtab64 := 0x200000\<rparr>\<rparr>],
     g_num_smmus = 1, g_sid = 0, master_list = [zero_master\<lparr>m_sid := 3, m_smmu := Some 0\<rparr>]\<rparr>"

definition example_attr :: smmu_master_attributes where
  "example_attr = \<lparr>smmu_index = 0, streamid = 3, substreamid = 0, attr_ssid_bits = 0, stage2 = 0, bypass = 1\<rparr>"

lemma example_dev:
  "dev_base example_smmu = 0x2B400000" "\<not> st_level_2lvl example_smmu"
  by (simp_all add: example_smmu_def zero_dev_def)

lemma example_stable: "apart 64 24 0x100000 a \<Longrightarrow> apart 0x100000 24 0x2B400000 a \<Longrightarrow>
    stable (example_smmu\<lparr>sid_bits := sb, st_level_2lvl := l, strtab_cfg := cfg\<rparr>) 24 a"
  using apart_sub [of "0x100000" 24 "0x2B400000" a "0x40024" 4] apart_sub [of "0x100000" 24 "0x2B400000" a "0x4009C" 4]
    apart_sub [of "0x100000" 24 "0x2B400000" a "0x40060" 4] apart_sub [of "0x100000" 24 "0x2B400000" a "0x500A8" 4]
    apart_sub [of "0x100000" 24 "0x2B400000" a "0x40098" 4]
  by (intro stable_apart) (simp_all add: example_dev example_smmu_cmdq)

definition example_pgt :: pgt_descriptor where
  "example_pgt = \<lparr>pgt_base = 0, pgt_mair = 0,
     pgt_tcr = \<lparr>tcr_ps = 0, tcr_tg = 0, tcr_sh = 0, tcr_orgn = 0, tcr_tsz = 0\<rparr>, pgt_irgn = 0\<rparr>"

lemma example_set_up': "smmu_set_up (example_smmu\<lparr>sid_bits := sb, st_level_2lvl := l, strtab_cfg := cfg\<rparr>)"
  using example_set_up by (simp add: smmu_set_up_def)


text \<open>Unmapping a stream of a two-level stream table. The code clears the double words at the
  position the entry would have in a linear table. The entry of the stream in its second-level
  table keeps all its bytes, so the device still uses the old configuration after the call.\<close>

theorem smmu_unmap_misses_two_level:
  assumes "unat (smmu_index attr) < length (g_smmu w)" and "smmu = g_smmu w ! unat (smmu_index attr)"
    and "dev_base smmu \<noteq> 0" and "st_level_2lvl smmu"
    and "smmu_master_at pbase (streamid attr) w = Some (Some i, w1)"
    and "m_smmu (master_list w1 ! i) = Some (unat (smmu_index attr))"
    and "cdtab_ptr (cdcfg (stage1_config (master_list w1 ! i))) = 0" and "s1cdmax (stage1_config (master_list w1 ! i)) = 0"
    and "(ucast (streamid attr) :: u64) < push_bit (unat (sid_bits smmu)) 1"
    and "smmu_responsive (dev_base smmu) tick" and "smmu_set_up smmu"
    and "smmu_strtab_get_ste_for_sid smmu (streamid attr) = Some ste" and "stable smmu 24 ste"
    and "apart 24 24 (strtab64 (strtab_cfg smmu) + ucast (streamid attr * 8) * 8) ste"
  shows "\<exists>w'. val_smmu_unmap tick pbase attr w = Some w' \<and> master_list w' ! i = zero_master \<and>
    (\<forall>j<24. pool_mem (pool w') (ste + of_nat j) = pool_mem (pool w1) (ste + of_nat j))"
proof -
  note mf = master_at_facts [OF assms(5)]
  let ?ste = "strtab64 (strtab_cfg smmu) + ucast (streamid attr * 8) * 8"
  define m where "m = smmu_tlbi_cfgi tick (g_sid w1) smmu (write_bypass_ste ?ste (pool_mem (pool w1)))"
  define w' where "w' = w1\<lparr>pool := (pool w1)\<lparr>pool_mem := m\<rparr>, master_list := (master_list w1)[i := zero_master]\<rparr>"
  have "val_smmu_unmap tick pbase attr w = Some w'"
    using assms(1-9) mf(1-3)
    by (simp add: val_smmu_unmap_def Let_def smmu_strtab_write_ste_def smmu_cdtab_free_def val_memory_free_def
        my_free_def on_mem_def w'_def m_def not_le push_bit_eq_mult)
  moreover have s: "same_off (cmd_area smmu) (write_bypass_ste ?ste (pool_mem (pool w1))) m"
    unfolding m_def by (rule tlbi_same(1) [OF assms(10,11)])
  moreover have "m (ste + of_nat j) = pool_mem (pool w1) (ste + of_nat j)" if "j < 24" for j
    using s that assms(13) write_bypass_outside [OF apart_outside [OF assms(14) that]]
    by (simp add: same_off_def stable_def)
  ultimately show ?thesis using mf(1) by (intro exI [of _ w']) (simp add: w'_def)
qed


definition example_2lvl :: smmu_dev where
  "example_2lvl = example_smmu\<lparr>sid_bits := 9, st_level_2lvl := True, strtab_cfg := (strtab_cfg example_smmu)\<lparr>
     strtab64 := 0x200000, l1_desc := [zero_l1_desc\<lparr>l2ptr := 0x300000, l2desc64 := 0x304000\<rparr>, zero_l1_desc]\<rparr>\<rparr>"

theorem smmu_unmap_misses_two_level_witness:
  "\<exists>w'. val_smmu_unmap (acking 0x2B400000) 0x1000 example_attr (example_world\<lparr>g_smmu := [example_2lvl]\<rparr>) = Some w' \<and>
     master_list w' ! 0 = zero_master \<and>
     pool_mem (pool w') 0x3040C0 = pool_mem example_pool 0x3040C0"
proof -
  let ?w = "example_world\<lparr>g_smmu := [example_2lvl]\<rparr>"
  have at: "smmu_master_at 0x1000 (streamid example_attr) ?w = Some (Some 0, ?w)"
    by (simp add: smmu_master_at_def example_world_def example_attr_def)
  have d: "dev_base example_2lvl = 0x2B400000" "st_level_2lvl example_2lvl" "sid_bits example_2lvl = 9"
    "strtab64 (strtab_cfg example_2lvl) = 0x200000"
    "l1_desc (strtab_cfg example_2lvl) = [zero_l1_desc\<lparr>l2ptr := 0x300000, l2desc64 := 0x304000\<rparr>, zero_l1_desc]"
    by (simp_all add: example_2lvl_def example_dev)
  have ste: "smmu_strtab_get_ste_for_sid example_2lvl 3 = Some 0x3040C0"
    by (simp add: smmu_strtab_get_ste_for_sid_def d)
  have st: "stable example_2lvl 24 0x3040C0"
    unfolding example_2lvl_def by (rule example_stable) (simp_all add: apart_def)
  have su: "smmu_set_up example_2lvl" unfolding example_2lvl_def by (rule example_set_up')
  show ?thesis
    using smmu_unmap_misses_two_level [of example_attr ?w example_2lvl "0x1000" 0 ?w "acking 0x2B400000" "0x3040C0",
        OF _ _ _ _ at] st su ste acking_responsive
    by (auto simp: example_world_def example_attr_def d zero_master_def apart_def dest: spec [of _ 0])
qed

end
