(* ===== verification/El3_Services.thy ===== *)
theory El3_Services
  imports Smmu_Realm
begin

text \<open>
  The services of the EL3 firmware (\<^verbatim>\<open>val_el3/ack_common.c\<close>,
  \<^verbatim>\<open>val_el3/plat_acs_smc_handler.c\<close>): the exception handler that acknowledges expected
  faults, accesses on behalf of a test, saving and comparing registers, the root watchdog,
  the security state and the dispatch of the calls of the test suite.

  The data shared with the test (\<^verbatim>\<open>struct_sh_data\<close>) is a record of its own, without the fields that no
  code of EL3 uses: the model covers
  calls whose address arguments do not point into the shared page. An access of EL3 may take
  a granule protection fault, which runs the handler before the access returns; which addresses
  fault is a parameter. Control that goes to the handler of the firmware underneath is an
  outcome of its own, and \<open>Stuck\<close> stands for behaviour the code does not define.
\<close>

section \<open>Shared data and outcomes\<close>

record access_entry =
  access_type :: u64
  acc_addr :: u64
  acc_data :: u64

record struct_sh_data =
  sd_elr_el3 :: u64
  sd_spsr_el3 :: u64
  exception_expected :: u64
  exception_generated :: u64
  access_mut_flag :: u64
  sd_arg1 :: u64
  num_access :: u64
  pas_filter_flag :: u64
  generic_flag :: u64
  num_regs :: u32
  reg_list :: "(u32 \<times> u64) list"
  shared_data_access :: "access_entry list"

record el3_world =
  el3 :: el3_state
  shared_data :: struct_sh_data
  smmus :: smmu_world

text \<open>What the services rely on: the translation instruction, the addresses that take a granule
  protection fault at EL3, the address and the state of an instruction that faults, the contents of the
  destination register of a load that is skipped, the address of the handler, the
  behaviour of the SMMU, the addresses the platform configuration gives, and the contents of local
  variables the code does not set.\<close>

record el3_env =
  at_s1e3w :: "el3_state \<Rightarrow> u64 \<Rightarrow> u64"
  gpf :: "u64 \<Rightarrow> bool"
  fault_pc :: u64
  fault_spsr :: u64
  skipped_load :: u64
  exception_handler_user :: u64
  smmu_tick :: tick
  free_mem_smmu :: u64
  root_smmu_base :: u64
  smmu_root_offset :: u64
  junk_attr :: smmu_master_attributes
  junk_irgn :: u64

datatype outcome = Done el3_world | Firmware u64 el3_world | Stuck

primrec andthen :: "outcome \<Rightarrow> (el3_world \<Rightarrow> outcome) \<Rightarrow> outcome" where
  "andthen (Done w) f = f w"
| "andthen (Firmware t w) f = Firmware t w"
| "andthen Stuck f = Stuck"

definition on_el3 :: "(el3_state \<Rightarrow> el3_state) \<Rightarrow> el3_world \<Rightarrow> el3_world" where
  "on_el3 f w = w\<lparr>el3 := f (el3 w)\<rparr>"

definition on_shared :: "(struct_sh_data \<Rightarrow> struct_sh_data) \<Rightarrow> el3_world \<Rightarrow> el3_world" where
  "on_shared f w = w\<lparr>shared_data := f (shared_data w)\<rparr>"

definition store_mem :: "(memory \<Rightarrow> memory) \<Rightarrow> el3_world \<Rightarrow> el3_world" where
  "store_mem f w = on_el3 (\<lambda>s. s\<lparr>el3_mem := f (el3_mem s)\<rparr>) w"

abbreviation (input) SET :: u64 where "SET \<equiv> 1"
abbreviation (input) CLEAR :: u64 where "CLEAR \<equiv> 0"
abbreviation (input) GPF_ESR_READ :: u64 where "GPF_ESR_READ \<equiv> 0x96000028"
abbreviation (input) GPF_ESR_WRITE :: u64 where "GPF_ESR_WRITE \<equiv> 0x96000068"
abbreviation (input) ARM_TF_SHARED_ADDRESS :: u64 where "ARM_TF_SHARED_ADDRESS \<equiv> 0xE0000FE0"
abbreviation (input) TEST_DATA :: u64 where "TEST_DATA \<equiv> 0x999"

section \<open>Exceptions at EL3\<close>

definition rme_install_handler :: "el3_env \<Rightarrow> el3_world \<Rightarrow> el3_world" where
  "rme_install_handler env w =
     on_el3 (\<lambda>s. (store64 ARM_TF_SHARED_ADDRESS (vbar_el3 s) s)\<lparr>vbar_el3 := exception_handler_user env\<rparr>) w"

text \<open>The ways out of the handler: \<^verbatim>\<open>asm_eret\<close> skips the instruction that faulted, the other returns
  go to the address saved in the shared data, \<^verbatim>\<open>branch_asm\<close> hands over to the firmware.\<close>

datatype handler_exit = Skip el3_world | Resume el3_world | Branch u64 el3_world | No_exit

primrec resume_saved :: "outcome \<Rightarrow> handler_exit" where
  "resume_saved (Done w) = Resume (on_el3 (\<lambda>s. s\<lparr>elr_el3 := sd_elr_el3 (shared_data w), spsr_el3 := sd_spsr_el3 (shared_data w)\<rparr>) w)"
| "resume_saved (Firmware t w) = Branch t w"
| "resume_saved Stuck = No_exit"

text \<open>\<open>access\<close> performs the access with its own possible fault.\<close>

definition ack_handler_el3 ::
  "(u64 \<Rightarrow> u64 \<Rightarrow> (el3_world \<Rightarrow> el3_world) \<Rightarrow> el3_world \<Rightarrow> outcome) \<Rightarrow> el3_world \<Rightarrow> handler_exit" where
  "ack_handler_el3 access w =
     (let sd = shared_data w; s = el3 w in
      if exception_expected sd = SET \<and> access_mut_flag sd = CLEAR then
        let sd1 = (if esr_el3 s = GPF_ESR_READ \<or> esr_el3 s = GPF_ESR_WRITE
                   then sd\<lparr>exception_generated := SET, exception_expected := CLEAR\<rparr>
                   else sd\<lparr>exception_expected := CLEAR\<rparr>)
        in Skip (on_el3 (\<lambda>s. s\<lparr>elr_el3 := elr_el3 s + 4\<rparr>) (w\<lparr>shared_data := sd1\<rparr>))
      else if access_mut_flag sd = SET then
        let w1 = w\<lparr>shared_data := sd\<lparr>access_mut_flag := CLEAR, sd_elr_el3 := elr_el3 s, sd_spsr_el3 := spsr_el3 s\<rparr>\<rparr> in
        if pas_filter_flag sd = SET then
          resume_saved (access (sd_arg1 sd) GPF_ESR_READ id (on_el3 (emit Set_daif) w1))
        else if exception_expected sd = SET then
          resume_saved (access (sd_arg1 sd) GPF_ESR_WRITE (store_mem (\<lambda>m. st64 m (sd_arg1 sd) TEST_DATA)) w1)
        else resume_saved (access (sd_arg1 sd) GPF_ESR_READ id w1)
      else Branch (load64 s (ARM_TF_SHARED_ADDRESS + 8)) w)"

text \<open>Entry of the vector at \<open>off\<close>: the corresponding entry of the firmware's table is noted.\<close>

definition exception_entry :: "u64 \<Rightarrow> u64 \<Rightarrow> u64 \<Rightarrow> u64 \<Rightarrow> el3_world \<Rightarrow> el3_world" where
  "exception_entry off esr pc spsr w =
     on_el3 (\<lambda>s. (store64 (ARM_TF_SHARED_ADDRESS + 8) (load64 s ARM_TF_SHARED_ADDRESS + off) s)\<lparr>
       esr_el3 := esr, elr_el3 := pc, spsr_el3 := spsr\<rparr>) w"

text \<open>An access of EL3 itself: a fault enters the vector of the current exception level at offset
  \<open>0x200\<close>. After \<^verbatim>\<open>asm_eret\<close> the access is skipped; a return to the saved address repeats it.\<close>

primrec el3_access :: "el3_env \<Rightarrow> nat \<Rightarrow> u64 \<Rightarrow> u64 \<Rightarrow> (el3_world \<Rightarrow> el3_world) \<Rightarrow> el3_world \<Rightarrow> outcome" where
  "el3_access env 0 a esr eff w = Stuck"
| "el3_access env (Suc n) a esr eff w =
     (if \<not> gpf env a then Done (eff w)
      else case ack_handler_el3 (el3_access env n) (exception_entry 0x200 esr (fault_pc env) (fault_spsr env) w) of
             Skip w' \<Rightarrow> Done w'
           | Resume w' \<Rightarrow> el3_access env n a esr eff w'
           | Branch t w' \<Rightarrow> Firmware t w'
           | No_exit \<Rightarrow> Stuck)"

text \<open>Two levels are enough (\<open>el3_access_settles\<close> below), because the handler clears the flag that makes
  it access memory before it does so.\<close>

definition mem_access :: "el3_env \<Rightarrow> u64 \<Rightarrow> u64 \<Rightarrow> (el3_world \<Rightarrow> el3_world) \<Rightarrow> el3_world \<Rightarrow> outcome" where
  "mem_access env a esr eff w = el3_access env 2 a esr eff w"

definition write64 :: "el3_env \<Rightarrow> u64 \<Rightarrow> u64 \<Rightarrow> el3_world \<Rightarrow> outcome" where
  "write64 env a v w = mem_access env a GPF_ESR_WRITE (store_mem (\<lambda>m. st64 m a v)) w"

text \<open>A load whose value is used by \<open>k\<close>; \<open>rd\<close> reads the memory at the address.\<close>

definition load_el3 ::
  "el3_env \<Rightarrow> u64 \<Rightarrow> (memory \<Rightarrow> u64) \<Rightarrow> (u64 \<Rightarrow> el3_world \<Rightarrow> outcome) \<Rightarrow> el3_world \<Rightarrow> outcome" where
  "load_el3 env a rd k w = andthen (mem_access env a GPF_ESR_READ id w)
     (\<lambda>w1. k (if gpf env a then skipped_load env else rd (el3_mem (el3 w1))) w1)"

text \<open>An exception from a lower exception level, at offset \<open>0x400\<close>.\<close>

definition lower_el_exception :: "el3_env \<Rightarrow> u64 \<Rightarrow> u64 \<Rightarrow> u64 \<Rightarrow> el3_world \<Rightarrow> handler_exit" where
  "lower_el_exception env esr pc spsr w =
     ack_handler_el3 (mem_access env) (exception_entry 0x400 esr pc spsr w)"


section \<open>Services\<close>

text \<open>The accesses of the test on behalf of another world. The number of accesses and the type of an
  access are read at 8 bits; an entry of another type is skipped.\<close>

definition set_access_data :: "nat \<Rightarrow> u64 \<Rightarrow> el3_world \<Rightarrow> el3_world" where
  "set_access_data i v = on_shared (\<lambda>sd. sd\<lparr>shared_data_access :=
     (shared_data_access sd)[i := (shared_data_access sd ! i)\<lparr>acc_data := v\<rparr>]\<rparr>)"

definition access_one :: "el3_env \<Rightarrow> nat \<Rightarrow> el3_world \<Rightarrow> outcome" where
  "access_one env i w =
     (if length (shared_data_access (shared_data w)) \<le> i then Stuck
      else let e = shared_data_access (shared_data w) ! i; a = acc_addr e in
        if (ucast (access_type e) :: u8) = 0 then
          load_el3 env a (\<lambda>m. ucast (ld32 m a)) (\<lambda>v w1. Done (set_access_data i v w1)) w
        else if (ucast (access_type e) :: u8) = 1 then
          mem_access env a GPF_ESR_WRITE (store_mem (\<lambda>m. st32 m a (ucast (acc_data e)))) w
        else Done w)"

primrec access_loop :: "el3_env \<Rightarrow> nat \<Rightarrow> nat \<Rightarrow> el3_world \<Rightarrow> outcome" where
  "access_loop env i 0 w = Done w"
| "access_loop env i (Suc n) w = andthen (access_one env i w) (access_loop env (Suc i) n)"

definition access_mut :: "el3_env \<Rightarrow> el3_world \<Rightarrow> outcome" where
  "access_mut env w = access_loop env 0 (unat (ucast (num_access (shared_data w)) :: u8)) w"

definition val_data_cache_ops_by_va_el3 :: "u64 \<Rightarrow> u32 \<Rightarrow> el3_state \<Rightarrow> el3_state" where
  "val_data_cache_ops_by_va_el3 va typ s =
     (if typ = 1 then emit (Cln_and_invldt_cache va) s
      else if typ = 2 then emit (Clean_cache va) s
      else if typ = 3 then emit (Invalidate_cache va) s
      else s)"

definition val_enable_ns_encryption :: "el3_state \<Rightarrow> el3_state" where
  "val_enable_ns_encryption s = emit (Ns_encryption True) s"

definition val_disable_ns_encryption :: "el3_state \<Rightarrow> el3_state" where
  "val_disable_ns_encryption s = emit (Ns_encryption False) s"

definition val_prog_legacy_tz :: "u64 \<Rightarrow> el3_state \<Rightarrow> el3_state" where
  "val_prog_legacy_tz enable s = emit (Legacy_tz enable) s"

definition val_pas_filter_active_mode :: "u64 \<Rightarrow> el3_state \<Rightarrow> el3_state" where
  "val_pas_filter_active_mode enable s = emit (Pas_filter_active_mode enable) s"

definition val_pe_reg_read :: "u32 \<Rightarrow> el3_state \<Rightarrow> u64" where
  "val_pe_reg_read reg_id s =
     (if reg_id = 1 then gpccr_el3 s else if reg_id = 2 then gptbr_el3 s
      else if reg_id = 3 then tcr_el3 s else if reg_id = 4 then ttbr_el3 s
      else if reg_id = 5 then scr_el3 s else if reg_id = 7 then sctlr_el3 s
      else if reg_id = 6 then sctlr_el2 s else 0)"

text \<open>The number of registers is signed in the loops; more than the list holds is out of bounds.\<close>

definition val_pe_reg_read_msd :: "el3_world \<Rightarrow> outcome" where
  "val_pe_reg_read_msd w =
     (let sd = shared_data w; n = nat (sint (num_regs sd)) in
      if length (reg_list sd) < n then Stuck
      else Done (w\<lparr>shared_data := sd\<lparr>reg_list :=
        map (\<lambda>(r, v). (r, val_pe_reg_read r (el3 w))) (take n (reg_list sd)) @ drop n (reg_list sd)\<rparr>\<rparr>))"

definition val_pe_reg_list_cmp_msd :: "el3_world \<Rightarrow> outcome" where
  "val_pe_reg_list_cmp_msd w =
     (let sd = shared_data w; n = nat (sint (num_regs sd)) in
      if length (reg_list sd) < n then Stuck
      else let cmp_fail = length (filter (\<lambda>(r, v). v \<noteq> val_pe_reg_read r (el3 w)) (take n (reg_list sd)))
        in Done (if 0 < cmp_fail then w\<lparr>shared_data := sd\<lparr>generic_flag := SET\<rparr>\<rparr> else w))"

text \<open>Filling memory byte by byte; the size is read at 32 bits and the value at 8.\<close>

primrec set_loop :: "el3_env \<Rightarrow> u64 \<Rightarrow> u8 \<Rightarrow> nat \<Rightarrow> nat \<Rightarrow> el3_world \<Rightarrow> outcome" where
  "set_loop env a v i 0 w = Done w"
| "set_loop env a v i (Suc n) w =
     andthen (mem_access env (a + of_nat i) GPF_ESR_WRITE (store_mem (\<lambda>m. st8 m (a + of_nat i) v)) w)
       (set_loop env a v (Suc i) n)"

definition val_memory_set_el3 :: "el3_env \<Rightarrow> u64 \<Rightarrow> u32 \<Rightarrow> u8 \<Rightarrow> el3_world \<Rightarrow> outcome" where
  "val_memory_set_el3 env a sz v w = set_loop env a v 0 (unat sz) w"

definition expect_fault :: "el3_world \<Rightarrow> el3_world" where
  "expect_fault w = (if generic_flag (shared_data w) \<noteq> 0
     then on_shared (\<lambda>sd. sd\<lparr>exception_expected := SET, access_mut_flag := CLEAR\<rparr>) w else w)"

definition val_wd_enable :: "el3_env \<Rightarrow> u64 \<Rightarrow> el3_world \<Rightarrow> outcome" where
  "val_wd_enable env wdog_ctrl_base w = write64 env (wdog_ctrl_base + 0) SET (expect_fault w)"

definition val_wd_disable :: "el3_env \<Rightarrow> u64 \<Rightarrow> el3_world \<Rightarrow> outcome" where
  "val_wd_disable env wdog_ctrl_base w = write64 env (wdog_ctrl_base + 0) CLEAR w"

text \<open>The version is read from the identification register. A product that does not fit 32 bits is only
  logged.\<close>

definition val_wd_set_ws0_el3 :: "el3_env \<Rightarrow> u64 \<Rightarrow> u32 \<Rightarrow> u64 \<Rightarrow> el3_world \<Rightarrow> outcome" where
  "val_wd_set_ws0_el3 env ctrl_base timeout counter_freq w =
     (if timeout = 0 then val_wd_disable env ctrl_base w
      else load_el3 env (ctrl_base + 0xFCC) (\<lambda>m. ld64 m (ctrl_base + 0xFCC)) (\<lambda>iidr w1.
        let data = (ucast (VAL_EXTRACT_BITS iidr 16 19) :: u32);
            wor_l = (ucast (counter_freq * ucast timeout) :: u32);
            wor_h = (ucast (drop_bit 32 (counter_freq * ucast timeout)) :: u32)
        in andthen (write64 env (ctrl_base + 8) (ucast wor_l) (expect_fault w1)) (\<lambda>w2.
             andthen (if data = 1 then write64 env (ctrl_base + 12) (ucast wor_h) (expect_fault w2) else Done w2)
               (val_wd_enable env ctrl_base))) w)"

definition val_smmu_access_disable :: "el3_env \<Rightarrow> el3_world \<Rightarrow> outcome" where
  "val_smmu_access_disable env w =
     (let a = root_smmu_base env + (smmu_root_offset env + 0x20) in mem_access env a GPF_ESR_WRITE (store_mem (\<lambda>m. st32 m a 0)) w)"

definition NSE_SET :: "u64 \<Rightarrow> u64" where
  "NSE_SET x = (if x = 0 \<or> x = 1 then 0 else 1)"

definition NS_SET :: "u64 \<Rightarrow> u64" where
  "NS_SET x = (if x = 2 \<or> x = 0 then 0 else 1)"

definition val_security_state_change :: "u64 \<Rightarrow> el3_state \<Rightarrow> el3_state" where
  "val_security_state_change attr_nse_ns s =
     (let scr_data = scr_el3 s AND (NOT (push_bit 62 1) AND NOT (push_bit 0 1)) in
      s\<lparr>scr_el3 := scr_data OR (push_bit 62 (NSE_SET attr_nse_ns) OR push_bit 0 (NS_SET attr_nse_ns))\<rparr>)"

text \<open>The SMMU driver works in the memory of EL3.\<close>

definition with_smmus :: "(smmu_world \<Rightarrow> (u32 \<times> smmu_world) option) \<Rightarrow> el3_world \<Rightarrow> outcome" where
  "with_smmus f w =
     (case f ((smmus w)\<lparr>pool := (pool (smmus w))\<lparr>pool_mem := el3_mem (el3 w)\<rparr>\<rparr>) of
        None \<Rightarrow> Stuck
      | Some (_, sw) \<Rightarrow> Done (store_mem (\<lambda>_. pool_mem (pool sw)) (w\<lparr>smmus := sw\<rparr>)))"

text \<open>Mapping passes a structure in which only the stream and the bypass flag were set, and page table
  attributes without the inner cacheability; the address sizes it also computes are not used by the
  mapping.\<close>

definition val_smmu_root_config_service :: "el3_env \<Rightarrow> u64 \<Rightarrow> u32 \<Rightarrow> el3_world \<Rightarrow> outcome" where
  "val_smmu_root_config_service env reg_config smmu_info w =
     (if reg_config = 1 then
        let a = root_smmu_base env + (smmu_root_offset env + 0) in
        if shared_data_access (shared_data w) = [] then Stuck
        else load_el3 env a (\<lambda>m. ucast (ld32 m a)) (\<lambda>v w1. Done (set_access_data 0 v w1)) w
      else if reg_config = 2 then
        with_smmus (val_smmu_init (smmu_tick env) (free_mem_smmu env) (root_smmu_base env) smmu_info) w
      else if reg_config = 3 then
        load_el3 env (root_smmu_base env + 0x14) (\<lambda>m. ucast (ld32 m (root_smmu_base env + 0x14))) (\<lambda>idr5.
        with_smmus (val_smmu_rlm_map (smmu_tick env) (free_mem_smmu env)
          ((junk_attr env)\<lparr>streamid := smmu_info, bypass := 1\<rparr>)
          \<lparr>pgt_base = ttbr_el3 (el3 w) AND push_bit 1 (push_bit 47 1 - 1), pgt_mair = mair_el3 (el3 w),
           pgt_tcr = val_get_tcr_info (el3 w), pgt_irgn = junk_irgn env\<rparr>)) w
      else Done w)"

section \<open>Dispatch\<close>

definition root_watchdog_service :: "el3_env \<Rightarrow> u64 \<Rightarrow> u64 \<Rightarrow> u64 \<Rightarrow> el3_world \<Rightarrow> outcome" where
  "root_watchdog_service env arg0 arg1 arg2 w =
     (let w1 = (if generic_flag (shared_data w) \<noteq> 0 then expect_fault (on_el3 (emit Set_daif) w) else w)
      in andthen (val_wd_set_ws0_el3 env arg0 (ucast arg1) arg2 w1)
           (\<lambda>w2. Done (on_shared (\<lambda>sd. sd\<lparr>generic_flag := CLEAR\<rparr>) w2)))"

text \<open>\<open>fuel\<close> bounds the recursion of \<^verbatim>\<open>add_mmu_entry\<close> that maps new tables.\<close>

definition plat_arm_acs_smc_handler :: "el3_env \<Rightarrow> nat \<Rightarrow> u64 \<Rightarrow> u64 \<Rightarrow> u64 \<Rightarrow> u64 \<Rightarrow> el3_world \<Rightarrow> outcome" where
  "plat_arm_acs_smc_handler env fuel services arg0 arg1 arg2 w =
     (if services = 0x1 then Done (rme_install_handler env w)
      else if services = 0x2 then
        (case add_gpt_entry (el3 w) arg0 arg1 of None \<Rightarrow> Stuck | Some s \<Rightarrow> Done (w\<lparr>el3 := emit Tlbi_paallos s\<rparr>))
      else if services = 0x3 then
        (case add_mmu_entry fuel (at_s1e3w env) (el3 w) arg0 arg1 arg2 of
           None \<Rightarrow> Stuck | Some s \<Rightarrow> Done (w\<lparr>el3 := emit (Tlbi_vae3 arg0) s\<rparr>))
      else if services = 0x4 then Done w
      else if services = 0x5 then
        (let _ = modify_desc arg0 63 (NSE_SET arg1) 1; _ = modify_desc arg0 62 (NS_SET arg1) 1
         in Done (on_el3 (emit (Cmo_cipapa arg0)) w))
      else if services = 0x6 then access_mut env w
      else if services = 0x8 then Done (on_el3 (val_data_cache_ops_by_va_el3 arg0 (ucast arg1)) w)
      else if services = 0x7 then val_memory_set_el3 env arg0 (ucast arg1) (ucast arg2) w
      else if services = 0x9 then
        Done (on_el3 (if arg0 = SET then val_enable_ns_encryption else val_disable_ns_encryption) w)
      else if services = 0xA then (if arg0 = SET then val_pe_reg_list_cmp_msd w else val_pe_reg_read_msd w)
      else if services = 0xB then Done (on_el3 (val_prog_legacy_tz arg0) w)
      else if services = 0xC then root_watchdog_service env arg0 arg1 arg2 w
      else if services = 0xD then Done (on_el3 (val_pas_filter_active_mode arg0) w)
      else if services = 0xE then val_smmu_access_disable env w
      else if services = 0xF then Done (on_el3 (val_security_state_change arg0) w)
      else if services = 0x10 then val_smmu_root_config_service env arg0 (ucast arg1) w
      else Done w)"


section \<open>The exception handler\<close>

text \<open>How an access of EL3 ends, in terms of the flags of the shared data when it starts.\<close>

lemma shared_exception_entry [simp]: "shared_data (exception_entry off esr pc spsr w) = shared_data w"
  by (simp add: exception_entry_def on_el3_def)

lemma shared_store_mem [simp]: "shared_data (store_mem f w) = shared_data w"
  by (simp add: store_mem_def on_el3_def)

lemma shared_on_el3 [simp]: "shared_data (on_el3 f w) = shared_data w"
  by (simp add: on_el3_def)

lemma el3_on_shared [simp]: "el3 (on_shared f w) = el3 w"
  by (simp add: on_shared_def)

lemma entry_registers [simp]:
  "esr_el3 (el3 (exception_entry off esr pc spsr w)) = esr"
  "elr_el3 (el3 (exception_entry off esr pc spsr w)) = pc"
  "spsr_el3 (el3 (exception_entry off esr pc spsr w)) = spsr"
  "vbar_el3 (el3 (exception_entry off esr pc spsr w)) = vbar_el3 (el3 w)"
  by (simp_all add: exception_entry_def on_el3_def store64_def)

lemma entry_mem:
  "el3_mem (el3 (exception_entry off esr pc spsr w)) =
     st64 (el3_mem (el3 w)) (ARM_TF_SHARED_ADDRESS + 8) (ld64 (el3_mem (el3 w)) ARM_TF_SHARED_ADDRESS + off)"
  by (simp add: exception_entry_def on_el3_def store64_def)

lemma el3_access_no_fault: "\<not> gpf env a \<Longrightarrow> el3_access env (Suc n) a esr eff w = Done (eff w)"
  by simp

lemma el3_access_expected:
  assumes "gpf env a" and "exception_expected (shared_data w) = SET" and "access_mut_flag (shared_data w) = CLEAR"
  shows "el3_access env (Suc n) a esr eff w =
    Done (on_el3 (\<lambda>s. s\<lparr>elr_el3 := elr_el3 s + 4\<rparr>)
      ((exception_entry 0x200 esr (fault_pc env) (fault_spsr env) w)\<lparr>shared_data := (shared_data w)\<lparr>
         exception_generated := (if esr = GPF_ESR_READ \<or> esr = GPF_ESR_WRITE then SET
                                 else exception_generated (shared_data w)),
         exception_expected := CLEAR\<rparr>\<rparr>))"
  using assms by (simp add: ack_handler_el3_def)

lemma el3_access_unexpected:
  assumes "gpf env a" and "access_mut_flag (shared_data w) \<noteq> SET"
    and "exception_expected (shared_data w) \<noteq> SET \<or> access_mut_flag (shared_data w) \<noteq> CLEAR"
  shows "\<exists>t w'. el3_access env (Suc n) a esr eff w = Firmware t w'"
  using assms by (auto simp: ack_handler_el3_def)

lemma el3_access_mut_clear:
  assumes "access_mut_flag (shared_data w) \<noteq> SET"
  shows "el3_access env (Suc n) a esr eff w \<noteq> Stuck"
    and "el3_access env (Suc n) a esr eff w = el3_access env (Suc m) a esr eff w"
  using assms by (auto simp: ack_handler_el3_def Let_def)

lemma el3_access_keeps_clear:
  assumes "access_mut_flag (shared_data w) \<noteq> SET" and "el3_access env (Suc n) a esr eff w = Done w'"
    and "\<And>v. access_mut_flag (shared_data (eff v)) = access_mut_flag (shared_data v)"
  shows "access_mut_flag (shared_data w') \<noteq> SET"
  using assms by (auto simp: ack_handler_el3_def Let_def split: if_splits)

text \<open>The handler itself: it accesses memory only after it has cleared \<open>access_mut_flag\<close>.\<close>

lemma resume_saved_cases:
  assumes "x \<noteq> Stuck" and "\<And>w'. x = Done w' \<Longrightarrow> access_mut_flag (shared_data w') \<noteq> SET"
  shows "(\<exists>v. resume_saved x = Resume v \<and> access_mut_flag (shared_data v) \<noteq> SET) \<or>
    (\<exists>t v. resume_saved x = Branch t v)"
  using assms by (cases x) auto

lemma access_after_clear:
  assumes "access_mut_flag (shared_data v) \<noteq> SET"
    and "\<And>v. access_mut_flag (shared_data (eff v)) = access_mut_flag (shared_data v)"
  shows "(\<exists>u. resume_saved (el3_access env (Suc n) a esr eff v) = Resume u \<and>
      access_mut_flag (shared_data u) \<noteq> SET) \<or>
    (\<exists>t u. resume_saved (el3_access env (Suc n) a esr eff v) = Branch t u)"
proof (rule resume_saved_cases)
  show "el3_access env (Suc n) a esr eff v \<noteq> Stuck" by (rule el3_access_mut_clear(1) [OF assms(1)])
  show "access_mut_flag (shared_data w') \<noteq> SET" if "el3_access env (Suc n) a esr eff v = Done w'" for w'
    by (rule el3_access_keeps_clear [OF assms(1) that assms(2)])
qed

lemma ack_handler_mut:
  assumes "access_mut_flag (shared_data v) = SET"
  shows "(\<exists>u. ack_handler_el3 (el3_access env (Suc n)) v = Resume u \<and> access_mut_flag (shared_data u) \<noteq> SET) \<or>
    (\<exists>t u. ack_handler_el3 (el3_access env (Suc n)) v = Branch t u)"
  using assms unfolding ack_handler_el3_def Let_def
  by (simp del: el3_access.simps add: access_after_clear)

lemma ack_handler_levels:
  "ack_handler_el3 (el3_access env (Suc n)) v = ack_handler_el3 (el3_access env (Suc 0)) v"
proof -
  have "el3_access env (Suc n) a esr eff u = el3_access env (Suc 0) a esr eff u"
    if "access_mut_flag (shared_data u) = CLEAR" for a esr eff u
    by (rule el3_access_mut_clear(2)) (simp add: that)
  then show ?thesis unfolding ack_handler_el3_def Let_def by (simp del: el3_access.simps)
qed


lemma mem_access_no_fault: "\<not> gpf env a \<Longrightarrow> mem_access env a esr eff w = Done (eff w)"
  unfolding mem_access_def numeral_2_eq_2 by (rule el3_access_no_fault)

lemma mem_access_expected:
  assumes "gpf env a" and "exception_expected (shared_data w) = SET" and "access_mut_flag (shared_data w) = CLEAR"
  shows "mem_access env a esr eff w =
    Done (on_el3 (\<lambda>s. s\<lparr>elr_el3 := elr_el3 s + 4\<rparr>)
      ((exception_entry 0x200 esr (fault_pc env) (fault_spsr env) w)\<lparr>shared_data := (shared_data w)\<lparr>
         exception_generated := (if esr = GPF_ESR_READ \<or> esr = GPF_ESR_WRITE then SET
                                 else exception_generated (shared_data w)),
         exception_expected := CLEAR\<rparr>\<rparr>))"
  unfolding mem_access_def numeral_2_eq_2 by (rule el3_access_expected [OF assms])

text \<open>Outside the two words of the firmware's vector, a store of the entry does not touch memory.\<close>

lemma entry_mem_outside:
  assumes "8 \<le> unat (x - (ARM_TF_SHARED_ADDRESS + 8))"
  shows "el3_mem (el3 (exception_entry off esr pc spsr w)) x = el3_mem (el3 w) x"
  unfolding entry_mem by (rule st64_outside [OF assms])

text \<open>The path of the handler that performs the access of a test.\<close>

lemma lower_el_fault:
  assumes "access_mut_flag (shared_data w) = SET" and "exception_expected (shared_data w) = SET"
    and "pas_filter_flag (shared_data w) \<noteq> SET" and "exception_generated (shared_data w) = CLEAR"
    and "apart 16 8 ARM_TF_SHARED_ADDRESS (sd_arg1 (shared_data w))"
  shows "\<exists>w'. lower_el_exception env esr pc spsr w = Resume w' \<and>
    elr_el3 (el3 w') = pc \<and> spsr_el3 (el3 w') = spsr \<and>
    (exception_generated (shared_data w') = SET \<longleftrightarrow> gpf env (sd_arg1 (shared_data w))) \<and>
    (exception_expected (shared_data w') = SET \<longleftrightarrow> \<not> gpf env (sd_arg1 (shared_data w))) \<and>
    access_mut_flag (shared_data w') = CLEAR \<and>
    ld64 (el3_mem (el3 w')) (sd_arg1 (shared_data w)) =
      (if gpf env (sd_arg1 (shared_data w)) then ld64 (el3_mem (el3 w)) (sd_arg1 (shared_data w)) else TEST_DATA)"
proof -
  define a where "a = sd_arg1 (shared_data w)"
  have ap: "apart 8 8 (ARM_TF_SHARED_ADDRESS + 8) a"
    using apart_sub [OF assms(5), of 8 8] by (simp add: a_def)
  show ?thesis
  proof (cases "gpf env a")
    case True
    then show ?thesis
      using assms ap
      by (simp add: lower_el_exception_def ack_handler_el3_def Let_def mem_access_expected a_def [symmetric]
         on_el3_def entry_mem c64.ld_st_apart)
  next
    case False
    then show ?thesis
      using assms ap
      by (simp add: lower_el_exception_def ack_handler_el3_def Let_def mem_access_no_fault a_def [symmetric]
         on_el3_def store_mem_def entry_mem c64.ld_st_same)
  qed
qed

text \<open>(C3) The fault oracle of the tests. With an access requested and an exception expected, an exception
  of a lower level makes the handler store the test pattern at the address the test gave, and return to
  the instruction that raised the exception, with its state. The shared data reports an exception exactly
  when that address takes a granule protection fault (given that none was reported before); the pattern
  is stored exactly when it does not; the request is cleared.\<close>

theorem lower_el_fault_oracle:
  assumes "access_mut_flag (shared_data w) = SET" and "exception_expected (shared_data w) = SET"
    and "pas_filter_flag (shared_data w) \<noteq> SET" and "exception_generated (shared_data w) = CLEAR"
    and "apart 16 8 ARM_TF_SHARED_ADDRESS (sd_arg1 (shared_data w))"
  shows "\<exists>w'. lower_el_exception env esr pc spsr w = Resume w' \<and>
    elr_el3 (el3 w') = pc \<and> spsr_el3 (el3 w') = spsr \<and>
    (exception_generated (shared_data w') = SET \<longleftrightarrow> gpf env (sd_arg1 (shared_data w))) \<and>
    (exception_expected (shared_data w') = SET \<longleftrightarrow> \<not> gpf env (sd_arg1 (shared_data w))) \<and>
    access_mut_flag (shared_data w') = CLEAR \<and>
    ld64 (el3_mem (el3 w')) (sd_arg1 (shared_data w)) =
      (if gpf env (sd_arg1 (shared_data w)) then ld64 (el3_mem (el3 w)) (sd_arg1 (shared_data w)) else TEST_DATA)"
  using assms by (rule lower_el_fault)

text \<open>A world for the witnesses.\<close>

definition example_el3 :: el3_world where
  "example_el3 = \<lparr>el3 = \<lparr>el3_mem = (\<lambda>_. 0), gpccr_el3 = 0, gptbr_el3 = 0, tcr_el3 = 0, ttbr_el3 = 0,
      scr_el3 = 0x4000000000000401, sctlr_el3 = 1, sctlr_el2 = 0, mair_el3 = 0, esr_el3 = 0, elr_el3 = 0,
      spsr_el3 = 0, vbar_el3 = 0x1000, free_pa = 0, trace = []\<rparr>,
    shared_data = \<lparr>sd_elr_el3 = 0, sd_spsr_el3 = 0, exception_expected = 1, exception_generated = 0,
      access_mut_flag = 1, sd_arg1 = 0x880300000, num_access = 2, pas_filter_flag = 0, generic_flag = 0, num_regs = 2,
      reg_list = [(5, 0), (7, 0), (1, 0)],
      shared_data_access = [\<lparr>access_type = 1, acc_addr = 0x1000, acc_data = 0x12345678\<rparr>,
        \<lparr>access_type = 0, acc_addr = 0x1000, acc_data = 0\<rparr>]\<rparr>,
    smmus = example_world\<rparr>"

definition example_env :: el3_env where
  "example_env = \<lparr>at_s1e3w = (\<lambda>s va. 0), gpf = (\<lambda>a. a = 0x880300000 \<or> a = 0x2A490008), fault_pc = 0x400, fault_spsr = 0x3C9,
    skipped_load = 0, exception_handler_user = 0x2000, smmu_tick = (\<lambda>m. m), free_mem_smmu = 0x880400000,
    root_smmu_base = 0x2b400000, smmu_root_offset = 0x20000, junk_attr = example_attr, junk_irgn = 0\<rparr>"

theorem lower_el_fault_oracle_witness:
  "\<exists>w'. lower_el_exception example_env 0x96000028 0x8000 0x3C9 example_el3 = Resume w' \<and>
    elr_el3 (el3 w') = 0x8000 \<and> spsr_el3 (el3 w') = 0x3C9 \<and>
    exception_generated (shared_data w') = SET \<and> exception_expected (shared_data w') \<noteq> SET \<and>
    access_mut_flag (shared_data w') = CLEAR \<and> ld64 (el3_mem (el3 w')) 0x880300000 = 0"
proof -
  have pr: "access_mut_flag (shared_data example_el3) = SET" "exception_expected (shared_data example_el3) = SET"
    "pas_filter_flag (shared_data example_el3) \<noteq> SET" "exception_generated (shared_data example_el3) = CLEAR"
    "apart 16 8 ARM_TF_SHARED_ADDRESS (sd_arg1 (shared_data example_el3))"
    by (simp_all add: example_el3_def apart_def)
  show ?thesis
    using lower_el_fault_oracle [OF pr, of example_env "0x96000028" "0x8000" "0x3C9"]
    by (simp add: example_el3_def example_env_def ld64_def ld32_def)
qed

text \<open>Installing the handler and chaining to the firmware are inverse: after
  \<^verbatim>\<open>rme_install_handler\<close> an exception of a lower level that no test expects reaches the entry of the
  table the firmware had installed, with the shared data and the memory of the tests as they were.\<close>

theorem installed_handler_chains:
  assumes "exception_expected (shared_data w) \<noteq> SET" and "access_mut_flag (shared_data w) \<noteq> SET"
  shows "\<exists>w'. lower_el_exception env esr pc spsr (rme_install_handler env w) = Branch (vbar_el3 (el3 w) + 0x400) w' \<and>
    shared_data w' = shared_data w \<and> vbar_el3 (el3 w') = exception_handler_user env \<and>
    elr_el3 (el3 w') = pc \<and> spsr_el3 (el3 w') = spsr \<and> esr_el3 (el3 w') = esr \<and>
    (\<forall>x. 16 \<le> unat (x - ARM_TF_SHARED_ADDRESS) \<longrightarrow> el3_mem (el3 w') x = el3_mem (el3 w) x)"
proof -
  have out: "8 \<le> unat (x - ARM_TF_SHARED_ADDRESS)" "8 \<le> unat (x - (ARM_TF_SHARED_ADDRESS + 8))"
    if "16 \<le> unat (x - ARM_TF_SHARED_ADDRESS)" for x
  proof -
    show "8 \<le> unat (x - ARM_TF_SHARED_ADDRESS)" using that by linarith
    have "unat ((x - ARM_TF_SHARED_ADDRESS) - 8) = unat (x - ARM_TF_SHARED_ADDRESS) - 8"
      using that unat_sub [of 8 "x - ARM_TF_SHARED_ADDRESS"] by (simp add: word_le_nat_alt)
    then have "unat (x - (ARM_TF_SHARED_ADDRESS + 8)) = unat (x - ARM_TF_SHARED_ADDRESS) - 8"
      by (simp only: diff_diff_eq)
    then show "8 \<le> unat (x - (ARM_TF_SHARED_ADDRESS + 8))" using that by linarith
  qed
  show ?thesis
    using assms out
    by (simp add: lower_el_exception_def ack_handler_el3_def Let_def rme_install_handler_def on_el3_def entry_mem
       c64.ld_st_same c64.ld_st_apart apart_def st64_outside)
qed

theorem installed_handler_chains_witness:
  "\<exists>w'. lower_el_exception example_env 0x5E000000 0x8000 0x3C9
      (rme_install_handler example_env (on_shared (\<lambda>sd. sd\<lparr>exception_expected := 0, access_mut_flag := 0\<rparr>) example_el3)) =
    Branch 0x1400 w' \<and> vbar_el3 (el3 w') = 0x2000"
  using installed_handler_chains [of "on_shared (\<lambda>sd. sd\<lparr>exception_expected := 0, access_mut_flag := 0\<rparr>) example_el3"
      example_env "0x5E000000" "0x8000" "0x3C9"]
  by (auto simp: example_el3_def example_env_def on_shared_def)

section \<open>Security state and registers\<close>

lemma NSE_NS_bits: "bit (NSE_SET x) n \<longleftrightarrow> n = 0 \<and> x \<noteq> 0 \<and> x \<noteq> 1" "bit (NS_SET x) n \<longleftrightarrow> n = 0 \<and> x \<noteq> 2 \<and> x \<noteq> 0"
  by (auto simp: NSE_SET_def NS_SET_def bit_1_iff)

text \<open>The security state service changes the two bits of \<^verbatim>\<open>SCR_EL3\<close> that select the state and no
  other bit and no other register; the bits are the PAS encoding of the argument, with any value beyond
  the encodings taken as Realm.\<close>

theorem security_state_change_bits:
  "bit (scr_el3 (val_security_state_change attr s)) i =
     (if i = 62 then attr \<noteq> 0 \<and> attr \<noteq> 1 else if i = 0 then attr \<noteq> 0 \<and> attr \<noteq> 2 else bit (scr_el3 s) i) \<and>
   (val_security_state_change attr s)\<lparr>scr_el3 := scr_el3 s\<rparr> = s \<and>
   2 * NSE_SET attr + NS_SET attr = (if attr \<le> 3 then attr else 3)"
proof -
  have "bit (scr_el3 (val_security_state_change attr s)) i =
      (if i = 62 then attr \<noteq> 0 \<and> attr \<noteq> 1 else if i = 0 then attr \<noteq> 0 \<and> attr \<noteq> 2 else bit (scr_el3 s) i)"
  proof -
    have p: "bit (push_bit k 1 :: u64) i \<longleftrightarrow> i = k \<and> i < 64" for k
      unfolding bit_push_bit_iff bit_1_iff by auto
    have q: "bit (push_bit 62 (NSE_SET attr)) i \<longleftrightarrow> i = 62 \<and> attr \<noteq> 0 \<and> attr \<noteq> 1"
      "bit (push_bit 0 (NS_SET attr)) i \<longleftrightarrow> i = 0 \<and> attr \<noteq> 0 \<and> attr \<noteq> 2"
      unfolding bit_push_bit_iff NSE_NS_bits by auto
    have "bit (scr_el3 s) i \<Longrightarrow> i < 64" using bit_imp_le_length [of "scr_el3 s" i] by simp
    moreover have "scr_el3 (val_security_state_change attr s) =
        (scr_el3 s AND (NOT (push_bit 62 1) AND NOT (push_bit 0 1))) OR
          (push_bit 62 (NSE_SET attr) OR push_bit 0 (NS_SET attr))"
      by (simp add: val_security_state_change_def)
    ultimately show ?thesis by (simp only: bit_or_iff bit_and_iff bit_not_iff p q) auto
  qed
  moreover have "2 * NSE_SET attr + NS_SET attr = (if attr \<le> 3 then attr else 3)"
  proof (cases "attr \<le> 3")
    case True
    then have "unat attr \<le> 3" by (simp add: word_le_nat_alt)
    then have "unat attr = 0 \<or> unat attr = 1 \<or> unat attr = 2 \<or> unat attr = 3" by linarith
    then have "attr = 0 \<or> attr = 1 \<or> attr = 2 \<or> attr = 3" by (simp add: word_unat_eq_iff)
    then show ?thesis by (auto simp: NSE_SET_def NS_SET_def)
  next
    case False
    then have "attr \<noteq> 0" "attr \<noteq> 1" "attr \<noteq> 2" by auto
    with False show ?thesis by (simp add: NSE_SET_def NS_SET_def)
  qed
  ultimately show ?thesis by (simp add: val_security_state_change_def)
qed

text \<open>Saving the listed registers and comparing them later: after the save of the state \<open>el3 w\<close>, the
  comparison in a later state raises the flag exactly when one of the first \<^verbatim>\<open>num_regs\<close> listed registers
  has another value, and leaves the shared data alone otherwise.\<close>

theorem saved_registers_compared:
  assumes "nat (sint (num_regs (shared_data w))) \<le> length (reg_list (shared_data w))"
  shows "\<exists>w1. plat_arm_acs_smc_handler env fuel 0xA 0 x y w = Done w1 \<and> el3 w1 = el3 w \<and>
    map fst (reg_list (shared_data w1)) = map fst (reg_list (shared_data w)) \<and>
    plat_arm_acs_smc_handler env fuel 0xA 1 x y (w1\<lparr>el3 := s\<rparr>) =
      Done (if \<exists>r\<in>set (map fst (take (nat (sint (num_regs (shared_data w)))) (reg_list (shared_data w)))).
              val_pe_reg_read r s \<noteq> val_pe_reg_read r (el3 w)
            then on_shared (\<lambda>sd. sd\<lparr>generic_flag := SET\<rparr>) (w1\<lparr>el3 := s\<rparr>) else w1\<lparr>el3 := s\<rparr>)"
proof -
  define n where "n = nat (sint (num_regs (shared_data w)))"
  define l where "l = reg_list (shared_data w)"
  define saved where "saved = map (\<lambda>(r, v). (r, val_pe_reg_read r (el3 w))) (take n l) @ drop n l"
  have len: "length saved = length l" using assms by (simp add: saved_def n_def l_def)
  have "take n saved = map (\<lambda>(r, v). (r, val_pe_reg_read r (el3 w))) (take n l)"
    using assms by (simp add: saved_def n_def l_def)
  then have diff: "0 < length (filter (\<lambda>(r, v). v \<noteq> val_pe_reg_read r s) (take n saved)) \<longleftrightarrow>
      (\<exists>r\<in>set (map fst (take n l)). val_pe_reg_read r s \<noteq> val_pe_reg_read r (el3 w))"
    by (force simp: filter_empty_conv)
  have names: "map fst saved = map fst l"
  proof -
    have "map fst saved = map fst (take n l) @ map fst (drop n l)" by (simp add: saved_def split_def)
    then show ?thesis by (metis append_take_drop_id map_append)
  qed
  show ?thesis
    using assms len diff names unfolding plat_arm_acs_smc_handler_def
    by (auto simp: val_pe_reg_read_msd_def val_pe_reg_list_cmp_msd_def Let_def on_shared_def
       n_def [symmetric] l_def [symmetric] saved_def [symmetric])
qed

theorem saved_registers_compared_witness:
  "\<exists>w1. plat_arm_acs_smc_handler example_env 0 0xA 0 0 0 example_el3 = Done w1 \<and>
    plat_arm_acs_smc_handler example_env 0 0xA 1 0 0 (w1\<lparr>el3 := (el3 example_el3)\<lparr>scr_el3 := 0\<rparr>\<rparr>) =
      Done (on_shared (\<lambda>sd. sd\<lparr>generic_flag := SET\<rparr>) (w1\<lparr>el3 := (el3 example_el3)\<lparr>scr_el3 := 0\<rparr>\<rparr>))"
  using saved_registers_compared [of example_el3 example_env 0 0 0 "(el3 example_el3)\<lparr>scr_el3 := 0\<rparr>"]
  by (auto simp: example_el3_def val_pe_reg_read_def)

section \<open>Root watchdog\<close>

text \<open>What an expected fault leaves behind: the report in the shared data, and memory unchanged outside
  the word that notes the entry of the firmware.\<close>

definition only_reported :: "el3_world \<Rightarrow> el3_world \<Rightarrow> bool" where
  "only_reported w w' \<longleftrightarrow>
     shared_data w' = (shared_data w)\<lparr>exception_generated := SET, exception_expected := CLEAR, access_mut_flag := CLEAR\<rparr> \<and>
     (\<forall>x. 8 \<le> unat (x - (ARM_TF_SHARED_ADDRESS + 8)) \<longrightarrow> el3_mem (el3 w') x = el3_mem (el3 w) x)"

lemma only_reported_trans: "only_reported w w' \<Longrightarrow> only_reported w' w'' \<Longrightarrow> only_reported w w''"
  by (auto simp: only_reported_def)

lemma mem_access_denied:
  assumes "gpf env a" and "exception_expected (shared_data w) = SET" and "access_mut_flag (shared_data w) = CLEAR"
    and "esr = GPF_ESR_READ \<or> esr = GPF_ESR_WRITE"
  shows "\<exists>w'. mem_access env a esr eff w = Done w' \<and> only_reported w w'"
proof -
  have "shared_data w = (shared_data w)\<lparr>access_mut_flag := CLEAR\<rparr>" using assms(3) by simp
  then have "(shared_data w)\<lparr>exception_generated := SET, exception_expected := CLEAR\<rparr> =
      (shared_data w)\<lparr>exception_generated := SET, exception_expected := CLEAR, access_mut_flag := CLEAR\<rparr>"
    using assms(3) by (cases "shared_data w") simp
  then show ?thesis
    using assms(4) entry_mem_outside unfolding mem_access_expected [OF assms(1-3)] only_reported_def
    by (auto simp: on_el3_def)
qed

lemma denied_write:
  assumes "gpf env a" and "generic_flag (shared_data w) \<noteq> 0"
  shows "\<exists>w'. write64 env a v (expect_fault w) = Done w' \<and> only_reported w w'"
proof -
  have "\<exists>w'. write64 env a v (expect_fault w) = Done w' \<and> only_reported (expect_fault w) w'"
    unfolding write64_def using assms(2)
    by (intro mem_access_denied [OF assms(1)]) (simp_all add: expect_fault_def on_shared_def)
  then show ?thesis using assms(2) by (auto simp: only_reported_def expect_fault_def on_shared_def)
qed

lemma only_reported_generic: "only_reported w w' \<Longrightarrow> generic_flag (shared_data w') = generic_flag (shared_data w)"
  by (simp add: only_reported_def)

text \<open>(C19) A watchdog frame that EL3 is denied is never programmed: with the fault expected
  (\<^verbatim>\<open>generic_flag\<close>) and every register of the frame faulting, the service ends, reports the exception,
  clears the flag, and leaves all memory outside the firmware's words as it was.\<close>

theorem denied_watchdog_untouched:
  assumes "generic_flag (shared_data w) \<noteq> 0" and "ucast timeout \<noteq> (0 :: u32)"
    and "gpf env base" and "gpf env (base + 8)" and "gpf env (base + 12)" and "gpf env (base + 0xFCC)"
  shows "\<exists>w'. plat_arm_acs_smc_handler env fuel 0xC base timeout freq w = Done w' \<and>
    exception_generated (shared_data w') = SET \<and> generic_flag (shared_data w') = CLEAR \<and>
    (\<forall>x. 8 \<le> unat (x - (ARM_TF_SHARED_ADDRESS + 8)) \<longrightarrow> el3_mem (el3 w') x = el3_mem (el3 w) x)"
proof -
  define w0 where "w0 = expect_fault (on_el3 (emit Set_daif) w)"
  have "exception_expected (shared_data w0) = SET" "access_mut_flag (shared_data w0) = CLEAR"
    using assms(1) by (simp_all add: w0_def expect_fault_def on_shared_def on_el3_def)
  from mem_access_denied [OF assms(6) this, of GPF_ESR_READ id]
  obtain w1 where w1: "mem_access env (base + 0xFCC) GPF_ESR_READ id w0 = Done w1" "only_reported w0 w1" by auto
  have g0: "generic_flag (shared_data w0) \<noteq> 0" using assms(1) by (simp add: w0_def expect_fault_def on_shared_def on_el3_def)
  have g1: "generic_flag (shared_data w1) \<noteq> 0" using only_reported_generic [OF w1(2)] g0 by simp
  define lo hi where "lo = (ucast (ucast (freq * ucast (ucast timeout :: u32)) :: u32) :: u64)"
    and "hi = (ucast (ucast (drop_bit 32 (freq * ucast (ucast timeout :: u32))) :: u32) :: u64)"
  obtain w2 where w2: "write64 env (base + 8) lo (expect_fault w1) = Done w2" "only_reported w1 w2"
    using denied_write [OF assms(4) g1] by blast
  have g2: "generic_flag (shared_data w2) \<noteq> 0" using only_reported_generic [OF w2(2)] g1 by simp
  define data where "data = (ucast (VAL_EXTRACT_BITS (skipped_load env) 16 19) :: u32)"
  obtain w3 where w3: "(if data = 1 then write64 env (base + 12) hi (expect_fault w2) else Done w2) = Done w3"
    "w3 = w2 \<or> only_reported w2 w3"
    using denied_write [OF assms(5) g2, of hi] by (cases "data = 1") auto
  have g3: "generic_flag (shared_data w3) \<noteq> 0" using only_reported_generic [of w2 w3] w3(2) g2 by auto
  obtain w4 where w4: "write64 env base 1 (expect_fault w3) = Done w4" "only_reported w3 w4"
    using denied_write [OF assms(3) g3] by blast
  have "only_reported w0 w4" using w1(2) w2(2) w3(2) w4(2) only_reported_trans by blast
  moreover have "plat_arm_acs_smc_handler env fuel 0xC base timeout freq w =
      Done (on_shared (\<lambda>sd. sd\<lparr>generic_flag := CLEAR\<rparr>) w4)"
    using assms(1,2,6) w1(1) w2(1) w3(1) w4(1)
    by (cases "data = 1") (simp_all add: plat_arm_acs_smc_handler_def root_watchdog_service_def w0_def [symmetric] val_wd_set_ws0_el3_def
       load_el3_def Let_def data_def [symmetric] lo_def [symmetric] hi_def [symmetric] val_wd_enable_def)
  ultimately show ?thesis
    by (simp add: only_reported_def on_shared_def w0_def expect_fault_def on_el3_def)
qed

theorem denied_watchdog_untouched_witness:
  "\<exists>w'. plat_arm_acs_smc_handler (example_env\<lparr>gpf := \<lambda>_. True\<rparr>) 0 0xC 0x2A490000 5 0x5F5E100
      (on_shared (\<lambda>sd. sd\<lparr>generic_flag := 1\<rparr>) example_el3) = Done w' \<and>
    exception_generated (shared_data w') = SET \<and> el3_mem (el3 w') 0x2A490000 = 0"
proof -
  let ?w = "on_shared (\<lambda>sd. sd\<lparr>generic_flag := 1\<rparr>) example_el3"
  have pr: "generic_flag (shared_data ?w) \<noteq> 0" "ucast (5 :: u64) \<noteq> (0 :: u32)"
    "gpf (example_env\<lparr>gpf := \<lambda>_. True\<rparr>) a" for a
    by (simp_all add: on_shared_def)
  obtain w' where "plat_arm_acs_smc_handler (example_env\<lparr>gpf := \<lambda>_. True\<rparr>) 0 0xC 0x2A490000 5 0x5F5E100 ?w = Done w'"
    "exception_generated (shared_data w') = SET"
    "\<forall>x. 8 \<le> unat (x - (ARM_TF_SHARED_ADDRESS + 8)) \<longrightarrow> el3_mem (el3 w') x = el3_mem (el3 ?w) x"
    using denied_watchdog_untouched [OF pr(1,2) pr(3) pr(3) pr(3) pr(3), of 0 "0x2A490000" "0x5F5E100"] by blast
  then show ?thesis by (auto simp: example_el3_def)
qed

text \<open>Two 64-bit stores of halves build a 64-bit value.\<close>

lemma ld64_of_halves:
  assumes "ld32 m a = ucast (p :: u64)" and "ld32 m (a + 4) = ucast (drop_bit 32 p)"
  shows "ld64 m a = p"
  unfolding ld64_def assms by (rule halves_of_word64)

lemma ucast32_take_bit: "(ucast (ucast (x :: u64) :: u32) :: u64) = take_bit 32 x"
  by (rule bit_word_eqI) (auto simp: bit_ucast_iff bit_take_bit_iff)

lemma version_field: "ucast (VAL_EXTRACT_BITS (x :: u64) 16 19) = (1 :: u32) \<longleftrightarrow> VAL_EXTRACT_BITS x 16 19 = 1"
proof -
  have "unat (VAL_EXTRACT_BITS x 16 19) < 2 ^ 4"
    using unat_take_bit_less [of 4 "drop_bit 16 x"] by (simp add: VAL_EXTRACT_BITS_def take_bit_eq_mask)
  then have "unat (ucast (VAL_EXTRACT_BITS x 16 19) :: u32) = unat (VAL_EXTRACT_BITS x 16 19)"
    by (simp add: unsigned_ucast_eq take_bit_nat_eq_self)
  then show ?thesis by (simp add: word_unat_eq_iff)
qed

lemma unat_offset_ge:
  assumes "j + n \<le> unat (x - b)" and "j < 2 ^ 64"
  shows "n \<le> unat (x - (b + of_nat j :: u64))"
proof -
  have u: "unat (of_nat j :: u64) = j" using assms(2) by (simp add: unat_of_nat_small)
  have "unat ((x - b) - of_nat j) = unat (x - b) - j"
    using assms(1) u unat_sub [of "of_nat j" "x - b"] by (simp add: word_le_nat_alt)
  then show ?thesis using assms(1) by (simp add: diff_diff_eq)
qed

lemma watchdog_frame:
  assumes "m1 = st64 m (base + 8) (ucast (ucast (p :: u64) :: u32))"
    and "m2 = (if v then st64 m1 (base + 12) (ucast (ucast (drop_bit 32 p) :: u32)) else m1)"
    and "m3 = st64 m2 base 1"
  shows "ld64 m3 base = 1" and "ld64 m3 (base + 8) = (if v then p else take_bit 32 p)"
    and "20 \<le> unat (x - base) \<Longrightarrow> m3 x = m x"
proof -
  show "ld64 m3 base = 1" by (simp add: assms(3) c64.ld_st_same)
  have "ld64 m3 (base + 8) = ld64 m2 (base + 8)" by (simp add: assms(3) c64.ld_st_apart apart_def)
  also have "\<dots> = (if v then p else take_bit 32 p)"
  proof (cases v)
    case True
    have "ld32 m2 (base + 8) = ucast p" "ld32 m2 (base + 12) = ucast (drop_bit 32 p)"
      using True by (simp_all add: assms(1,2) st64_def c32.ld_st_same c32.ld_st_apart apart_def ucast_down_up)
    then show ?thesis using True ld64_of_halves [of m2 "base + 8" p] by (simp add: add.assoc)
  next
    case False
    then show ?thesis by (simp add: assms(1,2) c64.ld_st_same ucast32_take_bit)
  qed
  finally show "ld64 m3 (base + 8) = (if v then p else take_bit 32 p)" .
  assume "20 \<le> unat (x - base)"
  then have "8 \<le> unat (x - (base + 8))" "8 \<le> unat (x - (base + 12))" "8 \<le> unat (x - base)"
    using unat_offset_ge [of 8 8 x base] unat_offset_ge [of 12 8 x base] by simp_all
  then show "m3 x = m x" by (simp add: assms st64_outside)
qed

text \<open>Arming the watchdog: where no register faults, the 64-bit offset register at \<open>8\<close> holds the
  product of timeout and frequency (at 64 bits in version 1, at 32 bits otherwise), the control register
  is 1, and a timeout of zero only clears the control register. The frame is otherwise unchanged, except
  that the second store of version 1 reaches four bytes beyond the offset register.\<close>

theorem watchdog_armed:
  assumes "\<not> gpf env base" and "\<not> gpf env (base + 8)" and "\<not> gpf env (base + 12)" and "\<not> gpf env (base + 0xFCC)"
    and "generic_flag (shared_data w) = 0" and "timeout < 2 ^ 32"
  shows "\<exists>w'. plat_arm_acs_smc_handler env fuel 0xC base timeout freq w = Done w' \<and>
    shared_data w' = shared_data w \<and>
    ld64 (el3_mem (el3 w')) base = (if timeout = 0 then 0 else 1) \<and>
    ld64 (el3_mem (el3 w')) (base + 8) =
      (if timeout = 0 then ld64 (el3_mem (el3 w)) (base + 8)
       else if VAL_EXTRACT_BITS (ld64 (el3_mem (el3 w)) (base + 0xFCC)) 16 19 = 1 then freq * timeout
       else take_bit 32 (freq * timeout)) \<and>
    (\<forall>x. 20 \<le> unat (x - base) \<longrightarrow> el3_mem (el3 w') x = el3_mem (el3 w) x)"
proof -
  have t: "ucast (ucast timeout :: u32) = timeout"
    unfolding ucast32_take_bit take_bit_eq_mask using assms(6) by (intro less_mask_eq)
  then have z: "(ucast timeout :: u32) = 0 \<longleftrightarrow> timeout = 0" by auto
  define p where "p = freq * timeout"
  define v where "v = (VAL_EXTRACT_BITS (ld64 (el3_mem (el3 w)) (base + 0xFCC)) 16 19 = 1)"
  define m1 where "m1 = st64 (el3_mem (el3 w)) (base + 8) (ucast (ucast p :: u32))"
  define m2 where "m2 = (if v then st64 m1 (base + 12) (ucast (ucast (drop_bit 32 p) :: u32)) else m1)"
  note frame = watchdog_frame [OF m1_def m2_def refl]
  have e: "expect_fault u = u" if "generic_flag (shared_data u) = 0" for u using that by (simp add: expect_fault_def)
  have armed: "plat_arm_acs_smc_handler env fuel 0xC base timeout freq w =
      Done (store_mem (\<lambda>_. st64 m2 base 1) w)" if "timeout \<noteq> 0"
    using assms(1-5) that z t e
    by (simp add: plat_arm_acs_smc_handler_def root_watchdog_service_def val_wd_set_ws0_el3_def load_el3_def Let_def
       write64_def mem_access_no_fault version_field v_def [symmetric] p_def [symmetric] val_wd_enable_def
       store_mem_def on_el3_def on_shared_def m1_def m2_def)
  have off: "plat_arm_acs_smc_handler env fuel 0xC base 0 freq w = Done (store_mem (\<lambda>m. st64 m base 0) w)"
    using assms(1,5) z
    by (simp add: plat_arm_acs_smc_handler_def root_watchdog_service_def val_wd_set_ws0_el3_def val_wd_disable_def
       write64_def mem_access_no_fault store_mem_def on_el3_def on_shared_def)
  show ?thesis
  proof (cases "timeout = 0")
    case True
    then show ?thesis
      using off by (auto simp: store_mem_def on_el3_def c64.ld_st_same c64.ld_st_apart apart_def intro: st64_outside)
  next
    case False
    then show ?thesis
      using armed frame by (simp add: store_mem_def on_el3_def v_def p_def)
  qed
qed

theorem watchdog_armed_witness:
  "\<exists>w'. plat_arm_acs_smc_handler (example_env\<lparr>gpf := \<lambda>_. False\<rparr>) 0 0xC 0x2A490000 5 0x5F5E100 example_el3 = Done w' \<and>
    ld64 (el3_mem (el3 w')) 0x2A490000 = 1 \<and> ld64 (el3_mem (el3 w')) 0x2A490008 = 0x1DCD6500"
proof -
  have pr: "\<not> gpf (example_env\<lparr>gpf := \<lambda>_. False\<rparr>) a" "generic_flag (shared_data example_el3) = 0" "(5 :: u64) < 2 ^ 32" for a
    by (simp_all add: example_el3_def)
  have v: "VAL_EXTRACT_BITS (ld64 (el3_mem (el3 example_el3)) (0x2A490000 + 0xFCC)) 16 19 \<noteq> 1"
    by (simp add: example_el3_def VAL_EXTRACT_BITS_def ld64_def ld32_def)
  have t: "take_bit 32 (0x1DCD6500 :: u64) = 0x1DCD6500" by (simp add: take_bit_eq_mask mask_eq_exp_minus_1)
  show ?thesis
    using watchdog_armed [OF pr(1) pr(1) pr(1) pr(1) pr(2,3), of 0 "0x2A490000" "0x5F5E100"] v t by auto
qed

section \<open>Accesses and fills on behalf of a test\<close>

text \<open>The effect of one entry of the list on memory, and the memory after a list of entries.\<close>

definition apply_access :: "access_entry \<Rightarrow> memory \<Rightarrow> memory" where
  "apply_access e m = (if (ucast (access_type e) :: u8) = 1 then st32 m (acc_addr e) (ucast (acc_data e)) else m)"

definition result_access :: "access_entry \<Rightarrow> memory \<Rightarrow> access_entry" where
  "result_access e m = (if (ucast (access_type e) :: u8) = 0 then e\<lparr>acc_data := ucast (ld32 m (acc_addr e))\<rparr> else e)"

primrec access_results :: "access_entry list \<Rightarrow> memory \<Rightarrow> access_entry list" where
  "access_results [] m = []"
| "access_results (e # es) m = result_access e m # access_results es (apply_access e m)"

definition access_state :: "el3_world \<Rightarrow> memory \<Rightarrow> access_entry list \<Rightarrow> el3_world" where
  "access_state w m l = store_mem (\<lambda>_. m) (on_shared (\<lambda>sd. sd\<lparr>shared_data_access := l\<rparr>) w)"

lemma access_state_same: "access_state w (el3_mem (el3 w)) (shared_data_access (shared_data w)) = w"
  by (simp add: access_state_def store_mem_def on_el3_def on_shared_def)

lemma access_one_no_fault:
  assumes "\<not> gpf env (acc_addr e)"
  shows "access_one env (length pre) (access_state w m (pre @ e # post)) =
    Done (access_state w (apply_access e m) (pre @ result_access e m # post))"
  using assms
  by (simp add: access_one_def access_state_def load_el3_def mem_access_no_fault Let_def apply_access_def
     result_access_def set_access_data_def store_mem_def on_el3_def on_shared_def)

lemma access_loop_no_fault:
  assumes "\<forall>e\<in>set es. \<not> gpf env (acc_addr e)"
  shows "access_loop env (length pre) (length es) (access_state w m (pre @ es @ post)) =
    Done (access_state w (fold apply_access es m) (pre @ access_results es m @ post))"
  using assms
proof (induction es arbitrary: pre m)
  case Nil
  then show ?case by simp
next
  case (Cons e es)
  then show ?case
    using access_one_no_fault [of env e pre w m "es @ post"] Cons.IH [of "pre @ [result_access e m]" "apply_access e m"]
    by simp
qed

text \<open>(C23) The access service performs the listed accesses in order: where no address faults, every
  write of the first \<^verbatim>\<open>num_access\<close> entries is applied to memory in turn, every read entry holds the 32-bit
  value of memory after the entries before it, and entries of other types and beyond the count are
  unchanged. A count beyond the list is out of bounds.\<close>

theorem access_mut_in_order:
  assumes "n = unat (ucast (num_access (shared_data w)) :: u8)" and "n \<le> length (shared_data_access (shared_data w))"
    and "\<forall>e\<in>set (take n (shared_data_access (shared_data w))). \<not> gpf env (acc_addr e)"
  shows "plat_arm_acs_smc_handler env fuel 0x6 x y z w =
    Done (access_state w (fold apply_access (take n (shared_data_access (shared_data w))) (el3_mem (el3 w)))
      (access_results (take n (shared_data_access (shared_data w))) (el3_mem (el3 w)) @
       drop n (shared_data_access (shared_data w))))"
  using access_loop_no_fault [OF assms(3), of "[]" w "el3_mem (el3 w)" "drop n (shared_data_access (shared_data w))"]
    assms(1,2)
  by (simp add: plat_arm_acs_smc_handler_def access_mut_def access_state_same)

theorem access_mut_in_order_witness:
  "plat_arm_acs_smc_handler example_env 0 0x6 0 0 0 example_el3 =
    Done (access_state example_el3 (st32 (\<lambda>_. 0) 0x1000 0x12345678)
      [\<lparr>access_type = 1, acc_addr = 0x1000, acc_data = 0x12345678\<rparr>,
       \<lparr>access_type = 0, acc_addr = 0x1000, acc_data = 0x12345678\<rparr>])"
proof -
  have pr: "2 = unat (ucast (num_access (shared_data example_el3)) :: u8)"
    "2 \<le> length (shared_data_access (shared_data example_el3))"
    "\<forall>e\<in>set (take 2 (shared_data_access (shared_data example_el3))). \<not> gpf example_env (acc_addr e)"
    by (simp_all add: example_el3_def example_env_def)
  show ?thesis
    using access_mut_in_order [OF pr, of 0 0 0 0]
    by (simp add: example_el3_def apply_access_def result_access_def c32.ld_st_same)
qed

text \<open>Filling.\<close>

lemma set_loop_no_fault:
  assumes "\<forall>k<n. \<not> gpf env (a + of_nat (i + k))"
  shows "set_loop env a v i n w = Done (store_mem (\<lambda>m. fold (\<lambda>k m. st8 m (a + of_nat k) v) [i..<i + n] m) w)"
  using assms
proof (induction n arbitrary: i w)
  case 0
  then show ?case by (simp add: store_mem_def on_el3_def)
next
  case (Suc n)
  have "\<not> gpf env (a + of_nat i)" using Suc.prems by (metis add.right_neutral zero_less_Suc)
  moreover have "\<forall>k<n. \<not> gpf env (a + of_nat (Suc i + k))"
    using Suc.prems by (metis Suc_less_eq add_Suc_shift)
  moreover have "[i..<i + Suc n] = i # [Suc i..<Suc i + n]" by (simp add: upt_rec)
  ultimately show ?case
    using Suc.IH [of "Suc i"] by (simp add: mem_access_no_fault store_mem_def on_el3_def del: of_nat_Suc of_nat_add)
qed

lemma fold_st8:
  "fold (\<lambda>k m. st8 m (a + of_nat k) v) [0..<n] m x =
     (if \<exists>k<n. x = a + of_nat k then v else m x)"
  by (induction n) (auto simp: st8_def less_Suc_eq)

text \<open>The fill service writes the byte to exactly the addresses of the buffer, at any size the
  32-bit count can hold, and nothing else.\<close>

theorem memory_set_fills:
  assumes "\<forall>k<unat (ucast sz :: u32). \<not> gpf env (a + of_nat k)"
  shows "\<exists>w'. plat_arm_acs_smc_handler env fuel 0x7 a sz v w = Done w' \<and> shared_data w' = shared_data w \<and>
    (\<forall>x. el3_mem (el3 w') x =
       (if unat (x - a) < unat (ucast sz :: u32) then ucast v else el3_mem (el3 w) x))"
proof -
  define n where "n = unat (ucast sz :: u32)"
  have n: "n < 2 ^ 64" using word_unat_less [of "ucast sz :: u32"] by (simp add: n_def)
  have cover: "(\<exists>k<n. x = a + of_nat k) \<longleftrightarrow> unat (x - a) < n" for x
  proof
    assume "\<exists>k<n. x = a + of_nat k"
    then show "unat (x - a) < n" using n by (auto simp: unat_of_nat_small)
  next
    assume "unat (x - a) < n"
    then show "\<exists>k<n. x = a + of_nat k" by (intro exI [of _ "unat (x - a)"]) simp
  qed
  have "plat_arm_acs_smc_handler env fuel 0x7 a sz v w =
      Done (store_mem (\<lambda>m. fold (\<lambda>k m. st8 m (a + of_nat k) (ucast v)) [0..<n] m) w)"
    using set_loop_no_fault [of n env a 0 "ucast v" w] assms
    by (simp add: plat_arm_acs_smc_handler_def val_memory_set_el3_def n_def)
  then show ?thesis
    by (simp add: fold_st8 cover n_def [symmetric]) (simp add: store_mem_def on_el3_def fold_st8 cover)
qed

theorem memory_set_fills_witness:
  "\<exists>w'. plat_arm_acs_smc_handler example_env 0 0x7 0x1000 0x100000010 0x5A example_el3 = Done w' \<and>
    el3_mem (el3 w') 0x100F = 0x5A \<and> el3_mem (el3 w') 0x1010 = 0"
proof -
  have "\<forall>k<unat (ucast (0x100000010 :: u64) :: u32). \<not> gpf example_env (0x1000 + of_nat k)"
  proof (intro allI impI)
    fix k assume "k < unat (ucast (0x100000010 :: u64) :: u32)"
    then have k: "k < 16" by simp
    have "unat (0x1000 + of_nat k :: u64) = 0x1000 + k" using k by (simp add: unat_word_ariths unat_of_nat)
    then have "(0x1000 + of_nat k :: u64) \<noteq> 0x880300000" "(0x1000 + of_nat k :: u64) \<noteq> 0x2A490008"
      using k by (auto simp: word_unat_eq_iff)
    then show "\<not> gpf example_env (0x1000 + of_nat k)" by (simp add: example_env_def)
  qed
  from memory_set_fills [OF this, of 0 "0x5A" example_el3] show ?thesis
    by (auto simp: example_el3_def)
qed

end
