(* ===== verification/Val_El3.thy ===== *)
theory Val_El3
  imports Val_Infra El3_Services
begin

text \<open>
  The calls of the validation layer into EL3 (\<^verbatim>\<open>val/src/acs_el3.c\<close>). A call is the service number and
  its three arguments; \<open>UserCallSMC\<close> hands them to the dispatcher of the firmware. The handler that EL3
  installs passes calls on to the firmware as long as no exception is expected and no access is requested
  (\<open>installed_handler_chains\<close>); the model covers calls made in that situation. The definitions
  have the suffix \<open>_call\<close> where the firmware has a function of the same name.
\<close>

section \<open>Calls\<close>

type_synonym smc_call = "u64 \<times> u64 \<times> u64 \<times> u64"

definition UserCallSMC :: "el3_env \<Rightarrow> nat \<Rightarrow> smc_call \<Rightarrow> el3_world \<Rightarrow> outcome" where
  "UserCallSMC env fuel c w = (case c of (service, arg0, arg1, arg2) \<Rightarrow> plat_arm_acs_smc_handler env fuel service arg0 arg1 arg2 w)"

definition val_memory_set_el3_call :: "u64 \<Rightarrow> u32 \<Rightarrow> u8 \<Rightarrow> smc_call" where
  "val_memory_set_el3_call address sz v = (0x7, address, ucast sz, ucast v)"

definition val_data_cache_ops_by_va_el3_call :: "u64 \<Rightarrow> u32 \<Rightarrow> smc_call" where
  "val_data_cache_ops_by_va_el3_call address typ = (0x8, address, ucast typ, 0)"

definition val_add_mmu_entry_el3 :: "u64 \<Rightarrow> u64 \<Rightarrow> u64 \<Rightarrow> smc_call" where
  "val_add_mmu_entry_el3 VA PA attr = (0x3, VA, PA, attr)"

definition val_add_gpt_entry_el3 :: "u64 \<Rightarrow> u64 \<Rightarrow> smc_call" where
  "val_add_gpt_entry_el3 PA gpi = (0x2, PA, gpi, 0)"

definition val_pe_access_mut_el3 :: smc_call where
  "val_pe_access_mut_el3 = (0x6, 0, 0, 0)"

definition val_data_cache_ops_by_pa_el3 :: "u64 \<Rightarrow> u64 \<Rightarrow> smc_call" where
  "val_data_cache_ops_by_pa_el3 PA acc_pas = (0x5, PA, acc_pas, 0)"

definition val_rme_install_handler_el3 :: smc_call where
  "val_rme_install_handler_el3 = (0x1, 0, 0, 0)"

definition val_enable_ns_encryption_call :: smc_call where
  "val_enable_ns_encryption_call = (0x9, SET, 0, 0)"

definition val_disable_ns_encryption_call :: smc_call where
  "val_disable_ns_encryption_call = (0x9, CLEAR, 0, 0)"

definition val_read_pe_regs_bfr_low_pwr_el3 :: smc_call where
  "val_read_pe_regs_bfr_low_pwr_el3 = (0xA, CLEAR, 0, 0)"

definition val_cmpr_pe_regs_aftr_low_pwr_el3 :: smc_call where
  "val_cmpr_pe_regs_aftr_low_pwr_el3 = (0xA, SET, 0, 0)"

definition val_prog_legacy_tz_call :: "u32 \<Rightarrow> smc_call" where
  "val_prog_legacy_tz_call enable = (0xB, SET, 0, 0)"

definition val_wd_set_ws0_el3_call :: "u64 \<Rightarrow> u32 \<Rightarrow> u64 \<Rightarrow> smc_call" where
  "val_wd_set_ws0_el3_call VA_RT_WDOG timeout counter_freq = (0xC, VA_RT_WDOG, ucast timeout, counter_freq)"

definition val_pas_filter_active_mode_el3 :: "u32 \<Rightarrow> smc_call" where
  "val_pas_filter_active_mode_el3 enable = (0xD, scast enable, 0, 0)"

definition val_smmu_access_disable_call :: smc_call where
  "val_smmu_access_disable_call = (0xE, 0, 0, 0)"

definition val_change_security_state_el3 :: "u32 \<Rightarrow> smc_call" where
  "val_change_security_state_el3 sec_state = (0xF, scast sec_state, 0, 0)"

definition val_smmu_check_rmeda_el3 :: smc_call where
  "val_smmu_check_rmeda_el3 = (0x10, 1, 0, 0)"

definition val_rlm_smmu_init :: "u32 \<Rightarrow> smc_call" where
  "val_rlm_smmu_init num_smmu = (0x10, 2, ucast num_smmu, 0)"

definition val_rlm_smmu_map :: "u32 \<Rightarrow> smc_call" where
  "val_rlm_smmu_map smmu_info = (0x10, 3, ucast smmu_info, 0)"

end
