(* ===== verification/Sec_Property.thy ===== *)
theory Sec_Property
  imports Da_Ide Val_El3
begin

text \<open>
  The checks of the security properties of registers (\<^verbatim>\<open>val_pcie_rp_sec_prpty_check\<close> and the TDISP
  operations of \<^verbatim>\<open>val/src/acs_pcie.c\<close>, \<^verbatim>\<open>val_intercnt_sec_prpty_check\<close> of
  \<^verbatim>\<open>val/src/acs_da.c\<close>). Root accesses go through the access service of EL3. What a non-secure read
  returns and a non-secure write does is the parameter \<open>ns_port\<close>: it is the protection under test.
  The memory of EL3 is indexed by the addresses EL3 uses, so an alias that a new mapping creates is not
  represented. A call that leaves EL3 for the firmware is \<open>None\<close>.
\<close>

section \<open>State\<close>

record ns_port =
  ns_read :: "memory \<Rightarrow> u64 \<Rightarrow> u32"
  ns_write :: "memory \<Rightarrow> u64 \<Rightarrow> u32 \<Rightarrow> memory"

record register_info =
  ri_type :: u32
  ri_bdf :: u32
  ri_address :: u64
  ri_property :: u32

record sec_world =
  sec_pcie :: pcie_state
  sec_val :: val_world
  sec_el3 :: el3_world

abbreviation (input) TEST_DATA_1 :: u32 where "TEST_DATA_1 \<equiv> 0xabababab"
abbreviation (input) TEST_DATA_2 :: u32 where "TEST_DATA_2 \<equiv> 0xcdcdcdcd"

definition LOWER_ATTRS :: "u64 \<Rightarrow> u64" where
  "LOWER_ATTRS x = push_bit 2 (x AND 0xFFF)"

definition PAS_ATTR :: "u64 \<Rightarrow> u64" where
  "PAS_ATTR x = push_bit 9 (NSE_SET x) OR push_bit 3 (NS_SET x)"

definition SHAREABLE_ATTR :: "u64 \<Rightarrow> u64" where
  "SHAREABLE_ATTR x = push_bit 6 x"

primrec attr_index_loop :: "u64 \<Rightarrow> nat \<Rightarrow> nat \<Rightarrow> u64" where
  "attr_index_loop x i 0 = 0"
| "attr_index_loop x i (Suc n) =
     (if drop_bit (i * 8) (0x00000000004404ff :: u64) AND 0xFF = x then of_nat i else attr_index_loop x (Suc i) n)"

definition GET_ATTR_INDEX :: "u64 \<Rightarrow> u64" where
  "GET_ATTR_INDEX x = attr_index_loop x 0 8"

section \<open>Root accesses\<close>

definition call_el3 :: "el3_env \<Rightarrow> nat \<Rightarrow> smc_call \<Rightarrow> el3_world \<Rightarrow> el3_world option" where
  "call_el3 env fuel c w = (case UserCallSMC env fuel c w of Done w' \<Rightarrow> Some w' | _ \<Rightarrow> None)"

definition set_access :: "access_entry \<Rightarrow> el3_world \<Rightarrow> el3_world option" where
  "set_access e w =
     (if shared_data_access (shared_data w) = [] then None
      else Some (on_shared (\<lambda>sd. sd\<lparr>num_access := 1, shared_data_access := (shared_data_access sd)[0 := e]\<rparr>) w))"

definition root_write :: "el3_env \<Rightarrow> nat \<Rightarrow> u64 \<Rightarrow> u32 \<Rightarrow> el3_world \<Rightarrow> el3_world option" where
  "root_write env fuel a v w = do {
     w1 \<leftarrow> set_access \<lparr>access_type = 1, acc_addr = a, acc_data = ucast v\<rparr> w;
     call_el3 env fuel val_pe_access_mut_el3 w1 }"

definition root_read :: "el3_env \<Rightarrow> nat \<Rightarrow> u64 \<Rightarrow> el3_world \<Rightarrow> (u32 \<times> el3_world) option" where
  "root_read env fuel a w = do {
     w1 \<leftarrow> set_access \<lparr>access_type = 0, acc_addr = a, acc_data = acc_data (shared_data_access (shared_data w) ! 0)\<rparr> w;
     w2 \<leftarrow> call_el3 env fuel val_pe_access_mut_el3 w1;
     Some (ucast (acc_data (shared_data_access (shared_data w2) ! 0)), w2) }"

definition ns_load :: "ns_port \<Rightarrow> u64 \<Rightarrow> el3_world \<Rightarrow> u32" where
  "ns_load ns a w = ns_read ns (el3_mem (el3 w)) a"

definition ns_store :: "ns_port \<Rightarrow> u64 \<Rightarrow> u32 \<Rightarrow> el3_world \<Rightarrow> el3_world" where
  "ns_store ns a v w = store_mem (\<lambda>m. ns_write ns m a v) w"

section \<open>TDISP\<close>

definition write_tdisp :: "u64 \<Rightarrow> el3_env \<Rightarrow> nat \<Rightarrow> u64 \<Rightarrow> u32 \<Rightarrow> sec_world \<Rightarrow> (u32 \<times> sec_world) option" where
  "write_tdisp data env fuel mmfr0 bdf s = do {
     (ret, cap_base) \<leftarrow> val_pcie_find_da_capability (sec_pcie s) bdf (junk (sec_pcie s));
     if ret \<noteq> PCIE_SUCCESS then Some (1, s)
     else do {
       let (va, v1) = val_get_free_va (val_get_min_tg mmfr0) (sec_val s);
       let cfg_addr = (ucast (val_pcie_get_bdf_config_addr (sec_pcie s) bdf) :: u32);
       let attr = (ucast (LOWER_ATTRS (push_bit 8 1 OR SHAREABLE_ATTR 2 OR GET_ATTR_INDEX 0 OR push_bit 4 1)) :: u32);
       w1 \<leftarrow> call_el3 env fuel (val_add_mmu_entry_el3 va (ucast cfg_addr) (ucast attr OR LOWER_ATTRS (PAS_ATTR 2))) (sec_el3 s);
       w2 \<leftarrow> set_access \<lparr>access_type = 1, acc_addr = va + ucast cap_base + 0xC, acc_data = data\<rparr> w1;
       w3 \<leftarrow> call_el3 env fuel val_pe_access_mut_el3 w2;
       Some (0, s\<lparr>sec_val := v1, sec_el3 := w3\<rparr>) } }"

definition val_pcie_enable_tdisp :: "el3_env \<Rightarrow> nat \<Rightarrow> u64 \<Rightarrow> u32 \<Rightarrow> sec_world \<Rightarrow> (u32 \<times> sec_world) option" where
  "val_pcie_enable_tdisp env fuel mmfr0 bdf s = write_tdisp 1 env fuel mmfr0 bdf s"

definition val_pcie_disable_tdisp :: "el3_env \<Rightarrow> nat \<Rightarrow> u64 \<Rightarrow> u32 \<Rightarrow> sec_world \<Rightarrow> (u32 \<times> sec_world) option" where
  "val_pcie_disable_tdisp env fuel mmfr0 bdf s = write_tdisp 0 env fuel mmfr0 bdf s"

section \<open>The checks\<close>

text \<open>The root write of the test pattern before the non-secure read is prepared but not issued in the
  checks of full protection; the write check issues it.\<close>

definition write_protect_check :: "ns_port \<Rightarrow> el3_env \<Rightarrow> nat \<Rightarrow> u64 \<Rightarrow> el3_world \<Rightarrow> (u32 \<times> el3_world) option" where
  "write_protect_check ns env fuel a w = do {
     let org_data = ns_load ns a w;
     w1 \<leftarrow> root_write env fuel a TEST_DATA_1 w;
     if ns_load ns a w1 \<noteq> TEST_DATA_1 then Some (1, w1)
     else do {
       let w2 = ns_store ns a TEST_DATA_2 w1;
       if ns_load ns a w2 = TEST_DATA_1 then Some (1, w2)
       else do {
         w3 \<leftarrow> root_write env fuel a org_data w2;
         Some (0, w3) } } }"

definition full_protect_check :: "ns_port \<Rightarrow> el3_env \<Rightarrow> nat \<Rightarrow> u64 \<Rightarrow> el3_world \<Rightarrow> (u32 \<times> el3_world) option" where
  "full_protect_check ns env fuel a w = do {
     (org_data, w1) \<leftarrow> root_read env fuel a w;
     w2 \<leftarrow> set_access \<lparr>access_type = 1, acc_addr = a, acc_data = ucast TEST_DATA_1\<rparr> w1;
     if ns_load ns a w2 = TEST_DATA_1 then Some (1, w2)
     else do {
       let w3 = ns_store ns a TEST_DATA_2 w2;
       if ns_load ns a w3 = TEST_DATA_2 then Some (1, w3)
       else do {
         w4 \<leftarrow> root_write env fuel a org_data w3;
         Some (0, w4) } } }"

definition val_pcie_rp_sec_prpty_check ::
  "ns_port \<Rightarrow> el3_env \<Rightarrow> nat \<Rightarrow> u64 \<Rightarrow> register_info \<Rightarrow> sec_world \<Rightarrow> (u32 \<times> sec_world) option" where
  "val_pcie_rp_sec_prpty_check ns env fuel mmfr0 e s =
     (if ri_type e \<noteq> 0 then Some (0, s)
      else do {
        (ret, s1) \<leftarrow> val_pcie_enable_tdisp env fuel mmfr0 (ri_bdf e) s;
        if ret \<noteq> 0 then Some (1, s1)
        else if ri_property e = 0 then do {
          (r, w) \<leftarrow> write_protect_check ns env fuel (ri_address e) (sec_el3 s1);
          Some (r, s1\<lparr>sec_el3 := w\<rparr>) }
        else if ri_property e = 1 then do {
          (r, w) \<leftarrow> full_protect_check ns env fuel (ri_address e) (sec_el3 s1);
          Some (r, s1\<lparr>sec_el3 := w\<rparr>) }
        else Some (1, s1) })"

definition val_intercnt_sec_prpty_check ::
  "ns_port \<Rightarrow> el3_env \<Rightarrow> nat \<Rightarrow> register_info \<Rightarrow> el3_world \<Rightarrow> (u32 \<times> el3_world) option" where
  "val_intercnt_sec_prpty_check ns env fuel e w =
     (if ri_type e \<noteq> 1 then Some (0, w)
      else if ri_property e = 2 then full_protect_check ns env fuel (ri_address e) w
      else Some (1, w))"

section \<open>What the checks decide\<close>

lemma call_access:
  assumes "\<not> gpf env (acc_addr e)" and "num_access (shared_data w) = 1" and "shared_data_access (shared_data w) = e # es"
  shows "call_el3 env fuel val_pe_access_mut_el3 w =
    Some (access_state w (apply_access e (el3_mem (el3 w))) (result_access e (el3_mem (el3 w)) # es))"
proof -
  have "access_mut env w = Done (access_state w (apply_access e (el3_mem (el3 w))) (result_access e (el3_mem (el3 w)) # es))"
    using access_loop_no_fault [of "[e]" env "[]" w "el3_mem (el3 w)" es] access_state_same [of w] assms
    by (simp add: access_mut_def)
  then show ?thesis
    by (simp add: call_el3_def UserCallSMC_def val_pe_access_mut_el3_def plat_arm_acs_smc_handler_def)
qed

lemma root_write_effect:
  assumes "\<not> gpf env a" and "shared_data_access (shared_data w) \<noteq> []"
  shows "\<exists>w'. root_write env fuel a v w = Some w' \<and> el3_mem (el3 w') = st32 (el3_mem (el3 w)) a v \<and>
    shared_data_access (shared_data w') \<noteq> []"
proof -
  obtain e es where l: "shared_data_access (shared_data w) = e # es" using assms(2) by (cases "shared_data_access (shared_data w)") auto
  let ?e = "\<lparr>access_type = 1, acc_addr = a, acc_data = ucast v\<rparr>"
  let ?w1 = "on_shared (\<lambda>sd. sd\<lparr>num_access := 1, shared_data_access := ?e # es\<rparr>) w"
  have "set_access ?e w = Some ?w1" using l by (simp add: set_access_def on_shared_def)
  moreover have "call_el3 env fuel val_pe_access_mut_el3 ?w1 =
      Some (access_state ?w1 (apply_access ?e (el3_mem (el3 ?w1))) (result_access ?e (el3_mem (el3 ?w1)) # es))"
    using assms(1) by (intro call_access) (simp_all add: on_shared_def)
  ultimately show ?thesis
    by (simp add: root_write_def access_state_def store_mem_def on_el3_def on_shared_def apply_access_def ucast_down_up)
qed

lemma root_read_effect:
  assumes "\<not> gpf env a" and "shared_data_access (shared_data w) \<noteq> []"
  shows "\<exists>w'. root_read env fuel a w = Some (ld32 (el3_mem (el3 w)) a, w') \<and> el3_mem (el3 w') = el3_mem (el3 w) \<and>
    shared_data_access (shared_data w') \<noteq> []"
proof -
  obtain e es where l: "shared_data_access (shared_data w) = e # es" using assms(2) by (cases "shared_data_access (shared_data w)") auto
  let ?e = "\<lparr>access_type = 0, acc_addr = a, acc_data = acc_data e\<rparr>"
  let ?w1 = "on_shared (\<lambda>sd. sd\<lparr>num_access := 1, shared_data_access := ?e # es\<rparr>) w"
  have "set_access ?e w = Some ?w1" using l by (simp add: set_access_def on_shared_def)
  moreover have "call_el3 env fuel val_pe_access_mut_el3 ?w1 =
      Some (access_state ?w1 (apply_access ?e (el3_mem (el3 ?w1))) (result_access ?e (el3_mem (el3 ?w1)) # es))"
    using assms(1) by (intro call_access) (simp_all add: on_shared_def)
  ultimately show ?thesis using l
    by (simp add: root_read_def access_state_def store_mem_def on_el3_def on_shared_def apply_access_def
       result_access_def ucast_down_up)
qed

text \<open>(C18) The check of write protection decides the wrong way round: for a register that non-secure software
  reads and whose protection works (non-secure writes have no effect) it reports a failure, and for
  a register without protection (non-secure writes take effect) it reports success and restores the
  register.\<close>

theorem write_protect_check_inverted:
  assumes "\<not> gpf env a" and "shared_data_access (shared_data w) \<noteq> []" and "\<forall>m. ns_read ns m a = ld32 m a"
  shows "((\<forall>m v. ns_write ns m a v = m) \<longrightarrow> (\<exists>w'. write_protect_check ns env fuel a w = Some (1, w'))) \<and>
    ((\<forall>m v. ns_write ns m a v = st32 m a v) \<longrightarrow>
      (\<exists>w'. write_protect_check ns env fuel a w = Some (0, w') \<and> ld32 (el3_mem (el3 w')) a = ld32 (el3_mem (el3 w)) a))"
proof -
  obtain w1 where w1: "root_write env fuel a TEST_DATA_1 w = Some w1"
    "el3_mem (el3 w1) = st32 (el3_mem (el3 w)) a TEST_DATA_1" "shared_data_access (shared_data w1) \<noteq> []"
    using root_write_effect [OF assms(1,2)] by blast
  define w2 where "w2 = ns_store ns a TEST_DATA_2 w1"
  have n1: "ns_load ns a w1 = TEST_DATA_1" using w1(2) assms(3) by (simp add: ns_load_def c32.ld_st_same)
  have l2: "shared_data_access (shared_data w2) \<noteq> []" using w1(3) by (simp add: w2_def ns_store_def)
  obtain w3 where w3: "root_write env fuel a (ns_load ns a w) w2 = Some w3"
    "el3_mem (el3 w3) = st32 (el3_mem (el3 w2)) a (ns_load ns a w)"
    using root_write_effect [OF assms(1) l2] by blast
  have n2: "ns_load ns a w2 = (if \<forall>m v. ns_write ns m a v = m then TEST_DATA_1 else TEST_DATA_2)"
    if "(\<forall>m v. ns_write ns m a v = m) \<or> (\<forall>m v. ns_write ns m a v = st32 m a v)"
  proof (cases "\<forall>m v. ns_write ns m a v = m")
    case True
    then show ?thesis
      using w1(2) assms(3) by (simp add: w2_def ns_store_def store_mem_def on_el3_def ns_load_def c32.ld_st_same)
  next
    case False
    then have "\<forall>m v. ns_write ns m a v = st32 m a v" using that by blast
    then show ?thesis
      using False assms(3) by (simp add: w2_def ns_store_def store_mem_def on_el3_def ns_load_def c32.ld_st_same)
  qed
  have off: "\<not> (\<forall>m v. ns_write ns m a v = m)" if "\<forall>m v. ns_write ns m a v = st32 m a v"
  proof
    assume "\<forall>m v. ns_write ns m a v = m"
    then have "ld32 (st32 (\<lambda>_. 0) a 1) a = ld32 (\<lambda>_. 0) a" using that by metis
    then show False by (simp add: c32.ld_st_same) (simp add: ld32_def)
  qed
  show ?thesis
  proof (intro conjI impI)
    assume "\<forall>m v. ns_write ns m a v = m"
    then have "ns_load ns a w2 = TEST_DATA_1" using n2 by simp
    then show "\<exists>w'. write_protect_check ns env fuel a w = Some (1, w')"
      using w1(1) n1 by (simp add: write_protect_check_def w2_def [symmetric])
  next
    assume w: "\<forall>m v. ns_write ns m a v = st32 m a v"
    have "ns_load ns a w2 = TEST_DATA_2" using n2 off [OF w] w by simp
    moreover have "ld32 (el3_mem (el3 w3)) a = ld32 (el3_mem (el3 w)) a"
      using w3(2) assms(3) by (simp add: c32.ld_st_same ns_load_def)
    ultimately show "\<exists>w'. write_protect_check ns env fuel a w = Some (0, w') \<and> ld32 (el3_mem (el3 w')) a = ld32 (el3_mem (el3 w)) a"
      using w1(1) n1 w3(1) by (simp add: write_protect_check_def w2_def [symmetric])
  qed
qed

text \<open>The check of full protection never writes its root pattern, so its test of the non-secure read
  compares with a value that is not there: a register that non-secure software can read but not write
  passes, as a fully protected one does; only a register that non-secure software can write fails.\<close>

theorem full_protect_check_misses_reads:
  assumes "\<not> gpf env (ri_address e)" and "shared_data_access (shared_data w) \<noteq> []" and "ri_type e = 1" and "ri_property e = 2"
    and "ns_read ns (el3_mem (el3 w)) (ri_address e) \<noteq> TEST_DATA_1"
  shows "((\<forall>m v. ns_write ns m (ri_address e) v = m) \<and> ns_read ns (el3_mem (el3 w)) (ri_address e) \<noteq> TEST_DATA_2 \<longrightarrow>
      (\<exists>w'. val_intercnt_sec_prpty_check ns env fuel e w = Some (0, w'))) \<and>
    ((\<forall>m v. ns_write ns m (ri_address e) v = st32 m (ri_address e) v) \<and> (\<forall>m. ns_read ns m (ri_address e) = ld32 m (ri_address e)) \<longrightarrow>
      (\<exists>w'. val_intercnt_sec_prpty_check ns env fuel e w = Some (1, w')))"
proof -
  let ?a = "ri_address e"
  obtain w1 where w1: "root_read env fuel ?a w = Some (ld32 (el3_mem (el3 w)) ?a, w1)" "el3_mem (el3 w1) = el3_mem (el3 w)"
    "shared_data_access (shared_data w1) \<noteq> []"
    using root_read_effect [OF assms(1,2)] by blast
  obtain w2 where w2: "set_access \<lparr>access_type = 1, acc_addr = ?a, acc_data = ucast TEST_DATA_1\<rparr> w1 = Some w2"
    "el3_mem (el3 w2) = el3_mem (el3 w)" "shared_data_access (shared_data w2) \<noteq> []"
    using w1(2,3) by (simp add: set_access_def on_shared_def)
  define w3 where "w3 = ns_store ns ?a TEST_DATA_2 w2"
  have "shared_data_access (shared_data w3) \<noteq> []" using w2(3) by (simp add: w3_def ns_store_def)
  then obtain w4 where w4: "root_write env fuel ?a (ld32 (el3_mem (el3 w)) ?a) w3 = Some w4"
    using root_write_effect [OF assms(1)] by blast
  have m3: "el3_mem (el3 w3) = ns_write ns (el3_mem (el3 w)) ?a TEST_DATA_2"
    using w2(2) by (simp add: w3_def ns_store_def store_mem_def on_el3_def)
  show ?thesis
    using w1(1) w2 w4 m3 assms(3-5)
    by (auto simp: val_intercnt_sec_prpty_check_def full_protect_check_def w3_def [symmetric] Let_def ns_load_def c32.ld_st_same)
qed

text \<open>Ports for the witnesses: full access, and reads only.\<close>

definition open_port :: ns_port where
  "open_port = \<lparr>ns_read = ld32, ns_write = st32\<rparr>"

definition read_port :: ns_port where
  "read_port = \<lparr>ns_read = ld32, ns_write = (\<lambda>m a v. m)\<rparr>"

theorem write_protect_check_inverted_witness:
  "(\<exists>w'. write_protect_check read_port example_env 0 0x1000 example_el3 = Some (1, w')) \<and>
   (\<exists>w'. write_protect_check open_port example_env 0 0x1000 example_el3 = Some (0, w'))"
proof -
  have pr: "\<not> gpf example_env 0x1000" "shared_data_access (shared_data example_el3) \<noteq> []"
    by (simp_all add: example_env_def example_el3_def)
  show ?thesis
    using write_protect_check_inverted [OF pr, of read_port 0] write_protect_check_inverted [OF pr, of open_port 0]
    by (auto simp: read_port_def open_port_def)
qed

theorem full_protect_check_misses_reads_witness:
  "\<exists>w'. val_intercnt_sec_prpty_check read_port example_env 0 \<lparr>ri_type = 1, ri_bdf = 0, ri_address = 0x1000, ri_property = 2\<rparr>
     example_el3 = Some (0, w')"
proof -
  let ?e = "\<lparr>ri_type = 1, ri_bdf = 0, ri_address = 0x1000, ri_property = 2\<rparr>"
  have pr: "\<not> gpf example_env (ri_address ?e)" "shared_data_access (shared_data example_el3) \<noteq> []" "ri_type ?e = 1" "ri_property ?e = 2"
    "ns_read read_port (el3_mem (el3 example_el3)) (ri_address ?e) \<noteq> TEST_DATA_1"
    by (simp_all add: example_env_def example_el3_def read_port_def ld32_def)
  show ?thesis
    using full_protect_check_misses_reads [OF pr, of 0]
    by (auto simp: read_port_def example_el3_def ld32_def)
qed

end
