(* ===== verification/Pal_Memory.thy ===== *)
theory Pal_Memory
  imports Alloc_Spec
begin

text \<open>
  Memory services of the bare-metal platform layer (\<^verbatim>\<open>platform/pal_baremetal/src/pal_misc.c\<close>), in the
  configuration of the bare-metal image (\<^verbatim>\<open>TARGET_BM_BOOT\<close> set, \<^verbatim>\<open>ENABLE_OOB\<close> not): the heap
  (\<^verbatim>\<open>is_power_of_2\<close>, \<^verbatim>\<open>heap_alloc\<close>, \<^verbatim>\<open>mem_alloc_init\<close>, \<^verbatim>\<open>mem_alloc\<close>, \<^verbatim>\<open>mem_free\<close> and the
  \<^verbatim>\<open>pal_mem_*\<close> entries built on them), the byte and string routines (\<^verbatim>\<open>pal_memcpy\<close>,
  \<^verbatim>\<open>pal_strncmp\<close>, \<^verbatim>\<open>pal_strncpy\<close>, \<^verbatim>\<open>pal_mem_compare\<close>, \<^verbatim>\<open>pal_mem_set\<close>), memory-mapped access, and
  the test counters kept in non-volatile memory over a reset.

  A pointer is a 64-bit address, \<open>NULL\<close> is 0, \<^verbatim>\<open>size_t\<close> is 64 bits wide and arithmetic on it wraps.
  The heap is shown to be a bump allocator and to satisfy the contract of \<open>Alloc_Spec\<close>. Plain memory
  stands behind every address here; what a device does on an access is the subject of the components
  that own the device. The messages printed on the way and the cache maintenance, which has no effect
  on the contents of memory, are left out.
\<close>

section \<open>Memory-mapped access\<close>

definition ld16 :: "memory \<Rightarrow> u64 \<Rightarrow> u16" where
  "ld16 m a = ucast (m a) OR push_bit 8 (ucast (m (a + 1)))"

definition st16 :: "memory \<Rightarrow> u64 \<Rightarrow> u16 \<Rightarrow> memory" where
  "st16 m a v = m(a := ucast v, a + 1 := ucast (drop_bit 8 v))"

definition bm_mmio_read8 :: "memory \<Rightarrow> u64 \<Rightarrow> u8" where
  "bm_mmio_read8 m addr = ld8 m addr"

definition bm_mmio_read16 :: "memory \<Rightarrow> u64 \<Rightarrow> u16" where
  "bm_mmio_read16 m addr = ld16 m addr"

definition bm_mmio_read64 :: "memory \<Rightarrow> u64 \<Rightarrow> u64" where
  "bm_mmio_read64 m addr = ld64 m addr"

definition bm_mmio_read :: "memory \<Rightarrow> u64 \<Rightarrow> u32" where
  "bm_mmio_read m addr = ld32 m addr"

definition bm_mmio_write8 :: "memory \<Rightarrow> u64 \<Rightarrow> u8 \<Rightarrow> memory" where
  "bm_mmio_write8 m addr data = st8 m addr data"

definition bm_mmio_write16 :: "memory \<Rightarrow> u64 \<Rightarrow> u16 \<Rightarrow> memory" where
  "bm_mmio_write16 m addr data = st16 m addr data"

definition bm_mmio_write64 :: "memory \<Rightarrow> u64 \<Rightarrow> u64 \<Rightarrow> memory" where
  "bm_mmio_write64 m addr data = st64 m addr data"

text \<open>Only the 32-bit write aligns its address; the 32-bit read does not.\<close>

definition bm_mmio_write :: "memory \<Rightarrow> u64 \<Rightarrow> u32 \<Rightarrow> memory" where
  "bm_mmio_write m addr data = st32 m (if addr AND 3 \<noteq> 0 then addr AND NOT 3 else addr) data"

section \<open>Byte and string routines\<close>

definition pal_memcpy :: "memory \<Rightarrow> u64 \<Rightarrow> u64 \<Rightarrow> u32 \<Rightarrow> memory \<times> u64" where
  "pal_memcpy m DestinationBuffer SourceBuffer Length =
     (fold (\<lambda>i m. st8 m (DestinationBuffer + of_nat i) (ld8 m (SourceBuffer + of_nat i))) [0..<unat Length] m,
      DestinationBuffer)"

fun strncmp_loop :: "memory \<Rightarrow> u64 \<Rightarrow> u64 \<Rightarrow> nat \<Rightarrow> u32" where
  "strncmp_loop m str1 str2 0 = 0"
| "strncmp_loop m str1 str2 (Suc len) =
     (if ld8 m str1 \<noteq> 0 \<and> ld8 m str1 = ld8 m str2 then strncmp_loop m (str1 + 1) (str2 + 1) len
      else ucast (ld8 m str1) - ucast (ld8 m str2))"

definition pal_strncmp :: "memory \<Rightarrow> u64 \<Rightarrow> u64 \<Rightarrow> u32 \<Rightarrow> u32" where
  "pal_strncmp m str1 str2 len = strncmp_loop m str1 str2 (unat len)"

fun strncpy_loop :: "memory \<Rightarrow> u64 \<Rightarrow> u64 \<Rightarrow> nat \<Rightarrow> memory" where
  "strncpy_loop m d s 0 = st8 m d 0"
| "strncpy_loop m d s (Suc n) =
     (if ld8 m s \<noteq> 0 then strncpy_loop (st8 m d (ld8 m s)) (d + 1) (s + 1) n else st8 m d 0)"

definition pal_strncpy :: "memory \<Rightarrow> u64 \<Rightarrow> u64 \<Rightarrow> u32 \<Rightarrow> memory \<times> u64" where
  "pal_strncpy m DestinationStr SourceStr Length =
     (if DestinationStr = 0 then (m, 0)
      else (strncpy_loop m DestinationStr SourceStr (unat Length), DestinationStr))"

fun compare_loop :: "memory \<Rightarrow> u64 \<Rightarrow> u64 \<Rightarrow> nat \<Rightarrow> int" where
  "compare_loop m p1 p2 0 = 0"
| "compare_loop m p1 p2 (Suc n) =
     (if ld8 m p1 \<noteq> ld8 m p2 then uint (ld8 m p1) - uint (ld8 m p2)
      else compare_loop m (p1 + 1) (p2 + 1) n)"

definition pal_mem_compare :: "memory \<Rightarrow> u64 \<Rightarrow> u64 \<Rightarrow> u32 \<Rightarrow> int" where
  "pal_mem_compare m Src Dest Len = (if Len \<noteq> 0 then compare_loop m Dest Src (unat Len) else 0)"

fun mem_set_loop :: "memory \<Rightarrow> u64 \<Rightarrow> nat \<Rightarrow> u8 \<Rightarrow> memory" where
  "mem_set_loop m ptr 0 value = m"
| "mem_set_loop m ptr (Suc n) value = mem_set_loop (st8 m ptr value) (ptr + 1) n value"

definition pal_mem_set :: "memory \<Rightarrow> u64 \<Rightarrow> u32 \<Rightarrow> u8 \<Rightarrow> memory" where
  "pal_mem_set m buf sz value = mem_set_loop m buf (unat sz) value"

section \<open>State kept over a reset\<close>

definition pal_write_reset_status :: "memory \<Rightarrow> u64 \<Rightarrow> u32 \<Rightarrow> memory" where
  "pal_write_reset_status m nvm status = st32 m nvm status"

definition pal_read_reset_status :: "memory \<Rightarrow> u64 \<Rightarrow> u32" where
  "pal_read_reset_status m nvm = ld32 m nvm"

definition pal_save_global_test_data :: "memory \<Rightarrow> u64 \<Rightarrow> u32 \<Rightarrow> u32 \<Rightarrow> u32 \<Rightarrow> memory" where
  "pal_save_global_test_data m nvm rme_tests_total rme_tests_pass rme_tests_fail =
     (let addr = nvm + 0x10 in
      st32 (st32 (st32 m addr rme_tests_total) (addr + 4) rme_tests_pass) (addr + 8) rme_tests_fail)"

definition pal_restore_global_test_data :: "memory \<Rightarrow> u64 \<Rightarrow> u32 \<times> u32 \<times> u32" where
  "pal_restore_global_test_data m nvm =
     (let addr = nvm + 0x10 in (ld32 m addr, ld32 m (addr + 4), ld32 m (addr + 8)))"

section \<open>The heap\<close>

record pal_state =
  ram :: memory
  heap_base :: u64
  heap_top :: u64
  heap_init_done :: u64
  gSharedMemory :: u64

text \<open>The region of the FVP image (\<^verbatim>\<open>platform_image_def.h\<close>).\<close>

definition PLATFORM_HEAP_REGION_BASE :: u64 where
  "PLATFORM_HEAP_REGION_BASE = 0x88000000 + 0x4000000 + 0x100000"

definition PLATFORM_HEAP_REGION_SIZE :: u64 where
  "PLATFORM_HEAP_REGION_SIZE = 250 * 0x100000 - 0x100000"

abbreviation PLATFORM_PAGE_SIZE :: "'a::len word" where "PLATFORM_PAGE_SIZE \<equiv> 0x1000"
abbreviation MEM_ALIGN_4K :: u64 where "MEM_ALIGN_4K \<equiv> 0x1000"

definition ADDR_ALIGN :: "u64 \<Rightarrow> u64 \<Rightarrow> u64" where
  "ADDR_ALIGN a b = (a + (b - 1)) AND NOT (b - 1)"

definition is_power_of_2 :: "u32 \<Rightarrow> bool" where
  "is_power_of_2 n \<longleftrightarrow> n \<noteq> 0 \<and> n AND (n - 1) = 0"

definition heap_alloc :: "u64 \<Rightarrow> u64 \<Rightarrow> pal_state \<Rightarrow> pal_state \<times> u64" where
  "heap_alloc alignment sz s =
     (let addr = ADDR_ALIGN (heap_base s) alignment;
          sz = sz + (addr - heap_base s)
      in if heap_top s - heap_base s < sz then (s, 0)
         else (s\<lparr>heap_base := heap_base s + sz\<rparr>, addr))"

definition mem_alloc_init :: "pal_state \<Rightarrow> pal_state" where
  "mem_alloc_init s = s\<lparr>heap_base := PLATFORM_HEAP_REGION_BASE,
     heap_top := PLATFORM_HEAP_REGION_BASE + PLATFORM_HEAP_REGION_SIZE, heap_init_done := 1\<rparr>"

definition mem_alloc :: "u64 \<Rightarrow> u64 \<Rightarrow> pal_state \<Rightarrow> pal_state \<times> u64" where
  "mem_alloc alignment sz s =
     (let s = (if heap_init_done s \<noteq> 1 then mem_alloc_init s else s)
      in if sz \<le> 0 then (s, 0)
         else if \<not> is_power_of_2 (ucast alignment) then (s, 0)
         else heap_alloc alignment (sz + (alignment - 1)) s)"

definition mem_free :: "u64 \<Rightarrow> pal_state \<Rightarrow> pal_state" where
  "mem_free ptr s = s"

definition pal_mem_free_aligned :: "u64 \<Rightarrow> pal_state \<Rightarrow> pal_state" where
  "pal_mem_free_aligned buf s = mem_free buf s"

definition pal_mem_free :: "u64 \<Rightarrow> pal_state \<Rightarrow> pal_state" where
  "pal_mem_free buf s = pal_mem_free_aligned buf s"

definition pal_mem_alloc :: "u32 \<Rightarrow> pal_state \<Rightarrow> pal_state \<times> u64" where
  "pal_mem_alloc sz s = mem_alloc 8 (ucast sz) s"

text \<open>The product of the two 32-bit arguments is taken at 32 bits.\<close>

definition pal_mem_calloc :: "u32 \<Rightarrow> u32 \<Rightarrow> pal_state \<Rightarrow> pal_state \<times> u64" where
  "pal_mem_calloc num sz s =
     (let (s, ptr) = mem_alloc 8 (ucast (num * sz)) s
      in if ptr \<noteq> 0 then (s\<lparr>ram := pal_mem_set (ram s) ptr (num * sz) 0\<rparr>, ptr) else (s, ptr))"

definition pal_mem_allocate_shared :: "u32 \<Rightarrow> u32 \<Rightarrow> pal_state \<Rightarrow> pal_state" where
  "pal_mem_allocate_shared num_pe sizeofentry s =
     (let (s, ptr) = pal_mem_alloc (num_pe * sizeofentry) (s\<lparr>gSharedMemory := 0\<rparr>) in s\<lparr>gSharedMemory := ptr\<rparr>)"

definition pal_mem_get_shared_addr :: "pal_state \<Rightarrow> u64" where
  "pal_mem_get_shared_addr s = gSharedMemory s"

definition pal_mem_free_shared :: "pal_state \<Rightarrow> pal_state" where
  "pal_mem_free_shared s = pal_mem_free_aligned (gSharedMemory s) s"

text \<open>The result is the virtual address and the physical address stored through \<^verbatim>\<open>Pa\<close>.\<close>

definition pal_mem_alloc_cacheable :: "u32 \<Rightarrow> u32 \<Rightarrow> pal_state \<Rightarrow> pal_state \<times> u64 \<times> u64" where
  "pal_mem_alloc_cacheable Bdf sz s = (let (s, address) = mem_alloc 8 (ucast sz) s in (s, address, address))"

definition pal_mem_free_cacheable :: "u32 \<Rightarrow> u32 \<Rightarrow> u64 \<Rightarrow> u64 \<Rightarrow> pal_state \<Rightarrow> pal_state" where
  "pal_mem_free_cacheable Bdf sz Va Pa s = s"

definition pal_mem_virt_to_phys :: "u64 \<Rightarrow> u64" where
  "pal_mem_virt_to_phys Va = Va"

definition pal_mem_phys_to_virt :: "u64 \<Rightarrow> u64" where
  "pal_mem_phys_to_virt Pa = Pa"

definition pal_mem_page_size :: u32 where
  "pal_mem_page_size = PLATFORM_PAGE_SIZE"

definition pal_mem_alloc_pages :: "u32 \<Rightarrow> pal_state \<Rightarrow> pal_state \<times> u64" where
  "pal_mem_alloc_pages NumPages s = mem_alloc MEM_ALIGN_4K (ucast (NumPages * PLATFORM_PAGE_SIZE)) s"

definition pal_mem_free_pages :: "u64 \<Rightarrow> u32 \<Rightarrow> pal_state \<Rightarrow> pal_state" where
  "pal_mem_free_pages PageBase NumPages s = s"

definition pal_aligned_alloc :: "u32 \<Rightarrow> u32 \<Rightarrow> pal_state \<Rightarrow> pal_state \<times> u64" where
  "pal_aligned_alloc alignment sz s = mem_alloc (ucast alignment) (ucast sz) s"

section \<open>Powers of two\<close>

lemma bit_top:
  fixes x :: "'a::len word"
  assumes "2 ^ k \<le> unat x" and "unat x < 2 ^ Suc k"
  shows "bit x k"
proof -
  have "unat x div 2 ^ k = 1" by (rule div_nat_eqI) (use assms in auto)
  then have "bit (unat x) k" by (simp add: bit_iff_odd)
  then show ?thesis by (simp add: bit_unsigned_iff)
qed

lemma power_of_2_iff: "is_power_of_2 n \<longleftrightarrow> (\<exists>k<32. n = 2 ^ k)"
proof
  assume "is_power_of_2 n"
  then have n: "n \<noteq> 0" "n AND (n - 1) = 0" by (simp_all add: is_power_of_2_def)
  have pos: "0 < unat n" using n(1) by (simp add: unat_gt_0)
  obtain k where k: "2 ^ k \<le> unat n" "unat n < 2 ^ Suc k"
    using ex_power_ivl1 [of 2 "unat n"] pos by auto
  have "unat (n - 1) = unat n - 1" using pos by (simp add: unat_sub_if' Suc_le_eq)
  moreover have "\<not> bit (n - 1) k"
    using arg_cong [OF n(2), of "\<lambda>w. bit w k"] bit_top [OF k] by (simp add: bit_and_iff)
  ultimately have "unat n = 2 ^ k" using bit_top [of k "n - 1"] k by fastforce
  moreover have "k < 32" using calculation word_unat_less [of n] power_less_imp_less_exp [of 2 k 32] by simp
  ultimately have "n = 2 ^ k" by (simp add: word_unat_eq_iff unat_exp)
  with \<open>k < 32\<close> show "\<exists>k<32. n = 2 ^ k" by blast
next
  assume "\<exists>k<32. n = 2 ^ k"
  then obtain k where k: "k < 32" "n = 2 ^ k" by blast
  have "n AND (n - 1) = take_bit k (2 ^ k)" by (simp add: k(2) take_bit_eq_mask mask_eq_exp_minus_1)
  also have "\<dots> = 0" by (simp only: word_unat_eq_iff unat_take_bit_mod) (simp add: unat_exp k(1))
  finally show "is_power_of_2 n" using k by (simp add: is_power_of_2_def)
qed

section \<open>The heap as a bump allocator\<close>

text \<open>The heap ends below the top half of the address space, so that rounding cannot wrap.\<close>

definition heap_ok :: "nat \<Rightarrow> nat \<Rightarrow> pal_state \<Rightarrow> bool" where
  "heap_ok lo hi s \<longleftrightarrow> heap_init_done s = 1 \<and> heap_base s = of_nat lo \<and> heap_top s = of_nat hi \<and>
     0 < lo \<and> lo \<le> hi \<and> hi \<le> 2 ^ 63"

lemma ADDR_ALIGN_up:
  assumes "k < 32" and "x \<le> 2 ^ 63"
  shows "ADDR_ALIGN (of_nat x) (2 ^ k) = of_nat (align_up x (2 ^ k))"
proof -
  have "(2::nat) ^ k \<le> 2 ^ 31" using assms(1) by (intro power_increasing) auto
  then show ?thesis using assms mask_round_up [of k x] by (simp add: ADDR_ALIGN_def)
qed

lemma mem_alloc_bump:
  assumes ok: "heap_ok lo hi s" and k: "k < 32" and n: "0 < n" "n \<le> 2 ^ 32"
  shows "mem_alloc (2 ^ k) (of_nat n) s =
    (let q = align_up lo (2 ^ k); e = q + n + 2 ^ k - 1 in
     if e \<le> hi then (s\<lparr>heap_base := of_nat e\<rparr>, of_nat q) else (s, 0))"
proof -
  define q where "q = align_up lo (2 ^ k)"
  define need where "need = n + 2 ^ k - 1 + (q - lo)"
  have s: "heap_init_done s = 1" "heap_base s = of_nat lo" "heap_top s = of_nat hi" "lo \<le> hi" "hi \<le> 2 ^ 63"
    using ok by (simp_all add: heap_ok_def)
  have q: "lo \<le> q" "q < lo + 2 ^ k" using align_up_bounds [of "2 ^ k" lo] by (simp_all add: q_def)
  have k31: "(2::nat) ^ k \<le> 2 ^ 31" using k by (intro power_increasing) auto
  have al: "ADDR_ALIGN (of_nat lo) (2 ^ k) = of_nat q" using ADDR_ALIGN_up [OF k] s by (simp add: q_def)
  have pow: "is_power_of_2 (ucast (2 ^ k :: u64))"
  proof -
    have "(ucast (2 ^ k :: u64) :: u32) = 2 ^ k"
      using k by (simp add: word_unat_eq_iff unsigned_ucast_eq unat_exp)
    then show ?thesis using k by (auto simp: power_of_2_iff)
  qed
  have sz: "(of_nat n + (2 ^ k - 1) + (of_nat q - of_nat lo) :: u64) = of_nat need"
    using q by (simp add: need_def of_nat_diff)
  have need: "need < 2 ^ 64" using q k31 n by (simp add: need_def)
  have nz: "\<not> (of_nat n :: u64) \<le> 0"
    using n unat_of_nat_small [of n, where 'a = 64] by (simp add: word_le_nat_alt)
  have room: "unat (of_nat hi - of_nat lo :: u64) = hi - lo"
    using s unat_of_nat_small [of hi, where 'a = 64] unat_of_nat_small [of lo, where 'a = 64]
    by (simp add: unat_sub word_le_nat_alt)
  have "(of_nat hi - of_nat lo :: u64) < of_nat need \<longleftrightarrow> \<not> q + n + 2 ^ k - 1 \<le> hi"
    unfolding word_less_nat_alt room unat_of_nat_small [where 'a = 64, simplified, OF need [simplified]]
    using q s n by (auto simp: need_def)
  moreover have "(of_nat lo + of_nat need :: u64) = of_nat (q + n + 2 ^ k - 1)"
  proof -
    have "lo + need = q + n + 2 ^ k - 1" using q n by (simp add: need_def)
    then show ?thesis by (simp only: flip: of_nat_add)
  qed
  ultimately show ?thesis
    using s nz pow by (simp add: mem_alloc_def heap_alloc_def al sz Let_def q_def [symmetric])
qed

section \<open>Byte routines\<close>

lemma word_dist_of_nat: "i < 2 ^ 64 \<Longrightarrow> unat (a + of_nat i - a :: u64) = i"
  by (simp add: unat_of_nat_small)

lemma mem_set_loop_at:
  assumes "n \<le> 2 ^ 64"
  shows "mem_set_loop m p n v x = (if unat (x - p) < n then v else m x)"
  using assms
proof (induction n arbitrary: m p)
  case 0
  then show ?case by simp
next
  case (Suc n)
  have step: "unat (x - p) = Suc (unat (x - (p + 1)))" if "x \<noteq> p"
  proof -
    have "x - p \<noteq> 0" using that by simp
    then show ?thesis using unat_minus_one [of "x - p"] unat_gt_0 [of "x - p"] by (simp add: diff_diff_eq)
  qed
  show ?case
  proof (cases "x = p")
    case True
    have "\<not> unat (p - (p + 1)) < n" using Suc.prems by (simp add: unsigned_minus_1_eq_mask mask_eq_exp_minus_1)
    with True Suc show ?thesis by (simp add: st8_def)
  next
    case False
    with step [OF False] Suc show ?thesis by (simp add: st8_def)
  qed
qed

lemma pal_mem_set_at: "pal_mem_set m p sz v x = (if unat (x - p) < unat sz then v else m x)"
proof -
  have "unat sz \<le> 2 ^ 64" using word_unat_less [of sz] by simp
  then show ?thesis by (simp add: pal_mem_set_def mem_set_loop_at)
qed

text \<open>A byte is overwritten before it is read exactly when the destination starts inside the source.\<close>

lemma memcpy_prefix:
  assumes "n < 2 ^ 64" and "d = s \<or> n \<le> unat (d - s)"
  shows "fold (\<lambda>i m. st8 m (d + of_nat i) (ld8 m (s + of_nat i))) [0..<n] m x =
    (if unat (x - d) < n then m (s + (x - d)) else m x)"
  using assms
proof (induction n arbitrary: x)
  case 0
  then show ?case by simp
next
  case (Suc n)
  let ?f = "fold (\<lambda>i m. st8 m (d + of_nat i) (ld8 m (s + of_nat i))) [0..<n] m"
  have IH: "?f x = (if unat (x - d) < n then m (s + (x - d)) else m x)" for x
    using Suc by (intro Suc.IH) auto
  have src: "?f (s + of_nat n) = m (s + of_nat n)"
  proof (cases "d = s")
    case True
    then show ?thesis using IH [of "s + of_nat n"] by (simp split: if_splits)
  next
    case False
    then have "Suc n \<le> unat (d - s)" using Suc.prems(2) by simp
    moreover have "unat (of_nat n :: u64) = n" using Suc.prems(1) by (simp add: unat_of_nat_small)
    ultimately have "unat (of_nat n - (d - s)) = 2 ^ 64 + n - unat (d - s)"
      unfolding unat_sub_if' [of "of_nat n" "d - s"] by simp
    moreover have "of_nat n - (d - s) = s + of_nat n - d" by simp
    ultimately have "\<not> unat (s + of_nat n - d) < n"
      using word_unat_less [of "d - s"] by (simp only:) simp
    then show ?thesis by (simp add: IH)
  qed
  have "x = d + of_nat n \<longleftrightarrow> unat (x - d) = n"
  proof
    assume "unat (x - d) = n"
    then have "x - d = of_nat n" by auto
    then show "x = d + of_nat n" by (simp add: algebra_simps)
  qed (use Suc.prems(1) in \<open>simp add: unat_of_nat_small\<close>)
  moreover have "fold (\<lambda>i m. st8 m (d + of_nat i) (ld8 m (s + of_nat i))) [0..<Suc n] m x =
      (if x = d + of_nat n then m (s + of_nat n) else ?f x)"
    by (simp add: st8_def [of ?f] ld8_def [of ?f] src)
  ultimately show ?case unfolding IH by (auto simp: less_Suc_eq)
qed

text \<open>The C string at an address, cut after \<open>n\<close> characters, as its reference.\<close>

fun cstr :: "memory \<Rightarrow> u64 \<Rightarrow> nat \<Rightarrow> u8 list" where
  "cstr m p 0 = []"
| "cstr m p (Suc n) = (if m p = 0 then [] else m p # cstr m (p + 1) n)"

lemma length_cstr: "length (cstr m p n) \<le> n"
  by (induction m p n rule: cstr.induct) auto

lemma cstr_nonzero: "c \<in> set (cstr m p n) \<Longrightarrow> c \<noteq> 0"
  by (induction m p n rule: cstr.induct) (auto split: if_splits)

lemma cstr_cong:
  assumes "\<And>i. i < n \<Longrightarrow> m' (p + of_nat i) = m (p + of_nat i)"
  shows "cstr m' p n = cstr m p n"
  using assms
proof (induction n arbitrary: p)
  case 0
  then show ?case by simp
next
  case (Suc n)
  have "m' p = m p" using Suc.prems [of 0] by simp
  moreover have "cstr m' (p + 1) n = cstr m (p + 1) n"
    using Suc.prems [of "Suc i" for i] by (intro Suc.IH) (simp add: add.assoc)
  ultimately show ?case by simp
qed

lemma cstr_read:
  assumes "\<And>i. i < length t \<Longrightarrow> m (p + of_nat i) = t ! i" and "\<And>c. c \<in> set t \<Longrightarrow> c \<noteq> 0"
    and "length t = n \<or> length t < n \<and> m (p + of_nat (length t)) = 0"
  shows "cstr m p n = t"
  using assms
proof (induction t arbitrary: p n)
  case Nil
  then show ?case by (cases n) auto
next
  case (Cons c t)
  obtain k where k: "n = Suc k" using Cons.prems(3) by (cases n) auto
  have "m p = c" "c \<noteq> 0" using Cons.prems(1) [of 0] Cons.prems(2) by simp_all
  moreover have "cstr m (p + 1) k = t"
    using Cons.prems(1) [of "Suc i" for i] Cons.prems(2,3) k by (intro Cons.IH) (auto simp: add.assoc)
  ultimately show ?case by (simp add: k)
qed

lemma ucast_byte_eq: "(ucast (a :: u8) :: u32) = ucast b \<longleftrightarrow> a = b"
proof -
  have "unat (ucast x :: u32) = unat x" for x :: u8 by (rule unat_ucast_up) simp
  then show ?thesis by (metis word_unat_eq_iff)
qed

lemma strncmp_loop_step:
  "strncmp_loop m p q (Suc n) = 0 \<longleftrightarrow> m p = m q \<and> (m p = 0 \<or> strncmp_loop m (p + 1) (q + 1) n = 0)"
  using ucast_byte_eq [of "m p" "m q"] by (auto simp: ld8_def)

lemma strncmp_loop_zero: "strncmp_loop m p q n = 0 \<longleftrightarrow> cstr m p n = cstr m q n"
proof (induction n arbitrary: p q)
  case (Suc n)
  then show ?case by (simp only: strncmp_loop_step) auto
qed simp

lemma strncpy_loop_at:
  assumes "n < 2 ^ 63" and "Suc n \<le> unat (s - d)" and "n \<le> unat (d - s)"
  shows "strncpy_loop m d s n x =
    (let t = cstr m s n in if unat (x - d) < length t then t ! unat (x - d)
     else if unat (x - d) = length t then 0 else m x)"
  using assms
proof (induction n arbitrary: m d s)
  case 0
  then show ?case by (auto simp: st8_def unsigned_eq_0_iff)
next
  case (Suc n)
  show ?case
  proof (cases "m s = 0")
    case True
    then show ?thesis by (auto simp: st8_def ld8_def unsigned_eq_0_iff)
  next
    case False
    have "cstr (st8 m d (m s)) (s + 1) n = cstr m (s + 1) n"
    proof (rule cstr_cong)
      fix i assume "i < n"
      have "s + 1 + of_nat i \<noteq> d"
      proof
        assume "s + 1 + of_nat i = d"
        then have "d - s = of_nat (Suc i)" by (auto simp: algebra_simps)
        then have "unat (d - s) = Suc i" using \<open>i < n\<close> Suc.prems(1) unat_of_nat_small [of "Suc i", where 'a = 64] by simp
        then show False using Suc.prems(3) \<open>i < n\<close> by simp
      qed
      then show "st8 m d (m s) (s + 1 + of_nat i) = m (s + 1 + of_nat i)" by (simp add: st8_def)
    qed
    moreover have "strncpy_loop (st8 m d (m s)) (d + 1) (s + 1) n x =
        (let t = cstr (st8 m d (m s)) (s + 1) n in if unat (x - (d + 1)) < length t then t ! unat (x - (d + 1))
         else if unat (x - (d + 1)) = length t then 0 else st8 m d (m s) x)"
      using Suc.prems by (intro Suc.IH) auto
    moreover have "unat (x - d) = Suc (unat (x - (d + 1)))" if "x \<noteq> d"
      using that unat_minus_one [of "x - d"] unat_gt_0 [of "x - d"] by (simp add: diff_diff_eq)
    moreover have "\<not> unat (d - (d + 1)) \<le> length (cstr m (s + 1) n)"
      using Suc.prems(1) length_cstr [of m "s + 1" n] by (simp add: unsigned_minus_1_eq_mask mask_eq_exp_minus_1)
    ultimately show ?thesis using False by (cases "x = d") (auto simp: Let_def ld8_def st8_def)
  qed
qed

section \<open>Properties of the memory services\<close>

text \<open>(C24) The heap. On an initialised heap, a request of \<open>n\<close> bytes at an alignment \<open>2 ^ k\<close> is served at the
  first aligned address from the base, exactly when the request and the padding of an alignment less one
  fit below the top; the base moves behind it and nothing else changes. Otherwise the answer is NULL and
  the heap is unchanged. Before the first request the heap is set up on the region of the platform. A size
  of zero or an alignment that is not a power of two (the test on the low 32 bits is exact) gives NULL.\<close>

theorem mem_alloc_contract:
  assumes "heap_ok lo hi s" and "k < 32" and "0 < n" and "n \<le> 2 ^ 32"
  shows "mem_alloc (2 ^ k) (of_nat n) s =
      (let q = align_up lo (2 ^ k); e = q + n + 2 ^ k - 1 in
       if e \<le> hi then (s\<lparr>heap_base := of_nat e\<rparr>, of_nat q) else (s, 0))
    \<and> mem_alloc al 0 s = (s, 0)
    \<and> (\<not> (\<exists>j<32. (ucast al :: u32) = 2 ^ j) \<longrightarrow> mem_alloc al sz s = (s, 0))
    \<and> (heap_init_done s0 \<noteq> 1 \<longrightarrow> mem_alloc al sz s0 = mem_alloc al sz (mem_alloc_init s0) \<and>
         heap_ok 0x8C100000 0x9BA00000 (mem_alloc_init s0))"
proof (intro conjI impI)
  have init: "heap_init_done s = 1" using assms(1) by (simp add: heap_ok_def)
  then show "mem_alloc al 0 s = (s, 0)" by (simp add: mem_alloc_def)
  show "mem_alloc al sz s = (s, 0)" if "\<not> (\<exists>j<32. (ucast al :: u32) = 2 ^ j)"
    using that init by (simp add: mem_alloc_def power_of_2_iff)
  show "mem_alloc al sz s0 = mem_alloc al sz (mem_alloc_init s0)" if "heap_init_done s0 \<noteq> 1"
    using that by (simp add: mem_alloc_def mem_alloc_init_def)
  show "heap_ok 0x8C100000 0x9BA00000 (mem_alloc_init s0)"
    by (simp add: heap_ok_def mem_alloc_init_def PLATFORM_HEAP_REGION_BASE_def PLATFORM_HEAP_REGION_SIZE_def)
qed (rule mem_alloc_bump [OF assms])

definition example_pal :: pal_state where
  "example_pal = \<lparr>ram = (\<lambda>_. 7), heap_base = 0x1003, heap_top = 0x2000, heap_init_done = 1, gSharedMemory = 0\<rparr>"

lemma example_pal_ok: "heap_ok 0x1003 0x2000 example_pal"
  by (simp add: heap_ok_def example_pal_def)

theorem mem_alloc_contract_witness:
  "mem_alloc (2 ^ 4) (of_nat 32) example_pal = (example_pal\<lparr>heap_base := 0x103F\<rparr>, 0x1010)
   \<and> mem_alloc (2 ^ 4) (of_nat 0x1000) example_pal = (example_pal, 0)"
  using mem_alloc_contract [OF example_pal_ok, of 4 32 0 0 example_pal]
    mem_alloc_contract [OF example_pal_ok, of 4 "0x1000" 0 0 example_pal]
  by (simp add: align_up_def Let_def)

text \<open>The heap satisfies the contract of an allocator of zeroed memory, with \<^verbatim>\<open>pal_mem_calloc\<close>.\<close>

type_synonym heap_layout = "nat \<times> nat \<times> nat"

definition heap_request :: "pal_state \<Rightarrow> nat \<times> nat \<Rightarrow> (pal_state \<times> u64) option" where
  "heap_request s r = (case pal_mem_calloc 1 (of_nat (fst r)) s of (s', p) \<Rightarrow> if p = 0 then None else Some (s', p))"

definition heap_place :: "heap_layout \<Rightarrow> nat \<times> nat \<Rightarrow> (heap_layout \<times> nat) option" where
  "heap_place b r = (case (b, r) of ((start, lo, hi), (n, k)) \<Rightarrow>
     let q = align_up lo 8 in
     if k \<le> 3 \<and> 0 < n \<and> n < 2 ^ 32 \<and> q + n + 7 \<le> hi then Some ((start, q + n + 7, hi), q) else None)"

definition heap_layout_ok :: "heap_layout \<Rightarrow> pal_state \<Rightarrow> bool" where
  "heap_layout_ok b s = (case b of (start, lo, hi) \<Rightarrow> heap_ok lo hi s \<and> start \<le> lo)"

definition heap_in_use :: "heap_layout \<Rightarrow> nat \<Rightarrow> bool" where
  "heap_in_use b y = (case b of (start, lo, hi) \<Rightarrow> start \<le> y \<and> y < lo)"

lemma mem_alloc_u32:
  assumes "heap_ok lo hi s" and "k < 32"
  shows "mem_alloc (2 ^ k) (ucast (w :: u32)) s =
    (let q = align_up lo (2 ^ k); e = q + unat w + 2 ^ k - 1 in
     if 0 < unat w \<and> e \<le> hi then (s\<lparr>heap_base := of_nat e\<rparr>, of_nat q) else (s, 0))"
proof (cases "w = 0")
  case True
  then show ?thesis using assms(1) by (simp add: mem_alloc_def heap_ok_def)
next
  case False
  have "ucast w = (of_nat (unat w) :: u64)"
    using word_unat_less [of w] by (simp add: word_unat_eq_iff unat_ucast_up)
  moreover have "0 < unat w" "unat w \<le> 2 ^ 32" using False word_unat_less [of w] by (simp_all add: unat_gt_0)
  ultimately show ?thesis using mem_alloc_bump [OF assms, of "unat w"] by (simp add: Let_def)
qed

lemma calloc_serves:
  assumes "heap_ok lo hi s"
  shows "pal_mem_calloc num sz s =
    (let n = unat (num * sz); q = align_up lo 8 in
     if 0 < n \<and> q + n + 7 \<le> hi
     then (s\<lparr>heap_base := of_nat (q + n + 7), ram := pal_mem_set (ram s) (of_nat q) (num * sz) 0\<rparr>, of_nat q)
     else (s, 0))"
proof -
  define q where "q = align_up lo 8"
  have "lo \<le> q" using align_up_bounds(1) [of 8 lo] by (simp add: q_def)
  then have nz: "(of_nat q :: u64) \<noteq> 0" if "q + n + 7 \<le> hi" for n
    using that assms unat_of_nat_small [of q, where 'a = 64] by (auto simp: heap_ok_def)
  show ?thesis
  proof (cases "0 < unat (num * sz) \<and> q + unat (num * sz) + 7 \<le> hi")
    case True
    with nz [of "unat (num * sz)"] mem_alloc_u32 [OF assms, of 3 "num * sz"] show ?thesis
      by (simp add: pal_mem_calloc_def Let_def q_def [symmetric] add.commute)
  next
    case False
    with mem_alloc_u32 [OF assms, of 3 "num * sz"] have "mem_alloc 8 (ucast (num * sz)) s = (s, 0)"
      by (auto simp: Let_def q_def)
    with False show ?thesis unfolding pal_mem_calloc_def Let_def q_def [symmetric] by auto
  qed
qed

interpretation heap: zeroing_allocator heap_request heap_place heap_layout_ok heap_in_use
  "\<lambda>s y. ram s (of_nat y)"
proof
  fix b s r b' q assume inv: "heap_layout_ok b s" and pl: "heap_place b r = Some (b', q)"
  obtain start lo hi n k where b: "b = (start, lo, hi)" and r: "r = (n, k)" by (metis prod_cases3 surj_pair)
  have p: "k \<le> 3" "0 < n" "n < 2 ^ 32" "q + n + 7 \<le> hi" "q = align_up lo 8" "b' = (start, q + n + 7, hi)"
    using pl by (auto simp: heap_place_def b r Let_def split: if_splits)
  have ok: "heap_ok lo hi s" "start \<le> lo" "hi \<le> 2 ^ 63" using inv by (auto simp: heap_layout_ok_def b heap_ok_def)
  have q: "lo \<le> q" "8 dvd q" using align_up_bounds [of 8 lo] by (simp_all add: p(5))
  have un: "unat (1 * of_nat n :: u32) = n" using p(3) by (simp add: unat_of_nat_small)
  have at: "pal_mem_set m (of_nat q) (1 * of_nat n) 0 (of_nat y) = (if q \<le> y \<and> y < q + n then 0 else m (of_nat y))"
    if "y < 2 ^ 64" for y m
  proof -
    have "unat (of_nat y - of_nat q :: u64) < n \<longleftrightarrow> q \<le> y \<and> y < q + n"
      using that p(3,4) ok(3) by (auto simp: unat_sub_if' unat_of_nat_small word_le_nat_alt)
    then show ?thesis using un by (simp add: pal_mem_set_at)
  qed
  have small: "q + i < 2 ^ 64" if "i < n" for i using that p(4) ok(3) by simp
  have keep: "pal_mem_set m (of_nat q) (1 * of_nat n) 0 (of_nat y) = m (of_nat y)" if "heap_in_use b y" for y m
    using that q(1) p(4) ok(3) by (subst at) (auto simp: heap_in_use_def b)
  have nz: "(of_nat q :: u64) \<noteq> 0"
    using ok q(1) p(4) unat_of_nat_small [of q, where 'a = 64] by (auto simp: heap_ok_def)
  have call: "pal_mem_calloc 1 (of_nat n) s = (s\<lparr>heap_base := of_nat (q + n + 7),
      ram := pal_mem_set (ram s) (of_nat q) (1 * of_nat n) 0\<rparr>, of_nat q)"
    using calloc_serves [OF ok(1), of 1 "of_nat n"] p(2,4) un by (simp add: p(5) [symmetric])
  show "\<exists>s'. heap_request s r = Some (s', of_nat q) \<and> heap_layout_ok b' s' \<and> (\<forall>i<fst r. ram s' (of_nat (q + i)) = 0) \<and>
      (\<forall>y. heap_in_use b y \<longrightarrow> ram s' (of_nat y) = ram s (of_nat y))"
    using call ok q(1) p(4) at [OF small] keep nz
    by (auto simp: heap_request_def r p(6) heap_layout_ok_def heap_ok_def)
  show "\<not> heap_in_use b (q + i) \<and> heap_in_use b' (q + i)" if "i < fst r" for i
    using that q(1) ok(2) by (simp add: heap_in_use_def b p(6) r)
  show "2 ^ snd r dvd q" using dvd_trans [OF le_imp_power_dvd [OF p(1), of "2 :: nat"]] q(2) by (simp add: r)
  show "heap_in_use b' y" if "heap_in_use b y" for y
    using that q(1) by (simp add: heap_in_use_def b p(6))
qed



text \<open>The 32-bit products. \<^verbatim>\<open>pal_mem_calloc\<close> and \<^verbatim>\<open>pal_mem_alloc_pages\<close> reserve their product
  modulo \<open>2 ^ 32\<close>: a request whose true size does not fit in 32 bits is answered with a block of the
  truncated size, or with NULL when that is zero.\<close>

theorem alloc_products_truncated:
  assumes "heap_ok lo hi s"
  shows "pal_mem_calloc num sz s =
      (let n = unat num * unat sz mod 2 ^ 32; q = align_up lo 8 in
       if 0 < n \<and> q + n + 7 \<le> hi
       then (s\<lparr>heap_base := of_nat (q + n + 7), ram := pal_mem_set (ram s) (of_nat q) (of_nat n) 0\<rparr>, of_nat q)
       else (s, 0))
    \<and> pal_mem_alloc_pages pages s =
      (let n = unat pages * 4096 mod 2 ^ 32; q = align_up lo 4096 in
       if 0 < n \<and> q + n + 4095 \<le> hi then (s\<lparr>heap_base := of_nat (q + n + 4095)\<rparr>, of_nat q) else (s, 0))"
proof
  have "unat (num * sz) = unat num * unat sz mod 2 ^ 32" by (simp add: unat_word_ariths)
  moreover from this have "of_nat (unat num * unat sz mod 2 ^ 32) = num * sz" by (metis word_nat_cases unat_of_nat_small)
  ultimately show "pal_mem_calloc num sz s =
      (let n = unat num * unat sz mod 2 ^ 32; q = align_up lo 8 in
       if 0 < n \<and> q + n + 7 \<le> hi
       then (s\<lparr>heap_base := of_nat (q + n + 7), ram := pal_mem_set (ram s) (of_nat q) (of_nat n) 0\<rparr>, of_nat q)
       else (s, 0))"
    using calloc_serves [OF assms, of num sz] by (simp only: Let_def)
  have "unat (pages * 0x1000) = unat pages * 4096 mod 2 ^ 32" by (simp add: unat_word_ariths)
  then show "pal_mem_alloc_pages pages s =
      (let n = unat pages * 4096 mod 2 ^ 32; q = align_up lo 4096 in
       if 0 < n \<and> q + n + 4095 \<le> hi then (s\<lparr>heap_base := of_nat (q + n + 4095)\<rparr>, of_nat q) else (s, 0))"
    using mem_alloc_u32 [OF assms, of 12 "pages * 0x1000"] by (simp add: pal_mem_alloc_pages_def Let_def)
qed

theorem alloc_products_truncated_witness:
  "snd (pal_mem_calloc 0x10001 0x10000 example_pal) = 0 \<and> pal_mem_alloc_pages 0x100000 example_pal = (example_pal, 0)
   \<and> pal_mem_calloc 0x8000001 32 example_pal =
       (example_pal\<lparr>heap_base := 0x102F, ram := pal_mem_set (ram example_pal) 0x1008 32 0\<rparr>, 0x1008)"
  using alloc_products_truncated [OF example_pal_ok, of "0x10001" "0x10000" "0x100000"]
    alloc_products_truncated [OF example_pal_ok, of "0x8000001" 32 0]
  by (simp add: align_up_def)

text \<open>Copying bytes. \<^verbatim>\<open>pal_memcpy\<close> moves the source to the destination, byte for byte, and changes nothing
  else, even when the regions overlap, unless the destination starts strictly inside the source.\<close>

theorem pal_memcpy_copies:
  assumes "d = s \<or> unat n \<le> unat (d - s)"
  shows "snd (pal_memcpy m d s n) = d \<and>
    fst (pal_memcpy m d s n) x = (if unat (x - d) < unat n then m (s + (x - d)) else m x)"
proof -
  have "unat n < 2 ^ 64" using word_unat_less [of n] by simp
  then show ?thesis using memcpy_prefix [of "unat n" d s m x] assms by (simp add: pal_memcpy_def)
qed

theorem pal_memcpy_copies_witness:
  "fst (pal_memcpy (\<lambda>a. ucast a) 0x1000 0x1004 16) 0x100F = 0x13"
  using pal_memcpy_copies [of "0x1000" "0x1004" 16 "\<lambda>a. ucast a" "0x100F"] by simp

text \<open>Copying and comparing strings. For disjoint buffers \<^verbatim>\<open>pal_strncpy\<close> copies the characters of the
  source up to its terminator or \<open>Length\<close> of them, and then always writes a terminator: a source of
  \<open>Length\<close> or more characters puts it in the byte behind the \<open>Length\<close> bytes of the destination. No other
  byte changes, and \<^verbatim>\<open>pal_strncmp\<close> finds source and copy equal; in general it returns zero exactly when the
  two strings agree up to a terminator or the limit. A null destination is refused.\<close>

theorem pal_strncpy_copies:
  assumes "d \<noteq> 0" and "unat n < unat (s - d)" and "unat n < unat (d - s)"
  shows "snd (pal_strncpy m d s n) = d
    \<and> fst (pal_strncpy m d s n) x =
        (let t = cstr m s (unat n) in if unat (x - d) < length t then t ! unat (x - d)
         else if unat (x - d) = length t then 0 else m x)
    \<and> pal_strncmp (fst (pal_strncpy m d s n)) d s n = 0
    \<and> (pal_strncmp m p q n = 0 \<longleftrightarrow> cstr m p (unat n) = cstr m q (unat n))
    \<and> pal_strncpy m 0 s n = (m, 0)"
proof -
  let ?t = "cstr m s (unat n)" and ?m = "fst (pal_strncpy m d s n)"
  have n: "unat n < 2 ^ 63" using word_unat_less [of n] by simp
  have at: "?m x = (if unat (x - d) < length ?t then ?t ! unat (x - d) else if unat (x - d) = length ?t then 0 else m x)" for x
    using strncpy_loop_at [OF n, of s d m x] assms by (simp add: pal_strncpy_def Let_def)
  have "?m (s + of_nat i) = m (s + of_nat i)" if "i < unat n" for i
  proof -
    have "Suc (unat n) \<le> unat (s + of_nat i - d)"
      by (rule apart_outside [of _ "unat n"]) (use assms that in \<open>simp_all add: apart_def\<close>)
    then show ?thesis using length_cstr [of m s "unat n"] by (simp add: at)
  qed
  then have src: "cstr ?m s (unat n) = ?t" by (rule cstr_cong)
  have copy: "cstr ?m d (unat n) = ?t"
  proof (rule cstr_read)
    show "?m (d + of_nat i) = ?t ! i" if "i < length ?t" for i
      using that at [of "d + of_nat i"] word_dist_of_nat [of i d] n length_cstr [of m s "unat n"] by simp
    show "length ?t = unat n \<or> length ?t < unat n \<and> ?m (d + of_nat (length ?t)) = 0"
      using at [of "d + of_nat (length ?t)"] word_dist_of_nat [of "length ?t" d] n length_cstr [of m s "unat n"] by auto
  qed (rule cstr_nonzero)
  show ?thesis
    using copy assms(1) at [of x] src
    by (simp add: pal_strncmp_def strncmp_loop_zero pal_strncpy_def [of m d] pal_strncpy_def [of m 0] Let_def)
qed

theorem pal_strncpy_copies_witness:
  "fst (pal_strncpy (\<lambda>a. if a < 0x2004 then 65 else 0) 0x1000 0x2000 4) 0x1004 = 0
   \<and> fst (pal_strncpy (\<lambda>a. if a < 0x2004 then 65 else 0) 0x1000 0x2000 4) 0x1005 = 65"
proof -
  have four: "4 = Suc (Suc (Suc (Suc 0)))" by simp
  have "cstr (\<lambda>a. if a < 0x2004 then 65 else 0) 0x2000 (Suc (Suc (Suc (Suc 0)))) = [65, 65, 65, 65]"
    by simp
  then have "cstr (\<lambda>a. if a < 0x2004 then 65 else 0) 0x2000 4 = [65, 65, 65, 65]" by (simp only: four)
  with pal_strncpy_copies [of "0x1000" 4 "0x2000" "\<lambda>a. if a < 0x2004 then 65 else 0" "0x1004" 0 0]
    pal_strncpy_copies [of "0x1000" 4 "0x2000" "\<lambda>a. if a < 0x2004 then 65 else 0" "0x1005" 0 0]
  show ?thesis by (simp add: Let_def)
qed

text \<open>The test counters survive a reset. What \<^verbatim>\<open>pal_save_global_test_data\<close> stores in non-volatile memory,
  \<^verbatim>\<open>pal_restore_global_test_data\<close> reads back, whatever reset status is written in between; the reset status
  reads back too and saving the counters does not change it.\<close>

theorem nvm_round_trip:
  "pal_restore_global_test_data (pal_save_global_test_data m nvm t p f) nvm = (t, p, f)
   \<and> pal_read_reset_status (pal_write_reset_status m nvm st) nvm = st
   \<and> pal_restore_global_test_data (pal_write_reset_status (pal_save_global_test_data m nvm t p f) nvm st) nvm = (t, p, f)
   \<and> pal_read_reset_status (pal_save_global_test_data (pal_write_reset_status m nvm st) nvm t p f) nvm = st"
  by (simp add: pal_restore_global_test_data_def pal_save_global_test_data_def pal_read_reset_status_def
      pal_write_reset_status_def Let_def access_simps apart_def)

lemma compare_loop_first:
  "compare_loop m p q n = (case find (\<lambda>i. m (p + of_nat i) \<noteq> m (q + of_nat i)) [0..<n] of
     None \<Rightarrow> 0 | Some i \<Rightarrow> uint (m (p + of_nat i)) - uint (m (q + of_nat i)))"
proof (induction n arbitrary: p q)
  case 0
  then show ?case by simp
next
  case (Suc n)
  have "find P [0..<Suc n] = (if P 0 then Some 0 else map_option Suc (find (\<lambda>i. P (Suc i)) [0..<n]))" for P
  proof -
    have "find P (map Suc xs) = map_option Suc (find (\<lambda>i. P (Suc i)) xs)" for xs by (induction xs) auto
    moreover have "[0..<Suc n] = 0 # map Suc [0..<n]" by (simp add: upt_conv_Cons map_Suc_upt)
    ultimately show ?thesis by simp
  qed
  then show ?case using Suc [of "p + 1" "q + 1"]
    by (auto simp: ld8_def add.assoc split: option.split)
qed

text \<open>Comparing memory. \<^verbatim>\<open>pal_mem_compare\<close> returns zero exactly when the regions agree; otherwise it returns
  the byte of the second argument less the byte of the first at the first difference, the opposite sign of
  the C library's \<^verbatim>\<open>memcmp\<close>.\<close>

theorem pal_mem_compare_result:
  "pal_mem_compare m src dest n = (case find (\<lambda>i. m (dest + of_nat i) \<noteq> m (src + of_nat i)) [0..<unat n] of
     None \<Rightarrow> 0 | Some i \<Rightarrow> uint (m (dest + of_nat i)) - uint (m (src + of_nat i)))
   \<and> (pal_mem_compare m src dest n = 0 \<longleftrightarrow> (\<forall>i<unat n. m (dest + of_nat i) = m (src + of_nat i)))"
proof -
  have "pal_mem_compare m src dest n = compare_loop m dest src (unat n)"
    by (simp add: pal_mem_compare_def)
  then show ?thesis
    by (auto simp: compare_loop_first find_None_iff find_Some_iff word_uint_eq_iff split: option.split)
qed

end
