(* ===== verification/Pal_Print.thy ===== *)
theory Pal_Print
  imports Acs_Prelude
begin

text \<open>
  The console of the bare-metal platform layer: the PL011 driver
  (\<^verbatim>\<open>platform/pal_baremetal/src/pal_pl011_uart.c\<close>) and the formatted output on top of it
  (\<^verbatim>\<open>pal_misc.c\<close>: \<^verbatim>\<open>string_print\<close>, \<^verbatim>\<open>unsigned_num_print\<close>, \<^verbatim>\<open>vprintf\<close>, \<^verbatim>\<open>log_get_prefix\<close>,
  \<^verbatim>\<open>pal_uart_print\<close>, \<^verbatim>\<open>pal_print_raw\<close>).

  The device is a record: the characters written to its data register, its control registers as last
  written, and the values its flag register delivers, one per read; when the transmit queue has room is
  the device's affair and a parameter. A wait that never ends, an access outside a local buffer and an
  argument that is missing or of the wrong kind are \<open>None\<close>. A format is the list of its characters
  before the terminator. Each variadic argument is a 64-bit slot or a string; reading an \<^verbatim>\<open>int\<close> takes the
  low half of the slot.
\<close>

section \<open>The PL011 driver\<close>

record pl011 =
  uart_tx :: string
  uartcr :: u32
  uartibrd :: u32
  uartfbrd :: u32
  uartlcr_h :: u32
  uartecr :: u32
  uartfr :: "nat \<Rightarrow> u32"
  fr_reads :: nat
  is_uart_init_done :: u8

definition UART_PL011_UARTCR_EN_MASK :: u32 where "UART_PL011_UARTCR_EN_MASK = push_bit 0 1"
definition UART_PL011_UARTCR_TX_EN_MASK :: u32 where "UART_PL011_UARTCR_TX_EN_MASK = push_bit 8 1"
definition UART_PL011_UARTFR_TX_FIFO_FULL :: u32 where "UART_PL011_UARTFR_TX_FIFO_FULL = push_bit 5 1"
definition UART_PL011_LINE_CONTROL :: u32 where "UART_PL011_LINE_CONTROL = push_bit 4 1 OR push_bit 5 3"

abbreviation UART_PL011_CLK_IN_HZ :: u32 where "UART_PL011_CLK_IN_HZ \<equiv> 24000000"
abbreviation UART_PL011_BAUDRATE :: u32 where "UART_PL011_BAUDRATE \<equiv> 115200"

definition pal_driver_uart_pl011_init :: "pl011 \<Rightarrow> pl011" where
  "pal_driver_uart_pl011_init u =
     (let bauddiv = (UART_PL011_CLK_IN_HZ * 4) div UART_PL011_BAUDRATE;
          u = u\<lparr>uartcr := uartcr u AND NOT UART_PL011_UARTCR_EN_MASK\<rparr>;
          u = u\<lparr>uartibrd := drop_bit 6 bauddiv\<rparr>;
          u = u\<lparr>uartfbrd := bauddiv AND 0x3F\<rparr>;
          u = u\<lparr>uartlcr_h := UART_PL011_LINE_CONTROL\<rparr>;
          u = u\<lparr>uartecr := 0\<rparr>
      in u\<lparr>uartcr := UART_PL011_UARTCR_EN_MASK OR UART_PL011_UARTCR_TX_EN_MASK\<rparr>)"

definition pal_driver_uart_pl011_is_tx_empty :: "pl011 \<Rightarrow> bool \<times> pl011" where
  "pal_driver_uart_pl011_is_tx_empty u =
     (if uartcr u AND UART_PL011_UARTCR_EN_MASK \<noteq> 0 \<and> uartcr u AND UART_PL011_UARTCR_TX_EN_MASK \<noteq> 0
      then (uartfr u (fr_reads u) AND UART_PL011_UARTFR_TX_FIFO_FULL = 0, u\<lparr>fr_reads := fr_reads u + 1\<rparr>)
      else (False, u))"

partial_function (option) tx_wait :: "pl011 \<Rightarrow> pl011 option" where
  "tx_wait u = (let (e, u') = pal_driver_uart_pl011_is_tx_empty u in if e then Some u' else tx_wait u')"

definition pal_uart_putc :: "char \<Rightarrow> pl011 \<Rightarrow> pl011 option" where
  "pal_uart_putc c u =
     do { u \<leftarrow> tx_wait (if is_uart_init_done u = 0 then (pal_driver_uart_pl011_init u)\<lparr>is_uart_init_done := 1\<rparr> else u);
          Some (u\<lparr>uart_tx := uart_tx u @ [c]\<rparr>) }"

section \<open>Strings and numbers\<close>

fun string_loop :: "string \<Rightarrow> int \<Rightarrow> pl011 \<Rightarrow> (pl011 \<times> int) option" where
  "string_loop [] count u = Some (u, count)"
| "string_loop (c # str) count u = do { u \<leftarrow> pal_uart_putc c u; string_loop str (count + 1) u }"

definition string_print :: "string \<Rightarrow> pl011 \<Rightarrow> (pl011 \<times> int) option" where
  "string_print str u = string_loop str 0 u"

text \<open>The digit loop fills \<^verbatim>\<open>num_buf\<close>, of twenty characters, from its start.\<close>

function digit_loop :: "u64 \<Rightarrow> u32 \<Rightarrow> nat \<Rightarrow> string \<Rightarrow> (string \<times> nat) option" where
  "digit_loop unum radix i num_buf =
     (if 20 \<le> i then None
      else let r = unum mod ucast radix;
               num_buf = num_buf[i := if r < 0xa then char_of (48 + unat r) else char_of (97 + (unat r - 0xa))];
               unum = unum div ucast radix
           in if 0 < unum then digit_loop unum radix (i + 1) num_buf else Some (num_buf, i + 1))"
  by pat_completeness auto

termination by (relation "measure (\<lambda>(_, _, i, _). 20 - i)") auto

function pad_loop :: "int \<Rightarrow> int \<Rightarrow> char \<Rightarrow> int \<Rightarrow> pl011 \<Rightarrow> (pl011 \<times> int) option" where
  "pad_loop i padn padc count u =
     (if i < padn then do { u \<leftarrow> pal_uart_putc padc u; pad_loop i (padn - 1) padc (count + 1) u }
      else Some (u, count))"
  by pat_completeness auto

termination by (relation "measure (\<lambda>(i, padn, _). nat (padn - i))") auto

fun out_loop :: "nat \<Rightarrow> string \<Rightarrow> int \<Rightarrow> pl011 \<Rightarrow> (pl011 \<times> int) option" where
  "out_loop 0 num_buf count u = Some (u, count)"
| "out_loop (Suc i) num_buf count u = do { u \<leftarrow> pal_uart_putc (num_buf ! i) u; out_loop i num_buf (count + 1) u }"

text \<open>The buffer is not initialised; every character of it is written before it is read.\<close>

definition unsigned_num_print :: "u64 \<Rightarrow> u32 \<Rightarrow> char \<Rightarrow> int \<Rightarrow> pl011 \<Rightarrow> (pl011 \<times> int) option" where
  "unsigned_num_print unum radix padc padn u =
     (if radix < 10 then Some (u, 0)
      else do { (num_buf, i) \<leftarrow> digit_loop unum radix 0 (replicate 20 (CHR 0x00));
                (u, count) \<leftarrow> (if 0 < padn then pad_loop (int i) padn padc 0 u else Some (u, 0));
                out_loop i num_buf count u })"

section \<open>Formatted output\<close>

datatype va_arg = Num u64 | Str string

definition get_num_va_args :: "va_arg list \<Rightarrow> nat \<Rightarrow> (u64 \<times> va_arg list) option" where
  "get_num_va_args args l_count = (case args of
       Num w # args \<Rightarrow> Some (if 1 \<le> l_count then w else scast (ucast w :: u32), args)
     | _ \<Rightarrow> None)"

definition get_unum_va_args :: "va_arg list \<Rightarrow> nat \<Rightarrow> (u64 \<times> va_arg list) option" where
  "get_unum_va_args args l_count = (case args of
       Num w # args \<Rightarrow> Some (if 1 \<le> l_count then w else ucast (ucast w :: u32), args)
     | _ \<Rightarrow> None)"

definition is_digit :: "char \<Rightarrow> bool" where
  "is_digit c \<longleftrightarrow> c \<in> set ''0123456789''"

text \<open>The inner loop over the digits of a width; an overflow of the \<^verbatim>\<open>int\<close> is undefined.\<close>

fun width_loop :: "string \<Rightarrow> int \<Rightarrow> (string \<times> int) option" where
  "width_loop [] padn = Some ([], padn)"
| "width_loop (ch # fmt) padn =
     (if \<not> is_digit ch then Some (ch # fmt, padn)
      else let padn = padn * 10 + (int (of_char ch) - 48) in
           if 2 ^ 31 \<le> padn then None else width_loop fmt padn)"

lemma width_loop_length: "width_loop fmt padn = Some (fmt', padn') \<Longrightarrow> length fmt' \<le> length fmt"
  by (induction fmt padn rule: width_loop.induct) (auto simp: Let_def split: if_splits)

text \<open>The main loop of \<^verbatim>\<open>vprintf\<close> and the part behind a \<^verbatim>\<open>%\<close>, which the code reaches again through the
  label \<^verbatim>\<open>loop\<close>. Negating the most negative number, undefined in C, is taken at 64 bits.\<close>

function vprintf_loop :: "string \<Rightarrow> va_arg list \<Rightarrow> char \<Rightarrow> int \<Rightarrow> pl011 \<Rightarrow> (pl011 \<times> int) option"
  and vprintf_spec :: "string \<Rightarrow> va_arg list \<Rightarrow> char \<Rightarrow> nat \<Rightarrow> int \<Rightarrow> int \<Rightarrow> pl011 \<Rightarrow> (pl011 \<times> int) option" where
  "vprintf_loop [] args padc count u = Some (u, count)"
| "vprintf_loop (c # fmt) args padc count u =
     (if c = CHR ''%'' then vprintf_spec fmt args padc 0 0 count u
      else do { u \<leftarrow> pal_uart_putc c u;
                u \<leftarrow> (if c = CHR 0x0A then pal_uart_putc (CHR 0x0D) u else Some u);
                vprintf_loop fmt args padc (count + 1) u })"
| "vprintf_spec [] args padc l_count padn count u = Some (u, -1)"
| "vprintf_spec (c # fmt) args padc l_count padn count u =
     (if c = CHR ''%'' then do { u \<leftarrow> pal_uart_putc (CHR ''%'') u; vprintf_loop fmt args padc count u }
      else if c = CHR ''i'' \<or> c = CHR ''d'' then
        do { (num, args) \<leftarrow> get_num_va_args args l_count;
             (unum, padn, u) \<leftarrow> (if num <s 0 then do { u \<leftarrow> pal_uart_putc (CHR ''-'') u; Some (- num, padn - 1, u) }
                                 else Some (num, padn, u));
             (u, k) \<leftarrow> unsigned_num_print unum 10 padc padn u;
             vprintf_loop fmt args padc (count + k) u }
      else if c = CHR ''s'' then
        (case args of
           Str str # args \<Rightarrow> do { (u, k) \<leftarrow> string_print str u; vprintf_loop fmt args padc (count + k) u }
         | _ \<Rightarrow> None)
      else if c = CHR ''p'' then
        (case args of
           Num unum # args \<Rightarrow>
             do { (padn, count, u) \<leftarrow> (if 0 < unum then do { (u, k) \<leftarrow> string_print ''0x'' u; Some (padn - 2, count + k, u) }
                                       else Some (padn, count, u));
                  (u, k) \<leftarrow> unsigned_num_print unum 16 padc padn u;
                  vprintf_loop fmt args padc (count + k) u }
         | _ \<Rightarrow> None)
      else if c = CHR ''x'' then
        do { (unum, args) \<leftarrow> get_unum_va_args args l_count;
             (u, k) \<leftarrow> unsigned_num_print unum 16 padc padn u;
             vprintf_loop fmt args padc (count + k) u }
      else if c = CHR ''z'' then vprintf_spec fmt args padc 2 padn count u
      else if c = CHR ''l'' then vprintf_spec fmt args padc (l_count + 1) padn count u
      else if c = CHR ''u'' then
        do { (unum, args) \<leftarrow> get_unum_va_args args l_count;
             (u, k) \<leftarrow> unsigned_num_print unum 10 padc padn u;
             vprintf_loop fmt args padc (count + k) u }
      else if is_digit c then
        (case width_loop fmt 0 of
           None \<Rightarrow> None
         | Some (fmt', padn) \<Rightarrow> vprintf_spec fmt' args (CHR ''0'') l_count padn count u)
      else Some (u, -1))"
  by pat_completeness auto

termination
  by (relation "measure (case_sum (\<lambda>(fmt, _). length fmt) (\<lambda>(fmt, _). length fmt))")
    (auto dest: width_loop_length)

definition vprintf :: "string \<Rightarrow> va_arg list \<Rightarrow> pl011 \<Rightarrow> (pl011 \<times> int) option" where
  "vprintf fmt args u = vprintf_loop fmt args (CHR 0x00) 0 u"

definition prefix_str :: "string list" where
  "prefix_str = ['''', '''', '''', '''', '''']"

abbreviation (input) ACS_PRINT_ERR :: int where "ACS_PRINT_ERR \<equiv> 5"
abbreviation (input) ACS_PRINT_TEST :: int where "ACS_PRINT_TEST \<equiv> 3"
abbreviation (input) ACS_PRINT_INFO :: int where "ACS_PRINT_INFO \<equiv> 1"

definition log_get_prefix :: "int \<Rightarrow> string" where
  "log_get_prefix log_level =
     (let level = (if log_level > ACS_PRINT_ERR then ACS_PRINT_ERR
                   else if log_level < ACS_PRINT_INFO then ACS_PRINT_TEST
                   else log_level)
      in prefix_str ! nat (level - 1))"

fun prefix_loop :: "string \<Rightarrow> pl011 \<Rightarrow> pl011 option" where
  "prefix_loop [] u = Some u"
| "prefix_loop (c # str) u = do { u \<leftarrow> pal_uart_putc c u; prefix_loop str u }"

definition pal_uart_print :: "int \<Rightarrow> string \<Rightarrow> va_arg list \<Rightarrow> pl011 \<Rightarrow> pl011 option" where
  "pal_uart_print log fmt args u =
     do { u \<leftarrow> prefix_loop (log_get_prefix log) u; map_option fst (vprintf fmt args u) }"

text \<open>The macro \<^verbatim>\<open>print\<close>, which compares an \<^verbatim>\<open>int\<close> with the unsigned print level.\<close>

definition print_macro :: "u32 \<Rightarrow> u32 \<Rightarrow> string \<Rightarrow> va_arg list \<Rightarrow> pl011 \<Rightarrow> pl011 option" where
  "print_macro g_print_level verbose fmt args u =
     (if g_print_level \<le> verbose then pal_uart_print (sint verbose) fmt args u else Some u)"

section \<open>Unformatted output\<close>

text \<open>\<^verbatim>\<open>pal_print_raw\<close> writes to a port directly; the result is the sequence of characters written. A \<^verbatim>\<open>%\<close> at
  the end of the string sends the loop past the terminator.\<close>

function raw_digits :: "bool \<Rightarrow> u64 \<Rightarrow> nat \<Rightarrow> string \<Rightarrow> (string \<times> nat) option" where
  "raw_digits hex data i buf =
     (if data = 0 then Some (buf, i)
      else if 16 \<le> i then None
      else let j = (if hex then data AND 0xf else data mod 10);
               data = (if hex then drop_bit 4 data else data div 10)
           in raw_digits hex data (i + 1)
                (buf[i := if hex \<and> 9 < j then char_of (unat j + 55) else char_of (unat j + 48)]))"
  by pat_completeness auto

termination by (relation "measure (\<lambda>(_, _, i, _). 16 - i)") auto

fun raw_loop :: "string \<Rightarrow> u64 \<Rightarrow> string option" where
  "raw_loop [] data = Some []"
| "raw_loop (c # str) data =
     (if c = CHR ''%'' then
        (case str of
           [] \<Rightarrow> None
         | f # str \<Rightarrow>
             do { (buf, i, data) \<leftarrow>
                    (if f = CHR ''d'' then do { (buf, i) \<leftarrow> raw_digits False data 0 (replicate 16 (CHR 0x00)); Some (buf, i, 0) }
                     else if f = CHR ''x'' \<or> f = CHR ''X'' then
                       do { (buf, i) \<leftarrow> raw_digits True data 0 (replicate 16 (CHR 0x00)); Some (buf, i, 0) }
                     else Some ([], 0, data));
                  out \<leftarrow> raw_loop str data;
                  Some ((if 0 < i then rev (take i buf) else ''0'') @ out) })
      else do { out \<leftarrow> raw_loop str data; Some (c # out) })"

definition pal_print_raw :: "string \<Rightarrow> u64 \<Rightarrow> string option" where
  "pal_print_raw str data = raw_loop str data"

declare digit_loop.simps [simp del] pad_loop.simps [simp del] raw_digits.simps [simp del]

section \<open>Sending characters\<close>

text \<open>A device that keeps draining its queue and, once set up, stays enabled.\<close>

definition tx_ok :: "pl011 \<Rightarrow> bool" where
  "tx_ok u \<longleftrightarrow> (\<forall>n. \<exists>m\<ge>n. \<not> bit (uartfr u m) 5) \<and>
     (is_uart_init_done u \<noteq> 0 \<longrightarrow> bit (uartcr u) 0 \<and> bit (uartcr u) 8)"

lemmas uart_masks = UART_PL011_UARTCR_EN_MASK_def UART_PL011_UARTCR_TX_EN_MASK_def
  UART_PL011_UARTFR_TX_FIFO_FULL_def

lemma is_tx_empty_enabled:
  assumes "bit (uartcr u) 0" and "bit (uartcr u) 8"
  shows "pal_driver_uart_pl011_is_tx_empty u = (\<not> bit (uartfr u (fr_reads u)) 5, u\<lparr>fr_reads := fr_reads u + 1\<rparr>)"
  unfolding pal_driver_uart_pl011_is_tx_empty_def uart_masks and_single_bit using assms by simp

lemma tx_wait_enabled:
  assumes "bit (uartcr u) 0" and "bit (uartcr u) 8" and "\<not> bit (uartfr u m) 5" and "fr_reads u \<le> m"
  shows "\<exists>k>fr_reads u. tx_wait u = Some (u\<lparr>fr_reads := k\<rparr>)"
  using assms
proof (induction "m - fr_reads u" arbitrary: u)
  case 0
  then show ?case by (subst tx_wait.simps) (auto simp: is_tx_empty_enabled)
next
  case (Suc d)
  show ?case
  proof (cases "bit (uartfr u (fr_reads u)) 5")
    case True
    let ?u = "u\<lparr>fr_reads := fr_reads u + 1\<rparr>"
    have "\<exists>k>fr_reads ?u. tx_wait ?u = Some (?u\<lparr>fr_reads := k\<rparr>)"
      using Suc.hyps(2) Suc.prems by (intro Suc.hyps(1)) auto
    then show ?thesis using True Suc.prems by (subst tx_wait.simps) (auto simp: is_tx_empty_enabled intro: Suc_lessD)
  next
    case False
    then show ?thesis using Suc.prems by (subst tx_wait.simps) (auto simp: is_tx_empty_enabled)
  qed
qed

lemma uart_init_enables:
  "bit (uartcr (pal_driver_uart_pl011_init u)) 0" "bit (uartcr (pal_driver_uart_pl011_init u)) 8"
  by (simp_all add: pal_driver_uart_pl011_init_def uart_masks Let_def)

lemma putc_sets_up:
  assumes "tx_ok u"
  shows "\<exists>u'. pal_uart_putc c u = Some u' \<and> tx_ok u' \<and> uart_tx u' = uart_tx u @ [c] \<and> is_uart_init_done u' \<noteq> 0"
proof -
  define v where "v = (if is_uart_init_done u = 0 then (pal_driver_uart_pl011_init u)\<lparr>is_uart_init_done := 1\<rparr> else u)"
  have v: "bit (uartcr v) 0" "bit (uartcr v) 8" "uartfr v = uartfr u" "uart_tx v = uart_tx u" "is_uart_init_done v \<noteq> 0"
    using assms uart_init_enables [of u] by (auto simp: v_def tx_ok_def pal_driver_uart_pl011_init_def Let_def)
  obtain m where "fr_reads v \<le> m" "\<not> bit (uartfr v m) 5" using assms v(3) by (auto simp: tx_ok_def)
  then obtain k where "tx_wait v = Some (v\<lparr>fr_reads := k\<rparr>)" using tx_wait_enabled [OF v(1,2)] by blast
  then show ?thesis using assms v by (auto simp: pal_uart_putc_def tx_ok_def simp flip: v_def)
qed

text \<open>On such a device a routine returns \<open>r\<close> and sends the characters \<open>out\<close>.\<close>

definition emits :: "(pl011 \<Rightarrow> (pl011 \<times> 'r) option) \<Rightarrow> 'r \<Rightarrow> string \<Rightarrow> bool" where
  "emits f r out \<longleftrightarrow> (\<forall>u. tx_ok u \<longrightarrow> (\<exists>u'. f u = Some (u', r) \<and> tx_ok u' \<and> uart_tx u' = uart_tx u @ out))"

lemma emits_return: "emits (\<lambda>u. Some (u, r)) r []"
  by (simp add: emits_def)

lemma emits_putc:
  assumes "emits g r out"
  shows "emits (\<lambda>u. do { u \<leftarrow> pal_uart_putc c u; g u }) r (c # out)"
  unfolding emits_def
proof (intro allI impI)
  fix u assume "tx_ok u"
  then obtain u1 where u1: "pal_uart_putc c u = Some u1" "tx_ok u1" "uart_tx u1 = uart_tx u @ [c]"
    using putc_sets_up by blast
  then obtain u2 where "g u1 = Some (u2, r)" "tx_ok u2" "uart_tx u2 = uart_tx u1 @ out"
    using assms by (auto simp: emits_def)
  with u1 show "\<exists>u'. do { u \<leftarrow> pal_uart_putc c u; g u } = Some (u', r) \<and> tx_ok u' \<and> uart_tx u' = uart_tx u @ c # out"
    by auto
qed

lemma emits_bind:
  assumes "emits f x out" and "emits (\<lambda>u. g (u, x)) r out'"
  shows "emits (\<lambda>u. Option.bind (f u) g) r (out @ out')"
  unfolding emits_def
proof (intro allI impI)
  fix u assume "tx_ok u"
  then obtain u1 where u1: "f u = Some (u1, x)" "tx_ok u1" "uart_tx u1 = uart_tx u @ out"
    using assms(1) by (auto simp: emits_def)
  then obtain u2 where "g (u1, x) = Some (u2, r)" "tx_ok u2" "uart_tx u2 = uart_tx u1 @ out'"
    using assms(2) by (auto simp: emits_def)
  with u1 show "\<exists>u'. Option.bind (f u) g = Some (u', r) \<and> tx_ok u' \<and> uart_tx u' = uart_tx u @ out @ out'" by auto
qed

lemma string_loop_emits: "emits (string_loop str count) (count + int (length str)) str"
proof (induction str arbitrary: count)
  case Nil
  then show ?case by (simp add: emits_def)
next
  case (Cons c str)
  from emits_putc [OF Cons [of "count + 1"], of c]
  show ?case by (simp add: emits_def add.assoc)
qed

section \<open>Numerals\<close>

text \<open>The digits of a number, least significant first, their characters, and the number a numeral denotes.\<close>

function rdigits :: "nat \<Rightarrow> nat \<Rightarrow> nat list" where
  "rdigits r n = (if n < r \<or> r < 2 then [n] else n mod r # rdigits r (n div r))"
  by pat_completeness auto

termination by (relation "measure snd") auto

declare rdigits.simps [simp del]

definition digit_char :: "nat \<Rightarrow> char" where
  "digit_char d = (if d < 10 then char_of (48 + d) else char_of (97 + (d - 10)))"

definition char_digit :: "char \<Rightarrow> nat" where
  "char_digit c = (if of_char c < (97 :: nat) then of_char c - 48 else of_char c - 87)"

definition num_text :: "nat \<Rightarrow> nat \<Rightarrow> string" where
  "num_text r n = rev (map digit_char (rdigits r n))"

definition num_value :: "nat \<Rightarrow> string \<Rightarrow> nat" where
  "num_value r str = foldl (\<lambda>acc c. acc * r + char_digit c) 0 str"

lemma rdigits_less: "2 \<le> r \<Longrightarrow> d \<in> set (rdigits r n) \<Longrightarrow> d < r"
proof (induction r n rule: rdigits.induct)
  case (1 r n)
  then show ?case by (subst (asm) (2) rdigits.simps) (auto split: if_splits)
qed

lemma rdigits_value: "2 \<le> r \<Longrightarrow> foldr (\<lambda>d acc. acc * r + d) (rdigits r n) 0 = n"
proof (induction r n rule: rdigits.induct)
  case (1 r n)
  then show ?case by (subst rdigits.simps) simp
qed

lemma rdigits_length_le:
  assumes "2 \<le> r" and "0 < k"
  shows "length (rdigits r n) \<le> k \<longleftrightarrow> n < r ^ k"
  using assms
proof (induction k arbitrary: n)
  case 0
  then show ?case by simp
next
  case (Suc k)
  show ?case
  proof (cases "n < r")
    case True
    then have "n < r ^ Suc k" using self_le_power [of r "Suc k"] Suc.prems by linarith
    moreover have "rdigits r n = [n]" using True by (subst rdigits.simps) simp
    ultimately show ?thesis by simp
  next
    case False
    show ?thesis
    proof (cases "k = 0")
      case True
      then show ?thesis using False Suc.prems by (subst rdigits.simps, subst rdigits.simps) auto
    next
      case nz: False
      have "length (rdigits r n) = Suc (length (rdigits r (n div r)))"
        using False Suc.prems by (subst rdigits.simps) auto
      moreover have "n div r < r ^ k \<longleftrightarrow> n < r ^ Suc k"
        using Suc.prems by (simp add: div_less_iff_less_mult mult.commute)
      ultimately show ?thesis using Suc nz by simp
    qed
  qed
qed

lemma char_digit_char: "d < 36 \<Longrightarrow> char_digit (digit_char d) = d"
  by (auto simp: char_digit_def digit_char_def)

lemma num_value_text:
  assumes "2 \<le> r" and "r \<le> 36"
  shows "num_value r (num_text r n) = n"
proof -
  have "foldr (\<lambda>d acc. acc * r + char_digit (digit_char d)) ds 0 = foldr (\<lambda>d acc. acc * r + d) ds 0"
    if "\<forall>d\<in>set ds. d < 36" for ds
    using that by (induction ds) (auto simp: char_digit_char)
  moreover have "\<forall>d\<in>set (rdigits r n). d < 36" using rdigits_less [OF assms(1)] assms(2) by force
  ultimately show ?thesis
    using rdigits_value [OF assms(1), of n] by (simp add: num_value_def num_text_def foldl_conv_foldr foldr_map comp_def)
qed

lemma digit_loop_text:
  assumes "10 \<le> radix" and "i + length (rdigits (unat radix) (unat unum)) \<le> 20" and "length buf = 20"
  shows "\<exists>buf'. digit_loop unum radix i buf = Some (buf', i + length (rdigits (unat radix) (unat unum))) \<and> length buf' = 20 \<and>
    take (i + length (rdigits (unat radix) (unat unum))) buf' = take i buf @ map digit_char (rdigits (unat radix) (unat unum))"
  using assms
proof (induction unum radix i buf rule: digit_loop.induct)
  case (1 unum radix i buf)
  define r n where "r = unat radix" and "n = unat unum"
  define buf1 where "buf1 = buf[i := digit_char (n mod r)]"
  have r: "10 \<le> r" using 1(2) by (simp add: r_def word_le_nat_alt)
  have ur: "unat (ucast radix :: u64) = r" by (simp add: r_def unat_ucast_up)
  have len: "1 \<le> length (rdigits r n)" by (subst rdigits.simps) auto
  then have i: "i < 20" using 1(3) by (simp add: r_def n_def)
  have q: "unat (unum div ucast radix) = n div r" and m: "unat (unum mod ucast radix) = n mod r"
    by (simp_all add: unat_div unat_mod ur n_def)
  have ch: "(if unum mod ucast radix < 0xa then char_of (48 + unat (unum mod ucast radix))
      else char_of (97 + (unat (unum mod ucast radix) - 0xa))) = digit_char (n mod r)"
    by (simp add: m digit_char_def word_less_nat_alt)
  have pos: "0 < unum div ucast radix \<longleftrightarrow> r \<le> n"
    using q r by (auto simp: word_less_nat_alt div_greater_zero_iff)
  have step: "digit_loop unum radix i buf =
      (if r \<le> n then digit_loop (unum div ucast radix) radix (i + 1) buf1 else Some (buf1, i + 1))"
    using i by (subst digit_loop.simps) (simp add: Let_def ch pos buf1_def)
  have b1: "length buf1 = 20" "take (Suc i) buf1 = take i buf @ [digit_char (n mod r)]"
    using 1(4) i by (simp_all add: buf1_def take_Suc_conv_app_nth)
  show ?case
  proof (cases "r \<le> n")
    case True
    have ds: "rdigits r n = n mod r # rdigits r (n div r)" using True r by (subst rdigits.simps) auto
    have "\<exists>buf'. digit_loop (unum div ucast radix) radix (i + 1) buf1 = Some (buf', i + 1 + length (rdigits r (n div r))) \<and>
        length buf' = 20 \<and> take (i + 1 + length (rdigits r (n div r))) buf' = take (i + 1) buf1 @ map digit_char (rdigits r (n div r))"
      using 1(1) [OF _ refl _ refl] 1(2,3) i True pos ds b1(1)
      by (simp add: q r_def [symmetric] n_def [symmetric] Let_def ch buf1_def)
    then show ?thesis using True ds b1 step by (simp add: r_def [symmetric] n_def [symmetric])
  next
    case False
    then have "rdigits r n = [n mod r]" by (subst rdigits.simps) simp
    then show ?thesis using False b1 step by (simp add: r_def [symmetric] n_def [symmetric])
  qed
qed

lemma pad_loop_emits:
  "emits (pad_loop i padn padc count) (count + int (nat (padn - i))) (replicate (nat (padn - i)) padc)"
proof (induction "nat (padn - i)" arbitrary: padn count)
  case 0
  then have "pad_loop i padn padc count = (\<lambda>u. Some (u, count))" by (intro ext) (simp add: pad_loop.simps [of i padn])
  then show ?case using 0 emits_return [of count] by simp
next
  case (Suc k)
  have "i < padn" using Suc.hyps(2) by simp
  then have "pad_loop i padn padc count = (\<lambda>u. do { u \<leftarrow> pal_uart_putc padc u; pad_loop i (padn - 1) padc (count + 1) u })"
    by (intro ext) (simp add: pad_loop.simps [of i padn])
  moreover have "nat (padn - i) = Suc (nat (padn - 1 - i))" using Suc.hyps(2) by simp
  ultimately show ?case
    using emits_putc [OF Suc.hyps(1) [of "padn - 1" "count + 1"], of padc] Suc.hyps(2)
    by (simp add: add.assoc del: int_nat_eq)
qed

lemma out_loop_emits:
  "i \<le> length buf \<Longrightarrow> emits (out_loop i buf count) (count + int i) (rev (take i buf))"
proof (induction i arbitrary: count)
  case 0
  then show ?case by (simp add: emits_def)
next
  case (Suc i)
  have "out_loop (Suc i) buf count = (\<lambda>u. do { u \<leftarrow> pal_uart_putc (buf ! i) u; out_loop i buf (count + 1) u })"
    by (intro ext) simp
  moreover have "rev (take (Suc i) buf) = buf ! i # rev (take i buf)" using Suc.prems by (simp add: take_Suc_conv_app_nth)
  ultimately show ?case using emits_putc [OF Suc.IH [of "count + 1"], of "buf ! i"] Suc.prems by (simp add: add.assoc)
qed

text \<open>A numeral padded on the left to a width.\<close>

definition padded :: "char \<Rightarrow> int \<Rightarrow> string \<Rightarrow> string" where
  "padded c w str = replicate (nat (w - int (length str))) c @ str"

lemma numeral_fits:
  assumes "10 \<le> radix"
  shows "length (rdigits (unat (radix :: u32)) (unat (unum :: u64))) \<le> 20"
proof -
  have r: "10 \<le> unat radix" using assms by (simp add: word_le_nat_alt)
  have "unat unum < 10 ^ 20" using word_unat_less [of unum] by simp
  also have "(10 :: nat) ^ 20 \<le> unat radix ^ 20" using r by (rule power_mono) simp
  finally show ?thesis using rdigits_length_le [of "unat radix" 20] r by simp
qed

lemma unsigned_num_print_emits:
  fixes unum :: u64
  assumes "10 \<le> radix"
  defines "str \<equiv> num_text (unat radix) (unat unum)"
  shows "emits (unsigned_num_print unum radix padc padn) (int (length (padded padc padn str))) (padded padc padn str)"
proof -
  let ?ds = "rdigits (unat radix) (unat unum)"
  have len: "length ?ds \<le> 20" by (rule numeral_fits [OF assms(1)])
  have sl: "length str = length ?ds" by (simp add: str_def num_text_def)
  obtain buf where buf: "digit_loop unum radix 0 (replicate 20 (CHR 0x00)) = Some (buf, length ?ds)"
    "length buf = 20" "take (length ?ds) buf = map digit_char ?ds"
    using digit_loop_text [OF assms(1), of 0 unum "replicate 20 (CHR 0x00)"] len by auto
  let ?pad = "\<lambda>u. if 0 < padn then pad_loop (int (length ?ds)) padn padc 0 u else Some (u, 0)"
  have pad: "emits ?pad (int (nat (padn - int (length ?ds)))) (replicate (nat (padn - int (length ?ds))) padc)"
    using pad_loop_emits [of "int (length ?ds)" padn padc 0] emits_return [of "0::int"] by (cases "0 < padn") simp_all
  have "unsigned_num_print unum radix padc padn =
      (\<lambda>u. Option.bind (?pad u) (\<lambda>(u, count). out_loop (length ?ds) buf count u))"
    using assms(1) by (intro ext) (simp add: unsigned_num_print_def buf(1) word_less_nat_alt word_le_nat_alt cong: if_cong)
  moreover have "emits (\<lambda>u. Option.bind (?pad u) (\<lambda>(u, count). out_loop (length ?ds) buf count u))
      (int (nat (padn - int (length ?ds))) + int (length ?ds))
      (replicate (nat (padn - int (length ?ds))) padc @ rev (take (length ?ds) buf))"
    by (rule emits_bind [OF pad]) (use out_loop_emits buf(2) len in \<open>simp add: split_def\<close>)
  ultimately show ?thesis using buf(3) sl by (simp add: padded_def str_def num_text_def)
qed

section \<open>Formats\<close>

text \<open>A format as a list of items: a plain character, \<^verbatim>\<open>%%\<close>, a string, or a numeric conversion with the digits
  of a width, a length modifier and its argument.\<close>

datatype length_mod = Longs nat | Size_t

datatype item =
    Plain char
  | Percent
  | String_item string
  | Signed string length_mod u64
  | Unsigned string length_mod u64
  | Hex string length_mod u64
  | Pointer string u64

fun mod_text :: "length_mod \<Rightarrow> string" where
  "mod_text (Longs n) = replicate n (CHR ''l'')"
| "mod_text Size_t = ''z''"

fun mod_count :: "length_mod \<Rightarrow> nat" where
  "mod_count (Longs n) = n"
| "mod_count Size_t = 2"

fun item_fmt :: "item \<Rightarrow> string" where
  "item_fmt (Plain c) = [c]"
| "item_fmt Percent = ''%%''"
| "item_fmt (String_item _) = ''%s''"
| "item_fmt (Signed w m _) = ''%'' @ w @ mod_text m @ ''d''"
| "item_fmt (Unsigned w m _) = ''%'' @ w @ mod_text m @ ''u''"
| "item_fmt (Hex w m _) = ''%'' @ w @ mod_text m @ ''x''"
| "item_fmt (Pointer w _) = ''%'' @ w @ ''p''"

fun item_args :: "item \<Rightarrow> va_arg list" where
  "item_args (Plain _) = []"
| "item_args Percent = []"
| "item_args (String_item str) = [Str str]"
| "item_args (Signed _ _ v) = [Num v]"
| "item_args (Unsigned _ _ v) = [Num v]"
| "item_args (Hex _ _ v) = [Num v]"
| "item_args (Pointer _ v) = [Num v]"

text \<open>The width that the code takes from the digits: it skips the first.\<close>

definition width_of :: "string \<Rightarrow> int" where
  "width_of w = int (num_value 10 (tl w))"

definition sarg :: "length_mod \<Rightarrow> u64 \<Rightarrow> u64" where
  "sarg m v = (if 1 \<le> mod_count m then v else scast (ucast v :: u32))"

definition uarg :: "length_mod \<Rightarrow> u64 \<Rightarrow> u64" where
  "uarg m v = (if 1 \<le> mod_count m then v else ucast (ucast v :: u32))"

abbreviation zero_padded :: "int \<Rightarrow> nat \<Rightarrow> u64 \<Rightarrow> string" where
  "zero_padded w r v \<equiv> padded (CHR ''0'') w (num_text r (unat v))"

fun item_text :: "item \<Rightarrow> string" where
  "item_text (Plain c) = (if c = CHR 0x0A then [CHR 0x0A, CHR 0x0D] else [c])"
| "item_text Percent = ''%''"
| "item_text (String_item str) = str"
| "item_text (Signed w m v) =
     (if sarg m v <s 0 then CHR ''-'' # zero_padded (width_of w - 1) 10 (- sarg m v)
      else zero_padded (width_of w) 10 (sarg m v))"
| "item_text (Unsigned w m v) = zero_padded (width_of w) 10 (uarg m v)"
| "item_text (Hex w m v) = zero_padded (width_of w) 16 (uarg m v)"
| "item_text (Pointer w v) =
     (if 0 < v then ''0x'' @ zero_padded (width_of w - 2) 16 v else zero_padded (width_of w) 16 v)"

text \<open>The count does not include the sign of a number, a doubled \<^verbatim>\<open>%\<close> or the added carriage return.\<close>

fun item_count :: "item \<Rightarrow> int" where
  "item_count (Plain _) = 1"
| "item_count Percent = 0"
| "item_count (Signed w m v) = int (length (item_text (Signed w m v))) - (if sarg m v <s 0 then 1 else 0)"
| "item_count it = int (length (item_text it))"

fun item_ok :: "item \<Rightarrow> bool" where
  "item_ok (Plain c) \<longleftrightarrow> c \<noteq> CHR ''%''"
| "item_ok (Signed w _ _) \<longleftrightarrow> list_all is_digit w \<and> width_of w < 2 ^ 31"
| "item_ok (Unsigned w _ _) \<longleftrightarrow> list_all is_digit w \<and> width_of w < 2 ^ 31"
| "item_ok (Hex w _ _) \<longleftrightarrow> list_all is_digit w \<and> width_of w < 2 ^ 31"
| "item_ok (Pointer w _) \<longleftrightarrow> list_all is_digit w \<and> width_of w < 2 ^ 31"
| "item_ok _ \<longleftrightarrow> True"

lemma is_digit_value: "is_digit c \<Longrightarrow> int (of_char c) - 48 = int (char_digit c) \<and> of_char c < (97 :: nat) \<and> 48 \<le> (of_char c :: nat)"
  by (auto simp: is_digit_def char_digit_def)

lemma num_value_ge: "acc \<le> foldl (\<lambda>acc c. acc * 10 + char_digit c) acc w"
proof (induction w arbitrary: acc)
  case (Cons c w)
  show ?case using Cons.IH [of "acc * 10 + char_digit c"] by simp
qed simp

lemma width_loop_digits:
  assumes "list_all is_digit w" and "foldl (\<lambda>acc c. acc * 10 + char_digit c) acc w < 2 ^ 31"
    and "rest = [] \<or> \<not> is_digit (hd rest)"
  shows "width_loop (w @ rest) (int acc) = Some (rest, int (foldl (\<lambda>acc c. acc * 10 + char_digit c) acc w))"
  using assms
proof (induction w arbitrary: acc)
  case Nil
  then show ?case by (cases rest) auto
next
  case (Cons c w)
  have "int acc * 10 + (int (of_char c) - 48) = int (acc * 10 + char_digit c)"
    using Cons.prems(1) is_digit_value [of c] by simp
  moreover have "acc * 10 + char_digit c < 2 ^ 31"
    using Cons.prems(2) num_value_ge [of "acc * 10 + char_digit c" w] by simp
  ultimately show ?case using Cons by (simp add: Let_def del: of_nat_add of_nat_mult)
qed

lemma digit_not_specifier:
  assumes "is_digit c"
  shows "c \<notin> set ''%idspxzlu''"
  using assms by (auto simp: is_digit_def)

text \<open>Behind the width and the modifiers, the code is at the conversion with the width and the count of
  the modifiers read; the padding character matters only when there is a width.\<close>

lemma spec_longs:
  "vprintf_spec (replicate n (CHR ''l'') @ fmt) args padc l padn count = vprintf_spec fmt args padc (l + n) padn count"
  by (induction n arbitrary: l) (simp_all add: fun_eq_iff is_digit_def)

lemma spec_mod:
  "vprintf_spec (mod_text m @ fmt) args padc 0 padn count = vprintf_spec fmt args padc (mod_count m) padn count"
  by (cases m) (simp_all add: spec_longs fun_eq_iff is_digit_def)

lemma spec_width:
  assumes "list_all is_digit w" and "width_of w < 2 ^ 31" and "fmt \<noteq> []" and "\<not> is_digit (hd fmt)"
  shows "\<exists>padc'. (w \<noteq> [] \<longrightarrow> padc' = CHR ''0'') \<and>
    vprintf_spec (w @ fmt) args padc 0 0 count = vprintf_spec fmt args padc' 0 (width_of w) count"
proof (cases w)
  case Nil
  then show ?thesis by (intro exI [of _ padc]) (simp add: width_of_def num_value_def)
next
  case (Cons c cs)
  have "width_loop (cs @ fmt) 0 = Some (fmt, width_of w)"
    using width_loop_digits [of cs 0 fmt] assms Cons by (simp add: width_of_def num_value_def)
  moreover have "c \<notin> set ''%idspxzlu''" "is_digit c" using assms(1) Cons digit_not_specifier by auto
  ultimately have "vprintf_spec (w @ fmt) args padc 0 0 count = vprintf_spec fmt args (CHR ''0'') 0 (width_of w) count"
    using Cons by (simp add: fun_eq_iff)
  then show ?thesis by blast
qed

text \<open>One conversion, the rest of the format being handled by \<open>k\<close>.\<close>

abbreviation continues :: "string \<Rightarrow> va_arg list \<Rightarrow> int \<Rightarrow> int \<Rightarrow> string \<Rightarrow> bool" where
  "continues fmt args count r out \<equiv> \<forall>padc. emits (vprintf_loop fmt args padc count) r out"

lemma padded_zero: "w \<le> 0 \<Longrightarrow> padded c w str = str"
  by (simp add: padded_def)

lemma width_of_nil: "width_of [] = 0"
  by (simp add: width_of_def num_value_def)

lemma num_emits:
  assumes "r \<in> {10, 16}" and "w \<noteq> [] \<longrightarrow> padc = CHR ''0''" and "p \<le> width_of w"
    and "continues fmt args (count + int (length (zero_padded p (unat r) v))) res out"
  shows "emits (\<lambda>u. do { (u, k) \<leftarrow> unsigned_num_print v r padc p u; vprintf_loop fmt args padc (count + k) u }) res
    (zero_padded p (unat r) v @ out)"
proof -
  have r: "10 \<le> r" using assms(1) by auto
  have "padded padc p str = padded (CHR ''0'') p str" for str
    using assms(2,3) by (cases "w = []") (auto simp: padded_zero width_of_nil)
  then show ?thesis
    using emits_bind [OF unsigned_num_print_emits [OF r, of v padc p], of "\<lambda>(u, k). vprintf_loop fmt args padc (count + k) u"] assms(4)
    by simp
qed

text \<open>The code reaches the conversion character with width and modifiers read.\<close>

lemma loop_to_conversion:
  assumes "list_all is_digit w" and "width_of w < 2 ^ 31" and "\<not> is_digit c"
  obtains padc' where "w \<noteq> [] \<longrightarrow> padc' = CHR ''0''"
    and "vprintf_loop (''%'' @ w @ mod_text m @ c # fmt) args padc count =
      vprintf_spec (c # fmt) args padc' (mod_count m) (width_of w) count"
proof -
  have "\<not> is_digit (hd (mod_text m @ c # fmt))"
    using assms(3) by (cases m rule: mod_text.cases) (auto simp: is_digit_def hd_append)
  then obtain padc' where "w \<noteq> [] \<longrightarrow> padc' = CHR ''0''"
    "vprintf_spec (w @ mod_text m @ c # fmt) args padc 0 0 count =
      vprintf_spec (mod_text m @ c # fmt) args padc' 0 (width_of w) count"
    using spec_width [OF assms(1,2), of "mod_text m @ c # fmt" args padc count] by auto
  then show thesis using spec_mod by (intro that [of padc']) (simp_all add: fun_eq_iff)
qed

lemma unsigned_emits:
  assumes "list_all is_digit w" and "width_of w < 2 ^ 31" and "(c, rad :: u32) \<in> {(CHR ''u'', 10), (CHR ''x'', 16)}"
    and "continues fmt args (count + int (length (zero_padded (width_of w) (unat rad) (uarg m v)))) r out"
  shows "continues (''%'' @ w @ mod_text m @ c # fmt) (Num v # args) count r
    (zero_padded (width_of w) (unat rad) (uarg m v) @ out)"
proof
  fix padc
  have nd: "\<not> is_digit c" using assms(3) by (auto simp: is_digit_def)
  obtain padc' where p: "w \<noteq> [] \<longrightarrow> padc' = CHR ''0''"
    "vprintf_loop (''%'' @ w @ mod_text m @ c # fmt) (Num v # args) padc count =
      vprintf_spec (c # fmt) (Num v # args) padc' (mod_count m) (width_of w) count"
    by (rule loop_to_conversion [OF assms(1,2) nd])
  have "vprintf_spec (c # fmt) (Num v # args) padc' (mod_count m) (width_of w) count =
      (\<lambda>u. do { (u, k) \<leftarrow> unsigned_num_print (uarg m v) rad padc' (width_of w) u; vprintf_loop fmt args padc' (count + k) u })"
    using assms(3) by (auto simp: fun_eq_iff get_unum_va_args_def uarg_def)
  then show "emits (vprintf_loop (''%'' @ w @ mod_text m @ c # fmt) (Num v # args) padc count) r
      (zero_padded (width_of w) (unat rad) (uarg m v) @ out)"
    using p(2) num_emits [OF _ p(1) order_refl assms(4)] assms(3) by auto
qed

lemma signed_emits:
  assumes "item_ok (Signed w m v)" and "continues fmt args (count + item_count (Signed w m v)) r out"
  shows "continues (item_fmt (Signed w m v) @ fmt) (Num v # args) count r (item_text (Signed w m v) @ out)"
proof
  fix padc
  have w: "list_all is_digit w" "width_of w < 2 ^ 31" using assms(1) by simp_all
  have nd: "\<not> is_digit (CHR ''d'')" by (simp add: is_digit_def)
  obtain padc' where p: "w \<noteq> [] \<longrightarrow> padc' = CHR ''0''"
    "vprintf_loop (''%'' @ w @ mod_text m @ CHR ''d'' # fmt) (Num v # args) padc count =
      vprintf_spec (CHR ''d'' # fmt) (Num v # args) padc' (mod_count m) (width_of w) count"
    by (rule loop_to_conversion [OF w nd])
  let ?print = "\<lambda>p x u. do { (u, k) \<leftarrow> unsigned_num_print x 10 padc' p u; vprintf_loop fmt args padc' (count + k) u }"
  have "vprintf_spec (CHR ''d'' # fmt) (Num v # args) padc' (mod_count m) (width_of w) count =
      (if sarg m v <s 0 then (\<lambda>u. do { u \<leftarrow> pal_uart_putc (CHR ''-'') u; ?print (width_of w - 1) (- sarg m v) u })
       else ?print (width_of w) (sarg m v))"
    by (auto simp: fun_eq_iff get_num_va_args_def sarg_def split: Option.bind_split)
  moreover have "emits (?print p x) r (zero_padded p 10 x @ out)"
    if "p \<le> width_of w" "item_count (Signed w m v) = int (length (zero_padded p 10 x))" for p x
    using num_emits [of 10 w padc' p fmt args count x r out] p(1) assms(2) that by simp
  ultimately show "emits (vprintf_loop (item_fmt (Signed w m v) @ fmt) (Num v # args) padc count) r
      (item_text (Signed w m v) @ out)"
    using p(2) by (cases "sarg m v <s 0") (auto intro!: emits_putc)
qed

lemma pointer_emits:
  assumes "item_ok (Pointer w v)" and "continues fmt args (count + item_count (Pointer w v)) r out"
  shows "continues (item_fmt (Pointer w v) @ fmt) (Num v # args) count r (item_text (Pointer w v) @ out)"
proof
  fix padc
  have w: "list_all is_digit w" "width_of w < 2 ^ 31" using assms(1) by simp_all
  have nd: "\<not> is_digit (CHR ''p'')" by (simp add: is_digit_def)
  obtain padc' where p: "w \<noteq> [] \<longrightarrow> padc' = CHR ''0''"
    "vprintf_loop (''%'' @ w @ CHR ''p'' # fmt) (Num v # args) padc count =
      vprintf_spec (CHR ''p'' # fmt) (Num v # args) padc' 0 (width_of w) count"
    by (rule loop_to_conversion [OF w nd, of "Longs 0", unfolded mod_text.simps mod_count.simps replicate_0 append_Nil])
  let ?print = "\<lambda>p n u. do { (u, k) \<leftarrow> unsigned_num_print v 16 padc' p u; vprintf_loop fmt args padc' (n + k) u }"
  have "vprintf_spec (CHR ''p'' # fmt) (Num v # args) padc' 0 (width_of w) count =
      (if 0 < v then (\<lambda>u. do { (u, k) \<leftarrow> string_print ''0x'' u; ?print (width_of w - 2) (count + k) u })
       else ?print (width_of w) count)"
    by (auto simp: fun_eq_iff split: Option.bind_split)
  moreover have "emits (?print p n) r (zero_padded p 16 v @ out)"
    if "p \<le> width_of w" "count + item_count (Pointer w v) = n + int (length (zero_padded p 16 v))" for p n
    using num_emits [of 16 w padc' p fmt args n v r out] p(1) assms(2) that by simp
  moreover have "emits (string_print ''0x'') 2 ''0x''"
    using string_loop_emits [of "''0x''" 0] by (simp add: string_print_def [abs_def])
  ultimately show "emits (vprintf_loop (item_fmt (Pointer w v) @ fmt) (Num v # args) padc count) r
      (item_text (Pointer w v) @ out)"
    using p(2) emits_bind [of "string_print ''0x''" 2 "''0x''" "\<lambda>(u, k). ?print (width_of w - 2) (count + k) u"]
    by (cases "0 < v") auto
qed

lemma item_emits:
  assumes "item_ok it" and "continues fmt args (count + item_count it) r out"
  shows "continues (item_fmt it @ fmt) (item_args it @ args) count r (item_text it @ out)"
proof (cases it)
  case (Plain c)
  have "vprintf_loop (c # fmt) args padc count = (\<lambda>u. do { u \<leftarrow> pal_uart_putc c u;
      u \<leftarrow> (if c = CHR 0x0A then pal_uart_putc (CHR 0x0D) u else Some u); vprintf_loop fmt args padc (count + 1) u })" for padc
    using assms(1) Plain by (simp add: fun_eq_iff)
  then show ?thesis using assms(2) Plain by (cases "c = CHR 0x0A") (auto intro: emits_putc)
next
  case Percent
  have "vprintf_loop (''%%'' @ fmt) args padc count = (\<lambda>u. do { u \<leftarrow> pal_uart_putc (CHR ''%'') u; vprintf_loop fmt args padc count u })" for padc
    by (simp add: fun_eq_iff)
  then show ?thesis using assms(2) Percent by (auto intro: emits_putc)
next
  case (String_item str)
  have "vprintf_loop (''%s'' @ fmt) (Str str # args) padc count =
      (\<lambda>u. do { (u, k) \<leftarrow> string_print str u; vprintf_loop fmt args padc (count + k) u })" for padc
    by (simp add: fun_eq_iff)
  then show ?thesis
    using assms(2) String_item emits_bind [OF string_loop_emits [of str 0], of "\<lambda>(u, k). vprintf_loop fmt args padc (count + k) u" for padc]
    by (simp add: string_print_def)
next
  case (Signed w m v)
  then show ?thesis using signed_emits assms by simp
next
  case (Unsigned w m v)
  then show ?thesis using unsigned_emits [of w "CHR ''u''" 10 fmt args count m v r out] assms by simp
next
  case (Hex w m v)
  then show ?thesis using unsigned_emits [of w "CHR ''x''" 16 fmt args count m v r out] assms by simp
next
  case (Pointer w v)
  then show ?thesis using pointer_emits assms by simp
qed

lemma items_emit:
  assumes "list_all item_ok items" and "continues fmt args (count + sum_list (map item_count items)) r out"
  shows "continues (concat (map item_fmt items) @ fmt) (concat (map item_args items) @ args) count r
    (concat (map item_text items) @ out)"
  using assms
proof (induction items arbitrary: count)
  case Nil
  then show ?case by simp
next
  case (Cons it items)
  have "continues (concat (map item_fmt items) @ fmt) (concat (map item_args items) @ args) (count + item_count it) r
      (concat (map item_text items) @ out)"
    using Cons by (intro Cons.IH) (simp_all add: add.assoc)
  then show ?case using item_emits [of it] Cons.prems(1) by simp
qed

section \<open>Properties of the console\<close>

text \<open>(C16) Formatted output. On a device that keeps draining, \<^verbatim>\<open>vprintf\<close> sends exactly the text of its items
  (plain characters, with a carriage return after each newline, \<^verbatim>\<open>%%\<close>, strings, and signed, unsigned,
  hexadecimal and pointer conversions with width and length modifiers) and returns its count. An unknown
  conversion, or a format that ends behind a \<^verbatim>\<open>%\<close>, stops there with the result -1 after the text before it.\<close>

theorem vprintf_renders:
  assumes "tx_ok u" and "list_all item_ok items"
  shows "(\<exists>u'. vprintf (concat (map item_fmt items)) (concat (map item_args items)) u =
        Some (u', sum_list (map item_count items)) \<and> tx_ok u' \<and> uart_tx u' = uart_tx u @ concat (map item_text items))
    \<and> (c \<notin> set ''%idspxzlu0123456789'' \<longrightarrow>
       (\<exists>u'. vprintf (concat (map item_fmt items) @ CHR ''%'' # c # rest) (concat (map item_args items) @ args) u =
          Some (u', -1) \<and> tx_ok u' \<and> uart_tx u' = uart_tx u @ concat (map item_text items)))
    \<and> (\<exists>u'. vprintf (concat (map item_fmt items) @ ''%'') (concat (map item_args items)) u =
          Some (u', -1) \<and> tx_ok u' \<and> uart_tx u' = uart_tx u @ concat (map item_text items))"
proof -
  have run: "\<exists>u'. vprintf (concat (map item_fmt items) @ fmt) (concat (map item_args items) @ args) u = Some (u', r) \<and>
      tx_ok u' \<and> uart_tx u' = uart_tx u @ concat (map item_text items)"
    if "continues fmt args (sum_list (map item_count items)) r []" for fmt args r
    using items_emit [OF assms(2), of fmt args 0 r "[]"] that assms(1) by (simp add: emits_def vprintf_def)
  have "continues [] [] n n []" for n by (simp add: emits_def)
  moreover have "continues (CHR ''%'' # c # rest) args n (-1) []" if "c \<notin> set ''%idspxzlu0123456789''" for n
    using that by (simp add: emits_def is_digit_def)
  moreover have "continues ''%'' [] n (-1) []" for n by (simp add: emits_def)
  ultimately show ?thesis using run [of "[]" "[]"] run [of "CHR ''%'' # c # rest" args "-1"] run [of "''%''" "[]" "-1"] by simp
qed

definition example_uart :: pl011 where
  "example_uart = \<lparr>uart_tx = [], uartcr = 0, uartibrd = 0, uartfbrd = 0, uartlcr_h = 0, uartecr = 0,
     uartfr = (\<lambda>n. if even n then 0x20 else 0), fr_reads = 0, is_uart_init_done = 0\<rparr>"

lemma example_uart_ok: "tx_ok example_uart"
  unfolding tx_ok_def example_uart_def
proof (intro conjI allI)
  fix n :: nat
  show "\<exists>m\<ge>n. \<not> bit (uartfr \<lparr>uart_tx = [], uartcr = 0, uartibrd = 0, uartfbrd = 0, uartlcr_h = 0, uartecr = 0,
      uartfr = (\<lambda>n. if even n then 0x20 else 0), fr_reads = 0, is_uart_init_done = 0\<rparr> m) 5"
    by (rule exI [of _ "2 * n + 1"]) simp
qed simp

theorem vprintf_renders_witness:
  "\<exists>u'. vprintf ''%08lx %8lx'' [Num 0x2A, Num 0x2A] example_uart = Some (u', 11) \<and> uart_tx u' = ''0000002a 2a''"
proof -
  have n: "padded (CHR ''0'') 8 (num_text 16 42) = ''0000002a''" "padded (CHR ''0'') 0 (num_text 16 42) = ''2a''"
    by code_simp+
  have w: "width_of ''08'' = 8" "width_of ''8'' = 0" by (simp_all add: width_of_def num_value_def char_digit_def)
  show ?thesis
    using conjunct1 [OF vprintf_renders [OF example_uart_ok, of "[Hex ''08'' (Longs 1) 0x2A, Plain (CHR 0x20), Hex ''8'' (Longs 1) 0x2A]"]]
    by (auto simp: w n uarg_def is_digit_def example_uart_def)
qed

text \<open>(C25) Numerals. In every radix from 10 to 36 \<^verbatim>\<open>unsigned_num_print\<close> stays within its buffer of twenty
  characters, sends the numeral padded on the left to the width asked for, and counts it; reading the
  numeral back gives the number. A radix below 10 prints nothing.\<close>

theorem num_print_round_trip:
  assumes "tx_ok u" and "10 \<le> radix" and "radix \<le> 36"
  shows "(\<exists>u' str. unsigned_num_print unum radix padc padn u = Some (u', int (length (padded padc padn str))) \<and>
      tx_ok u' \<and> uart_tx u' = uart_tx u @ padded padc padn str \<and> length str \<le> 20 \<and>
      num_value (unat radix) str = unat unum)
    \<and> (rad < 10 \<longrightarrow> unsigned_num_print unum rad padc padn u = Some (u, 0))"
proof
  let ?str = "num_text (unat radix) (unat unum)"
  have "num_value (unat radix) ?str = unat unum"
    using assms(2,3) by (intro num_value_text) (simp_all add: word_le_nat_alt)
  moreover have "length ?str \<le> 20" using numeral_fits [OF assms(2), of unum] by (simp add: num_text_def)
  ultimately show "\<exists>u' str. unsigned_num_print unum radix padc padn u = Some (u', int (length (padded padc padn str))) \<and>
      tx_ok u' \<and> uart_tx u' = uart_tx u @ padded padc padn str \<and> length str \<le> 20 \<and> num_value (unat radix) str = unat unum"
    using unsigned_num_print_emits [OF assms(2), of unum padc padn] assms(1) unfolding emits_def by blast
qed (simp add: unsigned_num_print_def)

theorem num_print_round_trip_witness:
  "\<exists>u' str. unsigned_num_print 18446744073709551615 10 (CHR ''0'') 0 example_uart = Some (u', int (length (padded (CHR ''0'') 0 str))) \<and>
     uart_tx u' = padded (CHR ''0'') 0 str \<and> length str \<le> 20 \<and> num_value 10 str = 18446744073709551615"
  using conjunct1 [OF num_print_round_trip [OF example_uart_ok, of 10 18446744073709551615 "CHR ''0''" 0 0]]
  by (auto simp: example_uart_def)

lemma tx_wait_hangs:
  assumes "\<And>n. fr_reads u \<le> n \<Longrightarrow> bit (uartcr u) 0 \<Longrightarrow> bit (uartcr u) 8 \<Longrightarrow> bit (uartfr u n) 5"
  shows "tx_wait u = None"
proof -
  have "\<not> (\<forall>n\<ge>fr_reads u. bit (uartcr u) 0 \<longrightarrow> bit (uartcr u) 8 \<longrightarrow> bit (uartfr u n) 5)"
    if "tx_wait u = Some v" for u v
  proof (rule tx_wait.raw_induct [OF _ that])
    fix w u v
    assume IH: "\<And>u v. w u = Some v \<Longrightarrow> \<not> (\<forall>n\<ge>fr_reads u. bit (uartcr u) 0 \<longrightarrow> bit (uartcr u) 8 \<longrightarrow> bit (uartfr u n) 5)"
      and step: "(let (e, u') = pal_driver_uart_pl011_is_tx_empty u in if e then Some u' else w u') = Some v"
    show "\<not> (\<forall>n\<ge>fr_reads u. bit (uartcr u) 0 \<longrightarrow> bit (uartcr u) 8 \<longrightarrow> bit (uartfr u n) 5)"
    proof (cases "bit (uartcr u) 0 \<and> bit (uartcr u) 8")
      case True
      show ?thesis
      proof (cases "bit (uartfr u (fr_reads u)) 5")
        case full: True
        then have "w (u\<lparr>fr_reads := fr_reads u + 1\<rparr>) = Some v"
          using step True by (simp add: is_tx_empty_enabled)
        from IH [OF this] show ?thesis by fastforce
      qed (use True in auto)
    next
      case False
      then have "pal_driver_uart_pl011_is_tx_empty u = (False, u)"
        unfolding pal_driver_uart_pl011_is_tx_empty_def uart_masks and_single_bit by auto
      then have "w u = Some v" using step by simp
      from IH [OF this] show ?thesis .
    qed
  qed
  then show ?thesis using assms by (cases "tx_wait u") blast+
qed

text \<open>(C34) The console never blocks for good and never loses a character as long as the device drains its queue;
  it sets the device up on the first character. When the queue stays full, or the device was set up and then
  disabled, sending does not return.\<close>

theorem putc_delivers:
  "(tx_ok u \<longrightarrow> (\<exists>u'. pal_uart_putc c u = Some u' \<and> tx_ok u' \<and> uart_tx u' = uart_tx u @ [c] \<and> is_uart_init_done u' \<noteq> 0))
   \<and> ((\<forall>n\<ge>fr_reads u. bit (uartfr u n) 5) \<longrightarrow> pal_uart_putc c u = None)
   \<and> (is_uart_init_done u \<noteq> 0 \<and> \<not> (bit (uartcr u) 0 \<and> bit (uartcr u) 8) \<longrightarrow> pal_uart_putc c u = None)"
proof (intro conjI impI)
  define v where "v = (if is_uart_init_done u = 0 then (pal_driver_uart_pl011_init u)\<lparr>is_uart_init_done := 1\<rparr> else u)"
  have v: "fr_reads v = fr_reads u" "uartfr v = uartfr u" by (simp_all add: v_def pal_driver_uart_pl011_init_def Let_def)
  show "pal_uart_putc c u = None" if "\<forall>n\<ge>fr_reads u. bit (uartfr u n) 5"
    using tx_wait_hangs [of v] that v by (simp add: pal_uart_putc_def flip: v_def)
  show "pal_uart_putc c u = None" if "is_uart_init_done u \<noteq> 0 \<and> \<not> (bit (uartcr u) 0 \<and> bit (uartcr u) 8)"
    using tx_wait_hangs [of u] that by (simp add: pal_uart_putc_def)
qed (rule putc_sets_up)

theorem putc_delivers_witness:
  "(\<exists>u'. pal_uart_putc (CHR ''A'') example_uart = Some u' \<and> tx_ok u' \<and> uart_tx u' = ''A'' \<and> is_uart_init_done u' \<noteq> 0)
   \<and> pal_uart_putc (CHR ''A'') (example_uart\<lparr>uartfr := \<lambda>_. 0x20\<rparr>) = None"
proof
  show "\<exists>u'. pal_uart_putc (CHR ''A'') example_uart = Some u' \<and> tx_ok u' \<and> uart_tx u' = ''A'' \<and> is_uart_init_done u' \<noteq> 0"
    using putc_delivers [of example_uart "CHR ''A''"] example_uart_ok by (simp add: example_uart_def)
  show "pal_uart_putc (CHR ''A'') (example_uart\<lparr>uartfr := \<lambda>_. 0x20\<rparr>) = None"
    using putc_delivers [of "example_uart\<lparr>uartfr := \<lambda>_. 0x20\<rparr>" "CHR ''A''"] by simp
qed

section \<open>Numbers on the raw port\<close>

definition raw_char :: "nat \<Rightarrow> char" where
  "raw_char d = (if 9 < d then char_of (d + 55) else char_of (d + 48))"

definition raw_numeral :: "bool \<Rightarrow> u64 \<Rightarrow> nat list" where
  "raw_numeral hex data = (if data = 0 then [] else rdigits (if hex then 16 else 10) (unat data))"

lemma raw_numeral_step:
  fixes hex :: bool
  assumes "data \<noteq> 0"
  defines "data' \<equiv> if hex then drop_bit 4 data else data div 10"
    and "d \<equiv> if hex then data AND 0xf else data mod 10"
  shows "raw_numeral hex data = unat d # raw_numeral hex data'"
    and "(if hex \<and> 9 < d then char_of (unat d + 55) else char_of (unat d + 48)) = raw_char (unat d)"
proof -
  define b :: nat where "b = (if hex then 16 else 10)"
  have n: "unat data' = unat data div b"
  proof (cases hex)
    case True
    have "drop_bit 4 data = data div 16" using drop_bit_eq_div [of 4 data] by simp
    then show ?thesis using True by (simp add: data'_def b_def unat_div)
  qed (simp add: data'_def b_def unat_div)
  have m: "unat d = unat data mod b"
  proof (cases hex)
    case True
    have "data AND 0xf = take_bit 4 data" by (simp add: take_bit_eq_mask mask_eq_exp_minus_1)
    then show ?thesis using True unat_take_bit_mod [of 4 data] by (simp add: d_def b_def)
  qed (simp add: d_def b_def unat_mod)
  have z: "data' = 0 \<longleftrightarrow> unat data < b"
    using n word_unat_eq_iff [of data' 0] by (auto simp: b_def div_eq_0_iff)
  show "raw_numeral hex data = unat d # raw_numeral hex data'"
    unfolding raw_numeral_def b_def [symmetric] n m z using assms(1)
    by (subst rdigits.simps) (auto simp: b_def not_less)
  have "9 < d \<longleftrightarrow> 9 < unat d" by (simp add: word_less_nat_alt)
  moreover have "\<not> hex \<Longrightarrow> unat d \<le> 9" using m by (simp add: b_def)
  ultimately show "(if hex \<and> 9 < d then char_of (unat d + 55) else char_of (unat d + 48)) = raw_char (unat d)"
    by (auto simp: raw_char_def)
qed

lemma raw_digits_result:
  assumes "length buf = 16" and "i \<le> 16"
  shows "if i + length (raw_numeral hex data) \<le> 16
    then \<exists>buf'. raw_digits hex data i buf = Some (buf', i + length (raw_numeral hex data)) \<and>
      take (i + length (raw_numeral hex data)) buf' = take i buf @ map raw_char (raw_numeral hex data)
    else raw_digits hex data i buf = None"
  using assms
proof (induction hex data i buf rule: raw_digits.induct)
  case (1 hex data i buf)
  show ?case
  proof (cases "data = 0 \<or> 16 \<le> i")
    case True
    then have "raw_digits hex data i buf = (if data = 0 then Some (buf, i) else None)"
      by (subst raw_digits.simps) auto
    moreover have "raw_numeral hex data = [] \<longleftrightarrow> data = 0"
      using raw_numeral_step(1) [of data hex] by (auto simp: raw_numeral_def)
    ultimately show ?thesis using True 1(3) by (cases "raw_numeral hex data") auto
  next
    case False
    let ?d = "if hex then data AND 0xf else data mod 10" and ?data = "if hex then drop_bit 4 data else data div 10"
    let ?buf = "buf[i := raw_char (unat ?d)]"
    have nz: "data \<noteq> 0" using False by simp
    note step = raw_numeral_step(1) [OF nz, of hex] and ch = raw_numeral_step(2) [OF nz, of hex]
    have run: "raw_digits hex data i buf = raw_digits hex ?data (i + 1) ?buf"
      using False by (subst raw_digits.simps) (simp add: Let_def ch)
    have "take (Suc i) ?buf = take i buf @ [raw_char (unat ?d)]"
      using False 1(2) by (simp add: take_Suc_conv_app_nth)
    moreover have "if i + 1 + length (raw_numeral hex ?data) \<le> 16
      then \<exists>buf'. raw_digits hex ?data (i + 1) ?buf = Some (buf', i + 1 + length (raw_numeral hex ?data)) \<and>
        take (i + 1 + length (raw_numeral hex ?data)) buf' = take (i + 1) ?buf @ map raw_char (raw_numeral hex ?data)
      else raw_digits hex ?data (i + 1) ?buf = None"
      using 1(1) [OF nz _ refl refl] False 1(2) unfolding ch by simp
    ultimately show ?thesis unfolding run step by (auto split: if_splits)
  qed
qed

lemma raw_conversion:
  assumes "(hex, c) \<in> {(True, CHR ''x''), (False, CHR ''d'')}"
  shows "pal_print_raw (CHR ''%'' # c # str) data =
    (if length (raw_numeral hex data) \<le> 16
     then map_option (\<lambda>out. (if data = 0 then ''0'' else rev (map raw_char (raw_numeral hex data))) @ out) (raw_loop str 0)
     else None)"
proof -
  have nz: "raw_numeral hex data = [] \<longleftrightarrow> data = 0"
    using raw_numeral_step(1) [of data hex] by (auto simp: raw_numeral_def)
  have run: "pal_print_raw (CHR ''%'' # c # str) data =
      do { (buf, i) \<leftarrow> raw_digits hex data 0 (replicate 16 (CHR 0x00)); out \<leftarrow> raw_loop str 0;
           Some ((if 0 < i then rev (take i buf) else ''0'') @ out) }"
    using assms by (cases "raw_digits hex data 0 (replicate 16 (CHR 0x00))") (auto simp: pal_print_raw_def)
  show ?thesis
  proof (cases "length (raw_numeral hex data) \<le> 16")
    case True
    then obtain buf where "raw_digits hex data 0 (replicate 16 (CHR 0x00)) = Some (buf, length (raw_numeral hex data))"
      "take (length (raw_numeral hex data)) buf = map raw_char (raw_numeral hex data)"
      using raw_digits_result [of "replicate 16 (CHR 0x00)" 0 hex data] by auto
    then show ?thesis using True nz unfolding run by (cases "raw_loop str 0") auto
  next
    case False
    then show ?thesis using raw_digits_result [of "replicate 16 (CHR 0x00)" 0 hex data] unfolding run by simp
  qed
qed

text \<open>Numbers on the raw port. \<^verbatim>\<open>pal_print_raw\<close> prints every number in hexadecimal, in upper case, and a
  decimal number of up to sixteen digits; a longer one overruns its buffer of sixteen characters. Zero is
  a single digit. Every later conversion of the same string prints zero, since the first uses the number up.\<close>

theorem print_raw_numbers:
  "(pal_print_raw ''%x'' data = Some (rev (map raw_char (rdigits 16 (unat data)))))
   \<and> (pal_print_raw ''%d'' data = (if unat data < 10 ^ 16 then Some (num_text 10 (unat data)) else None))
   \<and> pal_print_raw ''%x%d'' data = Some (rev (map raw_char (rdigits 16 (unat data))) @ ''0'')"
proof -
  have zero: "raw_digits hex 0 i buf = Some (buf, i)" for hex i buf by (subst raw_digits.simps) simp
  have one: "rdigits r 0 = [0]" for r by (subst rdigits.simps) auto
  have one_char: "raw_char 0 = CHR ''0''" by code_simp
  have hexlen: "length (raw_numeral True data) \<le> 16"
    using rdigits_length_le [of 16 16 "unat data"] word_unat_less [of data] by (simp add: raw_numeral_def)
  have declen: "length (raw_numeral False data) \<le> 16 \<longleftrightarrow> unat data < 10 ^ 16"
    using rdigits_length_le [of 10 16 "unat data"] by (auto simp: raw_numeral_def)
  have same: "map raw_char (rdigits 10 n) = map digit_char (rdigits 10 n)" for n
  proof (rule map_cong [OF refl])
    fix d assume "d \<in> set (rdigits 10 n)"
    then have "d < 10" by (intro rdigits_less) simp_all
    then show "raw_char d = digit_char d" by (simp add: raw_char_def digit_char_def add.commute)
  qed
  have zero_text: "(if data = 0 then ''0'' else rev (map raw_char (raw_numeral hex data))) =
      rev (map raw_char (rdigits (if hex then 16 else 10) (unat data)))" for hex
    using one_char by (simp add: raw_numeral_def one)
  show ?thesis
    unfolding raw_conversion [of True "CHR ''x''", simplified] raw_conversion [of False "CHR ''d''", simplified] zero_text
    using hexlen declen same by (simp add: num_text_def zero)
qed

end
