(* ===== verification/Pal_Pcie.thy ===== *)
theory Pal_Pcie
  imports Pcie_Config
begin

text \<open>
  The PCIe services of the bare-metal platform layer (\<^verbatim>\<open>platform/pal_baremetal/src/pal_pcie.c\<close>): decoding
  of configuration addresses through the platform's ECAM regions, configuration accesses, the capability
  searches, the table of known devices, and the search for a root port.

  The hardware is everything behind the memory-mapped accesses: the state keeps the writes made so far, in
  order, and a parameter \<open>respond\<close> says what a read returns after them. Nothing is assumed of it here.
  The tables of the platform configuration (\<^verbatim>\<open>platform_pcie_cfg\<close>, \<^verbatim>\<open>platform_pcie_device_hierarchy\<close>) are lists;
  the ECAM table has fewer than 256 entries, as the 8-bit index of \<^verbatim>\<open>pal_pcie_ecam_base\<close> needs. A
  capability list without end makes a search \<open>None\<close>.
\<close>

section \<open>State\<close>

record pcie_read_block =
  rb_class_code :: u64
  rb_bus :: u32
  rb_dev :: u32
  rb_func :: u32
  rb_seg :: u32
  rb_dma_support :: u32
  rb_dma_coherent :: u32
  rb_p2p_support :: u32
  rb_dma_64bit :: u32
  rb_behind_smmu :: u32
  rb_atc_present :: u32
  rb_irq_map :: "u8 list"

record bm_pcie =
  platform_pcie_cfg :: "pcie_info_block list"
  platform_pcie_device_hierarchy :: "pcie_read_block list"
  bdf_table :: "u32 list"
  mmio_log :: "(u64 \<times> u32) list"
  respond :: "(u64 \<times> u32) list \<Rightarrow> u64 \<Rightarrow> u32"

text \<open>32-bit accesses: a write clears the low address bits, a read does not.\<close>

definition bm_reg_read :: "'a bm_pcie_scheme \<Rightarrow> u64 \<Rightarrow> u32" where
  "bm_reg_read s addr = respond s (mmio_log s) addr"

definition bm_reg_write :: "'a bm_pcie_scheme \<Rightarrow> u64 \<Rightarrow> u32 \<Rightarrow> 'a bm_pcie_scheme" where
  "bm_reg_write s addr data =
     s\<lparr>mmio_log := mmio_log s @ [(if addr AND 3 \<noteq> 0 then addr AND NOT 3 else addr, data)]\<rparr>"

section \<open>Configuration access\<close>

definition bm_get_mcfg_ecam :: "'a bm_pcie_scheme \<Rightarrow> u64" where
  "bm_get_mcfg_ecam s = ecam_base (hd (platform_pcie_cfg s))"

text \<open>The table that the caller passes is filled; a null table stays as it is.\<close>

definition bm_create_info_table :: "'a bm_pcie_scheme \<Rightarrow> pcie_info_block list option \<Rightarrow> pcie_info_block list option" where
  "bm_create_info_table s PcieTable =
     (case PcieTable of
        None \<Rightarrow> None
      | Some _ \<Rightarrow> if length (platform_pcie_cfg s) = 0 then Some []
                  else Some (map (\<lambda>b. \<lparr>ecam_base = ecam_base b, segment_num = segment_num b,
                       start_bus_num = start_bus_num b, end_bus_num = end_bus_num b\<rparr>) (platform_pcie_cfg s)))"

fun ecam_base_scan :: "pcie_info_block list \<Rightarrow> u32 \<Rightarrow> u32 \<Rightarrow> u64" where
  "ecam_base_scan [] seg bus = 0"
| "ecam_base_scan (b # bs) seg bus =
     (if start_bus_num b \<le> bus \<and> bus \<le> end_bus_num b \<and> seg = segment_num b then ecam_base b
      else ecam_base_scan bs seg bus)"

definition bm_ecam_base :: "'a bm_pcie_scheme \<Rightarrow> u32 \<Rightarrow> u32 \<Rightarrow> u32 \<Rightarrow> u32 \<Rightarrow> u64" where
  "bm_ecam_base s seg bus dev func = ecam_base_scan (platform_pcie_cfg s) seg bus"

text \<open>The offset of a function in its ECAM region, computed at 32 bits.\<close>

definition bm_cfg_offset :: "u32 \<Rightarrow> u32 \<Rightarrow> u32 \<Rightarrow> u32" where
  "bm_cfg_offset bus dev func =
     bus * PCIE_MAX_DEV * PCIE_MAX_FUNC * 4096 + dev * PCIE_MAX_FUNC * 4096 + func * 4096"

definition bm_cfg_reg :: "'a bm_pcie_scheme \<Rightarrow> u32 \<Rightarrow> u32 \<Rightarrow> u32 \<Rightarrow> u32 \<Rightarrow> u32 \<Rightarrow> u64" where
  "bm_cfg_reg s seg bus dev func offset =
     bm_ecam_base s seg bus dev func + ucast (bm_cfg_offset bus dev func) + ucast offset"

definition bm_read_cfg :: "'a bm_pcie_scheme \<Rightarrow> u32 \<Rightarrow> u32 \<Rightarrow> u32 \<Rightarrow> u32 \<Rightarrow> u32 \<Rightarrow> u32" where
  "bm_read_cfg s seg bus dev func offset = bm_reg_read s (bm_cfg_reg s seg bus dev func offset)"

text \<open>The first entry of the device table with the numbers given.\<close>

definition known_device :: "'a bm_pcie_scheme \<Rightarrow> u32 \<Rightarrow> u32 \<Rightarrow> u32 \<Rightarrow> u32 \<Rightarrow> pcie_read_block option" where
  "known_device s seg bus dev func =
     find (\<lambda>b. seg = rb_seg b \<and> bus = rb_bus b \<and> dev = rb_dev b \<and> func = rb_func b) (platform_pcie_device_hierarchy s)"

text \<open>Only the class code is served from the table; a match at another offset goes on searching.\<close>

definition bm_io_read_cfg :: "'a bm_pcie_scheme \<Rightarrow> u32 \<Rightarrow> u32 \<Rightarrow> u32 \<Rightarrow> u32 \<times> u32" where
  "bm_io_read_cfg s Bdf offset data =
     (case known_device s (PCIE_EXTRACT_BDF_SEG Bdf) (PCIE_EXTRACT_BDF_BUS Bdf) (PCIE_EXTRACT_BDF_DEV Bdf)
             (PCIE_EXTRACT_BDF_FUNC Bdf) of
        Some b \<Rightarrow> if offset = 0x8 then (0, ucast (rb_class_code b)) else (PCIE_NO_MAPPING, data)
      | None \<Rightarrow> (PCIE_NO_MAPPING, data))"

definition bm_io_write_cfg :: "'a bm_pcie_scheme \<Rightarrow> u32 \<Rightarrow> u32 \<Rightarrow> u32 \<Rightarrow> 'a bm_pcie_scheme" where
  "bm_io_write_cfg s bdf offset data =
     bm_reg_write s (bm_cfg_reg s (PCIE_EXTRACT_BDF_SEG bdf) (PCIE_EXTRACT_BDF_BUS bdf) (PCIE_EXTRACT_BDF_DEV bdf)
       (PCIE_EXTRACT_BDF_FUNC bdf) offset) data"

section \<open>Device properties\<close>

definition PCIE_HEADER_TYPE :: "u32 \<Rightarrow> u32" where
  "PCIE_HEADER_TYPE header_value = drop_bit 16 header_value AND 0x3"

definition is_host_bridge_class :: "u32 \<Rightarrow> bool" where
  "is_host_bridge_class class_code \<longleftrightarrow>
     drop_bit 24 class_code AND 0xFF = 0x06 \<and> drop_bit 16 class_code AND 0xFF = 0x00"

text \<open>The loops only read and only set the status to 1, so the search is a test for a witness.\<close>

definition bm_scan_bridge_devices_and_check_memtype ::
  "'a bm_pcie_scheme \<Rightarrow> u32 \<Rightarrow> u32 \<Rightarrow> u32 \<Rightarrow> u32 \<Rightarrow> u32" where
  "bm_scan_bridge_devices_and_check_memtype s seg bus dev fn =
     (let reg_value = bm_read_cfg s seg bus dev fn 0x18;
          endpoint = (\<lambda>b d f. PCIE_HEADER_TYPE (bm_read_cfg s seg b d f 0xC) = 0 \<and>
            drop_bit 8 reg_value AND 0xff \<le> b \<and> b \<le> drop_bit 16 reg_value AND 0xff);
          data = (\<lambda>b d f. bm_read_cfg s seg b d f 0x10)
      in if list_ex (\<lambda>b. list_ex (\<lambda>d. list_ex (\<lambda>f. endpoint (of_nat b) (of_nat d) (of_nat f) \<and>
              data (of_nat b) (of_nat d) (of_nat f) \<noteq> 0 \<and> data (of_nat b) (of_nat d) (of_nat f) AND 0x6 \<noteq> 0)
            [0..<8]) [0..<32]) [0..<256]
         then 1 else 0)"

definition bm_get_device_type :: "'a bm_pcie_scheme \<Rightarrow> u32 \<Rightarrow> u32 \<Rightarrow> u32 \<Rightarrow> u32 \<Rightarrow> u32" where
  "bm_get_device_type s seg bus dev fn =
     (if PCIE_HEADER_TYPE (bm_read_cfg s seg bus dev fn 0xC) \<noteq> 0
      then if is_host_bridge_class (bm_read_cfg s seg bus dev fn 0x8) then 2 else 3
      else 1)"

text \<open>The search for the PCI Express capability that the type, the snoop bit and the root port search share.\<close>

partial_function (option) pciecs_walk ::
  "'a bm_pcie_scheme \<Rightarrow> u32 \<Rightarrow> u32 \<Rightarrow> u32 \<Rightarrow> u32 \<Rightarrow> u32 \<Rightarrow> u32 \<Rightarrow> (u32 \<times> u32) option" where
  "pciecs_walk s seg bus dev fn off out =
     (if off = 0 then Some (PCIE_CAP_NOT_FOUND, out)
      else let reg_value = bm_read_cfg s seg bus dev fn off in
           if reg_value AND 0xff = 0x10 then Some (PCIE_SUCCESS, off)
           else pciecs_walk s seg bus dev fn (drop_bit 8 reg_value AND 0xff) out)"

definition first_cap :: "'a bm_pcie_scheme \<Rightarrow> u32 \<Rightarrow> u32 \<Rightarrow> u32 \<Rightarrow> u32 \<Rightarrow> u32" where
  "first_cap s seg bus dev fn = bm_read_cfg s seg bus dev fn 0x34 AND 0xff"

definition bm_get_pcie_type :: "'a bm_pcie_scheme \<Rightarrow> u32 \<Rightarrow> u32 \<Rightarrow> u32 \<Rightarrow> u32 \<Rightarrow> u32 option" where
  "bm_get_pcie_type s seg bus dev fn =
     do { (st, off) \<leftarrow> pciecs_walk s seg bus dev fn (first_cap s seg bus dev fn) 0;
          Some (if st = PCIE_SUCCESS then drop_bit 20 (bm_read_cfg s seg bus dev fn off) AND 0xf else 0) }"

definition bm_get_snoop_bit :: "'a bm_pcie_scheme \<Rightarrow> u32 \<Rightarrow> u32 \<Rightarrow> u32 \<Rightarrow> u32 \<Rightarrow> u32 option" where
  "bm_get_snoop_bit s seg bus dev fn =
     do { (st, off) \<leftarrow> pciecs_walk s seg bus dev fn (first_cap s seg bus dev fn) 0;
          Some (if st = PCIE_SUCCESS then drop_bit 11 (bm_read_cfg s seg bus dev fn (off + 8)) AND 0x1 else 2) }"

text \<open>After a match the register value that gives the next offset is the word read, not the header.\<close>

partial_function (option) ext_cap_word_loop ::
  "'a bm_pcie_scheme \<Rightarrow> u32 \<Rightarrow> u32 \<Rightarrow> u32 \<Rightarrow> u32 \<Rightarrow> u32 \<Rightarrow> u8 \<Rightarrow> u32 \<Rightarrow> u16 \<Rightarrow> u16 option" where
  "ext_cap_word_loop s seg bus dev fn ext_cap_id offset next_cap_offset val =
     (if next_cap_offset = 0 then Some val
      else let reg_value = bm_read_cfg s seg bus dev fn next_cap_offset;
               hit = (reg_value AND 0xffff = ext_cap_id);
               reg_value = (if hit then bm_read_cfg s seg bus dev fn (next_cap_offset + ucast offset) else reg_value)
           in ext_cap_word_loop s seg bus dev fn ext_cap_id offset (drop_bit 20 reg_value AND 0xfff)
                (if hit then ucast reg_value else val))"

definition bm_read_ext_cap_word ::
  "'a bm_pcie_scheme \<Rightarrow> u32 \<Rightarrow> u32 \<Rightarrow> u32 \<Rightarrow> u32 \<Rightarrow> u32 \<Rightarrow> u8 \<Rightarrow> u16 \<Rightarrow> u16 option" where
  "bm_read_ext_cap_word s seg bus dev fn ext_cap_id offset val =
     ext_cap_word_loop s seg bus dev fn ext_cap_id offset 0x100 val"

section \<open>The device table\<close>

definition bm_is_device_behind_smmu :: "'a bm_pcie_scheme \<Rightarrow> u32 \<Rightarrow> u32 \<Rightarrow> u32 \<Rightarrow> u32 \<Rightarrow> u32" where
  "bm_is_device_behind_smmu s seg bus dev fn =
     (case known_device s seg bus dev fn of Some b \<Rightarrow> rb_behind_smmu b | None \<Rightarrow> 0)"

definition bm_get_dma_support :: "'a bm_pcie_scheme \<Rightarrow> u32 \<Rightarrow> u32 \<Rightarrow> u32 \<Rightarrow> u32 \<Rightarrow> u32" where
  "bm_get_dma_support s seg bus dev fn =
     (case known_device s seg bus dev fn of Some b \<Rightarrow> rb_dma_support b | None \<Rightarrow> 2)"

definition bm_get_dma_coherent :: "'a bm_pcie_scheme \<Rightarrow> u32 \<Rightarrow> u32 \<Rightarrow> u32 \<Rightarrow> u32 \<Rightarrow> u32" where
  "bm_get_dma_coherent s seg bus dev fn =
     (case known_device s seg bus dev fn of Some b \<Rightarrow> rb_dma_coherent b | None \<Rightarrow> 2)"

definition bm_p2p_support :: u32 where
  "bm_p2p_support = 1"

definition bm_dev_p2p_support :: "'a bm_pcie_scheme \<Rightarrow> u32 \<Rightarrow> u32 \<Rightarrow> u32 \<Rightarrow> u32 \<Rightarrow> u32" where
  "bm_dev_p2p_support s seg bus dev fn =
     (case known_device s seg bus dev fn of Some b \<Rightarrow> rb_p2p_support b | None \<Rightarrow> 1)"

definition bm_is_devicedma_64bit :: "'a bm_pcie_scheme \<Rightarrow> u32 \<Rightarrow> u32 \<Rightarrow> u32 \<Rightarrow> u32 \<Rightarrow> u32" where
  "bm_is_devicedma_64bit s seg bus dev fn =
     (case known_device s seg bus dev fn of Some b \<Rightarrow> rb_dma_64bit b | None \<Rightarrow> 0)"

definition bm_is_cache_present :: "'a bm_pcie_scheme \<Rightarrow> u32 \<Rightarrow> u32 \<Rightarrow> u32 \<Rightarrow> u32 \<Rightarrow> u32" where
  "bm_is_cache_present s seg bus dev fn =
     (case known_device s seg bus dev fn of Some b \<Rightarrow> rb_atc_present b | None \<Rightarrow> 0)"

definition bm_get_legacy_irq_map ::
  "'a bm_pcie_scheme \<Rightarrow> u32 \<Rightarrow> u32 \<Rightarrow> u32 \<Rightarrow> u32 \<Rightarrow> u8 list \<Rightarrow> u32 \<times> u8 list" where
  "bm_get_legacy_irq_map s Seg Bus Dev Fn IrqMap =
     (case known_device s Seg Bus Dev Fn of Some b \<Rightarrow> (0, rb_irq_map b) | None \<Rightarrow> (PCIE_NO_MAPPING, IrqMap))"

section \<open>The root port of a function\<close>

abbreviation (input) RP :: u32 where "RP \<equiv> push_bit 4 1"
abbreviation (input) iEP_RP :: u32 where "iEP_RP \<equiv> push_bit 11 1"

text \<open>The result is the status and the four numbers, which stay as they were unless a root port is found.\<close>

type_synonym rp_result = "u32 \<times> u32 \<times> u32 \<times> u32 \<times> u32"

definition rp_covers :: "'a bm_pcie_scheme \<Rightarrow> u32 \<Rightarrow> u32 \<Rightarrow> u32 \<Rightarrow> bool" where
  "rp_covers s bdf off bus =
     (let sg = PCIE_EXTRACT_BDF_SEG bdf; bs = PCIE_EXTRACT_BDF_BUS bdf; dv = PCIE_EXTRACT_BDF_DEV bdf;
          fn = PCIE_EXTRACT_BDF_FUNC bdf;
          dp_type = push_bit (unat (drop_bit 20 (bm_read_cfg s sg bs dv fn off) AND 0xf)) 1;
          reg_value = bm_read_cfg s sg bs dv fn 0x18
      in (dp_type = RP \<or> dp_type = iEP_RP) \<and>
         drop_bit 8 reg_value AND 0xff \<le> bus \<and> bus \<le> drop_bit 16 reg_value AND 0xff)"

fun root_port_loop :: "'a bm_pcie_scheme \<Rightarrow> u32 list \<Rightarrow> u32 \<Rightarrow> u32 \<Rightarrow> u32 \<Rightarrow> u32 \<Rightarrow> rp_result option" where
  "root_port_loop s [] Seg Bus Dev Fnc = Some (1, Seg, Bus, Dev, Fnc)"
| "root_port_loop s (bdf # bdfs) Seg Bus Dev Fnc =
     (let sg = PCIE_EXTRACT_BDF_SEG bdf; bs = PCIE_EXTRACT_BDF_BUS bdf; dv = PCIE_EXTRACT_BDF_DEV bdf;
          fn = PCIE_EXTRACT_BDF_FUNC bdf
      in do { (st, off) \<leftarrow> pciecs_walk s sg bs dv fn (first_cap s sg bs dv fn) 0;
              if st = PCIE_SUCCESS
              then Some (if rp_covers s bdf off Bus then (0, sg, bs, dv, fn) else (2, Seg, Bus, Dev, Fnc))
              else root_port_loop s bdfs Seg Bus Dev Fnc })"

definition bm_get_root_port_bdf :: "'a bm_pcie_scheme \<Rightarrow> u32 \<Rightarrow> u32 \<Rightarrow> u32 \<Rightarrow> u32 \<Rightarrow> rp_result option" where
  "bm_get_root_port_bdf s Seg Bus Dev Fnc = root_port_loop s (bdf_table s) Seg Bus Dev Fnc"

section \<open>Memory behind a base address register\<close>

abbreviation (input) MEM_OFFSET_SMALL :: u32 where "MEM_OFFSET_SMALL \<equiv> 0x10"
abbreviation (input) MEM_OFFSET_MEDIUM :: u32 where "MEM_OFFSET_MEDIUM \<equiv> 0x1000"

definition bm_mem_get_offset :: "u32 \<Rightarrow> u32" where
  "bm_mem_get_offset ty =
     (if ty = MEM_OFFSET_SMALL then MEM_OFFSET_SMALL else if ty = MEM_OFFSET_MEDIUM then MEM_OFFSET_MEDIUM
      else MEM_OFFSET_SMALL)"

definition bm_bar_mem_write :: "'a bm_pcie_scheme \<Rightarrow> u32 \<Rightarrow> u64 \<Rightarrow> u32 \<Rightarrow> 'a bm_pcie_scheme \<times> u32" where
  "bm_bar_mem_write s Bdf address data = (bm_reg_write s address data, 0)"

definition bm_bar_mem_read :: "'a bm_pcie_scheme \<Rightarrow> u32 \<Rightarrow> u64 \<Rightarrow> u32 \<times> u32" where
  "bm_bar_mem_read s Bdf address = (0, bm_reg_read s address)"

section \<open>Decoding of configuration addresses\<close>

lemma cfg_offset_value:
  assumes "bus < 256" and "dev < 32" and "func < 8"
  shows "unat (bm_cfg_offset bus dev func) = (unat bus * 256 + unat dev * 8 + unat func) * 4096"
proof -
  have b: "unat bus < 256" "unat dev < 32" "unat func < 8" using assms by (simp_all add: word_less_nat_alt)
  have "bm_cfg_offset bus dev func = of_nat ((unat bus * 256 + unat dev * 8 + unat func) * 4096)"
    by (simp add: bm_cfg_offset_def algebra_simps)
  moreover have "(unat bus * 256 + unat dev * 8 + unat func) * 4096 < 2 ^ 32" using b by simp
  ultimately show ?thesis by (simp add: unat_of_nat_small del: of_nat_mult of_nat_add)
qed

text \<open>Configuration space of the bare-metal platform. A function on a bus inside one of the ECAM regions of its
  segment is read and written in that region (the first that fits) at bus, device, function and register
  offset, and no two offsets of two functions of a region share an address. A function on any other bus is not refused: its accesses go to the offset itself, near address zero.\<close>

theorem bm_config_decoding:
  assumes "bus < 256" and "dev < 32" and "func < 8" and "off < 4096"
    and "bus' < 256" and "dev' < 32" and "func' < 8" and "off' < 4096"
  shows "(find (\<lambda>b. start_bus_num b \<le> bus \<and> bus \<le> end_bus_num b \<and> seg = segment_num b) (platform_pcie_cfg s) = Some b \<longrightarrow>
       bm_cfg_reg s seg bus dev func off = ecam_base b + of_nat ((unat bus * 256 + unat dev * 8 + unat func) * 4096 + unat off))
    \<and> (find (\<lambda>b. start_bus_num b \<le> bus \<and> bus \<le> end_bus_num b \<and> seg = segment_num b) (platform_pcie_cfg s) = None \<longrightarrow>
       bm_cfg_reg s seg bus dev func off = of_nat ((unat bus * 256 + unat dev * 8 + unat func) * 4096 + unat off))
    \<and> (bm_ecam_base s seg bus dev func = bm_ecam_base s seg bus' dev' func' \<longrightarrow>
       (bm_cfg_reg s seg bus dev func off = bm_cfg_reg s seg bus' dev' func' off' \<longleftrightarrow>
          bus = bus' \<and> dev = dev' \<and> func = func' \<and> off = off'))"
proof -
  have scan: "ecam_base_scan bs seg bus = (case find (\<lambda>b. start_bus_num b \<le> bus \<and> bus \<le> end_bus_num b \<and> seg = segment_num b) bs of
      None \<Rightarrow> 0 | Some b \<Rightarrow> ecam_base b)" for bs bus
    by (induction bs) auto
  define n where "n b d f k = (unat b * 256 + unat d * 8 + unat f) * 4096 + unat k" for b d f k :: u32
  have rel: "bm_cfg_reg s seg b d f k = bm_ecam_base s seg b d f + of_nat (n b d f k)" "n b d f k < 2 ^ 32"
    if "b < 256" "d < 32" "f < 8" "k < 4096" for b d f k
  proof -
    have "ucast (bm_cfg_offset b d f) = (of_nat ((unat b * 256 + unat d * 8 + unat f) * 4096) :: u64)"
      using cfg_offset_value [OF that(1,2,3)] by (metis of_nat_unat ucast_id unat_ucast_up word_unat_eq_iff)
    moreover have "ucast k = (of_nat (unat k) :: u64)" by (simp add: word_unat_eq_iff unat_ucast_up)
    ultimately show "bm_cfg_reg s seg b d f k = bm_ecam_base s seg b d f + of_nat (n b d f k)"
      by (simp add: bm_cfg_reg_def n_def)
    show "n b d f k < 2 ^ 32" using that by (simp add: n_def word_less_nat_alt)
  qed
  have inj: "n bus dev func off = n bus' dev' func' off' \<longleftrightarrow> bus = bus' \<and> dev = dev' \<and> func = func' \<and> off = off'"
  proof
    assume e: "n bus dev func off = n bus' dev' func' off'"
    have lt: "unat off < 4096" "unat off' < 4096" "unat dev < 32" "unat dev' < 32" "unat func < 8" "unat func' < 8"
      using assms by (simp_all add: word_less_nat_alt)
    note ro = radix_unique [OF e [unfolded n_def] lt(1,2)]
    have "(unat bus * 32 + unat dev) * 8 + unat func = (unat bus' * 32 + unat dev') * 8 + unat func'"
      using ro(1) by (simp add: algebra_simps)
    note f = radix_unique [OF this lt(5,6)]
    show "bus = bus' \<and> dev = dev' \<and> func = func' \<and> off = off'"
      using radix_unique [OF f(1) lt(3,4)] f(2) ro(2) by (simp add: word_unat_eq_iff)
  qed simp
  have eq: "(of_nat (n bus dev func off) :: u64) = of_nat (n bus' dev' func' off') \<longleftrightarrow> n bus dev func off = n bus' dev' func' off'"
    using rel(2) [OF assms(1,2,3,4)] rel(2) [OF assms(5,6,7,8)]
    by (simp add: word_unat_eq_iff unat_of_nat_small)
  show ?thesis
    using rel(1) [OF assms(1,2,3,4)] rel(1) [OF assms(5,6,7,8)] eq inj
    by (auto simp: bm_ecam_base_def scan n_def)
qed

theorem bm_config_decoding_witness:
  "bm_cfg_reg \<lparr>platform_pcie_cfg = [\<lparr>ecam_base = 0x40000000, segment_num = 0, start_bus_num = 0, end_bus_num = 17\<rparr>],
       platform_pcie_device_hierarchy = [], bdf_table = [], mmio_log = [], respond = \<lambda>_ _. 0\<rparr> 0 1 2 3 0x10 = 0x40113010
   \<and> bm_cfg_reg \<lparr>platform_pcie_cfg = [\<lparr>ecam_base = 0x40000000, segment_num = 0, start_bus_num = 0, end_bus_num = 17\<rparr>],
       platform_pcie_device_hierarchy = [], bdf_table = [], mmio_log = [], respond = \<lambda>_ _. 0\<rparr> 0 18 0 0 0x10 = 0x1200010"
  using bm_config_decoding [of 1 2 3 "0x10" 0 0 0 0 0
      "\<lparr>platform_pcie_cfg = [\<lparr>ecam_base = 0x40000000, segment_num = 0, start_bus_num = 0, end_bus_num = 17\<rparr>],
       platform_pcie_device_hierarchy = [], bdf_table = [], mmio_log = [], respond = \<lambda>_ _. 0\<rparr>"
      "\<lparr>ecam_base = 0x40000000, segment_num = 0, start_bus_num = 0, end_bus_num = 17\<rparr>"]
    bm_config_decoding [of 18 0 0 "0x10" 0 0 0 0 0
      "\<lparr>platform_pcie_cfg = [\<lparr>ecam_base = 0x40000000, segment_num = 0, start_bus_num = 0, end_bus_num = 17\<rparr>],
       platform_pcie_device_hierarchy = [], bdf_table = [], mmio_log = [], respond = \<lambda>_ _. 0\<rparr>"
      "\<lparr>ecam_base = 0x40000000, segment_num = 0, start_bus_num = 0, end_bus_num = 17\<rparr>"]
  by simp

section \<open>Capability searches\<close>

definition bm_cap_nxt :: "'a bm_pcie_scheme \<Rightarrow> u32 \<Rightarrow> u32 \<Rightarrow> u32 \<Rightarrow> u32 \<Rightarrow> u32 \<Rightarrow> u32" where
  "bm_cap_nxt s seg bus dev fn off = drop_bit 8 (bm_read_cfg s seg bus dev fn off) AND 0xff"

definition is_pciecs :: "'a bm_pcie_scheme \<Rightarrow> u32 \<Rightarrow> u32 \<Rightarrow> u32 \<Rightarrow> u32 \<Rightarrow> u32 \<Rightarrow> bool" where
  "is_pciecs s seg bus dev fn off \<longleftrightarrow> bm_read_cfg s seg bus dev fn off AND 0xff = 0x10"

lemma pciecs_walk_stops:
  assumes "pciecs_walk s seg bus dev fn off out = Some r"
  shows "\<exists>n. (bm_cap_nxt s seg bus dev fn ^^ n) off = 0 \<or> is_pciecs s seg bus dev fn ((bm_cap_nxt s seg bus dev fn ^^ n) off)"
proof (rule pciecs_walk.raw_induct [where P = "\<lambda>s seg bus dev fn off out r. \<exists>n. (bm_cap_nxt s seg bus dev fn ^^ n) off = 0
    \<or> is_pciecs s seg bus dev fn ((bm_cap_nxt s seg bus dev fn ^^ n) off)", OF _ assms], goal_cases)
  case (1 f s seg bus dev fn off out r)
  show ?case
  proof (cases "off = 0 \<or> is_pciecs s seg bus dev fn off")
    case True
    then show ?thesis by (intro exI [of _ 0]) simp
  next
    case False
    then have "f s seg bus dev fn (bm_cap_nxt s seg bus dev fn off) out = Some r"
      using 1(2) by (simp add: Let_def is_pciecs_def bm_cap_nxt_def)
    from 1(1) [OF this] obtain n where "(bm_cap_nxt s seg bus dev fn ^^ n) (bm_cap_nxt s seg bus dev fn off) = 0
        \<or> is_pciecs s seg bus dev fn ((bm_cap_nxt s seg bus dev fn ^^ n) (bm_cap_nxt s seg bus dev fn off))" by blast
    then show ?thesis by (intro exI [of _ "Suc n"]) (simp add: funpow_swap1)
  qed
qed

interpretation pciecs: linked_search "\<lambda>off out. pciecs_walk s seg bus dev fn off out" "bm_cap_nxt s seg bus dev fn"
    "is_pciecs s seg bus dev fn" for s seg bus dev fn
proof (unfold_locales, goal_cases)
  case (1 out)
  show ?case by (simp add: pciecs_walk.simps)
next
  case (2 off out)
  then show ?case by (simp add: pciecs_walk.simps [of s seg bus dev fn off] is_pciecs_def)
next
  case (3 off out)
  then show ?case by (simp add: pciecs_walk.simps [of s seg bus dev fn off] is_pciecs_def bm_cap_nxt_def)
next
  case (4 off out r)
  then show ?case by (rule pciecs_walk_stops)
qed

text \<open>The capability list of a function: the offsets of its structures in order.\<close>

definition cap_list :: "'a bm_pcie_scheme \<Rightarrow> u32 \<Rightarrow> u32 \<Rightarrow> u32 \<Rightarrow> u32 \<Rightarrow> u32 list \<Rightarrow> bool" where
  "cap_list s seg bus dev fn os \<longleftrightarrow> cap_path (bm_cap_nxt s seg bus dev fn) (first_cap s seg bus dev fn) os"

lemma walk_cap_list:
  "cap_list s seg bus dev fn os \<Longrightarrow> pciecs_walk s seg bus dev fn (first_cap s seg bus dev fn) 0 =
     Some (case find (is_pciecs s seg bus dev fn) os of None \<Rightarrow> (PCIE_CAP_NOT_FOUND, 0) | Some off \<Rightarrow> (PCIE_SUCCESS, off))"
  by (simp add: cap_list_def pciecs.walk_path search_result_def)

text \<open>Device type and snoop bit come from the first PCI Express capability in the list; without one the type is
  zero and the snoop query reports an error. The searches do not return exactly when the list never ends and holds no
  PCI Express capability.\<close>

theorem bm_express_capability:
  assumes "cap_list s seg bus dev fn os"
  shows "bm_get_pcie_type s seg bus dev fn = Some (case find (is_pciecs s seg bus dev fn) os of
      None \<Rightarrow> 0 | Some off \<Rightarrow> drop_bit 20 (bm_read_cfg s seg bus dev fn off) AND 0xf)
    \<and> bm_get_snoop_bit s seg bus dev fn = Some (case find (is_pciecs s seg bus dev fn) os of
      None \<Rightarrow> 2 | Some off \<Rightarrow> drop_bit 11 (bm_read_cfg s seg bus dev fn (off + 8)) AND 1)
    \<and> (bm_get_pcie_type s seg bus' dev' fn' = None \<longleftrightarrow>
        (\<forall>n. let off = (bm_cap_nxt s seg bus' dev' fn' ^^ n) (first_cap s seg bus' dev' fn') in
             off \<noteq> 0 \<and> \<not> is_pciecs s seg bus' dev' fn' off))"
proof -
  have "bm_get_pcie_type s seg bus' dev' fn' = None \<longleftrightarrow>
      pciecs_walk s seg bus' dev' fn' (first_cap s seg bus' dev' fn') 0 = None"
    by (auto simp: bm_get_pcie_type_def split: Option.bind_split)
  then show ?thesis
    using walk_cap_list [OF assms] pciecs.walk_diverges_iff [of s seg bus' dev' fn']
    by (auto simp: bm_get_pcie_type_def bm_get_snoop_bit_def Let_def split: option.split)
qed

definition example_bm :: bm_pcie where
  "example_bm = \<lparr>platform_pcie_cfg = [], platform_pcie_device_hierarchy = [], bdf_table = [0x100, 0x200], mmio_log = [],
     respond = (\<lambda>_ a. if a = 0x8034 then 0x40 else if a = 0x8040 then 0x00105001 else if a = 0x8050 then 0x00000010
        else if a = 0x10034 then 0x40 else if a = 0x10040 then 0x00400010 else if a = 0x10018 then 0x00020100 else 0)\<rparr>"

lemma example_cap_list: "cap_list example_bm 0 0 1 0 [0x40, 0x50]"
  by (simp add: cap_list_def first_cap_def bm_cap_nxt_def bm_read_cfg_def bm_reg_read_def bm_cfg_reg_def bm_ecam_base_def
      bm_cfg_offset_def example_bm_def)

theorem bm_express_capability_witness:
  "bm_get_pcie_type example_bm 0 0 1 0 = Some 0 \<and> bm_get_snoop_bit example_bm 0 0 1 0 = Some 0"
  using bm_express_capability [OF example_cap_list, of 0 0 0]
  by (simp add: is_pciecs_def bm_read_cfg_def bm_reg_read_def bm_cfg_reg_def bm_ecam_base_def
      bm_cfg_offset_def example_bm_def)

section \<open>Properties of the searches\<close>

definition no_express :: "'a bm_pcie_scheme \<Rightarrow> u32 \<Rightarrow> bool" where
  "no_express s bdf \<longleftrightarrow> (\<exists>os. cap_list s (PCIE_EXTRACT_BDF_SEG bdf) (PCIE_EXTRACT_BDF_BUS bdf) (PCIE_EXTRACT_BDF_DEV bdf)
       (PCIE_EXTRACT_BDF_FUNC bdf) os \<and>
     find (is_pciecs s (PCIE_EXTRACT_BDF_SEG bdf) (PCIE_EXTRACT_BDF_BUS bdf) (PCIE_EXTRACT_BDF_DEV bdf)
       (PCIE_EXTRACT_BDF_FUNC bdf)) os = None)"

definition express_at :: "'a bm_pcie_scheme \<Rightarrow> u32 \<Rightarrow> u32 \<Rightarrow> bool" where
  "express_at s bdf off \<longleftrightarrow> (\<exists>os. cap_list s (PCIE_EXTRACT_BDF_SEG bdf) (PCIE_EXTRACT_BDF_BUS bdf) (PCIE_EXTRACT_BDF_DEV bdf)
       (PCIE_EXTRACT_BDF_FUNC bdf) os \<and>
     find (is_pciecs s (PCIE_EXTRACT_BDF_SEG bdf) (PCIE_EXTRACT_BDF_BUS bdf) (PCIE_EXTRACT_BDF_DEV bdf)
       (PCIE_EXTRACT_BDF_FUNC bdf)) os = Some off)"

lemma root_port_skip:
  "no_express s bdf \<Longrightarrow> root_port_loop s (bdf # bdfs) Seg Bus Dev Fnc = root_port_loop s bdfs Seg Bus Dev Fnc"
  by (auto simp: no_express_def walk_cap_list Let_def)

lemma root_port_stop:
  "express_at s bdf off \<Longrightarrow> root_port_loop s (bdf # bdfs) Seg Bus Dev Fnc =
     Some (if rp_covers s bdf off Bus
           then (0, PCIE_EXTRACT_BDF_SEG bdf, PCIE_EXTRACT_BDF_BUS bdf, PCIE_EXTRACT_BDF_DEV bdf, PCIE_EXTRACT_BDF_FUNC bdf)
           else (2, Seg, Bus, Dev, Fnc))"
  by (auto simp: express_at_def walk_cap_list Let_def)

text \<open>The root port search looks at one function only: the first of the device table that has a PCI Express
  capability. If that is a root port whose bus range covers the bus, it is the answer; otherwise the search
  fails with status 2, whatever root ports follow in the table. Without such a function the status is 1.\<close>

theorem root_port_search_first:
  assumes "bdf_table s = pre @ rest" and "\<forall>x\<in>set pre. no_express s x"
  shows "(rest = bdf # post \<longrightarrow> express_at s bdf off \<longrightarrow> bm_get_root_port_bdf s Seg Bus Dev Fnc =
      Some (if rp_covers s bdf off Bus
            then (0, PCIE_EXTRACT_BDF_SEG bdf, PCIE_EXTRACT_BDF_BUS bdf, PCIE_EXTRACT_BDF_DEV bdf, PCIE_EXTRACT_BDF_FUNC bdf)
            else (2, Seg, Bus, Dev, Fnc)))
    \<and> (rest = [] \<longrightarrow> bm_get_root_port_bdf s Seg Bus Dev Fnc = Some (1, Seg, Bus, Dev, Fnc))"
proof -
  have "root_port_loop s (pre @ rest) Seg Bus Dev Fnc = root_port_loop s rest Seg Bus Dev Fnc"
    using assms(2) by (induction pre) (simp_all add: root_port_skip del: root_port_loop.simps)
  then show ?thesis
    using root_port_stop [of s bdf off post Seg Bus Dev Fnc] assms(1) by (auto simp: bm_get_root_port_bdf_def simp del: root_port_loop.simps(2))
qed

theorem root_port_search_first_witness:
  "bm_get_root_port_bdf example_bm 0 1 0 0 = Some (2, 0, 1, 0, 0)
   \<and> bm_get_root_port_bdf (example_bm\<lparr>bdf_table := [0x200]\<rparr>) 0 1 0 0 = Some (0, 0, 0, 2, 0)"
proof -
  note eval = is_pciecs_def bm_cap_nxt_def first_cap_def bm_read_cfg_def bm_reg_read_def bm_cfg_reg_def bm_ecam_base_def
    bm_cfg_offset_def example_bm_def PCIE_EXTRACT_BDF_SEG_def PCIE_EXTRACT_BDF_BUS_def PCIE_EXTRACT_BDF_DEV_def PCIE_EXTRACT_BDF_FUNC_def
  have "express_at example_bm 0x100 0x50"
    unfolding express_at_def by (rule exI [of _ "[0x40, 0x50]"]) (simp add: eval cap_list_def)
  moreover have "\<not> rp_covers example_bm 0x100 0x50 1" by (simp add: rp_covers_def eval Let_def)
  moreover have "express_at (example_bm\<lparr>bdf_table := [0x200]\<rparr>) 0x200 0x40"
    unfolding express_at_def by (rule exI [of _ "[0x40]"]) (simp add: eval cap_list_def)
  moreover have "rp_covers (example_bm\<lparr>bdf_table := [0x200]\<rparr>) 0x200 0x40 1" by (simp add: rp_covers_def eval Let_def)
  ultimately show ?thesis
    using root_port_search_first [of example_bm "[]" "[0x100, 0x200]" "0x100" "[0x200]" "0x50" 0 1 0 0]
      root_port_search_first [of "example_bm\<lparr>bdf_table := [0x200]\<rparr>" "[]" "[0x200]" "0x200" "[]" "0x40" 0 1 0 0]
    by (simp add: example_bm_def PCIE_EXTRACT_BDF_SEG_def PCIE_EXTRACT_BDF_BUS_def PCIE_EXTRACT_BDF_DEV_def PCIE_EXTRACT_BDF_FUNC_def)
qed

lemma ext_cap_step:
  "off \<noteq> 0 \<Longrightarrow> bm_read_cfg s seg bus dev fn off AND 0xffff = cid \<Longrightarrow>
   ext_cap_word_loop s seg bus dev fn cid k off v =
   ext_cap_word_loop s seg bus dev fn cid k (drop_bit 20 (bm_read_cfg s seg bus dev fn (off + ucast k)) AND 0xfff)
     (ucast (bm_read_cfg s seg bus dev fn (off + ucast k)))"
  by (subst ext_cap_word_loop.simps) (simp add: Let_def)

lemma ext_cap_loops:
  assumes "off \<noteq> 0" and "bm_read_cfg s seg bus dev fn off AND 0xffff = cid"
    and "drop_bit 20 (bm_read_cfg s seg bus dev fn (off + ucast k)) AND 0xfff = off"
  shows "ext_cap_word_loop s seg bus dev fn cid k off v = None"
proof -
  have "\<not> (s' = s \<and> seg' = seg \<and> bus' = bus \<and> dev' = dev \<and> fn' = fn \<and> cid' = cid \<and> k' = k \<and> off' = off)"
    if "ext_cap_word_loop s' seg' bus' dev' fn' cid' k' off' v' = Some r" for s' seg' bus' dev' fn' cid' k' off' v' r
    using that
  proof (rule ext_cap_word_loop.raw_induct [where P = "\<lambda>s' seg' bus' dev' fn' cid' k' off' v' r.
        \<not> (s' = s \<and> seg' = seg \<and> bus' = bus \<and> dev' = dev \<and> fn' = fn \<and> cid' = cid \<and> k' = k \<and> off' = off)", rotated], goal_cases)
    case (1 f s' seg' bus' dev' fn' cid' k' off' v' r)
    show ?case
    proof
      assume eq: "s' = s \<and> seg' = seg \<and> bus' = bus \<and> dev' = dev \<and> fn' = fn \<and> cid' = cid \<and> k' = k \<and> off' = off"
      have "f s seg bus dev fn cid k off (ucast (bm_read_cfg s seg bus dev fn (off + ucast k))) = Some r"
        using 1(2) assms eq by (simp add: Let_def)
      from 1(1) [OF this] show False by simp
    qed
  qed
  then show ?thesis by (cases "ext_cap_word_loop s seg bus dev fn cid k off v") blast+
qed

text \<open>Reading a word of an extended capability. When the capability is found, the word is stored, and the search then
  takes its next offset from the word itself instead of the capability's header: the outcome depends on the contents of
  the register, and a register whose upper twelve bits point back to the capability makes the search endless.\<close>

theorem ext_cap_word_follows_data:
  fixes k :: u8
  assumes "bm_read_cfg s seg bus dev fn 0x100 AND 0xffff = cid"
  defines "w \<equiv> bm_read_cfg s seg bus dev fn (0x100 + ucast k)"
  shows "(drop_bit 20 w AND 0xfff = 0 \<longrightarrow> bm_read_ext_cap_word s seg bus dev fn cid k v = Some (ucast w))
    \<and> (drop_bit 20 w AND 0xfff = 0x100 \<longrightarrow> bm_read_ext_cap_word s seg bus dev fn cid k v = None)"
proof (intro conjI impI)
  assume "drop_bit 20 w AND 0xfff = 0"
  then show "bm_read_ext_cap_word s seg bus dev fn cid k v = Some (ucast w)"
    using ext_cap_step [of "0x100" s seg bus dev fn cid k v] assms(1) ext_cap_word_loop.simps [of s seg bus dev fn cid k 0]
    by (simp add: bm_read_ext_cap_word_def w_def)
qed (use ext_cap_loops [of "0x100" s seg bus dev fn cid k v] assms in \<open>simp add: bm_read_ext_cap_word_def\<close>)

end
