(* ===== verification/Pal_Enum.thy ===== *)
theory Pal_Enum
  imports Pal_Pcie
begin

text \<open>
  PCIe enumeration of the bare-metal platform layer (\<^verbatim>\<open>platform/pal_baremetal/src/pal_pcie_enumeration.c\<close>):
  the depth-first walk that numbers the buses behind bridges, sizes and places the base address registers of
  endpoints and bridges, and opens the memory windows of bridges; and the services on device numbers that
  follow it.

  The state extends the one of \<open>Pal_Pcie\<close> by the global variables of the file, at their widths, and by the
  platform's table of root bridges (\<^verbatim>\<open>platform_root_pcie_cfg\<close>). What the hardware answers is again an
  arbitrary function of the writes made so far, so that presence and contents of the functions on a bus may depend
  on the bus numbers programmed into the bridges above it. The walk recurses into every bridge; a fuel
  bounds the depth and \<open>None\<close> is a walk deeper than that.
\<close>

section \<open>State\<close>

record pcie_root_block =
  hb_start_bus_num :: u32
  hb_ep_bar64_value :: u64
  hb_rp_bar64_value :: u64
  hb_ep_npbar32_value :: u32
  hb_ep_pbar32_value :: u32
  hb_rp_bar32_value :: u32

record enum_state = bm_pcie +
  info_table :: "pcie_info_block list"
  root_cfg :: "pcie_root_block list list"
  pcie_index :: nat
  enumerate_flag :: u32
  g_bar64_p_start :: u64
  g_rp_bar64_value :: u64
  g_bar64_p_max :: u64
  g_64_bus :: u32
  g_bar64_size :: u32
  g_rp_bar64_size :: u32
  g_bar32_np_start :: u32
  g_bar32_p_start :: u32
  g_rp_bar32_value :: u32
  g_bar32_np_max :: u32
  g_bar32_p_max :: u32
  g_np_bar_size :: u32
  g_p_bar_size :: u32
  g_np_bus :: u32
  g_p_bus :: u32
  g_rp_bar32_size :: u32

abbreviation (input) BAR0_OFFSET :: u32 where "BAR0_OFFSET \<equiv> 0x10"
abbreviation (input) TYPE1_BAR_MAX_OFF :: u32 where "TYPE1_BAR_MAX_OFF \<equiv> 0x14"
abbreviation (input) TYPE0_BAR_MAX_OFF :: u32 where "TYPE0_BAR_MAX_OFF \<equiv> 0x24"
abbreviation (input) BUS_NUM_REG_OFFSET :: u32 where "BUS_NUM_REG_OFFSET \<equiv> 0x18"
abbreviation (input) NON_PRE_FET_OFFSET :: u32 where "NON_PRE_FET_OFFSET \<equiv> 0x20"
abbreviation (input) PRE_FET_OFFSET :: u32 where "PRE_FET_OFFSET \<equiv> 0x24"
abbreviation (input) BAR_INCREMENT :: "'a::len word" where "BAR_INCREMENT \<equiv> 0x100000"
abbreviation (input) BAR_MASK :: u32 where "BAR_MASK \<equiv> 0xFFFFFFF0"
abbreviation (input) MEM_BASE32_LIM_MASK :: u32 where "MEM_BASE32_LIM_MASK \<equiv> 0xFFF00000"
abbreviation (input) MEM_BASE64_LIM_MASK :: u64 where "MEM_BASE64_LIM_MASK \<equiv> 0xFFFFFFFFFFF00000"

definition BAR_REG :: "u32 \<Rightarrow> u32" where
  "BAR_REG bar_reg_value = drop_bit 2 bar_reg_value AND 0x1"

definition BAR_MEM :: "u32 \<Rightarrow> u32" where
  "BAR_MEM bar_reg_value = drop_bit 3 (bar_reg_value AND 0xF)"

definition REG_MASK_SHIFT :: "u32 \<Rightarrow> u32" where
  "REG_MASK_SHIFT bar_value = drop_bit 16 (bar_value AND MEM_BASE32_LIM_MASK)"

definition BUS_NUM_REG_CFG :: "u32 \<Rightarrow> u32 \<Rightarrow> u32 \<Rightarrow> u32" where
  "BUS_NUM_REG_CFG sub_bus sec_bus bus = push_bit 16 sub_bus OR push_bit 8 sec_bus OR bus"

section \<open>Configuration access\<close>

definition pal_pci_cfg_read :: "'a bm_pcie_scheme \<Rightarrow> u32 \<Rightarrow> u32 \<Rightarrow> u32 \<Rightarrow> u32 \<Rightarrow> u32 \<Rightarrow> u32" where
  "pal_pci_cfg_read s seg bus dev func offset = bm_reg_read s (bm_cfg_reg s seg bus dev func offset)"

definition pal_pci_cfg_write :: "'a bm_pcie_scheme \<Rightarrow> u32 \<Rightarrow> u32 \<Rightarrow> u32 \<Rightarrow> u32 \<Rightarrow> u32 \<Rightarrow> u32 \<Rightarrow> 'a bm_pcie_scheme" where
  "pal_pci_cfg_write s seg bus dev func offset data = bm_reg_write s (bm_cfg_reg s seg bus dev func offset) data"

section \<open>Windows of a bridge\<close>

definition get_resource_base_32 ::
  "enum_state \<Rightarrow> u32 \<Rightarrow> u32 \<Rightarrow> u32 \<Rightarrow> u32 \<Rightarrow> u32 \<Rightarrow> u32 \<Rightarrow> u32 \<Rightarrow> u32 \<Rightarrow> enum_state" where
  "get_resource_base_32 s seg bus dev func bar32_p_base bar32_np_base bar32_p_limit bar32_np_limit =
     (let s = (if bar32_np_base \<noteq> g_bar32_np_start s \<or> bar32_np_base = g_bar32_np_start s \<and> g_np_bar_size s \<noteq> 0 then
                 let s = (if push_bit 12 (g_bar32_np_start s) \<noteq> 0
                          then s\<lparr>g_bar32_np_start := (g_bar32_np_start s AND MEM_BASE32_LIM_MASK) + BAR_INCREMENT\<rparr> else s);
                     lim = (if bar32_np_limit = g_bar32_np_start s then bar32_np_limit - BAR_INCREMENT else bar32_np_limit);
                     mem_bar_np = pal_pci_cfg_read s seg bus dev func NON_PRE_FET_OFFSET;
                     mem_bar_np = (lim AND MEM_BASE32_LIM_MASK) OR mem_bar_np
                 in pal_pci_cfg_write s seg bus dev func NON_PRE_FET_OFFSET mem_bar_np
               else s)
      in if bar32_p_base \<noteq> g_bar32_p_start s \<or> bar32_p_base = g_bar32_p_start s \<and> g_p_bar_size s \<noteq> 0 then
           let s = (if push_bit 12 (g_bar32_p_start s) \<noteq> 0
                    then s\<lparr>g_bar32_p_start := (g_bar32_p_start s AND MEM_BASE32_LIM_MASK) + BAR_INCREMENT\<rparr> else s);
               lim = (if bar32_p_limit = g_bar32_p_start s then bar32_p_limit - BAR_INCREMENT else bar32_p_limit);
               mem_bar_p = pal_pci_cfg_read s seg bus dev func PRE_FET_OFFSET;
               mem_bar_p = (lim AND MEM_BASE32_LIM_MASK) OR mem_bar_p
           in pal_pci_cfg_write s seg bus dev func PRE_FET_OFFSET mem_bar_p
         else s)"

text \<open>The adjusted lower limit of the 64-bit window is computed after the register value and not used.\<close>

definition get_resource_base_64 :: "enum_state \<Rightarrow> u32 \<Rightarrow> u32 \<Rightarrow> u32 \<Rightarrow> u32 \<Rightarrow> u64 \<Rightarrow> u64 \<Rightarrow> enum_state" where
  "get_resource_base_64 s seg bus dev func bar64_p_base bar64_p_max =
     (let bar64_p_upper32_base = ucast (drop_bit 32 bar64_p_base);
          bar64_p_upper32_limit = ucast (drop_bit 32 bar64_p_max);
          bar64_p_lower32_base = REG_MASK_SHIFT (ucast bar64_p_base);
          bar64_p_lower32_limit = REG_MASK_SHIFT (ucast bar64_p_max);
          mem_bar_p = push_bit 16 bar64_p_lower32_limit OR bar64_p_lower32_base
      in if bar64_p_base \<noteq> g_bar64_p_start s \<or> bar64_p_base = g_bar64_p_start s \<and> g_bar64_size s \<noteq> 0 then
           let s = (if push_bit 12 (g_bar64_p_start s) \<noteq> 0
                    then s\<lparr>g_bar64_p_start := (g_bar64_p_start s AND MEM_BASE64_LIM_MASK) + BAR_INCREMENT\<rparr> else s);
               s = s\<lparr>g_bar64_p_start := (g_bar64_p_start s AND MEM_BASE64_LIM_MASK) + BAR_INCREMENT\<rparr>;
               s = pal_pci_cfg_write s seg bus dev func PRE_FET_OFFSET mem_bar_p;
               s = pal_pci_cfg_write s seg bus dev func (PRE_FET_OFFSET + 4) bar64_p_upper32_base
           in pal_pci_cfg_write s seg bus dev func (PRE_FET_OFFSET + 8) bar64_p_upper32_limit
         else s)"

section \<open>Base address registers\<close>

text \<open>Writing all ones and reading back gives the size: the 64-bit and the 32-bit form.\<close>

definition size_bar64 :: "enum_state \<Rightarrow> u32 \<Rightarrow> u32 \<Rightarrow> u32 \<Rightarrow> u32 \<Rightarrow> u32 \<Rightarrow> enum_state \<times> u64" where
  "size_bar64 s seg bus dev func offset =
     (let s = pal_pci_cfg_write s seg bus dev func offset 0xFFFFFFF0;
          s = pal_pci_cfg_write s seg bus dev func (offset + 4) 0xFFFFFFFF;
          bar_lower_bits = pal_pci_cfg_read s seg bus dev func offset;
          bar_size = ucast (bar_lower_bits AND BAR_MASK);
          bar_upper_bits = ucast (pal_pci_cfg_read s seg bus dev func (offset + 4));
          bar_size = bar_size OR push_bit 32 bar_upper_bits
      in (s, NOT bar_size + 1))"

text \<open>The second component is the value read back.\<close>

definition size_bar32 :: "enum_state \<Rightarrow> u32 \<Rightarrow> u32 \<Rightarrow> u32 \<Rightarrow> u32 \<Rightarrow> u32 \<Rightarrow> enum_state \<times> u32 \<times> u32" where
  "size_bar32 s seg bus dev func offset =
     (let s = pal_pci_cfg_write s seg bus dev func offset 0xFFFFFFF0;
          bar_lower_bits = pal_pci_cfg_read s seg bus dev func offset
      in (s, bar_lower_bits, NOT (bar_lower_bits AND BAR_MASK) + 1))"

text \<open>One round of the loop over the registers of a bridge: the state and the next offset.\<close>

definition rp_bar_step :: "u32 \<Rightarrow> u32 \<Rightarrow> u32 \<Rightarrow> u32 \<Rightarrow> u32 \<Rightarrow> enum_state \<Rightarrow> enum_state \<times> u32" where
  "rp_bar_step seg bus dev func offset s =
     (if BAR_REG (pal_pci_cfg_read s seg bus dev func offset) = 1 then
        let (s, bar_size) = size_bar64 s seg bus dev func offset in
        if bar_size = 0 then (s, offset + 8)
        else let s = pal_pci_cfg_write s seg bus dev func offset (ucast (g_rp_bar64_value s));
                 s = pal_pci_cfg_write s seg bus dev func (offset + 4) (ucast (drop_bit 32 (g_rp_bar64_value s)));
                 s = s\<lparr>g_rp_bar64_size := ucast bar_size\<rparr>;
                 s = s\<lparr>g_rp_bar64_value := g_rp_bar64_value s + ucast (g_rp_bar64_size s)\<rparr>
             in (s, offset + 8)
      else
        let (s, _, bar_size) = size_bar32 s seg bus dev func offset in
        if bar_size = 0 then (s, offset + 4)
        else let s = pal_pci_cfg_write s seg bus dev func offset (g_rp_bar32_value s);
                 s = s\<lparr>g_rp_bar32_value := g_rp_bar32_value s + bar_size\<rparr>;
                 s = s\<lparr>g_rp_bar32_size := bar_size\<rparr>;
                 s = s\<lparr>g_rp_bar32_value := g_rp_bar32_value s + g_rp_bar32_size s\<rparr>
             in (s, offset + 4))"

text \<open>The offset only grows, by 4 or 8, so that the loops end.\<close>

lemma bar_offset_grows:
  fixes offset lim :: u32
  assumes "offset \<le> lim" and "lim \<le> 0x24" and "k \<in> {4, 8}"
  shows "0x30 - unat (offset + k) < 0x30 - unat offset"
proof -
  have o: "unat offset \<le> 0x24" using assms(1,2) by (simp add: word_le_nat_alt)
  have "unat (offset + k) = unat offset + unat k"
    using assms(3) o by (auto simp: unat_word_ariths)
  then show ?thesis using assms(3) o by auto
qed

lemma rp_bar_step_offset: "snd (rp_bar_step seg bus dev func offset s) \<in> {offset + 4, offset + 8}"
  by (simp add: rp_bar_step_def Let_def split_def)

function rp_bar_loop :: "u32 \<Rightarrow> u32 \<Rightarrow> u32 \<Rightarrow> u32 \<Rightarrow> u32 \<Rightarrow> enum_state \<Rightarrow> enum_state" where
  "rp_bar_loop seg bus dev func offset s =
     (if \<not> offset \<le> TYPE1_BAR_MAX_OFF then s
      else let (s, offset) = rp_bar_step seg bus dev func offset s in rp_bar_loop seg bus dev func offset s)"
  by pat_completeness auto

termination rp_bar_loop
proof (relation "measure (\<lambda>(_, _, _, _, offset, _). 0x30 - unat offset)")
  fix seg bus dev func offset s x s' offset'
  assume "\<not> \<not> offset \<le> TYPE1_BAR_MAX_OFF" and "x = rp_bar_step seg bus dev func offset s" and "(s', offset') = x"
  then show "((seg, bus, dev, func, offset', s'), (seg, bus, dev, func, offset, s)) \<in> measure (\<lambda>(_, _, _, _, offset, _). 0x30 - unat offset)"
    using rp_bar_step_offset [of seg bus dev func offset s] bar_offset_grows [of offset "0x14"] by (auto dest: arg_cong [where f = snd])
qed simp

definition pal_pcie_rp_program_bar :: "enum_state \<Rightarrow> u32 \<Rightarrow> u32 \<Rightarrow> u32 \<Rightarrow> u32 \<Rightarrow> enum_state" where
  "pal_pcie_rp_program_bar s seg bus dev func = rp_bar_loop seg bus dev func BAR0_OFFSET s"

text \<open>Where the next register of a class goes: \<open>own\<close> is the size of the last register of the class in this
  function, \<open>prev\<close> the size of the last register of the class, on the bus \<open>last_bus\<close>.\<close>

definition bar_advance :: "'a::len word \<Rightarrow> 'a word \<Rightarrow> 'a word \<Rightarrow> u32 \<Rightarrow> u32 \<Rightarrow> 'a word" where
  "bar_advance own prev bar_size last_bus bus =
     (if own = 0 \<and> last_bus = bus then (if prev < bar_size then bar_size else prev)
      else if prev < bar_size \<and> own \<noteq> 0 then bar_size
      else own)"

text \<open>One round of the loop over the registers of an endpoint. The sizes are those of the last non-prefetchable,
  prefetchable and 64-bit register of this function.\<close>

type_synonym bar_sizes = "u32 \<times> u32 \<times> u32"

definition place_p64 :: "u32 \<Rightarrow> u32 \<Rightarrow> u32 \<Rightarrow> u32 \<Rightarrow> u32 \<Rightarrow> bar_sizes \<Rightarrow> enum_state \<Rightarrow> enum_state \<times> bar_sizes \<times> u32" where
  "place_p64 seg bus dev func offset z s = (case z of (np_bar_size, p_bar_size, p_bar64_size) \<Rightarrow>
     let (s, bar_size) = size_bar64 s seg bus dev func offset in
     if bar_size = 0 then (s, (np_bar_size, p_bar_size, p_bar64_size), offset + 8)
     else let s = s\<lparr>g_bar64_p_start := g_bar64_p_start s +
                bar_advance (ucast p_bar64_size) (ucast (g_bar64_size s)) bar_size (g_64_bus s) bus\<rparr>;
              s = pal_pci_cfg_write s seg bus dev func offset (ucast (g_bar64_p_start s));
              s = pal_pci_cfg_write s seg bus dev func (offset + 4) (ucast (drop_bit 32 (g_bar64_p_start s)));
              s = s\<lparr>g_bar64_size := ucast bar_size, g_64_bus := bus\<rparr>
          in (s, (np_bar_size, p_bar_size, ucast bar_size), offset + 8))"

definition place_p32 :: "u32 \<Rightarrow> u32 \<Rightarrow> u32 \<Rightarrow> u32 \<Rightarrow> u32 \<Rightarrow> bar_sizes \<Rightarrow> enum_state \<Rightarrow> enum_state \<times> bar_sizes \<times> u32" where
  "place_p32 seg bus dev func offset z s = (case z of (np_bar_size, p_bar_size, p_bar64_size) \<Rightarrow>
     let (s, _, bar_size) = size_bar32 s seg bus dev func offset in
     if bar_size = 0 then (s, (np_bar_size, p_bar_size, p_bar64_size), offset + 4)
     else let s = s\<lparr>g_bar32_p_start := g_bar32_p_start s +
                bar_advance p_bar_size (g_p_bar_size s) bar_size (g_p_bus s) bus\<rparr>;
              s = pal_pci_cfg_write s seg bus dev func offset (g_bar32_p_start s);
              s = s\<lparr>g_p_bar_size := bar_size, g_p_bus := bus\<rparr>
          in (s, (np_bar_size, bar_size, p_bar64_size), offset + 4))"

definition place_np :: "u32 \<Rightarrow> u32 \<Rightarrow> u32 \<Rightarrow> u32 \<Rightarrow> u32 \<Rightarrow> bar_sizes \<Rightarrow> enum_state \<Rightarrow> enum_state \<times> bar_sizes \<times> u32" where
  "place_np seg bus dev func offset z s = (case z of (np_bar_size, p_bar_size, p_bar64_size) \<Rightarrow>
     let (s, bar_lower_bits, bar_size) = size_bar32 s seg bus dev func offset in
     if bar_size = 0 then
       (s, (np_bar_size, p_bar_size, p_bar64_size), if BAR_REG bar_lower_bits = 1 then offset + 8 else offset + 4)
     else let s = s\<lparr>g_bar32_np_start := g_bar32_np_start s +
                bar_advance np_bar_size (g_np_bar_size s) bar_size (g_np_bus s) bus\<rparr>;
              s = pal_pci_cfg_write s seg bus dev func offset (g_bar32_np_start s);
              s = s\<lparr>g_np_bar_size := bar_size, g_np_bus := bus\<rparr>
          in if BAR_REG (pal_pci_cfg_read s seg bus dev func offset) = 1
             then (pal_pci_cfg_write s seg bus dev func (offset + 4) 0, (bar_size, p_bar_size, p_bar64_size), offset + 8)
             else (s, (bar_size, p_bar_size, p_bar64_size), offset + 4))"

definition ep_bar_step :: "u32 \<Rightarrow> u32 \<Rightarrow> u32 \<Rightarrow> u32 \<Rightarrow> u32 \<Rightarrow> bar_sizes \<Rightarrow> enum_state \<Rightarrow> enum_state \<times> bar_sizes \<times> u32" where
  "ep_bar_step seg bus dev func offset z s =
     (let bar_reg_value = pal_pci_cfg_read s seg bus dev func offset in
      if BAR_MEM bar_reg_value = 1 then
        if BAR_REG bar_reg_value = 1 then place_p64 seg bus dev func offset z s
        else place_p32 seg bus dev func offset z s
      else place_np seg bus dev func offset z s)"

lemma ep_bar_step_offset: "snd (snd (ep_bar_step seg bus dev func offset z s)) \<in> {offset + 4, offset + 8}"
  by (simp add: ep_bar_step_def place_p64_def place_p32_def place_np_def Let_def split_def)

function ep_bar_loop :: "u32 \<Rightarrow> u32 \<Rightarrow> u32 \<Rightarrow> u32 \<Rightarrow> u32 \<Rightarrow> bar_sizes \<Rightarrow> enum_state \<Rightarrow> enum_state" where
  "ep_bar_loop seg bus dev func offset z s =
     (if \<not> offset \<le> TYPE0_BAR_MAX_OFF then s
      else let (s, z, offset) = ep_bar_step seg bus dev func offset z s in ep_bar_loop seg bus dev func offset z s)"
  by pat_completeness auto

termination ep_bar_loop
proof (relation "measure (\<lambda>(_, _, _, _, offset, _). 0x30 - unat offset)")
  fix seg bus dev func offset z s x s' y z' offset'
  assume "\<not> \<not> offset \<le> TYPE0_BAR_MAX_OFF" and "x = ep_bar_step seg bus dev func offset z s" and "(s', y) = x" and "(z', offset') = y"
  moreover from this have "offset' = snd (snd (ep_bar_step seg bus dev func offset z s))" by (metis snd_conv)
  ultimately show "((seg, bus, dev, func, offset', z', s'), (seg, bus, dev, func, offset, z, s)) \<in> measure (\<lambda>(_, _, _, _, offset, _). 0x30 - unat offset)"
    using ep_bar_step_offset [of seg bus dev func offset z s] bar_offset_grows [of offset "0x24"] by auto
qed simp

definition pal_pcie_program_bar_reg :: "enum_state \<Rightarrow> u32 \<Rightarrow> u32 \<Rightarrow> u32 \<Rightarrow> u32 \<Rightarrow> enum_state" where
  "pal_pcie_program_bar_reg s seg bus dev func =
     (let s = ep_bar_loop seg bus dev func BAR0_OFFSET (0, 0, 0) s
      in s\<lparr>g_bar32_p_max := g_bar32_p_start s, g_bar32_np_max := g_bar32_np_start s, g_bar64_p_max := g_bar64_p_start s\<rparr>)"

section \<open>The walk\<close>

text \<open>The local variables of one call that its loops update.\<close>

record enum_loc =
  l_sec_bus :: u32
  l_sub_bus :: u32
  l_p_base :: u32
  l_np_base :: u32
  l_p64_base :: u64

text \<open>A function with a Type 1 header: open the bridge for all buses below, walk the secondary bus, close the bus range,
  set the windows and the bridge's own registers. \<open>walk\<close> is the recursive call.\<close>

definition enum_bridge :: "(enum_state \<Rightarrow> u32 \<Rightarrow> u32 \<Rightarrow> (enum_state \<times> u32) option) \<Rightarrow>
    u32 \<Rightarrow> u32 \<Rightarrow> u32 \<Rightarrow> u32 \<Rightarrow> enum_state \<Rightarrow> enum_loc \<Rightarrow> (enum_state \<times> enum_loc) option" where
  "enum_bridge walk seg bus dev func s l =
     (let com_reg_value = pal_pci_cfg_read s seg bus dev func 0x04;
          s = pal_pci_cfg_write s seg bus dev func 0x04 (com_reg_value OR 0x7);
          s = pal_pci_cfg_write s seg bus dev func BUS_NUM_REG_OFFSET (BUS_NUM_REG_CFG 0xFF (l_sec_bus l) bus);
          s = pal_pci_cfg_write s seg bus dev func NON_PRE_FET_OFFSET (drop_bit 16 (g_bar32_np_start s) AND 0xFFF0);
          s = pal_pci_cfg_write s seg bus dev func PRE_FET_OFFSET (drop_bit 16 (g_bar32_p_start s) AND 0xFFF0)
      in do { (s, sub_bus) \<leftarrow> walk s (l_sec_bus l) (l_sec_bus l + 1);
              let s = pal_pci_cfg_write s seg bus dev func BUS_NUM_REG_OFFSET (BUS_NUM_REG_CFG sub_bus (l_sec_bus l) bus);
                  s = get_resource_base_32 s seg bus dev func (l_p_base l) (l_np_base l) (g_bar32_p_max s) (g_bar32_np_max s);
                  s = get_resource_base_64 s seg bus dev func (l_p64_base l) (g_bar64_p_max s);
                  s = pal_pcie_rp_program_bar s seg bus dev func
              in Some (s\<lparr>g_np_bar_size := 0, g_p_bar_size := 0, g_bar64_size := 0\<rparr>,
                   \<lparr>l_sec_bus = sub_bus + 1, l_sub_bus = sub_bus, l_p_base = g_bar32_p_start s,
                     l_np_base = g_bar32_np_start s, l_p64_base = g_bar64_p_start s\<rparr>) })"

definition enum_func :: "(enum_state \<Rightarrow> u32 \<Rightarrow> u32 \<Rightarrow> (enum_state \<times> u32) option) \<Rightarrow>
    u32 \<Rightarrow> u32 \<Rightarrow> u32 \<Rightarrow> u32 \<Rightarrow> enum_state \<Rightarrow> enum_loc \<Rightarrow> (enum_state \<times> enum_loc) option" where
  "enum_func walk seg bus dev func s l =
     (let vendor_id = pal_pci_cfg_read s seg bus dev func 0 in
      if vendor_id = 0 \<or> vendor_id = 0xFFFFFFFF then Some (s, l)
      else if is_host_bridge_class (pal_pci_cfg_read s seg bus dev func 0x8) then Some (s, l)
      else let header_value = pal_pci_cfg_read s seg bus dev func 0xC in
           if PCIE_HEADER_TYPE header_value = 1 then enum_bridge walk seg bus dev func s l
           else if PCIE_HEADER_TYPE header_value = 0 then
             Some (pal_pcie_program_bar_reg s seg bus dev func, l\<lparr>l_sub_bus := l_sec_bus l - 1\<rparr>)
           else Some (s, l))"

text \<open>The two loops over the 32 devices of 8 functions.\<close>

definition all_functions :: "(u32 \<times> u32) list" where
  "all_functions = concat (map (\<lambda>d. map (\<lambda>f. (of_nat d, of_nat f)) [0..<8]) [0..<32])"

fun enum_funcs :: "(enum_state \<Rightarrow> u32 \<Rightarrow> u32 \<Rightarrow> (enum_state \<times> u32) option) \<Rightarrow>
    u32 \<Rightarrow> u32 \<Rightarrow> (u32 \<times> u32) list \<Rightarrow> enum_state \<Rightarrow> enum_loc \<Rightarrow> (enum_state \<times> enum_loc) option" where
  "enum_funcs walk seg bus [] s l = Some (s, l)"
| "enum_funcs walk seg bus ((dev, func) # fs) s l =
     do { (s, l) \<leftarrow> enum_func walk seg bus dev func s l; enum_funcs walk seg bus fs s l }"

primrec pal_pcie_enumerate_device :: "nat \<Rightarrow> enum_state \<Rightarrow> u32 \<Rightarrow> u32 \<Rightarrow> (enum_state \<times> u32) option" where
  "pal_pcie_enumerate_device 0 s bus sec_bus = None"
| "pal_pcie_enumerate_device (Suc fuel) s bus sec_bus =
     (let block = info_table s ! pcie_index s; seg = segment_num block in
      if bus = end_bus_num block + 1 then Some (s, bus)
      else do { (s, l) \<leftarrow> enum_funcs (pal_pcie_enumerate_device fuel) seg bus all_functions s
                  \<lparr>l_sec_bus = sec_bus, l_sub_bus = bus, l_p_base = g_bar32_p_start s,
                    l_np_base = g_bar32_np_start s, l_p64_base = g_bar64_p_start s\<rparr>;
                Some (s, l_sub_bus l) })"

definition clear_func :: "u32 \<Rightarrow> u32 \<Rightarrow> u32 \<times> u32 \<Rightarrow> enum_state \<Rightarrow> enum_state" where
  "clear_func seg bus df s =
     (case df of (dev, func) \<Rightarrow>
        let vendor_id = pal_pci_cfg_read s seg bus dev func 0 in
        if vendor_id = 0 \<or> vendor_id = 0xFFFFFFFF then s
        else if PCIE_HEADER_TYPE (pal_pci_cfg_read s seg bus dev func 0xC) = 1 then
          pal_pci_cfg_write s seg bus dev func BUS_NUM_REG_OFFSET
            (pal_pci_cfg_read s seg bus dev func BUS_NUM_REG_OFFSET AND 0xFFFFFF00)
        else s)"

text \<open>The buses up to the last one; a last bus of \<open>0xFFFFFFFF\<close> would make the loop endless.\<close>

definition pal_clear_pri_bus :: "enum_state \<Rightarrow> enum_state option" where
  "pal_clear_pri_bus s =
     (let block = info_table s ! pcie_index s in
      if end_bus_num block = 0xFFFFFFFF then None
      else Some (fold (\<lambda>bus. fold (clear_func (segment_num block) (of_nat bus)) all_functions)
             [0..<Suc (unat (end_bus_num block))] s))"

fun hierarchy_loop :: "nat \<Rightarrow> pcie_root_block list \<Rightarrow> enum_state \<Rightarrow> enum_state option" where
  "hierarchy_loop fuel [] s = Some s"
| "hierarchy_loop fuel (h # hs) s =
     (let s = s\<lparr>g_bar64_p_start := hb_ep_bar64_value h, g_rp_bar64_value := hb_rp_bar64_value h,
                g_bar32_np_start := hb_ep_npbar32_value h, g_bar32_p_start := hb_ep_pbar32_value h,
                g_rp_bar32_value := hb_rp_bar32_value h\<rparr>;
          pri_bus = hb_start_bus_num h
      in do { (s, _) \<leftarrow> pal_pcie_enumerate_device fuel s pri_bus (pri_bus + 1);
              s \<leftarrow> pal_clear_pri_bus s;
              hierarchy_loop fuel hs s })"

fun segment_loop :: "nat \<Rightarrow> pcie_root_block list list \<Rightarrow> enum_state \<Rightarrow> enum_state option" where
  "segment_loop fuel [] s = Some s"
| "segment_loop fuel (hs # hss) s =
     do { s \<leftarrow> hierarchy_loop fuel hs s; segment_loop fuel hss (s\<lparr>pcie_index := pcie_index s + 1\<rparr>) }"

text \<open>The table of root bridges has an entry for each segment of the table of ECAM regions.\<close>

definition pal_pcie_enumerate :: "nat \<Rightarrow> enum_state \<Rightarrow> enum_state option" where
  "pal_pcie_enumerate fuel s =
     (if length (info_table s) = 0 then Some s
      else do { s \<leftarrow> segment_loop fuel (drop (pcie_index s) (take (length (info_table s)) (root_cfg s))) s;
                Some (s\<lparr>enumerate_flag := 0, pcie_index := 0\<rparr>) })"

section \<open>Services on device numbers\<close>

definition BM_CREATE_BDF :: "u32 \<Rightarrow> u32 \<Rightarrow> u32 \<Rightarrow> u32 \<Rightarrow> u32" where
  "BM_CREATE_BDF Seg Bus Dev Fnc = push_bit 24 Seg OR push_bit 16 Bus OR push_bit 8 Dev OR Fnc"

abbreviation (input) PLATFORM_BM_OVERRIDE_PCIE_MAX_BUS :: nat where "PLATFORM_BM_OVERRIDE_PCIE_MAX_BUS \<equiv> 0x12"

text \<open>The loops start each counter from the number given, on every bus and every device.\<close>

definition pal_pcie_get_bdf :: "'a bm_pcie_scheme \<Rightarrow> u32 \<Rightarrow> u32 \<Rightarrow> u32" where
  "pal_pcie_get_bdf s ClassCode StartBdf =
     (let InputSeg = PCIE_EXTRACT_BDF_SEG StartBdf;
          found = find (\<lambda>(b, d, f). let class_code = pal_pci_cfg_read s InputSeg (of_nat b) (of_nat d) (of_nat f) 0x8 in
                    drop_bit 24 class_code = drop_bit 16 ClassCode \<and> drop_bit 16 class_code = drop_bit 8 ClassCode)
                  (concat (map (\<lambda>b. concat (map (\<lambda>d. map (\<lambda>f. (b, d, f))
                      [unat (PCIE_EXTRACT_BDF_FUNC StartBdf)..<8])
                    [unat (PCIE_EXTRACT_BDF_DEV StartBdf)..<32]))
                  [unat (PCIE_EXTRACT_BDF_BUS StartBdf)..<PLATFORM_BM_OVERRIDE_PCIE_MAX_BUS]))
      in case found of None \<Rightarrow> 0 | Some (b, d, f) \<Rightarrow> BM_CREATE_BDF InputSeg (of_nat b) (of_nat d) (of_nat f))"

definition pal_pcie_get_bdf_wrapper :: "'a bm_pcie_scheme \<Rightarrow> u32 \<Rightarrow> u32 \<Rightarrow> u32" where
  "pal_pcie_get_bdf_wrapper s class_code start_bdf = pal_pcie_get_bdf s class_code start_bdf"

definition pal_increment_bus_dev :: "u32 \<Rightarrow> u32" where
  "pal_increment_bus_dev StartBdf =
     (let Seg = PCIE_EXTRACT_BDF_SEG StartBdf; Bus = PCIE_EXTRACT_BDF_BUS StartBdf; Dev = PCIE_EXTRACT_BDF_DEV StartBdf in
      if Dev \<noteq> PCIE_MAX_DEV - 1 then BM_CREATE_BDF Seg Bus (Dev + 1) 0 else BM_CREATE_BDF Seg (Bus + 1) 0 0)"

definition pal_pcie_get_base :: "'a bm_pcie_scheme \<Rightarrow> u32 \<Rightarrow> u32 \<Rightarrow> u64" where
  "pal_pcie_get_base s bdf bar_index =
     (let Seg = PCIE_EXTRACT_BDF_SEG bdf; Bus = PCIE_EXTRACT_BDF_BUS bdf; Dev = PCIE_EXTRACT_BDF_DEV bdf;
          Fnc = PCIE_EXTRACT_BDF_FUNC bdf;
          offset = BAR0_OFFSET + 4 * bar_index;
          bar_reg_lower_value = pal_pci_cfg_read s Seg Bus Dev Fnc offset;
          bar_value = ucast (bar_reg_lower_value AND BAR_MASK)
      in if BAR_REG bar_reg_lower_value = 1
         then bar_value OR push_bit 32 (ucast (pal_pci_cfg_read s Seg Bus Dev Fnc (offset + 4)))
         else bar_value)"

text \<open>The code returns the address of a local variable; the model returns its contents.\<close>

definition pal_pci_bdf_to_dev :: "'a bm_pcie_scheme \<Rightarrow> u32 \<Rightarrow> u32" where
  "pal_pci_bdf_to_dev s bdf =
     drop_bit 16 (pal_pci_cfg_read s (PCIE_EXTRACT_BDF_SEG bdf) (PCIE_EXTRACT_BDF_BUS bdf) (PCIE_EXTRACT_BDF_DEV bdf)
       (PCIE_EXTRACT_BDF_FUNC bdf) 0)"

definition bm_check_device_valid :: "u32 \<Rightarrow> u32" where
  "bm_check_device_valid bdf = 0"

section \<open>What the walk leaves alone\<close>

declare rp_bar_loop.simps [simp del] ep_bar_loop.simps [simp del]

text \<open>The tables and the hardware stay the same, the log of writes only grows.\<close>

definition extends :: "enum_state \<Rightarrow> enum_state \<Rightarrow> bool" where
  "extends s s' \<longleftrightarrow> (\<exists>ws. mmio_log s' = mmio_log s @ ws) \<and> platform_pcie_cfg s' = platform_pcie_cfg s \<and>
     respond s' = respond s \<and> info_table s' = info_table s \<and> pcie_index s' = pcie_index s"

lemma extends_refl [simp]: "extends s s"
  by (simp add: extends_def)

lemma extends_trans [trans]: "extends s s' \<Longrightarrow> extends s' s'' \<Longrightarrow> extends s s''"
  by (auto simp: extends_def)

lemma extends_write: "extends s s' \<Longrightarrow> extends s (pal_pci_cfg_write s' seg bus dev func off v)"
  by (auto simp: extends_def pal_pci_cfg_write_def bm_reg_write_def)

lemma extends_globals:
  "extends s s' \<Longrightarrow> extends s (s'\<lparr>g_bar64_p_start := a\<rparr>)"
  "extends s s' \<Longrightarrow> extends s (s'\<lparr>g_rp_bar64_value := a\<rparr>)"
  "extends s s' \<Longrightarrow> extends s (s'\<lparr>g_bar64_p_max := a\<rparr>)"
  "extends s s' \<Longrightarrow> extends s (s'\<lparr>g_64_bus := c\<rparr>)"
  "extends s s' \<Longrightarrow> extends s (s'\<lparr>g_bar64_size := c\<rparr>)"
  "extends s s' \<Longrightarrow> extends s (s'\<lparr>g_rp_bar64_size := c\<rparr>)"
  "extends s s' \<Longrightarrow> extends s (s'\<lparr>g_bar32_np_start := c\<rparr>)"
  "extends s s' \<Longrightarrow> extends s (s'\<lparr>g_bar32_p_start := c\<rparr>)"
  "extends s s' \<Longrightarrow> extends s (s'\<lparr>g_rp_bar32_value := c\<rparr>)"
  "extends s s' \<Longrightarrow> extends s (s'\<lparr>g_bar32_np_max := c\<rparr>)"
  "extends s s' \<Longrightarrow> extends s (s'\<lparr>g_bar32_p_max := c\<rparr>)"
  "extends s s' \<Longrightarrow> extends s (s'\<lparr>g_np_bar_size := c\<rparr>)"
  "extends s s' \<Longrightarrow> extends s (s'\<lparr>g_p_bar_size := c\<rparr>)"
  "extends s s' \<Longrightarrow> extends s (s'\<lparr>g_np_bus := c\<rparr>)"
  "extends s s' \<Longrightarrow> extends s (s'\<lparr>g_p_bus := c\<rparr>)"
  "extends s s' \<Longrightarrow> extends s (s'\<lparr>g_rp_bar32_size := c\<rparr>)"
  by (auto simp: extends_def)

lemma extends_if: "extends s a \<Longrightarrow> extends s b \<Longrightarrow> extends s (if c then a else b)"
  by simp

lemmas extends_intros = extends_write extends_globals extends_refl

lemma extends_size: "extends s s' \<Longrightarrow> extends s (fst (size_bar64 s' seg bus dev func off))"
  "extends s s' \<Longrightarrow> extends s (fst (size_bar32 s' seg bus dev func off))"
  by (auto simp: size_bar64_def size_bar32_def Let_def intro!: extends_intros)

lemma extends_rp_bars: "extends s0 s \<Longrightarrow> extends s0 (rp_bar_loop seg bus dev func off s)"
proof (induction seg bus dev func off s rule: rp_bar_loop.induct)
  case (1 seg bus dev func off s)
  have "extends s0 (fst (rp_bar_step seg bus dev func off s))"
    using extends_size [OF 1(2), of seg bus dev func off]
    by (auto simp: rp_bar_step_def Let_def split: prod.split intro!: extends_intros)
  then show ?case using 1(1,2) by (subst rp_bar_loop.simps) (auto split: prod.split)
qed

lemma extends_ep_bars: "extends s0 s \<Longrightarrow> extends s0 (ep_bar_loop seg bus dev func off z s)"
proof (induction seg bus dev func off z s rule: ep_bar_loop.induct)
  case (1 seg bus dev func off z s)
  have "extends s0 (fst (ep_bar_step seg bus dev func off z s))"
    using extends_size [OF 1(2), of seg bus dev func off]
    by (auto simp: ep_bar_step_def place_p64_def place_p32_def place_np_def Let_def split: prod.split intro!: extends_intros)
  then show ?case using 1(1,2) by (subst ep_bar_loop.simps) (auto split: prod.split)
qed

lemma extends_windows:
  "extends s0 s \<Longrightarrow> extends s0 (get_resource_base_32 s seg bus dev func a b c d)"
  "extends s0 s \<Longrightarrow> extends s0 (get_resource_base_64 s seg bus dev func e f)"
  unfolding get_resource_base_32_def get_resource_base_64_def Let_def
  by (intro extends_if extends_intros; assumption)+

section \<open>Bus numbers\<close>

text \<open>Ranges of bus numbers, one for each bridge of a bus: the first starts at \<open>a\<close>, each next one behind the one
  before, and the last ends at \<open>r\<close>.\<close>

fun consecutive :: "nat \<Rightarrow> (nat \<times> nat) list \<Rightarrow> nat \<Rightarrow> bool" where
  "consecutive a [] r \<longleftrightarrow> a = Suc r"
| "consecutive a ((sec, sub) # xs) r \<longleftrightarrow> sec = a \<and> sec \<le> sub \<and> consecutive (Suc sub) xs r"

lemma consecutive_le: "consecutive a xs r \<Longrightarrow> a \<le> Suc r"
  by (induction a xs r rule: consecutive.induct) auto

definition new_writes :: "enum_state \<Rightarrow> enum_state \<Rightarrow> (u64 \<times> u32) set" where
  "new_writes s s' = set (drop (length (mmio_log s)) (mmio_log s'))"

definition bus_write :: "enum_state \<Rightarrow> u32 \<Rightarrow> u32 \<Rightarrow> (u32 \<times> u32) \<times> nat \<times> nat \<Rightarrow> u64 \<times> u32" where
  "bus_write s seg bus x = (case x of ((dev, func), sec, sub) \<Rightarrow>
     let a = bm_cfg_reg s seg bus dev func BUS_NUM_REG_OFFSET in
     (if a AND 3 \<noteq> 0 then a AND NOT 3 else a, BUS_NUM_REG_CFG (of_nat sub) (of_nat sec) bus))"

lemma new_writes_mono: "extends s s1 \<Longrightarrow> extends s1 s2 \<Longrightarrow> extends s2 s3 \<Longrightarrow> new_writes s1 s2 \<subseteq> new_writes s s3"
  by (auto simp: extends_def new_writes_def)

lemma extends_cfg_reg: "extends s s' \<Longrightarrow> bm_cfg_reg s' seg bus dev func off = bm_cfg_reg s seg bus dev func off"
  by (simp add: extends_def bm_cfg_reg_def bm_ecam_base_def)

lemma bus_write_later: "extends s s' \<Longrightarrow> bus_write s' seg bus x = bus_write s seg bus x"
  by (simp add: bus_write_def extends_cfg_reg split: prod.split)

text \<open>How far a walk can number: past the last bus of the region every bridge costs one number.\<close>

definition reach :: "nat \<Rightarrow> nat \<Rightarrow> nat" where
  "reach e b = (if b \<le> e then e + 1 + 256 * (e + 1 - b) else b)"

text \<open>What the recursive call is known to do on buses above \<open>b\<close>, from the state \<open>s0\<close> on.\<close>

definition walk_ok :: "enum_state \<Rightarrow> nat \<Rightarrow> nat \<Rightarrow> (enum_state \<Rightarrow> u32 \<Rightarrow> u32 \<Rightarrow> (enum_state \<times> u32) option) \<Rightarrow> bool" where
  "walk_ok s0 e b walk \<longleftrightarrow> (\<forall>s sec. extends s0 s \<and> b < unat sec \<and> unat sec < 2 ^ 20 \<longrightarrow>
     (\<exists>s' r. walk s sec (sec + 1) = Some (s', r) \<and> extends s s' \<and> unat sec \<le> unat r \<and> unat r \<le> reach e (unat sec)))"

lemma enum_bridge_ok:
  assumes "walk_ok s0 e b walk" and "extends s0 s" and "b < unat (l_sec_bus l)" and "unat (l_sec_bus l) < 2 ^ 20"
  shows "\<exists>s' sub l'. enum_bridge walk seg bus dev func s l = Some (s', l') \<and> extends s s' \<and>
    l_sub_bus l' = sub \<and> l_sec_bus l' = sub + 1 \<and> unat (l_sec_bus l) \<le> unat sub \<and> unat sub \<le> reach e (unat (l_sec_bus l)) \<and>
    bus_write s seg bus ((dev, func), unat (l_sec_bus l), unat sub) \<in> new_writes s s'"
proof -
  let ?w = "\<lambda>s. pal_pci_cfg_write s seg bus dev func"
  define s1 where "s1 = (let com_reg_value = pal_pci_cfg_read s seg bus dev func 0x04;
      s = ?w s 0x04 (com_reg_value OR 0x7); s = ?w s BUS_NUM_REG_OFFSET (BUS_NUM_REG_CFG 0xFF (l_sec_bus l) bus);
      s = ?w s NON_PRE_FET_OFFSET (drop_bit 16 (g_bar32_np_start s) AND 0xFFF0)
      in ?w s PRE_FET_OFFSET (drop_bit 16 (g_bar32_p_start s) AND 0xFFF0))"
  have s1: "extends s s1" unfolding s1_def Let_def by (intro extends_intros)
  then have "extends s0 s1" using assms(2) extends_trans by blast
  then obtain s2 sub where w: "walk s1 (l_sec_bus l) (l_sec_bus l + 1) = Some (s2, sub)" "extends s1 s2"
    "unat (l_sec_bus l) \<le> unat sub" "unat sub \<le> reach e (unat (l_sec_bus l))"
    using assms unfolding walk_ok_def by blast
  define s3 where "s3 = ?w s2 BUS_NUM_REG_OFFSET (BUS_NUM_REG_CFG sub (l_sec_bus l) bus)"
  define s4 where "s4 = pal_pcie_rp_program_bar (get_resource_base_64 (get_resource_base_32 s3 seg bus dev func (l_p_base l) (l_np_base l)
      (g_bar32_p_max s3) (g_bar32_np_max s3)) seg bus dev func (l_p64_base l) (g_bar64_p_max (get_resource_base_32 s3 seg bus dev func
      (l_p_base l) (l_np_base l) (g_bar32_p_max s3) (g_bar32_np_max s3)))) seg bus dev func"
  define s5 where "s5 = s4\<lparr>g_np_bar_size := 0, g_p_bar_size := 0, g_bar64_size := 0\<rparr>"
  have s3: "extends s2 s3" unfolding s3_def by (intro extends_intros)
  have s5: "extends s3 s5" unfolding s5_def s4_def pal_pcie_rp_program_bar_def
    by (intro extends_intros extends_rp_bars extends_windows)
  have ss2: "extends s s2" using s1 w(2) extends_trans by blast
  have run: "enum_bridge walk seg bus dev func s l = Some (s5, \<lparr>l_sec_bus = sub + 1, l_sub_bus = sub, l_p_base = g_bar32_p_start s4,
      l_np_base = g_bar32_np_start s4, l_p64_base = g_bar64_p_start s4\<rparr>)"
    using w(1) by (simp add: enum_bridge_def s1_def s3_def s4_def s5_def Let_def)
  have "bus_write s seg bus ((dev, func), unat (l_sec_bus l), unat sub) \<in> new_writes s2 s3"
    using extends_cfg_reg [OF ss2]
    by (simp add: bus_write_def new_writes_def s3_def pal_pci_cfg_write_def bm_reg_write_def Let_def)
  then have "bus_write s seg bus ((dev, func), unat (l_sec_bus l), unat sub) \<in> new_writes s s5"
    using new_writes_mono [OF ss2 s3 s5] by blast
  moreover have "extends s s5" using ss2 s3 s5 extends_trans by blast
  ultimately show ?thesis using run w by auto
qed

lemma enum_func_ok:
  assumes "walk_ok s0 e b walk" and "extends s0 s" and "b < unat (l_sec_bus l)" and "unat (l_sec_bus l) < 2 ^ 20"
    and "l_sub_bus l = l_sec_bus l - 1"
  shows "\<exists>s' l'. enum_func walk seg bus dev func s l = Some (s', l') \<and> extends s s' \<and>
    ((l_sec_bus l' = l_sec_bus l \<and> l_sub_bus l' = l_sec_bus l - 1) \<or>
     (\<exists>sub. l_sub_bus l' = sub \<and> l_sec_bus l' = sub + 1 \<and> unat (l_sec_bus l) \<le> unat sub \<and>
        unat sub \<le> reach e (unat (l_sec_bus l)) \<and>
        bus_write s seg bus ((dev, func), unat (l_sec_bus l), unat sub) \<in> new_writes s s'))"
proof -
  have "extends s (pal_pcie_program_bar_reg s seg bus dev func)"
    unfolding pal_pcie_program_bar_reg_def Let_def by (intro extends_intros extends_ep_bars)
  moreover obtain s' sub l' where "enum_bridge walk seg bus dev func s l = Some (s', l')" "extends s s'"
    "l_sub_bus l' = sub" "l_sec_bus l' = sub + 1" "unat (l_sec_bus l) \<le> unat sub" "unat sub \<le> reach e (unat (l_sec_bus l))"
    "bus_write s seg bus ((dev, func), unat (l_sec_bus l), unat sub) \<in> new_writes s s'"
    using enum_bridge_ok [OF assms(1-4)] by blast
  ultimately show ?thesis using assms(5) by (simp add: enum_func_def Let_def)
qed

lemma unat_pred_Suc: "0 < unat (x :: u32) \<Longrightarrow> Suc (unat (x - 1)) = unat x"
  using unat_minus_one [of x] unat_gt_0 [of x] by simp

lemma enum_funcs_ok:
  assumes "walk_ok s0 e b walk" and "extends s0 s" and "b < unat (l_sec_bus l)" and "l_sub_bus l = l_sec_bus l - 1"
    and "max (unat (l_sec_bus l)) (e + 2 + 256 * (e - b)) + length fs < 2 ^ 20"
  shows "\<exists>s' l' ranges. enum_funcs walk seg bus fs s l = Some (s', l') \<and> extends s s' \<and>
    consecutive (unat (l_sec_bus l)) (map snd ranges) (unat (l_sub_bus l')) \<and>
    unat (l_sub_bus l') < max (unat (l_sec_bus l)) (e + 2 + 256 * (e - b)) + length fs \<and>
    bus_write s seg bus ` set ranges \<subseteq> new_writes s s'"
  using assms
proof (induction fs arbitrary: s l)
  case Nil
  then have "Suc (unat (l_sub_bus l)) = unat (l_sec_bus l)" using unat_pred_Suc [of "l_sec_bus l"] by simp
  then show ?case by (intro exI [of _ s] exI [of _ l] exI [of _ "[]"]) auto
next
  case (Cons x fs)
  obtain dev func where x: "x = (dev, func)" by force
  have lt: "unat (l_sec_bus l) < 2 ^ 20" using Cons.prems(5) by simp
  obtain s1 l1 where f: "enum_func walk seg bus dev func s l = Some (s1, l1)" "extends s s1"
    and c: "(l_sec_bus l1 = l_sec_bus l \<and> l_sub_bus l1 = l_sec_bus l - 1) \<or>
     (l_sec_bus l1 = l_sub_bus l1 + 1 \<and> unat (l_sec_bus l) \<le> unat (l_sub_bus l1) \<and> unat (l_sub_bus l1) \<le> reach e (unat (l_sec_bus l)) \<and>
        bus_write s seg bus ((dev, func), unat (l_sec_bus l), unat (l_sub_bus l1)) \<in> new_writes s s1)"
    using enum_func_ok [OF Cons.prems(1-3) lt Cons.prems(4), of seg bus dev func] by blast
  have s01: "extends s0 s1" using Cons.prems(2) f(2) extends_trans by blast
  have sub1: "l_sub_bus l1 = l_sec_bus l1 - 1" using c by auto
  have step: "b < unat (l_sec_bus l1) \<and>
      max (unat (l_sec_bus l1)) (e + 2 + 256 * (e - b)) \<le> Suc (max (unat (l_sec_bus l)) (e + 2 + 256 * (e - b)))"
  proof (cases "l_sec_bus l1 = l_sec_bus l")
    case False
    then have r: "unat (l_sec_bus l) \<le> unat (l_sub_bus l1)" "unat (l_sub_bus l1) \<le> reach e (unat (l_sec_bus l))" and
      "l_sec_bus l1 = l_sub_bus l1 + 1" using c by auto
    moreover have "reach e (unat (l_sec_bus l)) < max (unat (l_sec_bus l)) (e + 2 + 256 * (e - b)) + 1"
      using Cons.prems(3) by (auto simp: reach_def max_def)
    ultimately have "unat (l_sec_bus l1) = unat (l_sub_bus l1) + 1"
      using Cons.prems(5) by (simp add: unat_word_ariths)
    then show ?thesis using r Cons.prems(3) \<open>reach e _ < _\<close> by auto
  qed (use Cons.prems(3) in auto)
  then have "max (unat (l_sec_bus l1)) (e + 2 + 256 * (e - b)) + length fs < 2 ^ 20" using Cons.prems(5) by auto
  from Cons.IH [OF Cons.prems(1) s01 conjunct1 [OF step] sub1 this]
  obtain s2 l2 ranges where n: "enum_funcs walk seg bus fs s1 l1 = Some (s2, l2)" "extends s1 s2"
    "consecutive (unat (l_sec_bus l1)) (map snd ranges) (unat (l_sub_bus l2))"
    "unat (l_sub_bus l2) < max (unat (l_sec_bus l1)) (e + 2 + 256 * (e - b)) + length fs"
    "bus_write s1 seg bus ` set ranges \<subseteq> new_writes s1 s2" by blast
  define ranges' where "ranges' = (if l_sec_bus l1 = l_sec_bus l then ranges
      else ((dev, func), unat (l_sec_bus l), unat (l_sub_bus l1)) # ranges)"
  have "consecutive (unat (l_sec_bus l)) (map snd ranges') (unat (l_sub_bus l2))"
    using n(3) c step unat_pred_Suc [of "l_sec_bus l1"] sub1 by (auto simp: ranges'_def)
  moreover have "bus_write s seg bus ` set ranges' \<subseteq> new_writes s s2"
    using n(5) bus_write_later [OF f(2)] new_writes_mono [OF f(2) n(2) extends_refl] new_writes_mono [OF extends_refl f(2) n(2)] c
    by (auto simp: ranges'_def)
  moreover have "unat (l_sub_bus l2) < max (unat (l_sec_bus l)) (e + 2 + 256 * (e - b)) + length (x # fs)"
    using n(4) step by auto
  ultimately show ?case using f n(1,2) x extends_trans [OF f(2) n(2)]
    by (intro exI [of _ s2] exI [of _ l2] exI [of _ ranges']) simp
qed

text \<open>Nothing answers on buses beyond the last one of the region.\<close>

definition silent_beyond :: "enum_state \<Rightarrow> bool" where
  "silent_beyond s \<longleftrightarrow> (let block = info_table s ! pcie_index s in
     \<forall>ws bus dev func. end_bus_num block < bus \<longrightarrow>
       respond s ws (bm_cfg_reg s (segment_num block) bus dev func 0) \<in> {0, 0xFFFFFFFF})"

lemma enum_funcs_absent:
  assumes "\<And>dev func. pal_pci_cfg_read s seg bus dev func 0 \<in> {0, 0xFFFFFFFF}"
  shows "enum_funcs walk seg bus fs s l = Some (s, l)"
proof (induction fs)
  case (Cons x fs)
  then show ?case using assms by (cases x) (auto simp: enum_func_def Let_def)
qed simp

lemma length_all_functions: "length all_functions = 256"
  by (simp add: all_functions_def length_concat comp_def sum_list_triv)

lemma enumerate_device_ok:
  assumes e: "e = unat (end_bus_num (info_table s0 ! pcie_index s0))" "e \<le> 255" and absent: "silent_beyond s0"
    and st: "extends s0 s" "unat bus < 2 ^ 20" "e + 2 - unat bus < fuel"
  defines "seg \<equiv> segment_num (info_table s0 ! pcie_index s0)"
  shows "\<exists>s' r ranges. pal_pcie_enumerate_device fuel s bus (bus + 1) = Some (s', r) \<and> extends s s' \<and>
    unat bus \<le> unat r \<and> unat r \<le> reach e (unat bus) \<and> consecutive (unat bus + 1) (map snd ranges) (unat r) \<and>
    bus_write s seg bus ` set ranges \<subseteq> new_writes s s'"
  using st
proof (induction fuel arbitrary: s bus)
  case 0
  then show ?case by simp
next
  case (Suc fuel)
  have tab: "info_table s = info_table s0" "pcie_index s = pcie_index s0" "respond s = respond s0"
    using Suc.prems(1) by (simp_all add: extends_def)
  have sec: "unat (bus + 1) = unat bus + 1" using Suc.prems(2) by (simp add: unat_word_ariths)
  let ?block = "info_table s0 ! pcie_index s0"
  have last: "bus = end_bus_num ?block + 1 \<longleftrightarrow> unat bus = e + 1"
    using e by (simp add: word_unat_eq_iff unat_word_ariths)
  let ?l = "\<lparr>l_sec_bus = bus + 1, l_sub_bus = bus, l_p_base = g_bar32_p_start s, l_np_base = g_bar32_np_start s,
      l_p64_base = g_bar64_p_start s\<rparr>"
  have run: "pal_pcie_enumerate_device (Suc fuel) s bus (bus + 1) = (if unat bus = e + 1 then Some (s, bus)
      else do { (s, l) \<leftarrow> enum_funcs (pal_pcie_enumerate_device fuel) seg bus all_functions s ?l; Some (s, l_sub_bus l) })"
    by (simp only: pal_pcie_enumerate_device.simps Let_def tab seg_def last)
  consider "unat bus = e + 1" | "e + 2 \<le> unat bus" | "unat bus \<le> e" by linarith
  then show ?case
  proof cases
    case 1
    then show ?thesis using run by (intro exI [of _ s] exI [of _ bus] exI [of _ "[]"]) (auto simp: reach_def)
  next
    case 2
    then have "end_bus_num ?block < bus" using e by (simp add: word_less_nat_alt)
    then have "pal_pci_cfg_read s seg bus dev func 0 \<in> {0, 0xFFFFFFFF}" for dev func
      using absent extends_cfg_reg [OF Suc.prems(1)]
      by (simp add: silent_beyond_def pal_pci_cfg_read_def bm_reg_read_def tab seg_def Let_def)
    then have "enum_funcs (pal_pcie_enumerate_device fuel) seg bus all_functions s ?l = Some (s, ?l)"
      by (rule enum_funcs_absent)
    then show ?thesis using run 2 by (intro exI [of _ s] exI [of _ bus] exI [of _ "[]"]) (auto simp: reach_def)
  next
    case 3
    have "walk_ok s0 e (unat bus) (pal_pcie_enumerate_device fuel)"
      unfolding walk_ok_def
    proof (intro allI impI, elim conjE)
      fix s1 and sec :: u32 assume a: "extends s0 s1" "unat bus < unat sec" "unat sec < 2 ^ 20"
      have "e + 2 - unat sec < fuel" using a(2) 3 Suc.prems(3) by linarith
      from Suc.IH [OF a(1,3) this]
      show "\<exists>s' r. pal_pcie_enumerate_device fuel s1 sec (sec + 1) = Some (s', r) \<and> extends s1 s' \<and>
          unat sec \<le> unat r \<and> unat r \<le> reach e (unat sec)" by blast
    qed
    moreover have "max (unat (l_sec_bus ?l)) (e + 2 + 256 * (e - unat bus)) + length all_functions < 2 ^ 20"
      using e(2) 3 sec by (simp add: length_all_functions)
    ultimately obtain s' l' ranges where
      "enum_funcs (pal_pcie_enumerate_device fuel) seg bus all_functions s ?l = Some (s', l')" "extends s s'"
      and c: "consecutive (unat (bus + 1)) (map snd ranges) (unat (l_sub_bus l'))"
      and "unat (l_sub_bus l') < max (unat (bus + 1)) (e + 2 + 256 * (e - unat bus)) + 256"
      "bus_write s seg bus ` set ranges \<subseteq> new_writes s s'"
      using enum_funcs_ok [of s0 e "unat bus" "pal_pcie_enumerate_device fuel" s ?l all_functions seg bus] Suc.prems(1) sec
      by (auto simp: length_all_functions)
    then show ?thesis using run 3 sec consecutive_le [OF c] by (auto simp: reach_def)
  qed
qed


text \<open>A region of two buses with one bridge on the first.\<close>

definition example_enum :: enum_state where
  "example_enum = \<lparr>platform_pcie_cfg = [\<lparr>ecam_base = 0x1040000000, segment_num = 0, start_bus_num = 0, end_bus_num = 1\<rparr>],
     platform_pcie_device_hierarchy = [], bdf_table = [], mmio_log = [],
     respond = (\<lambda>_ a. if a = 0x1040008000 then 0x0DEF13B5 else if a = 0x1040008008 then 0x06040000
        else if a = 0x104000800C then 0x00010000 else 0),
     info_table = [\<lparr>ecam_base = 0x1040000000, segment_num = 0, start_bus_num = 0, end_bus_num = 1\<rparr>],
     root_cfg = [], pcie_index = 0, enumerate_flag = 1, g_bar64_p_start = 0, g_rp_bar64_value = 0, g_bar64_p_max = 0,
     g_64_bus = 0, g_bar64_size = 0, g_rp_bar64_size = 0, g_bar32_np_start = 0x50400000, g_bar32_p_start = 0x50000000,
     g_rp_bar32_value = 0x50800000, g_bar32_np_max = 0, g_bar32_p_max = 0, g_np_bar_size = 0, g_p_bar_size = 0,
     g_np_bus = 0, g_p_bus = 0, g_rp_bar32_size = 0\<rparr>"

lemma example_silent: "silent_beyond example_enum"
proof -
  have "(ucast x :: u64) \<noteq> y" if "2 ^ 32 \<le> unat y" for x :: u32 and y
    using that word_unat_less [of x] unat_ucast_up [of x, where 'b = 64] by auto
  then have "ucast (bm_cfg_offset bus dev func) \<noteq> (0x1040008000 :: u64)" "ucast (bm_cfg_offset bus dev func) \<noteq> (0x1040008008 :: u64)"
    "ucast (bm_cfg_offset bus dev func) \<noteq> (0x104000800C :: u64)" for bus dev func by simp_all
  then show ?thesis
    by (auto simp: silent_beyond_def example_enum_def bm_cfg_reg_def bm_ecam_base_def Let_def)
qed


section \<open>Windows and registers\<close>

lemma window_fields:
  fixes start x :: u32
  shows "drop_bit 4 ((x AND 0xFFF00000) OR (drop_bit 16 start AND 0xFFF0)) AND 0xFFF = drop_bit 20 start"
    and "drop_bit 20 ((x AND 0xFFF00000) OR (drop_bit 16 start AND 0xFFF0)) = drop_bit 20 x"
proof -
  have m: "(0xFFF00000 :: u32) = push_bit 20 (mask 12)" "(0xFFF0 :: u32) = push_bit 4 (mask 12)" "(0xFFF :: u32) = mask 12"
    by (simp_all add: mask_eq_exp_minus_1)
  show "drop_bit 4 ((x AND 0xFFF00000) OR (drop_bit 16 start AND 0xFFF0)) AND 0xFFF = drop_bit 20 start"
    unfolding m
    by (rule bit_word_eqI) (auto simp: bit_and_iff bit_or_iff bit_drop_bit_eq bit_push_mask bit_mask_iff dest: bit_imp_le_length)
  show "drop_bit 20 ((x AND 0xFFF00000) OR (drop_bit 16 start AND 0xFFF0)) = drop_bit 20 x"
    unfolding m
    by (rule bit_word_eqI) (auto simp: bit_and_iff bit_or_iff bit_drop_bit_eq bit_push_mask bit_mask_iff dest: bit_imp_le_length)
qed

lemma megabyte_below:
  assumes "0x100000 \<le> (start :: u32)"
  shows "drop_bit 20 (start - 0x100000) = drop_bit 20 start - 1" and "1 \<le> drop_bit 20 start"
proof -
  have s: "0x100000 \<le> unat start" using assms by (simp add: word_le_nat_alt)
  have d: "unat (drop_bit 20 x) = unat x div 2 ^ 20" for x :: u32
    by (simp add: drop_bit_eq_div unat_div)
  have sub: "unat (start - 0x100000) = unat start - 0x100000" using assms by (simp add: unat_sub)
  have one: "1 \<le> unat (drop_bit 20 start)" using s by (simp add: d Suc_le_eq div_greater_zero_iff)
  then show le: "1 \<le> drop_bit 20 start" by (simp add: word_le_nat_alt)
  have "(unat start - 2 ^ 20) div 2 ^ 20 = unat start div 2 ^ 20 - 1" using le_div_geq [of "2 ^ 20" "unat start"] s by simp
  then show "drop_bit 20 (start - 0x100000) = drop_bit 20 start - 1"
    using le by (simp add: word_unat_eq_iff d sub unat_sub)
qed

text \<open>A bridge with a single non-prefetchable register below it. If that register was placed at the start of the window, on a
  megabyte boundary as the platform tables give it, the limit written to the bridge lies a megabyte below the
  base, so that the window is closed, and the start address does not move: the first register behind
  the next bridge is placed at the same address.\<close>

theorem single_bar_window_closed:
  assumes "np_base = g_bar32_np_start s" and "g_np_bar_size s \<noteq> 0" and "push_bit 12 (g_bar32_np_start s) = 0"
    and "0x100000 \<le> g_bar32_np_start s" and "np_limit = g_bar32_np_start s"
    and "p_base = g_bar32_p_start s" and "g_p_bar_size s = 0"
    and "pal_pci_cfg_read s seg bus dev func NON_PRE_FET_OFFSET = drop_bit 16 (g_bar32_np_start s) AND 0xFFF0"
  shows "\<exists>v. get_resource_base_32 s seg bus dev func p_base np_base p_limit np_limit =
      pal_pci_cfg_write s seg bus dev func NON_PRE_FET_OFFSET v \<and>
    drop_bit 4 v AND 0xFFF = drop_bit 20 (g_bar32_np_start s) \<and> drop_bit 20 v = drop_bit 20 (g_bar32_np_start s) - 1 \<and>
    drop_bit 20 v < drop_bit 4 v AND 0xFFF \<and>
    g_bar32_np_start (get_resource_base_32 s seg bus dev func p_base np_base p_limit np_limit) = g_bar32_np_start s"
proof -
  let ?st = "g_bar32_np_start s"
  define v where "v = ((?st - 0x100000) AND 0xFFF00000) OR (drop_bit 16 ?st AND 0xFFF0)"
  have w: "g_bar32_p_start (pal_pci_cfg_write s seg bus dev func off x) = g_bar32_p_start s"
    "g_p_bar_size (pal_pci_cfg_write s seg bus dev func off x) = g_p_bar_size s"
    "g_bar32_np_start (pal_pci_cfg_write s seg bus dev func off x) = g_bar32_np_start s" for off x
    by (simp_all add: pal_pci_cfg_write_def bm_reg_write_def)
  have run: "get_resource_base_32 s seg bus dev func p_base np_base p_limit np_limit = pal_pci_cfg_write s seg bus dev func NON_PRE_FET_OFFSET v"
    unfolding get_resource_base_32_def Let_def using assms by (simp add: w v_def)
  note f = window_fields [of "?st - 0x100000" ?st, folded v_def] and b = megabyte_below [OF assms(4)]
  have "drop_bit 20 v < drop_bit 4 v AND 0xFFF"
    using b(2) unfolding f b(1) by (simp add: word_less_nat_alt unat_sub word_le_nat_alt)
  then show ?thesis using run f b(1) w by (intro exI [of _ v]) simp
qed

theorem single_bar_window_closed_witness:
  "\<exists>v. get_resource_base_32 (example_enum\<lparr>g_np_bar_size := 0x1000, respond := \<lambda>_ _. 0x5040\<rparr>) 0 0 1 0 0x50000000 0x50400000 0x50000000 0x50400000 =
      pal_pci_cfg_write (example_enum\<lparr>g_np_bar_size := 0x1000, respond := \<lambda>_ _. 0x5040\<rparr>) 0 0 1 0 0x20 v \<and>
    drop_bit 4 v AND 0xFFF = 0x504 \<and> drop_bit 20 v = 0x503"
proof -
  let ?e = "example_enum\<lparr>g_np_bar_size := 0x1000, respond := \<lambda>_ _. 0x5040\<rparr>"
  have st: "g_bar32_np_start ?e = 0x50400000" "g_bar32_p_start ?e = 0x50000000" "g_np_bar_size ?e = 0x1000" "g_p_bar_size ?e = 0"
    by (simp_all add: example_enum_def)
  have rd: "pal_pci_cfg_read ?e 0 0 1 0 0x20 = drop_bit 16 (g_bar32_np_start ?e) AND 0xFFF0"
    unfolding st by (simp add: pal_pci_cfg_read_def bm_reg_read_def)
  have pr: "0x50400000 = g_bar32_np_start ?e" "g_np_bar_size ?e \<noteq> 0" "push_bit 12 (g_bar32_np_start ?e) = 0"
    "0x100000 \<le> g_bar32_np_start ?e" "0x50400000 = g_bar32_np_start ?e" "0x50000000 = g_bar32_p_start ?e" "g_p_bar_size ?e = 0"
    unfolding st by simp_all
  from single_bar_window_closed [OF pr rd, of "0x50000000"]
  show ?thesis unfolding st by (elim exE conjE) (intro exI conjI, assumption, simp_all)
qed

section \<open>Placement of the registers of a function\<close>

text \<open>Addresses and sizes of registers placed one after the other, behind one of size \<open>z\<close> at \<open>a\<close>: the distance is the larger of
  the two sizes.\<close>

fun spaced :: "u32 \<Rightarrow> u32 \<Rightarrow> (u32 \<times> u32) list \<Rightarrow> u32 \<Rightarrow> bool" where
  "spaced a z [] r \<longleftrightarrow> r = a"
| "spaced a z ((a', z') # ps) r \<longleftrightarrow> a' = a + max z z' \<and> z' \<noteq> 0 \<and> spaced a' z' ps r"

lemma np_globals_write [simp]:
  "g_bar32_np_start (pal_pci_cfg_write s seg bus dev func off v) = g_bar32_np_start s"
  "g_np_bar_size (pal_pci_cfg_write s seg bus dev func off v) = g_np_bar_size s"
  "g_np_bus (pal_pci_cfg_write s seg bus dev func off v) = g_np_bus s"
  by (simp_all add: pal_pci_cfg_write_def bm_reg_write_def)

lemma write_logged: "v \<in> snd ` new_writes s (pal_pci_cfg_write s seg bus dev func off v)"
  by (simp add: new_writes_def pal_pci_cfg_write_def bm_reg_write_def)

text \<open>The effect of one round on the non-prefetchable class.\<close>

definition np_same :: "enum_state \<Rightarrow> enum_state \<Rightarrow> bool" where
  "np_same s s' \<longleftrightarrow> g_bar32_np_start s' = g_bar32_np_start s \<and> g_np_bar_size s' = g_np_bar_size s \<and> g_np_bus s' = g_np_bus s"

lemma np_same_size: "np_same s (fst (size_bar64 s seg bus dev func off))" "np_same s (fst (size_bar32 s seg bus dev func off))"
  by (simp_all add: size_bar64_def size_bar32_def Let_def np_same_def)

lemma np_round:
  assumes "ep_bar_step seg bus dev func off (np, p, p64) s = (s', (np', p', p64'), off')"
  shows "np' = np \<and> np_same s s' \<or>
    np' \<noteq> 0 \<and> g_bar32_np_start s' = g_bar32_np_start s + bar_advance np (g_np_bar_size s) np' (g_np_bus s) bus \<and>
    g_np_bar_size s' = np' \<and> g_np_bus s' = bus \<and> g_bar32_np_start s' \<in> snd ` new_writes s s'"
proof -
  obtain s1 b1 where z64: "size_bar64 s seg bus dev func off = (s1, b1)" by force
  obtain s2 r2 b2 where z32: "size_bar32 s seg bus dev func off = (s2, r2, b2)" by (metis prod_cases3)
  have same: "np_same s s1" "np_same s s2" using np_same_size [of s seg bus dev func off] z64 z32 by simp_all
  have l2: "extends s s2" using extends_size(2) [OF extends_refl, of s seg bus dev func off] z32 by simp
  have p: "np' = np \<and> np_same s s'"
    if "place_p64 seg bus dev func off (np, p, p64) s = (s', (np', p', p64'), off') \<or>
        place_p32 seg bus dev func off (np, p, p64) s = (s', (np', p', p64'), off')"
    using that same by (auto simp: place_p64_def place_p32_def z64 z32 np_same_def Let_def split: if_splits)
  have n: "np' = np \<and> np_same s s' \<or>
      np' \<noteq> 0 \<and> g_bar32_np_start s' = g_bar32_np_start s + bar_advance np (g_np_bar_size s) np' (g_np_bus s) bus \<and>
      g_np_bar_size s' = np' \<and> g_np_bus s' = bus \<and> g_bar32_np_start s' \<in> snd ` new_writes s s'"
    if "place_np seg bus dev func off (np, p, p64) s = (s', (np', p', p64'), off')"
  proof (cases "b2 = 0")
    case True
    then show ?thesis using that same by (auto simp: place_np_def z32 np_same_def split: if_splits)
  next
    case False
    define s3 where "s3 = s2\<lparr>g_bar32_np_start := g_bar32_np_start s2 + bar_advance np (g_np_bar_size s2) b2 (g_np_bus s2) bus\<rparr>"
    define s4 where "s4 = (pal_pci_cfg_write s3 seg bus dev func off (g_bar32_np_start s3))\<lparr>g_np_bar_size := b2, g_np_bus := bus\<rparr>"
    have r: "s' = s4 \<or> s' = pal_pci_cfg_write s4 seg bus dev func (off + 4) 0" "np' = b2"
      using that False by (auto simp: place_np_def z32 s3_def s4_def Let_def split: if_splits)
    have "extends s s3" using l2 unfolding s3_def by (rule extends_globals)
    moreover have "extends s3 (pal_pci_cfg_write s3 seg bus dev func off (g_bar32_np_start s3))" by (intro extends_intros)
    moreover have "extends (pal_pci_cfg_write s3 seg bus dev func off (g_bar32_np_start s3)) s'"
      using r(1) by (auto simp: s4_def intro!: extends_intros)
    ultimately have "g_bar32_np_start s3 \<in> snd ` new_writes s s'"
      using write_logged [of "g_bar32_np_start s3" s3 seg bus dev func off] new_writes_mono by blast
    moreover have "g_bar32_np_start s' = g_bar32_np_start s3" "g_np_bar_size s' = b2" "g_np_bus s' = bus"
      using r(1) by (auto simp: s4_def)
    moreover have "g_bar32_np_start s3 = g_bar32_np_start s + bar_advance np (g_np_bar_size s) b2 (g_np_bus s) bus"
      using same(2) by (simp add: s3_def np_same_def)
    ultimately show ?thesis using r(2) False by simp
  qed
  show ?thesis using assms p n by (auto simp: ep_bar_step_def Let_def split: if_splits)
qed

lemma np_loop:
  fixes seg bus dev func :: u32
  assumes "np \<noteq> 0 \<longrightarrow> g_np_bar_size s = np"
  defines "s' \<equiv> \<lambda>off z s. ep_bar_loop seg bus dev func off z s"
  shows "\<exists>ps. (\<forall>(a, z) \<in> set ps. a \<in> snd ` new_writes s (s' off (np, p, p64) s)) \<and>
    (if np = 0 \<and> g_np_bus s \<noteq> bus
     then case ps of [] \<Rightarrow> g_bar32_np_start (s' off (np, p, p64) s) = g_bar32_np_start s
          | (a, z) # ps \<Rightarrow> a = g_bar32_np_start s \<and> z \<noteq> 0 \<and> spaced a z ps (g_bar32_np_start (s' off (np, p, p64) s))
     else spaced (g_bar32_np_start s) (g_np_bar_size s) ps (g_bar32_np_start (s' off (np, p, p64) s)))"
  using assms(1)
proof (induction "0x30 - unat off" arbitrary: off np p p64 s rule: less_induct)
  case less
  show ?case
  proof (cases "off \<le> 0x24")
    case False
    then have "s' off (np, p, p64) s = s" by (simp add: s'_def ep_bar_loop.simps [of seg bus dev func off])
    then show ?thesis by (intro exI [of _ "[]"]) auto
  next
    case True
    obtain s1 np1 p1 q1 off1 where st: "ep_bar_step seg bus dev func off (np, p, p64) s = (s1, (np1, p1, q1), off1)"
      by (metis prod_cases3)
    have run: "s' off (np, p, p64) s = s' off1 (np1, p1, q1) s1"
      using True st by (simp add: s'_def ep_bar_loop.simps [of seg bus dev func off])
    have "off1 = off + 4 \<or> off1 = off + 8" using ep_bar_step_offset [of seg bus dev func off "(np, p, p64)" s] st by simp
    then have dec: "0x30 - unat off1 < 0x30 - unat off" using bar_offset_grows [OF True] by auto
    have l1: "extends s s1"
      using extends_size [OF extends_refl, of s seg bus dev func off] st
      by (auto simp: ep_bar_step_def place_p64_def place_p32_def place_np_def Let_def split: prod.splits if_splits intro!: extends_intros)
    have l2: "extends s1 (s' off1 (np1, p1, q1) s1)" unfolding s'_def by (rule extends_ep_bars) simp
    note mono = new_writes_mono [OF l1 l2 extends_refl] new_writes_mono [OF extends_refl l1 l2]
    show ?thesis
    proof (cases "np1 = np \<and> np_same s s1")
      case True
      then have eq: "np1 = np" "g_bar32_np_start s1 = g_bar32_np_start s" "g_np_bar_size s1 = g_np_bar_size s" "g_np_bus s1 = g_np_bus s"
        by (simp_all add: np_same_def)
      have "new_writes s1 (s' off1 (np1, p1, q1) s1) \<subseteq> new_writes s (s' off1 (np1, p1, q1) s1)" by (rule mono(1))
      then have sub: "snd ` new_writes s1 (s' off1 (np, p1, q1) s1) \<subseteq> snd ` new_writes s (s' off1 (np, p1, q1) s1)"
        unfolding eq by (rule image_mono)
      have pre: "np1 \<noteq> 0 \<longrightarrow> g_np_bar_size s1 = np1" using less.prems eq by simp
      note IH = less.hyps [OF dec, of np1 s1 p1 q1, OF pre, unfolded eq]
      have up: "(\<forall>(a, z) \<in> set ps. a \<in> snd ` new_writes s1 (s' off1 (np, p1, q1) s1)) \<Longrightarrow>
          (\<forall>(a, z) \<in> set ps. a \<in> snd ` new_writes s (s' off1 (np, p1, q1) s1))" for ps :: "(u32 \<times> u32) list"
        using sub by blast
      show ?thesis unfolding run eq using IH by (rule ex_forward) (erule conj_forward, erule up)
    next
      case False
      then have n: "np1 \<noteq> 0" "g_bar32_np_start s1 = g_bar32_np_start s + bar_advance np (g_np_bar_size s) np1 (g_np_bus s) bus"
        "g_np_bar_size s1 = np1" "g_np_bus s1 = bus" "g_bar32_np_start s1 \<in> snd ` new_writes s s1"
        using np_round [OF st] by auto
      obtain ps where ps: "\<forall>(a, z) \<in> set ps. a \<in> snd ` new_writes s1 (s' off1 (np1, p1, q1) s1)"
        "spaced (g_bar32_np_start s1) np1 ps (g_bar32_np_start (s' off1 (np1, p1, q1) s1))"
        using less.hyps [OF dec, of np1 s1 p1 q1] n by auto
      have "bar_advance np (g_np_bar_size s) np1 (g_np_bus s) bus =
          (if np = 0 \<and> g_np_bus s \<noteq> bus then 0 else max (g_np_bar_size s) np1)"
        using less.prems by (auto simp: bar_advance_def max_def)
      then have sp: "if np = 0 \<and> g_np_bus s \<noteq> bus then g_bar32_np_start s1 = g_bar32_np_start s \<and> np1 \<noteq> 0
          else np1 \<noteq> 0 \<and> g_bar32_np_start s1 = g_bar32_np_start s + max (g_np_bar_size s) np1"
        using n by simp
      have wr: "\<forall>(a, z) \<in> set ((g_bar32_np_start s1, np1) # ps). a \<in> snd ` new_writes s (s' off1 (np1, p1, q1) s1)"
        using n(5) ps(1) image_mono [OF mono(1), of snd] image_mono [OF mono(2), of snd] by (simp add: subset_iff split: prod.splits) blast
      show ?thesis unfolding run
        by (rule exI [of _ "(g_bar32_np_start s1, np1) # ps"], rule conjI [OF wr]) (use sp ps(2) in \<open>auto split: if_splits\<close>)
    qed
  qed
qed

text \<open>Placing the non-prefetchable registers of a function. Each register the function implements is placed behind the one before it,
  at a distance of the larger of the two sizes, and its address is written to the hardware; the first one follows
  the last one of the bus in the same way, but on a bus that had none it is placed at the current start. The
  address of the last one is the start the next function continues from and the limit of the bridge's window.\<close>

theorem program_bar_reg_spacing:
  fixes s :: enum_state and seg bus dev func :: u32
  defines "s' \<equiv> pal_pcie_program_bar_reg s seg bus dev func"
  shows "\<exists>ps. fst ` set ps \<subseteq> snd ` new_writes s s' \<and> g_bar32_np_max s' = g_bar32_np_start s' \<and>
    (if g_np_bus s = bus then spaced (g_bar32_np_start s) (g_np_bar_size s) ps (g_bar32_np_start s')
     else case ps of [] \<Rightarrow> g_bar32_np_start s' = g_bar32_np_start s
          | (a, z) # ps \<Rightarrow> a = g_bar32_np_start s \<and> z \<noteq> 0 \<and> spaced a z ps (g_bar32_np_start s'))"
proof -
  define s1 where "s1 = ep_bar_loop seg bus dev func BAR0_OFFSET (0, 0, 0) s"
  have s': "s' = s1\<lparr>g_bar32_p_max := g_bar32_p_start s1, g_bar32_np_max := g_bar32_np_start s1, g_bar64_p_max := g_bar64_p_start s1\<rparr>"
    by (simp add: s'_def s1_def pal_pcie_program_bar_reg_def Let_def)
  have eq: "new_writes s s' = new_writes s s1" "g_bar32_np_start s' = g_bar32_np_start s1" "g_bar32_np_max s' = g_bar32_np_start s1"
    by (simp_all add: s' new_writes_def)
  obtain ps where "\<forall>(a, z) \<in> set ps. a \<in> snd ` new_writes s s1" and
    "if (0 :: u32) = 0 \<and> g_np_bus s \<noteq> bus
     then case ps of [] \<Rightarrow> g_bar32_np_start s1 = g_bar32_np_start s
          | (a, z) # ps \<Rightarrow> a = g_bar32_np_start s \<and> z \<noteq> 0 \<and> spaced a z ps (g_bar32_np_start s1)
     else spaced (g_bar32_np_start s) (g_np_bar_size s) ps (g_bar32_np_start s1)"
    using np_loop [of 0 s seg bus dev func BAR0_OFFSET 0 0, folded s1_def] by blast
  then show ?thesis unfolding eq by (intro exI [of _ ps]) (auto split: if_splits)
qed

end
