(* ===== verification/Val_Pgt.thy ===== *)
theory Val_Pgt
  imports Pal_Memory
begin

text \<open>
  Translation tables of EL2 (\<^verbatim>\<open>val/src/acs_pgt.c\<close>, and \<^verbatim>\<open>val_setup_mmu\<close> of \<^verbatim>\<open>val/src/acs_memory.c\<close>), on the heap of
  the bare-metal platform (\<open>Pal_Memory\<close>): filling a table recursively, creating a hierarchy for a list of
  regions, removing a mapping, reading attributes back and releasing a hierarchy. Shown: a hierarchy
  created for a region inside one gigabyte translates exactly the region; what happens to further regions, to
  removed mappings and to attributes of a partial first level.
\<close>

section \<open>State\<close>

record tt_descriptor_t =
  tt_base :: u64
  input_base :: u64
  input_top :: u64
  output_base :: u64
  level :: u32
  size_log2 :: u32
  nbits :: u32

record acs_pgt_t =
  l0_index :: u32
  l1_index :: u32
  l2_index :: u32
  l3_index :: u32
  size_used :: u64

text \<open>The variables of \<^verbatim>\<open>acs_pgt.c\<close>, with the platform layer below it.\<close>

record pgt_state =
  pal :: pal_state
  page_size :: u32
  bits_per_level :: u32
  pgt_addr_mask :: u64
  is_values_init :: u64
  offset :: u64
  acs_pgt_info :: acs_pgt_t

record memory_region_descriptor_t =
  physical_address :: u64
  virtual_address :: u64
  region_length :: u64
  attributes :: u64

record pe_tcr_bf =
  ps :: u32
  tg :: u32
  sh :: u32
  orgn :: u32
  irgn :: u32
  tsz :: u32
  sl :: u32
  tg_size_log2 :: u32

record pgt_descriptor_t =
  pgt_base :: u64
  ias :: u32
  oas :: u32
  mair :: u64
  stage :: u32
  tcr :: pe_tcr_bf

definition setup_acs_pgt_values :: "pgt_state \<Rightarrow> pgt_state" where
  "setup_acs_pgt_values s = s\<lparr>acs_pgt_info := \<lparr>l0_index = 0, l1_index = 0, l2_index = 0, l3_index = 0, size_used = 0\<rparr>\<rparr>"

definition get_pgt_index :: "u32 \<Rightarrow> pgt_state \<Rightarrow> u32" where
  "get_pgt_index lev s =
     (if lev = 0 then l0_index (acs_pgt_info s)
      else if lev = 1 then l1_index (acs_pgt_info s)
      else if lev = 2 then l2_index (acs_pgt_info s)
      else if lev = 3 then l3_index (acs_pgt_info s)
      else 0)"

definition increment_pgt_index :: "u32 \<Rightarrow> u32 \<Rightarrow> pgt_state \<Rightarrow> pgt_state" where
  "increment_pgt_index lev max_index s =
     (let i = acs_pgt_info s in
      if lev = 1 then
        (if l1_index i = max_index - 1 then s\<lparr>acs_pgt_info := i\<lparr>l1_index := 0, l0_index := l0_index i + 1\<rparr>\<rparr> else s)
      else if lev = 2 then
        (if l2_index i = max_index - 1 then s\<lparr>acs_pgt_info := i\<lparr>l2_index := 0, l1_index := l1_index i + 1\<rparr>\<rparr> else s)
      else if lev = 3 then
        (if l3_index i = max_index - 1 then s\<lparr>acs_pgt_info := i\<lparr>l3_index := 0, l2_index := l2_index i + 1\<rparr>\<rparr>
         else s\<lparr>acs_pgt_info := i\<lparr>l3_index := l3_index i + 1\<rparr>\<rparr>)
      else s)"

definition get_entries_per_level :: "u32 \<Rightarrow> u32" where
  "get_entries_per_level psize =
     (if psize = 0x1000 then 512 else if psize = 0x4000 then 2048 else if psize = 0x10000 then 8192 else 0)"

text \<open>The products are taken at 32 bits and widened afterwards.\<close>

definition get_block_size :: "u32 \<Rightarrow> pgt_state \<Rightarrow> u64" where
  "get_block_size lev s =
     (let entries = get_entries_per_level (page_size s); p = page_size s in
      if lev = 0 then
        (if p = 0x1000 then ucast (p * entries * entries * entries)
         else if p = 0x4000 then ucast (p * entries * entries * 2)
         else 0)
      else if lev = 1 then
        (if p = 0x1000 \<or> p = 0x4000 then ucast (p * entries * entries) else ucast (p * entries * 64))
      else if lev = 2 then ucast (p * entries)
      else if lev = 3 then ucast p
      else 0)"

section \<open>Filling a table\<close>

definition IS_PGT_ENTRY_BLOCK :: "u64 \<Rightarrow> bool" where
  "IS_PGT_ENTRY_BLOCK val \<longleftrightarrow> val AND 2 = 0"

definition IS_PGT_ENTRY_PAGE :: "u64 \<Rightarrow> bool" where
  "IS_PGT_ENTRY_PAGE val \<longleftrightarrow> val AND 2 \<noteq> 0"

abbreviation pgt_mem :: "pgt_state \<Rightarrow> memory" where "pgt_mem s \<equiv> ram (pal s)"

definition write_desc :: "u64 \<Rightarrow> u64 \<Rightarrow> pgt_state \<Rightarrow> pgt_state" where
  "write_desc a v s = s\<lparr>pal := (pal s)\<lparr>ram := st64 (pgt_mem s) a v\<rparr>\<rparr>"

definition init_values :: "pgt_state \<Rightarrow> pgt_state" where
  "init_values s = (if is_values_init s = 0 then (setup_acs_pgt_values s)\<lparr>is_values_init := 1\<rparr> else s)"

definition tt_index :: "tt_descriptor_t \<Rightarrow> u64 \<Rightarrow> u64" where
  "tt_index d input_address = drop_bit (unat (size_log2 d)) input_address AND (push_bit (unat (nbits d)) 1 - 1)"

definition tt_block_size :: "tt_descriptor_t \<Rightarrow> u64" where
  "tt_block_size d = push_bit (unat (size_log2 d)) 1"

text \<open>Writing a page descriptor or a block descriptor, with the count of tables filled.\<close>

definition write_leaf :: "tt_descriptor_t \<Rightarrow> u64 \<Rightarrow> u64 \<Rightarrow> u64 \<Rightarrow> pgt_state \<Rightarrow> pgt_state" where
  "write_leaf d table_desc v attr s =
     (let s = write_desc table_desc (v OR attr OR 0x400) s;
          s = increment_pgt_index (level d) (get_entries_per_level (page_size s)) s
      in s\<lparr>offset := 0\<rparr>)"

definition block_eligible :: "tt_descriptor_t \<Rightarrow> u64 \<Rightarrow> u64 \<Rightarrow> bool" where
  "block_eligible d input_address output_address \<longleftrightarrow>
     input_address AND (tt_block_size d - 1) = 0 \<and> output_address AND (tt_block_size d - 1) = 0 \<and>
     input_address + tt_block_size d - 1 \<le> input_top d"

text \<open>The table of the next level: a new one, which may fail, or the one in place.\<close>

definition next_level_table :: "u64 \<Rightarrow> pgt_state \<Rightarrow> pgt_state \<times> u64 option" where
  "next_level_table table_desc s =
     (let v = ld64 (pgt_mem s) table_desc in
      if v = 0 \<or> IS_PGT_ENTRY_BLOCK v then
        let (p, base) = pal_mem_alloc_pages 1 (pal s); s = s\<lparr>pal := p\<rparr> in
        if base = 0 then (s, None)
        else (s\<lparr>pal := p\<lparr>ram := pal_mem_set (ram p) base (page_size s) 0\<rparr>\<rparr>, Some base)
      else (s, Some (pal_mem_phys_to_virt (v AND pgt_addr_mask s))))"

definition next_level_desc :: "tt_descriptor_t \<Rightarrow> u64 \<Rightarrow> u64 \<Rightarrow> u64 \<Rightarrow> pgt_state \<Rightarrow> tt_descriptor_t \<times> pgt_state" where
  "next_level_desc d base input_address output_address s =
     (let filled_tables = get_pgt_index (level d + 1) s;
          s = s\<lparr>offset := ucast filled_tables * get_block_size (level d + 1) s\<rparr>;
          max_allowed_mem = input_address + tt_block_size d - offset s - 1;
          d' = \<lparr>tt_base = base, input_base = input_address, input_top = min (input_top d) max_allowed_mem,
                output_base = output_address, level = level d + 1, size_log2 = size_log2 d - bits_per_level s,
                nbits = bits_per_level s\<rparr>
      in (d', increment_pgt_index (level d) (get_entries_per_level (page_size s)) s))"

text \<open>The loop over the entries of a table, which calls the whole function for the tables below. The second component of the
  result says whether an allocation failed.\<close>

partial_function (option) fill_loop :: "tt_descriptor_t \<Rightarrow> u64 \<Rightarrow> u64 \<Rightarrow> u64 \<Rightarrow> pgt_state \<Rightarrow> (pgt_state \<times> bool) option" where
  "fill_loop d attr input_address output_address s =
     (if \<not> input_address < input_top d then Some (s, False)
      else let table_desc = tt_base d + 8 * tt_index d input_address in
        if level d = 3 then
          let s = write_leaf d table_desc (3 OR (output_address AND NOT (ucast (page_size s - 1)))) attr s in
          fill_loop d attr (input_address + (tt_block_size d - offset s)) (output_address + (tt_block_size d - offset s)) s
        else if block_eligible d input_address output_address then
          let s = write_leaf d table_desc (1 OR (output_address AND NOT (tt_block_size d - 1))) attr s in
          fill_loop d attr (input_address + (tt_block_size d - offset s)) (output_address + (tt_block_size d - offset s)) s
        else case next_level_table table_desc s of
          (s, None) \<Rightarrow> Some (s, True)
        | (s, Some base) \<Rightarrow>
            let (d', s) = next_level_desc d base input_address output_address s in
            do { (s, err) \<leftarrow> fill_loop d' attr (input_base d') (output_base d') (init_values s);
                 if err then Some (s\<lparr>pal := pal_mem_free_pages base 1 (pal s)\<rparr>, True)
                 else let s = write_desc table_desc (3 OR (pal_mem_virt_to_phys base AND NOT (ucast (page_size s - 1)))) s in
                   fill_loop d attr (input_address + (tt_block_size d - offset s))
                     (output_address + (tt_block_size d - offset s)) s })"

definition fill_translation_table :: "tt_descriptor_t \<Rightarrow> memory_region_descriptor_t \<Rightarrow> pgt_state \<Rightarrow> (pgt_state \<times> bool) option" where
  "fill_translation_table d mem_desc s = fill_loop d (attributes mem_desc) (input_base d) (output_base d) (init_values s)"

section \<open>Creating a hierarchy\<close>

function pgt_log2_loop :: "u64 \<Rightarrow> u32 \<Rightarrow> u32" where
  "pgt_log2_loop sz b = (if sz = 0 then 0 else if sz AND 1 \<noteq> 0 then b else pgt_log2_loop (drop_bit 1 sz) (b + 1))"
  by pat_completeness auto

termination
proof (relation "measure (\<lambda>(sz, _). unat sz)")
  fix sz :: u64 and b :: u32
  assume "sz \<noteq> 0"
  then show "((drop_bit 1 sz, b + 1), sz, b) \<in> measure (\<lambda>(sz, _). unat sz)"
    by (simp add: drop_bit_eq_div unat_div unat_gt_0)
qed simp

declare pgt_log2_loop.simps [simp del]

definition pgt_log2_page_size :: "u64 \<Rightarrow> u32" where
  "pgt_log2_page_size sz = pgt_log2_loop sz 0"

definition num_pgt_levels :: "u32 \<Rightarrow> u32 \<Rightarrow> u32 \<Rightarrow> u32" where
  "num_pgt_levels ia page_size_log2 bits = (ia - page_size_log2 + bits - 1) div bits"

text \<open>What the creation and the removal set up from the page size of the platform.\<close>

definition set_page_size :: "pgt_state \<Rightarrow> pgt_state" where
  "set_page_size s = s\<lparr>page_size := pal_mem_page_size,
     bits_per_level := pgt_log2_page_size (ucast pal_mem_page_size) - 3\<rparr>"

definition addr_mask :: "u32 \<Rightarrow> u32 \<Rightarrow> u64" where
  "addr_mask width page_size_log2 = push_bit (unat page_size_log2) (push_bit (unat (width - page_size_log2)) 1 - 1)"

text \<open>The loop steps over the descriptors up to one of length zero, but its body uses the first one, of which it may
  truncate the input address. \<open>None\<close> is an array without an end.\<close>

fun create_loop :: "pgt_descriptor_t \<Rightarrow> u32 \<Rightarrow> u32 \<Rightarrow> u64 \<Rightarrow> memory_region_descriptor_t \<Rightarrow> memory_region_descriptor_t list \<Rightarrow>
    pgt_state \<Rightarrow> (pgt_state \<times> memory_region_descriptor_t \<times> bool) option" where
  "create_loop pgt levels page_size_log2 base mem_desc [] s = None"
| "create_loop pgt levels page_size_log2 base mem_desc (it # its) s =
     (if region_length it = 0 then Some (s, mem_desc, False)
      else if virtual_address mem_desc AND ucast (page_size s - 1) \<noteq> 0 \<or> physical_address mem_desc AND ucast (page_size s - 1) \<noteq> 0
        then Some (s, mem_desc, True)
      else if push_bit (unat (oas pgt)) 1 \<le> physical_address mem_desc then Some (s, mem_desc, True)
      else
        let mem_desc = (if push_bit (unat (ias pgt)) 1 \<le> virtual_address mem_desc
                        then mem_desc\<lparr>virtual_address := virtual_address mem_desc AND (push_bit (unat (ias pgt)) 1 - 1)\<rparr>
                        else mem_desc);
            inb = virtual_address mem_desc AND (push_bit (unat (ias pgt)) 1 - 1);
            sz = (levels - 1) * bits_per_level s + page_size_log2;
            d = \<lparr>tt_base = base, input_base = inb, input_top = inb + region_length mem_desc - 1,
                 output_base = physical_address mem_desc AND (push_bit (unat (oas pgt)) 1 - 1),
                 level = 4 - levels, size_log2 = sz, nbits = ias pgt - sz\<rparr>
        in do { (s, err) \<leftarrow> fill_translation_table d mem_desc s;
                if err then Some (s\<lparr>pal := pal_mem_free_pages base 1 (pal s)\<rparr>, mem_desc, True)
                else create_loop pgt levels page_size_log2 base mem_desc its s })"

text \<open>The result: the state, the descriptor of the hierarchy, the first region and the status.\<close>

abbreviation (input) ACS_STATUS_ERR :: u32 where "ACS_STATUS_ERR \<equiv> 0xEDCB1234"

definition val_pgt_create :: "memory_region_descriptor_t list \<Rightarrow> pgt_descriptor_t \<Rightarrow> pgt_state \<Rightarrow>
    (pgt_state \<times> pgt_descriptor_t \<times> memory_region_descriptor_t \<times> u32) option" where
  "val_pgt_create mem_descs pgt s =
     (case mem_descs of [] \<Rightarrow> None | mem_desc # _ \<Rightarrow>
      let s = set_page_size s;
          page_size_log2 = pgt_log2_page_size (ucast (page_size s));
          levels = num_pgt_levels (ias pgt) page_size_log2 (bits_per_level s);
          levels = (if levels > 4 then 4 else levels);
          (s, base) = (if pgt_base pgt = 0 then
                         let (p, b) = pal_mem_alloc_pages 1 (pal s) in
                         if b = 0 then (s\<lparr>pal := p\<rparr>, None)
                         else (s\<lparr>pal := p\<lparr>ram := pal_mem_set (ram p) b (page_size s) 0\<rparr>\<rparr>, Some b)
                       else (s, Some (pgt_base pgt)))
      in case base of None \<Rightarrow> Some (s, pgt, mem_desc, ACS_STATUS_ERR)
         | Some b \<Rightarrow>
           do { (s, mem_desc, err) \<leftarrow> create_loop pgt levels page_size_log2 b mem_desc mem_descs
                  (s\<lparr>pgt_addr_mask := addr_mask 48 page_size_log2\<rparr>);
                if err then Some (s, pgt, mem_desc, ACS_STATUS_ERR)
                else Some (s, pgt\<lparr>pgt_base := pal_mem_virt_to_phys b\<rparr>, mem_desc, 0) })"

text \<open>The first table is static (\<^verbatim>\<open>tt_l0_base\<close>); the regions come from the platform, each is mapped by a call of its own. The
  counter has 8 bits, so with 256 regions or more it never reaches the end.\<close>

partial_function (option) setup_loop :: "memory_region_descriptor_t list \<Rightarrow> 8 word \<Rightarrow> pgt_descriptor_t \<Rightarrow> pgt_state \<Rightarrow> (pgt_state \<times> u32) option" where
  "setup_loop mmap_region_list i pgt s =
     (if \<not> unat i < length mmap_region_list then Some (s, 0)
      else do { (s, pgt, _, status) \<leftarrow> val_pgt_create [mmap_region_list ! unat i,
                    \<lparr>physical_address = 0, virtual_address = 0, region_length = 0, attributes = 0\<rparr>] pgt s;
                if status \<noteq> 0 then Some (s, ACS_STATUS_ERR) else setup_loop mmap_region_list (i + 1) pgt s })"

definition val_setup_mmu :: "u64 \<Rightarrow> pe_tcr_bf \<Rightarrow> u64 \<Rightarrow> memory_region_descriptor_t list \<Rightarrow> pgt_state \<Rightarrow> (pgt_state \<times> u32) option" where
  "val_setup_mmu tt_l0_base junk_tcr junk_mair mmap_region_list s =
     setup_loop mmap_region_list 0
       \<lparr>pgt_base = tt_l0_base, ias = 48, oas = 48, mair = junk_mair, stage = 1, tcr = junk_tcr\<rparr> s"

section \<open>Registers of the element\<close>

text \<open>What the accessors of the element return.\<close>

record pe_env =
  CurrentEL :: u64
  tcr_el1 :: u64
  tcr_el2 :: u64
  hcr_el2 :: u64
  mair_el1 :: u64
  mair_el2 :: u64
  ttbr0_el1 :: u64
  ttbr0_el2 :: u64
  ttbr1_el1 :: u64
  ttbr1_el2 :: u64

abbreviation (input) AARCH64_EL1 :: u32 where "AARCH64_EL1 \<equiv> 4"
abbreviation (input) AARCH64_EL2 :: u32 where "AARCH64_EL2 \<equiv> 8"

definition read_TCR_ELx :: "pe_env \<Rightarrow> u64" where
  "read_TCR_ELx e = (if CurrentEL e = 4 then tcr_el1 e else if CurrentEL e = 8 then tcr_el2 e else 0)"

definition read_MAIR_ELx :: "pe_env \<Rightarrow> u64" where
  "read_MAIR_ELx e = (if CurrentEL e = 4 then mair_el1 e else if CurrentEL e = 8 then mair_el2 e else 0)"

definition tcr_field :: "u64 \<Rightarrow> nat \<Rightarrow> nat \<Rightarrow> u32" where
  "tcr_field val k n = ucast (drop_bit k (val AND push_bit k (mask n)))"

definition val_pe_reg_read_tcr :: "pe_env \<Rightarrow> bool \<Rightarrow> pe_tcr_bf \<Rightarrow> pe_tcr_bf \<times> u32" where
  "val_pe_reg_read_tcr e ttbr1 t =
     (let val = read_TCR_ELx e; el = ucast (CurrentEL e) AND 0xC;
          e2h = hcr_el2 e AND push_bit 34 1;
          rest = (\<lambda>t. let t = t\<lparr>tg := tcr_field val 14 2\<rparr> in
            if tg t > 2 then (t, ACS_STATUS_ERR)
            else (t\<lparr>tg_size_log2 := [12, 16, 14] ! unat (tg t), sh := tcr_field val 12 2, orgn := tcr_field val 10 2,
                    irgn := tcr_field val 8 2, tsz := tcr_field val 0 6\<rparr>, 0))
      in if el \<noteq> AARCH64_EL1 \<and> el \<noteq> AARCH64_EL2 then (t, ACS_STATUS_ERR)
         else if el = AARCH64_EL1 \<or> el = AARCH64_EL2 \<and> e2h \<noteq> 0 then
           let t = t\<lparr>ps := tcr_field val 32 3\<rparr> in
           if ttbr1 then
             let t = t\<lparr>tg := tcr_field val 30 2\<rparr> in
             if tg t = 0 \<or> tg t > 3 then (t, ACS_STATUS_ERR)
             else (t\<lparr>tg_size_log2 := [0, 14, 12, 16] ! unat (tg t), sh := tcr_field val 28 2, orgn := tcr_field val 26 2,
                     irgn := tcr_field val 24 2, tsz := tcr_field val 16 6\<rparr>, 0)
           else rest t
         else if \<not> ttbr1 then rest (t\<lparr>ps := tcr_field val 16 3\<rparr>)
         else (t, ACS_STATUS_ERR))"

definition val_pe_reg_read_ttbr :: "pe_env \<Rightarrow> u32 \<Rightarrow> u64 option" where
  "val_pe_reg_read_ttbr e ttbr1 =
     (let el = ucast (CurrentEL e) AND 0xC in
      if el \<noteq> AARCH64_EL1 \<and> el \<noteq> AARCH64_EL2 \<or> ttbr1 > 1 then None
      else Some (if ttbr1 = 0 then (if el = AARCH64_EL1 then ttbr0_el1 e else ttbr0_el2 e)
                 else (if el = AARCH64_EL1 then ttbr1_el1 e else ttbr1_el2 e)))"

section \<open>Mapping, unmapping and reading back\<close>

abbreviation (input) ACS_STATUS_FAIL :: u32 where "ACS_STATUS_FAIL \<equiv> 0x90000000"
abbreviation (input) AARCH64_TTBR_ADDR_MASK :: u64 where "AARCH64_TTBR_ADDR_MASK \<equiv> 0xFFFFFFFFFFFE"

definition val_pe_mmu_map_add :: "pe_env \<Rightarrow> pe_tcr_bf \<Rightarrow> memory_region_descriptor_t list \<Rightarrow> pgt_state \<Rightarrow> (pgt_state \<times> u32) option" where
  "val_pe_mmu_map_add e junk_tcr mem_descs s =
     (let (t, st) = val_pe_reg_read_tcr e False junk_tcr in
      if st \<noteq> 0 then Some (s, ACS_STATUS_FAIL)
      else case val_pe_reg_read_ttbr e 0 of None \<Rightarrow> Some (s, ACS_STATUS_FAIL)
      | Some ttbr \<Rightarrow>
          do { (s, _, _, status) \<leftarrow> val_pgt_create mem_descs
                 \<lparr>pgt_base = ttbr AND AARCH64_TTBR_ADDR_MASK, ias = 40, oas = 40, mair = read_MAIR_ELx e, stage = 1, tcr = t\<rparr> s;
               Some (s, status) })"

definition pgt_modify_desc :: "u64 \<Rightarrow> nat \<Rightarrow> u64 \<Rightarrow> u64" where
  "pgt_modify_desc table_desc bit_to_set value_to_set =
     (table_desc AND NOT (push_bit bit_to_set 1)) OR push_bit bit_to_set value_to_set"

text \<open>The walk of the removal: the descriptor it ends at, with bit 0 cleared, which is not stored.\<close>

lemma level_decreases: "l \<noteq> 3 \<Longrightarrow> unat (3 - (l + 1)) < unat (3 - l :: u32)"
proof -
  assume "l \<noteq> 3"
  then have "3 - l \<noteq> 0" by simp
  then show ?thesis using unat_minus_one [of "3 - l"] unat_gt_0 [of "3 - l"] by (simp add: diff_diff_eq)
qed

function rmv_walk :: "memory \<Rightarrow> u64 \<Rightarrow> u32 \<Rightarrow> u64 \<Rightarrow> u32 \<Rightarrow> u32 \<Rightarrow> u32 \<Rightarrow> u64 \<Rightarrow> u64 option" where
  "rmv_walk m tbl_mask bpl tt_base_phys this_level bits_remaining bits_at_this_level input_address =
     (let index = drop_bit (unat bits_remaining) input_address AND ucast (push_bit (unat bits_at_this_level) 1 - 1 :: u32);
          table_desc = ld64 m (pal_mem_phys_to_virt tt_base_phys + 8 * index)
      in if this_level = 3 then
           (if \<not> IS_PGT_ENTRY_PAGE table_desc then None
            else Some (pgt_modify_desc (pgt_modify_desc table_desc 0 0) 0 0))
         else if IS_PGT_ENTRY_BLOCK table_desc then Some (pgt_modify_desc table_desc 0 0)
         else rmv_walk m tbl_mask bpl (table_desc AND tbl_mask) (this_level + 1) (bits_remaining - bpl) bpl input_address)"
  by pat_completeness auto

termination
  by (relation "measure (\<lambda>(_, _, _, _, l, _). unat (3 - l))") (use level_decreases in auto)

declare rmv_walk.simps [simp del]

definition val_pe_mmu_map_rmv :: "pe_env \<Rightarrow> pe_tcr_bf \<Rightarrow> memory_region_descriptor_t \<Rightarrow> pgt_state \<Rightarrow> pgt_state \<times> u32" where
  "val_pe_mmu_map_rmv e junk_tcr mem_desc s =
     (let (t, st) = val_pe_reg_read_tcr e False junk_tcr in
      if st \<noteq> 0 then (s, ACS_STATUS_FAIL)
      else case val_pe_reg_read_ttbr e 0 of None \<Rightarrow> (s, ACS_STATUS_FAIL)
      | Some ttbr \<Rightarrow>
          let s = set_page_size s;
              page_size_log2 = pgt_log2_page_size (ucast (page_size s));
              bpl = bits_per_level s;
              levels = num_pgt_levels 40 page_size_log2 bpl;
              levels = (if levels > 4 then 4 else levels);
              s = s\<lparr>pgt_addr_mask := addr_mask 48 page_size_log2\<rparr>;
              bits_remaining = (levels - 1) * bpl + page_size_log2
          in case rmv_walk (pgt_mem s) (addr_mask 40 page_size_log2) bpl (ttbr AND AARCH64_TTBR_ADDR_MASK) (4 - levels)
                bits_remaining (40 - bits_remaining) (virtual_address mem_desc) of
               None \<Rightarrow> (s, ACS_STATUS_ERR) | Some _ \<Rightarrow> (s, 0))"

definition PGT_DESC_ATTRIBUTES :: "u64 \<Rightarrow> u64" where
  "PGT_DESC_ATTRIBUTES val = val AND (push_bit 52 (mask 12) OR push_bit 2 (mask 10))"

text \<open>The walk of the attributes goes down by the width of the current level, the first time that of the first level.\<close>

function attr_walk :: "memory \<Rightarrow> u64 \<Rightarrow> u32 \<Rightarrow> u64 \<Rightarrow> u32 \<Rightarrow> u32 \<Rightarrow> u32 \<Rightarrow> u64 \<Rightarrow> u64 option" where
  "attr_walk m tbl_mask bpl tt_base_phys this_level bits_remaining bits_at_this_level va =
     (let index = drop_bit (unat bits_remaining) va AND ucast (push_bit (unat bits_at_this_level) 1 - 1 :: u32);
          val64 = ld64 m (pal_mem_phys_to_virt tt_base_phys + 8 * index)
      in if this_level = 3 then
           (if \<not> IS_PGT_ENTRY_PAGE val64 then None else Some (PGT_DESC_ATTRIBUTES val64))
         else if IS_PGT_ENTRY_BLOCK val64 then Some (PGT_DESC_ATTRIBUTES val64)
         else attr_walk m tbl_mask bpl (val64 AND tbl_mask) (this_level + 1) (bits_remaining - bits_at_this_level) bpl va)"
  by pat_completeness auto

termination
  by (relation "measure (\<lambda>(_, _, _, _, l, _). unat (3 - l))") (use level_decreases in auto)

declare attr_walk.simps [simp del]

definition val_pgt_get_attributes :: "pgt_descriptor_t \<Rightarrow> u64 \<Rightarrow> bool \<Rightarrow> pgt_state \<Rightarrow> pgt_state \<times> u64 option" where
  "val_pgt_get_attributes pgt va attributes_null s =
     (let page_size_log2 = tg_size_log2 (tcr pgt) in
      if attributes_null then (s, None)
      else if pgt_base pgt = 0 then (s, None)
      else let ia = 64 - tsz (tcr pgt);
               s = s\<lparr>bits_per_level := page_size_log2 - 3\<rparr>;
               levels = num_pgt_levels ia page_size_log2 (bits_per_level s);
               bits_remaining = (levels - 1) * bits_per_level s + page_size_log2
           in (s, attr_walk (pgt_mem s) (addr_mask ia page_size_log2) (bits_per_level s) (pgt_base pgt) (4 - levels)
                bits_remaining (ia - bits_remaining) va))"

section \<open>Releasing a hierarchy\<close>

text \<open>The tables that are released, in order. The platform keeps their memory as it is.\<close>

function free_translation_table :: "memory \<Rightarrow> u64 \<Rightarrow> u32 \<Rightarrow> u64 \<Rightarrow> u32 \<Rightarrow> u32 \<Rightarrow> u64 list" where
  "free_translation_table m tbl_mask bpl base bits_at_this_level this_level =
     (if this_level = 3 then []
      else concat (map (\<lambda>index.
        let v = ld64 m (base + 8 * of_nat index) in
        if v = 0 \<or> IS_PGT_ENTRY_BLOCK v then []
        else let nxt = pal_mem_phys_to_virt (v AND tbl_mask) in
             if nxt = 0 then []
             else free_translation_table m tbl_mask bpl nxt bpl (this_level + 1) @ [nxt])
        [0..<2 ^ unat bits_at_this_level]))"
  by pat_completeness auto

termination
  by (relation "measure (\<lambda>(_, _, _, _, _, l). unat (3 - l))") (use level_decreases in auto)

declare free_translation_table.simps [simp del]

text \<open>An index of 32 bits never reaches the end of a first level of 32 bits or more.\<close>

definition val_pgt_destroy :: "pgt_descriptor_t \<Rightarrow> pgt_state \<Rightarrow> (pgt_state \<times> u64 list) option" where
  "val_pgt_destroy pgt s =
     (if pgt_base pgt = 0 then Some (s, [])
      else let pgt_base_virt = pal_mem_phys_to_virt (pgt_base pgt);
               s = set_page_size s;
               page_size_log2 = pgt_log2_page_size (ucast (page_size s));
               s = s\<lparr>pgt_addr_mask := addr_mask (ias pgt) page_size_log2\<rparr>;
               levels = num_pgt_levels (ias pgt) page_size_log2 (bits_per_level s);
               first = ias pgt - ((levels - 1) * bits_per_level s + page_size_log2);
               freed = free_translation_table (pgt_mem s) (pgt_addr_mask s) (bits_per_level s) pgt_base_virt first (4 - levels)
                 @ [pgt_base_virt]
           in if 32 \<le> first then None
              else Some (s\<lparr>pal := fold (\<lambda>p. pal_mem_free_pages p 1) freed (pal s)\<rparr>, freed))"

section \<open>The architectural walk\<close>

text \<open>How the hardware interprets a descriptor with \<open>n\<close> levels of tables below it, for 4KB pages: the output address and the
  attributes. A table descriptor points to a page of 512 descriptors.\<close>

abbreviation block_log2 :: "nat \<Rightarrow> nat" where "block_log2 n \<equiv> 12 + 9 * n"

definition table_addr :: "u64 \<Rightarrow> u64" where
  "table_addr e = e AND push_bit 12 (mask 36)"

definition leaf_result :: "nat \<Rightarrow> u64 \<Rightarrow> u64 \<Rightarrow> u64 \<times> u64" where
  "leaf_result n e va = ((take_bit 48 e AND NOT (mask (block_log2 n))) OR take_bit (block_log2 n) va, PGT_DESC_ATTRIBUTES e)"

primrec desc_walk :: "nat \<Rightarrow> memory \<Rightarrow> u64 \<Rightarrow> u64 \<Rightarrow> (u64 \<times> u64) option" where
  "desc_walk 0 m e va = (if bit e 0 \<and> bit e 1 then Some (leaf_result 0 e va) else None)"
| "desc_walk (Suc n) m e va =
     (if \<not> bit e 0 then None
      else if \<not> bit e 1 then Some (leaf_result (Suc n) e va)
      else desc_walk n m (ld64 m (table_addr e + 8 * take_bit 9 (drop_bit (block_log2 n) va))) va)"

text \<open>The walk from the first table, for input addresses of \<open>ia\<close> bits.\<close>

definition table_walk :: "nat \<Rightarrow> nat \<Rightarrow> memory \<Rightarrow> u64 \<Rightarrow> u64 \<Rightarrow> (u64 \<times> u64) option" where
  "table_walk n nb m base va = desc_walk n m (ld64 m (base + 8 * take_bit nb (drop_bit (block_log2 n) va))) va"

definition levels_below :: "nat \<Rightarrow> nat" where
  "levels_below ia = (ia - 12 + 8) div 9 - 1"

definition translate :: "nat \<Rightarrow> memory \<Rightarrow> u64 \<Rightarrow> u64 \<Rightarrow> (u64 \<times> u64) option" where
  "translate ia m base va = (let n = levels_below ia in table_walk n (ia - block_log2 n) m base va)"

section \<open>Descriptors of leaves\<close>

definition attr_ok :: "u64 \<Rightarrow> bool" where
  "attr_ok attr \<longleftrightarrow> PGT_DESC_ATTRIBUTES attr = attr"

lemma bit_attr_mask: "bit (push_bit 52 (mask 12) OR push_bit 2 (mask 10) :: u64) i \<longleftrightarrow> 52 \<le> i \<and> i < 64 \<or> 2 \<le> i \<and> i < 12"
  by (auto simp: bit_or_iff bit_push_bit_iff bit_mask_iff)

lemma attr_okD: "attr_ok attr \<Longrightarrow> bit attr i \<Longrightarrow> 52 \<le> i \<or> 2 \<le> i \<and> i < 12"
  unfolding attr_ok_def PGT_DESC_ATTRIBUTES_def by (metis bit_and_iff bit_attr_mask)

lemma bit_aligned_nat:
  assumes "2 ^ k dvd b" and "b < 2 ^ 48" and "bit (of_nat b :: u64) i"
  shows "k \<le> i \<and> i < 48"
proof -
  have "bit b i" using assms(3) by (simp add: bit_of_nat_iff)
  then have "odd (b div 2 ^ i)" by (simp add: bit_iff_odd)
  moreover have "even (b div 2 ^ i)" if "i < k"
  proof -
    obtain c where "b = 2 ^ k * c" using assms(1) by blast
    moreover have "(2::nat) ^ k = 2 ^ i * (2 * 2 ^ (k - Suc i))"
      using that by (simp only: flip: power_Suc power_add) simp
    ultimately show ?thesis by simp
  qed
  moreover have "b div 2 ^ i = 0" if "48 \<le> i"
    using assms(2) order_less_le_trans [OF assms(2) power_increasing [OF that, of "2 :: nat"]] by simp
  ultimately show ?thesis by (metis even_zero not_le)
qed

text \<open>The value the code writes for a page or a block.\<close>

definition leaf_desc :: "nat \<Rightarrow> u64 \<Rightarrow> nat \<Rightarrow> u64" where
  "leaf_desc n attr b = (if n = 0 then 3 else 1) OR (of_nat b AND NOT (mask (block_log2 n))) OR attr OR 0x400"

lemma of_nat_plus_low:
  assumes "2 ^ k dvd b" and "b < 2 ^ 48" and "k < 64"
  shows "(of_nat b OR take_bit k (of_nat v) :: u64) = of_nat (b + v mod 2 ^ k)"
proof -
  have "(of_nat b :: u64) AND take_bit k (of_nat v) = 0"
    by (rule bit_word_eqI) (auto simp: bit_and_iff bit_take_bit_iff dest: bit_aligned_nat [OF assms(1,2)])
  then have "(of_nat b OR take_bit k (of_nat v) :: u64) = of_nat b + take_bit k (of_nat v)"
    by (simp add: disjunctive_add_eq_or)
  moreover have "take_bit k (of_nat v :: u64) = of_nat (v mod 2 ^ k)"
    by (simp add: take_bit_of_nat flip: take_bit_eq_mod)
  ultimately show ?thesis by (simp only: of_nat_add)
qed

lemma leaf_desc_bits:
  assumes "2 ^ block_log2 n dvd b" and "b < 2 ^ 48"
  shows "bit (leaf_desc n attr b) i \<longleftrightarrow> i = 0 \<or> n = 0 \<and> i = 1 \<or> bit (of_nat b :: u64) i \<or> bit attr i \<or> i = 10"
proof -
  have k4: "bit (0x400 :: u64) i \<longleftrightarrow> i = 10" for i
    using bit_exp_iff [where 'a = "64 word", of 10 i] by auto
  have k3: "bit (3 :: u64) i \<longleftrightarrow> i < 2" for i
    using bit_mask_iff [where 'a = "64 word", of 2 i] by (auto simp: mask_eq_exp_minus_1)
  have k: "bit (if n = 0 then 3 else 1 :: u64) i \<longleftrightarrow> i = 0 \<or> n = 0 \<and> i = 1" for i
    using k3 by (auto simp: bit_1_iff less_2_cases_iff)
  show ?thesis
    unfolding leaf_desc_def bit_or_iff bit_and_iff bit_not_iff bit_mask_iff k k4 using bit_aligned_nat [OF assms, of i] by auto
qed

lemma leaf_desc_bit1:
  assumes "2 ^ block_log2 n dvd b" and "b < 2 ^ 48" and "attr_ok attr"
  shows "bit (leaf_desc n attr b) 1 \<longleftrightarrow> n = 0"
  using leaf_desc_bits [OF assms(1,2), of attr 1] bit_aligned_nat [OF assms(1,2), of 1] attr_okD [OF assms(3), of 1] by auto

lemma leaf_desc_walk:
  assumes "2 ^ block_log2 n dvd b" and "b < 2 ^ 48" and "attr_ok attr" and "n \<le> 3"
  shows "desc_walk n m (leaf_desc n attr b) (of_nat v) = Some (of_nat (b + v mod 2 ^ block_log2 n), attr OR 0x400)"
proof -
  note bb = bit_aligned_nat [OF assms(1,2)] and ab = attr_okD [OF assms(3)]
  let ?e = "leaf_desc n attr b"
  note e = leaf_desc_bits [OF assms(1,2), of attr]
  have k4: "bit (0x400 :: u64) i \<longleftrightarrow> i = 10" for i
    using bit_exp_iff [where 'a = "64 word", of 10 i] by auto
  have "PGT_DESC_ATTRIBUTES ?e = attr OR 0x400"
  proof (rule bit_word_eqI)
    fix i assume "i < LENGTH(64)"
    then show "bit (PGT_DESC_ATTRIBUTES ?e) i = bit (attr OR 0x400) i"
      unfolding PGT_DESC_ATTRIBUTES_def bit_and_iff bit_attr_mask e bit_or_iff [of attr] k4
      using bb [of i] ab [of i] by auto
  qed
  moreover have "take_bit 48 ?e AND NOT (mask (block_log2 n)) = of_nat b"
  proof (rule bit_word_eqI)
    fix i assume "i < LENGTH(64)"
    then show "bit (take_bit 48 ?e AND NOT (mask (block_log2 n))) i = bit (of_nat b :: u64) i"
      unfolding bit_and_iff bit_not_iff bit_mask_iff bit_take_bit_iff e using bb [of i] ab [of i] by auto
  qed
  moreover have "bit ?e 0" "bit ?e 1 \<longleftrightarrow> n = 0" using e [of 0] leaf_desc_bit1 [OF assms(1-3)] by auto
  ultimately show ?thesis using assms(4) of_nat_plus_low [OF assms(1,2), of v]
    by (cases n) (simp_all add: leaf_result_def)
qed

section \<open>One table\<close>

text \<open>A call for a table at page \<open>p\<close> with \<open>n\<close> levels of tables below it and \<open>2 ^ nb\<close> entries, for addresses up to \<open>t\<close>.\<close>

definition tab_desc :: "nat \<Rightarrow> nat \<Rightarrow> nat \<Rightarrow> nat \<Rightarrow> tt_descriptor_t \<Rightarrow> bool" where
  "tab_desc n nb p t d \<longleftrightarrow> tt_base d = of_nat p \<and> input_top d = of_nat t \<and> level d = of_nat (3 - n) \<and>
     size_log2 d = of_nat (block_log2 n) \<and> nbits d = of_nat nb \<and> n \<le> 3 \<and> nb \<le> 9 \<and> 4096 dvd p \<and> t < 2 ^ 48"

definition pgt_cfg :: "pgt_state \<Rightarrow> bool" where
  "pgt_cfg s \<longleftrightarrow> page_size s = 0x1000 \<and> bits_per_level s = 9 \<and> pgt_addr_mask s = push_bit 12 (mask 36) \<and> is_values_init s \<noteq> 0"

lemma drop_bit_of_nat64:
  assumes "a < 2 ^ 64"
  shows "drop_bit k (of_nat a :: u64) = of_nat (a div 2 ^ k)"
proof -
  have "a div 2 ^ k < 2 ^ 64" using assms order_le_less_trans [OF div_le_dividend] by blast
  then have "unat (drop_bit k (of_nat a :: u64)) = unat (of_nat (a div 2 ^ k) :: u64)"
    using assms unat_drop_bit_eq [of k "of_nat a :: u64"] by (simp add: unat_of_nat_small flip: drop_bit_eq_div)
  then show ?thesis by (simp only: word_unat_eq_iff)
qed

lemma tab_desc_words:
  assumes "tab_desc n nb p t d" and "a < 2 ^ 49"
  shows "tt_block_size d = 2 ^ block_log2 n" and "tt_index d (of_nat a) = of_nat (a div 2 ^ block_log2 n mod 2 ^ nb)"
    and "of_nat a < input_top d \<longleftrightarrow> a < t" and "(level d = 3) = (n = 0)"
    and "tt_base d + 8 * tt_index d (of_nat a) = of_nat (p + 8 * (a div 2 ^ block_log2 n mod 2 ^ nb))"
proof -
  have d: "unat (size_log2 d) = block_log2 n" "unat (nbits d) = nb" "n \<le> 3" "nb \<le> 9" "tt_base d = of_nat p"
      "input_top d = of_nat t" "level d = of_nat (3 - n)" "t < 2 ^ 48"
    using assms(1) unat_of_nat_small [of "block_log2 n", where 'a = 32] unat_of_nat_small [of nb, where 'a = 32]
    by (simp_all add: tab_desc_def)
  show "tt_block_size d = 2 ^ block_log2 n" by (simp add: tt_block_size_def d(1) push_bit_eq_mult)
  have m: "(push_bit nb 1 - 1 :: u64) = mask nb" by (simp add: mask_eq_exp_minus_1 push_bit_eq_mult)
  show i: "tt_index d (of_nat a) = of_nat (a div 2 ^ block_log2 n mod 2 ^ nb)"
    unfolding tt_index_def d(1,2) m word_and_mask_eq_take_bit
    using assms(2) by (simp add: drop_bit_of_nat64 take_bit_of_nat flip: take_bit_eq_mod)
  show "of_nat a < input_top d \<longleftrightarrow> a < t"
    using assms(2) d(8) by (simp add: d(6) word_less_nat_alt unat_of_nat_small)
  show "(level d = 3) = (n = 0)"
    using d(3) unfolding d(7) by (auto simp: le_Suc_eq numeral_3_eq_3)
  show "tt_base d + 8 * tt_index d (of_nat a) = of_nat (p + 8 * (a div 2 ^ block_log2 n mod 2 ^ nb))"
    by (simp add: i d(5))
qed

lemma write_desc_simps [simp]:
  "pgt_mem (write_desc a v s) = st64 (pgt_mem s) a v" "page_size (write_desc a v s) = page_size s"
  "acs_pgt_info (write_desc a v s) = acs_pgt_info s" "offset (write_desc a v s) = offset s"
  "pgt_cfg (write_desc a v s) = pgt_cfg s" "heap_ok lo hi (pal (write_desc a v s)) = heap_ok lo hi (pal s)"
  by (simp_all add: write_desc_def pgt_cfg_def heap_ok_def)

lemma increment_simps [simp]:
  "pal (increment_pgt_index l k s) = pal s" "pgt_cfg (increment_pgt_index l k s) = pgt_cfg s"
  "page_size (increment_pgt_index l k s) = page_size s" "offset (increment_pgt_index l k s) = offset s"
  by (simp_all add: increment_pgt_index_def pgt_cfg_def Let_def)

lemma offset_update_simps [simp]:
  "pgt_cfg (s\<lparr>offset := x\<rparr>) = pgt_cfg s"
  by (simp add: pgt_cfg_def)

lemma write_leaf_simps [simp]:
  "pgt_mem (write_leaf d td v attr s) = st64 (pgt_mem s) td (v OR attr OR 0x400)"
  "pgt_cfg (write_leaf d td v attr s) = pgt_cfg s" "offset (write_leaf d td v attr s) = 0"
  "heap_ok lo hi (pal (write_leaf d td v attr s)) = heap_ok lo hi (pal s)"
  by (simp_all add: write_leaf_def Let_def)

lemma write_leaf_l3:
  assumes "pgt_cfg s"
  shows "unat (l3_index (acs_pgt_info (write_leaf d td v attr s))) =
    (if level d \<noteq> 3 then unat (l3_index (acs_pgt_info s))
     else if unat (l3_index (acs_pgt_info s)) = 511 then 0
     else unat (l3_index (acs_pgt_info s) + 1))"
  using assms by (auto simp: write_leaf_def Let_def increment_pgt_index_def get_entries_per_level_def pgt_cfg_def word_unat_eq_iff)

text \<open>A new table comes from the heap and is empty.\<close>

lemma alloc_page:
  assumes "heap_ok lo hi p" and "lo + 12288 \<le> hi"
  defines "m \<equiv> \<lambda>q. pal_mem_set (ram p) (of_nat q) 0x1000 0"
  obtains q lo' where "pal_mem_alloc_pages 1 p = (p\<lparr>heap_base := of_nat lo'\<rparr>, of_nat q)" and "lo \<le> q" and "q + 4096 \<le> lo'"
    and "lo' \<le> lo + 12288" and "4096 dvd q" and "heap_ok lo' hi (p\<lparr>heap_base := of_nat lo', ram := m q\<rparr>)" and "(of_nat q :: u64) \<noteq> 0"
    and "\<forall>x<2 ^ 64. m q (of_nat x) = (if q \<le> x \<and> x < q + 4096 then 0 else ram p (of_nat x))"
    and "\<forall>i<512. ld64 (m q) (of_nat (q + 8 * i)) = 0"
proof -
  define q where "q = align_up lo (2 ^ 12)"
  have q: "lo \<le> q" "q < lo + 4096" "4096 dvd q" using align_up_bounds [of "2 ^ 12" lo] by (simp_all add: q_def)
  have h: "0 < lo" "hi \<le> 2 ^ 63" using assms(1) by (simp_all add: heap_ok_def)
  have "mem_alloc (2 ^ 12) (of_nat 4096) p = (p\<lparr>heap_base := of_nat (q + 4096 + 2 ^ 12 - 1)\<rparr>, of_nat q)"
    using mem_alloc_bump [OF assms(1), of 12 4096] q assms(2) by (simp add: q_def Let_def)
  then have "pal_mem_alloc_pages 1 p = (p\<lparr>heap_base := of_nat (q + 8191)\<rparr>, of_nat q)"
    by (simp add: pal_mem_alloc_pages_def)
  moreover have "heap_ok (q + 8191) hi (p\<lparr>heap_base := of_nat (q + 8191), ram := m q\<rparr>)"
    using assms(1,2) q by (simp add: heap_ok_def)
  moreover have "(of_nat q :: u64) \<noteq> 0"
    using q h assms(2) unat_of_nat_small [of q, where 'a = 64] by auto
  moreover have m: "m q (of_nat x) = (if q \<le> x \<and> x < q + 4096 then 0 else ram p (of_nat x))" if "x < 2 ^ 64" for x
    using that q h assms(2) by (auto simp: m_def pal_mem_set_at unat_diff_of_nat)
  moreover have "ld64 (m q) (of_nat (q + 8 * i)) = 0" if "i < 512" for i
  proof -
    have "ld64 (m q) (of_nat (q + 8 * i)) = ld64 (\<lambda>_. 0) (of_nat (q + 8 * i))"
      using that q h assms(2) by (intro ld64_agree) (simp add: m)
    then show ?thesis by (simp add: ld64_def ld32_def)
  qed
  ultimately show ?thesis using that [of "q + 8191" q] q by simp
qed

section \<open>Walks and memory\<close>

text \<open>The tables below a descriptor on the way to an address lie in a region of memory.\<close>

primrec safe :: "nat \<Rightarrow> nat \<Rightarrow> nat \<Rightarrow> memory \<Rightarrow> u64 \<Rightarrow> u64 \<Rightarrow> bool" where
  "safe 0 lo hi m e va = True"
| "safe (Suc n) lo hi m e va =
     (bit e 0 \<and> bit e 1 \<longrightarrow> lo \<le> unat (table_addr e) \<and> unat (table_addr e) + 4096 \<le> hi \<and>
        safe n lo hi m (ld64 m (table_addr e + 8 * take_bit 9 (drop_bit (block_log2 n) va))) va)"

lemma safe_mono: "safe n lo hi m e va \<Longrightarrow> lo' \<le> lo \<Longrightarrow> hi \<le> hi' \<Longrightarrow> safe n lo' hi' m e va"
  by (induction n arbitrary: e) auto

lemma table_cell:
  fixes x va :: u64
  obtains i where "i < 512" and "x + 8 * take_bit 9 va = of_nat (unat x + 8 * i)"
proof
  show "unat (take_bit 9 va) < 512" using unat_take_bit_less [of 9 va] by simp
  show "x + 8 * take_bit 9 va = of_nat (unat x + 8 * unat (take_bit 9 va))" by simp
qed

lemma safe_agree:
  assumes "safe n lo hi m e va" and "\<And>x. lo \<le> x \<Longrightarrow> x < hi \<Longrightarrow> m' (of_nat x) = m (of_nat x)"
  shows "safe n lo hi m' e va \<and> desc_walk n m' e va = desc_walk n m e va"
  using assms(1)
proof (induction n arbitrary: e)
  case 0
  then show ?case by simp
next
  case (Suc n)
  have "ld64 m' (table_addr e + 8 * take_bit 9 (drop_bit (block_log2 n) va)) =
      ld64 m (table_addr e + 8 * take_bit 9 (drop_bit (block_log2 n) va))" if "bit e 0 \<and> bit e 1"
  proof -
    obtain i where i: "i < 512"
      "table_addr e + 8 * take_bit 9 (drop_bit (block_log2 n) va) = of_nat (unat (table_addr e) + 8 * i)"
      by (rule table_cell)
    show ?thesis unfolding i(2) using Suc.prems that i(1) by (intro ld64_agree assms(2)) auto
  qed
  then show ?case using Suc.IH Suc.prems by (auto simp del: of_nat_add)
qed

lemma cell_store:
  assumes "p + 4096 \<le> 2 ^ 64" and "i < 512" and "j < 512"
  shows "ld64 (st64 m (of_nat (p + 8 * i)) v) (of_nat (p + 8 * j)) = (if i = j then v else ld64 m (of_nat (p + 8 * j)))"
proof (cases "i = j")
  case True
  then show ?thesis by (simp add: c64.ld_st_same)
next
  case False
  then have "p + 8 * i + 8 \<le> p + 8 * j \<or> p + 8 * j + 8 \<le> p + 8 * i" by linarith
  then show ?thesis using assms False ld_st_at(1) [of "p + 8 * i" 8 "p + 8 * j" 8 m v] by simp
qed

section \<open>What filling a table does\<close>

text \<open>The region from \<open>a\<close> to \<open>t\<close> goes to \<open>b\<close>. The entries it touches are those of the blocks from that of \<open>a\<close> to that
  of \<open>t\<close>. New tables come from the heap between \<open>lo\<close> and \<open>lo'\<close>.\<close>

definition region_result :: "nat \<Rightarrow> nat \<Rightarrow> nat \<Rightarrow> u64 \<Rightarrow> nat \<Rightarrow> (u64 \<times> u64) option" where
  "region_result a b t attr va = (if a \<le> va \<and> va \<le> t then Some (of_nat (b + (va - a)), attr OR 0x400) else None)"

definition fill_mem :: "nat \<Rightarrow> nat \<Rightarrow> nat \<Rightarrow> u64 \<Rightarrow> nat \<Rightarrow> nat \<Rightarrow> nat \<Rightarrow> nat \<Rightarrow> nat \<Rightarrow> memory \<Rightarrow> memory \<Rightarrow> bool" where
  "fill_mem n nb p attr a b t lo lo' m m' \<longleftrightarrow>
     (\<forall>va. a div 2 ^ block_log2 n \<le> va div 2 ^ block_log2 n \<longrightarrow> va div 2 ^ block_log2 n \<le> t div 2 ^ block_log2 n \<longrightarrow>
        (let e = ld64 m' (of_nat (p + 8 * (va div 2 ^ block_log2 n mod 2 ^ nb)))
         in safe n lo lo' m' e (of_nat va) \<and> desc_walk n m' e (of_nat va) = region_result a b t attr va)) \<and>
     (\<forall>x<lo. (\<forall>v. a div 2 ^ block_log2 n \<le> v \<longrightarrow> v \<le> t div 2 ^ block_log2 n \<longrightarrow>
            x < p + 8 * (v mod 2 ^ nb) \<or> p + 8 * (v mod 2 ^ nb) + 8 \<le> x) \<longrightarrow> m' (of_nat x) = m (of_nat x))"

definition fill_ok :: "nat \<Rightarrow> nat \<Rightarrow> nat \<Rightarrow> u64 \<Rightarrow> nat \<Rightarrow> nat \<Rightarrow> nat \<Rightarrow> nat \<Rightarrow> nat \<Rightarrow> nat \<Rightarrow> pgt_state \<Rightarrow> pgt_state \<Rightarrow> bool" where
  "fill_ok n nb p attr a b t lo lo' hi s s' \<longleftrightarrow> pgt_cfg s' \<and> heap_ok lo' hi (pal s') \<and> lo \<le> lo' \<and> offset s' = 0 \<and>
     fill_mem n nb p attr a b t lo lo' (pgt_mem s) (pgt_mem s')"

text \<open>The effect on the entry of the block of \<open>a\<close> alone.\<close>

definition entry_done :: "nat \<Rightarrow> nat \<Rightarrow> nat \<Rightarrow> u64 \<Rightarrow> nat \<Rightarrow> nat \<Rightarrow> nat \<Rightarrow> nat \<Rightarrow> nat \<Rightarrow> memory \<Rightarrow> memory \<Rightarrow> bool" where
  "entry_done n nb p attr a b t lo lo' m m' \<longleftrightarrow>
     (let k = p + 8 * (a div 2 ^ block_log2 n mod 2 ^ nb); e = ld64 m' (of_nat k) in
      (\<forall>va. va div 2 ^ block_log2 n = a div 2 ^ block_log2 n \<longrightarrow>
         safe n lo lo' m' e (of_nat va) \<and> desc_walk n m' e (of_nat va) = region_result a b t attr va) \<and>
      (\<forall>x<lo. x < k \<or> k + 8 \<le> x \<longrightarrow> m' (of_nat x) = m (of_nat x)))"

lemma entry_fills:
  assumes "entry_done n nb p attr a b t lo lo' m m'" and "t div 2 ^ block_log2 n = a div 2 ^ block_log2 n"
  shows "fill_mem n nb p attr a b t lo lo' m m'"
  unfolding fill_mem_def
proof (intro conjI allI impI)
  fix va assume "a div 2 ^ block_log2 n \<le> va div 2 ^ block_log2 n" "va div 2 ^ block_log2 n \<le> t div 2 ^ block_log2 n"
  then have "va div 2 ^ block_log2 n = a div 2 ^ block_log2 n" using assms(2) by simp
  then show "let e = ld64 m' (of_nat (p + 8 * (va div 2 ^ block_log2 n mod 2 ^ nb))) in
      safe n lo lo' m' e (of_nat va) \<and> desc_walk n m' e (of_nat va) = region_result a b t attr va"
    using assms(1) by (simp add: entry_done_def Let_def)
next
  fix x assume "x < lo" and "\<forall>v. a div 2 ^ block_log2 n \<le> v \<longrightarrow> v \<le> t div 2 ^ block_log2 n \<longrightarrow>
    x < p + 8 * (v mod 2 ^ nb) \<or> p + 8 * (v mod 2 ^ nb) + 8 \<le> x"
  then show "m' (of_nat x) = m (of_nat x)" using assms unfolding entry_done_def Let_def by (metis order_refl)
qed

lemma index_less: "nb \<le> 9 \<Longrightarrow> v mod 2 ^ nb < (512 :: nat)"
  using power_increasing [of nb 9 "2 :: nat"] by (intro order_less_le_trans [OF mod_less_divisor]) auto

lemma entry_other_cell:
  assumes "entry_done n nb p attr a b t lo lo' m m'" and "a div 2 ^ block_log2 n mod 2 ^ nb \<noteq> v mod 2 ^ nb"
    and "p + 4096 \<le> lo" and "nb \<le> 9"
  shows "ld64 m' (of_nat (p + 8 * (v mod 2 ^ nb))) = ld64 m (of_nat (p + 8 * (v mod 2 ^ nb)))"
proof (rule ld64_agree)
  fix y assume y: "p + 8 * (v mod 2 ^ nb) \<le> y" "y < p + 8 * (v mod 2 ^ nb) + 8"
  have frame: "\<forall>x<lo. x < p + 8 * (a div 2 ^ block_log2 n mod 2 ^ nb) \<or> p + 8 * (a div 2 ^ block_log2 n mod 2 ^ nb) + 8 \<le> x \<longrightarrow>
      m' (of_nat x) = m (of_nat x)"
    using assms(1) unfolding entry_done_def Let_def by blast
  have "y < p + 8 * (a div 2 ^ block_log2 n mod 2 ^ nb) \<or> p + 8 * (a div 2 ^ block_log2 n mod 2 ^ nb) + 8 \<le> y"
    using y assms(2) by linarith
  moreover have "y < lo" using y index_less [OF assms(4), of v] assms(3) by linarith
  ultimately show "m' (of_nat y) = m (of_nat y)" using frame by blast
qed

lemma region_shift:
  assumes "B dvd a" and "(a + B) div B \<le> va div B" and "0 < (B::nat)"
  shows "region_result (a + B) (b + B) t attr va = region_result a b t attr va"
proof -
  have "a + B \<le> va" using assms by (metis dvd_add_triv_right_iff dvd_div_mult_self div_times_less_eq_dividend le_trans mult_le_mono1)
  then show ?thesis by (simp add: region_result_def)
qed

lemma mod_distinct:
  fixes v w k :: nat
  assumes "v < w" and "w < v + k"
  shows "v mod k \<noteq> w mod k"
proof
  assume "v mod k = w mod k"
  then have "k dvd w - v" using assms(1) by (metis mod_eq_dvd_iff_nat nless_le)
  then show False using assms by (auto dest: dvd_imp_le)
qed

lemma fill_step:
  assumes first: "entry_done n nb p attr a b t lo lo1 m m1"
    and rest: "fill_mem n nb p attr (a + 2 ^ block_log2 n) (b + 2 ^ block_log2 n) t lo1 lo' m1 m'"
    and al: "2 ^ block_log2 n dvd a" and "lo \<le> lo1" and "lo1 \<le> lo'" and p: "p + 4096 \<le> lo" and "nb \<le> 9"
    and few: "t div 2 ^ block_log2 n < a div 2 ^ block_log2 n + 2 ^ nb" and "a \<le> t"
  shows "fill_mem n nb p attr a b t lo lo' m m'"
proof -
  define B :: nat where "B = 2 ^ block_log2 n"
  have B: "0 < B" by (simp add: B_def)
  have next_block: "(a + B) div B = a div B + 1" using div_add_self2 [of B a] B by simp
  have nb: "(2::nat) ^ nb \<le> 512" using assms(7) power_increasing [of nb 9 "2 :: nat"] by simp
  have idx: "v mod 2 ^ nb < 512" for v :: nat
    using nb by (intro order_less_le_trans [OF mod_less_divisor]) auto
  note F = first [unfolded entry_done_def Let_def, folded B_def] and R = rest [unfolded fill_mem_def Let_def, folded B_def]
  let ?k = "p + 8 * (a div B mod 2 ^ nb)"
  have off: "x < p + 8 * (v mod 2 ^ nb) \<or> p + 8 * (v mod 2 ^ nb) + 8 \<le> x"
    if x: "?k \<le> x" "x < ?k + 8" and "(a + B) div B \<le> v" "v \<le> t div B" for x v
  proof -
    have "a div B mod 2 ^ nb \<noteq> v mod 2 ^ nb"
      using that few next_block by (intro mod_distinct) (auto simp: B_def)
    then show ?thesis using x by linarith
  qed
  have keep: "m' (of_nat x) = m1 (of_nat x)" if "?k \<le> x" "x < ?k + 8" for x
    using R off [OF that] that idx [of "a div B"] p \<open>lo \<le> lo1\<close> by auto
  have cell: "ld64 m' (of_nat ?k) = ld64 m1 (of_nat ?k)"
    using keep by (intro ld64_agree) auto
  have low: "m' (of_nat x) = m1 (of_nat x)" if "lo \<le> x" "x < lo1" for x
  proof -
    have "p + 8 * (v mod 2 ^ nb) + 8 \<le> x" for v using idx [of v] p that(1) by linarith
    then show ?thesis using R that(2) by blast
  qed
  show ?thesis unfolding fill_mem_def B_def [symmetric] Let_def
  proof (intro conjI allI impI)
    fix va assume va: "a div B \<le> va div B" "va div B \<le> t div B"
    let ?e = "ld64 m' (of_nat (p + 8 * (va div B mod 2 ^ nb)))"
    have "safe n lo lo' m' ?e (of_nat va) \<and> desc_walk n m' ?e (of_nat va) = region_result a b t attr va"
    proof (cases "va div B = a div B")
      case True
      have s1: "safe n lo lo1 m1 (ld64 m1 (of_nat ?k)) (of_nat va)"
        "desc_walk n m1 (ld64 m1 (of_nat ?k)) (of_nat va) = region_result a b t attr va" using F True by auto
      show ?thesis unfolding True cell
        using safe_agree [OF s1(1), of m'] low s1(2) safe_mono [OF _ order_refl \<open>lo1 \<le> lo'\<close>] by auto
    next
      case False
      then have "(a + B) div B \<le> va div B" using va next_block by simp
      then show ?thesis using R va(2) region_shift [OF al [folded B_def], of va b t attr] B safe_mono [OF _ \<open>lo \<le> lo1\<close> order_refl]
        by auto
    qed
    then show "safe n lo lo' m' ?e (of_nat va)" "desc_walk n m' ?e (of_nat va) = region_result a b t attr va" by blast+
  next
    fix x assume x: "x < lo" and out: "\<forall>v. a div B \<le> v \<longrightarrow> v \<le> t div B \<longrightarrow> x < p + 8 * (v mod 2 ^ nb) \<or> p + 8 * (v mod 2 ^ nb) + 8 \<le> x"
    show "m' (of_nat x) = m (of_nat x)"
    proof (cases "?k \<le> x \<and> x < ?k + 8")
      case True
      then show ?thesis using out div_le_mono [OF \<open>a \<le> t\<close>, of B] by fastforce
    next
      case False
      then have "m1 (of_nat x) = m (of_nat x)" using F x by auto
      moreover have "m' (of_nat x) = m1 (of_nat x)" using R x \<open>lo \<le> lo1\<close> out next_block by auto
      ultimately show ?thesis by simp
    qed
  qed
qed

section \<open>Pages and blocks\<close>

lemma leaf_entry:
  assumes "2 ^ block_log2 n dvd a" and "2 ^ block_log2 n dvd b" and "b < 2 ^ 48" and "attr_ok attr" and "n \<le> 3"
    and "a + 2 ^ block_log2 n - 1 \<le> t" and "p + 4096 \<le> lo" and "lo \<le> 2 ^ 63" and "nb \<le> 9"
  shows "entry_done n nb p attr a b t lo lo m (st64 m (of_nat (p + 8 * (a div 2 ^ block_log2 n mod 2 ^ nb))) (leaf_desc n attr b))"
proof -
  define B :: nat where "B = 2 ^ block_log2 n"
  have B: "0 < B" by (simp add: B_def)
  let ?k = "p + 8 * (a div B mod 2 ^ nb)" and ?e = "leaf_desc n attr b"
  have k: "?k + 8 \<le> 2 ^ 64" using index_less [OF assms(9), of "a div B"] assms(7,8) by simp
  have walk: "desc_walk n m' ?e (of_nat va) = region_result a b t attr va \<and> safe n lo lo m' ?e (of_nat va)"
    if "va div B = a div B" for m' va
  proof -
    have a: "a = va div B * B" using assms(1) that by (metis B_def dvd_div_mult_self)
    then have "a \<le> va" "va - a = va mod B" by (simp_all add: div_times_less_eq_dividend minus_div_mult_eq_mod)
    moreover have "va mod B < B" using B by simp
    ultimately have "region_result a b t attr va = Some (of_nat (b + va mod B), attr OR 0x400)"
      using assms(6) by (simp add: region_result_def B_def [symmetric])
    moreover have "desc_walk n m' ?e (of_nat va) = Some (of_nat (b + va mod B), attr OR 0x400)" for m'
      using leaf_desc_walk [OF assms(2-5)] by (simp add: B_def)
    moreover have "safe n lo lo m' ?e (of_nat va)"
    proof (cases n)
      case (Suc j)
      have "\<not> (bit ?e 0 \<and> bit ?e 1)"
      proof
        assume "bit ?e 0 \<and> bit ?e 1"
        then show False
          using leaf_desc_bit1 [OF assms(2-4)] Suc by simp
      qed
      then show ?thesis using Suc by auto
    qed simp
    ultimately show ?thesis by simp
  qed
  show ?thesis unfolding entry_done_def Let_def B_def [symmetric]
    using walk k st64_at [of ?k _ m ?e] assms(8) by (auto simp: c64.ld_st_same simp del: of_nat_add of_nat_mult)
qed

lemma aligned_less:
  assumes "B dvd a" and "B dvd t + 1" and "a \<le> t" and "1 < (B::nat)"
  shows "a + B \<le> t + 1" and "a < t" and "a + B \<noteq> t + 1 \<Longrightarrow> a + B < t"
proof -
  obtain x y where xy: "a = B * x" "t + 1 = B * y" using assms(1,2) by (auto simp: dvd_def)
  have "x < y" using assms(3,4) xy by (metis Suc_eq_plus1 le_imp_less_Suc mult_less_cancel1)
  then have 1: "B * x + B \<le> B * y" by (metis Suc_leI mult_Suc_right add.commute mult_le_mono2)
  then show "a + B \<le> t + 1" using xy by simp
  show "a < t" using 1 xy assms(4) by linarith
  assume ne: "a + B \<noteq> t + 1"
  then have "Suc x \<noteq> y" using xy by auto
  then have "Suc (Suc x) \<le> y" using \<open>x < y\<close> by simp
  then have "B * Suc (Suc x) \<le> B * y" by (rule mult_le_mono2)
  then show "a + B < t" using xy assms(4) by simp
qed

lemma div_aligned_end: "0 < B \<Longrightarrow> B dvd a \<Longrightarrow> a + B = t + 1 \<Longrightarrow> t div B = a div (B::nat)"
proof -
  assume "0 < B" "B dvd a" "a + B = t + 1"
  then have "t = a div B * B + (B - 1)" by (simp add: dvd_div_mult_self)
  then show ?thesis using \<open>0 < B\<close> by (metis diff_less div_less div_mult_self3 less_numeral_extra(1) add_0_right nat_less_le)
qed

lemma fill_loop_end:
  assumes "tab_desc n nb p t d" and "a < 2 ^ 49" and "t \<le> a"
  shows "fill_loop d attr (of_nat a) (of_nat b) s = Some (s, False)"
  using tab_desc_words(3) [OF assms(1,2)] assms(3) by (subst fill_loop.simps) simp

lemma fill_pages:
  assumes "tab_desc 0 nb p t d" and "pgt_cfg s" and "heap_ok lo hi (pal s)" and "p + 4096 \<le> lo" and "attr_ok attr"
    and "4096 dvd a" and "4096 dvd b" and "4096 dvd t + 1" and "a \<le> t" and "b + (t - a) < 2 ^ 48"
    and "t div 4096 < a div 4096 + 2 ^ nb" and "unat (l3_index (acs_pgt_info s)) < 512"
  shows "\<exists>s'. fill_loop d attr (of_nat a) (of_nat b) s = Some (s', False) \<and> fill_ok 0 nb p attr a b t lo lo hi s s' \<and>
    unat (l3_index (acs_pgt_info s')) = (unat (l3_index (acs_pgt_info s)) + (t + 1 - a) div 4096) mod 512"
  using assms(2,3,6,7,9-12)
proof (induction "t - a" arbitrary: a b s rule: less_induct)
  case less
  let ?l3 = "\<lambda>s. unat (l3_index (acs_pgt_info s))"
  note t = assms(1) [unfolded tab_desc_def]
  have nb: "nb \<le> 9" "t < 2 ^ 48" using t by simp_all
  have lo: "lo \<le> 2 ^ 63" using less.prems(2) by (simp add: heap_ok_def)
  note al = aligned_less [OF less.prems(3) assms(8) less.prems(5)]
  have a49: "a < 2 ^ 49" using less.prems(5) nb by simp
  note w = tab_desc_words [OF assms(1) a49]
  define k where "k = p + 8 * (a div 4096 mod 2 ^ nb)"
  define s1 where "s1 = write_leaf d (of_nat k) (3 OR (of_nat b AND NOT (ucast (page_size s - 1)))) attr s"
  have ps: "ucast (page_size s - 1) = (mask 12 :: u64)" using less.prems(1) by (simp add: pgt_cfg_def mask_eq_exp_minus_1)
  have step: "fill_loop d attr (of_nat a) (of_nat b) s = fill_loop d attr (of_nat (a + 4096)) (of_nat (b + 4096)) s1"
    unfolding fill_loop.simps [of d attr "of_nat a"] using w al(2)
    by (simp add: s1_def k_def tab_desc_def)
  have m1: "pgt_mem s1 = st64 (pgt_mem s) (of_nat k) (leaf_desc 0 attr b)"
    unfolding s1_def ps by (simp add: leaf_desc_def or.assoc)
  have s1: "pgt_cfg s1" "heap_ok lo hi (pal s1)" "offset s1 = 0" using less.prems(1,2) by (simp_all add: s1_def)
  have l3: "?l3 s1 = (?l3 s + 1) mod 512"
    using write_leaf_l3 [OF less.prems(1)] less.prems(8) t by (auto simp: s1_def unat_word_ariths)
  have e: "entry_done 0 nb p attr a b t lo lo (pgt_mem s) (pgt_mem s1)"
    unfolding m1 k_def using leaf_entry [of 0 a b attr t p lo nb] less.prems assms(4,5) lo nb al(1) by simp
  show ?case
  proof (cases "a + 4096 = t + 1")
    case True
    have "fill_loop d attr (of_nat (a + 4096)) (of_nat (b + 4096)) s1 = Some (s1, False)"
      using True nb by (intro fill_loop_end [OF assms(1)]) auto
    moreover have "fill_mem 0 nb p attr a b t lo lo (pgt_mem s) (pgt_mem s1)"
      using div_aligned_end [OF _ less.prems(3) True] by (intro entry_fills [OF e]) simp
    ultimately show ?thesis using step s1 l3 True by (auto simp: fill_ok_def)
  next
    case False
    then have lt: "a + 4096 < t" using al(3) by simp
    have d: "(a + 4096) div 4096 = a div 4096 + 1" and dec: "t - (a + 4096) < t - a" using lt by simp_all
    obtain s' where s': "fill_loop d attr (of_nat (a + 4096)) (of_nat (b + 4096)) s1 = Some (s', False)"
      "fill_ok 0 nb p attr (a + 4096) (b + 4096) t lo lo hi s1 s'"
      "?l3 s' = (?l3 s1 + (t + 1 - (a + 4096)) div 4096) mod 512"
      using less.hyps [OF dec, of s1 "b + 4096"] lt s1 less.prems l3 d by auto
    have "fill_mem 0 nb p attr a b t lo lo (pgt_mem s) (pgt_mem s')"
      using fill_step [OF e, of lo "pgt_mem s'"] s'(2) less.prems assms(4) nb by (simp add: fill_ok_def)
    moreover have "(t + 1 - a) div 4096 = 1 + (t + 1 - (a + 4096)) div 4096"
      using lt div_add_self2 [of 4096 "t + 1 - (a + 4096)"] by simp
    ultimately show ?thesis using s' step l3 by (auto simp: fill_ok_def mod_simps)
  qed
qed

section \<open>Entering a table of the next level\<close>

definition table_desc_of :: "nat \<Rightarrow> u64" where
  "table_desc_of q = 3 OR (of_nat q AND NOT (mask 12))"

lemma table_desc_of_fields:
  assumes "4096 dvd q" and "q < 2 ^ 48"
  shows "bit (table_desc_of q) 0" and "bit (table_desc_of q) 1" and "table_addr (table_desc_of q) = of_nat q"
proof -
  have k3: "bit (3 :: u64) i \<longleftrightarrow> i < 2" for i
    using bit_mask_iff [where 'a = "64 word", of 2 i] by (auto simp: mask_eq_exp_minus_1)
  have q: "bit (of_nat q :: u64) i \<Longrightarrow> 12 \<le> i \<and> i < 48" for i using bit_aligned_nat [of 12 q i] assms by simp
  show "bit (table_desc_of q) 0" "bit (table_desc_of q) 1" by (simp_all add: table_desc_of_def bit_or_iff k3)
  show "table_addr (table_desc_of q) = of_nat q"
  proof (rule bit_word_eqI)
    fix i assume "i < LENGTH(64)"
    then show "bit (table_addr (table_desc_of q)) i = bit (of_nat q :: u64) i"
      unfolding table_addr_def table_desc_of_def bit_and_iff bit_or_iff bit_not_iff bit_push_bit_iff bit_mask_iff k3
      using q [of i] by auto
  qed
qed

lemma desc_walk_zero [simp]: "desc_walk n m 0 va = None" "safe n lo hi m 0 va"
  by (cases n; simp)+

text \<open>The region inside the block of \<open>a\<close>, as entries of the table below.\<close>

lemma same_group:
  fixes v w k :: nat
  assumes "v div k = w div k" and "v \<noteq> w"
  shows "v mod k \<noteq> w mod k"
  using assms by (metis div_mult_mod_eq)

lemma filled_walk:
  assumes fm: "fill_mem j nb q attr a b t lo1 lo2 m1 m2" and nb: "nb \<le> 9" and q: "q + 4096 \<le> lo1"
    and zero: "\<And>i. i < 512 \<Longrightarrow> ld64 m1 (of_nat (q + 8 * i)) = 0"
    and grp: "t div 2 ^ block_log2 j div 2 ^ nb = a div 2 ^ block_log2 j div 2 ^ nb"
      "va div 2 ^ block_log2 j div 2 ^ nb = a div 2 ^ block_log2 j div 2 ^ nb"
  defines "c \<equiv> ld64 m2 (of_nat (q + 8 * (va div 2 ^ block_log2 j mod 2 ^ nb)))"
  shows "safe j lo1 lo2 m2 c (of_nat va) \<and> desc_walk j m2 c (of_nat va) = region_result a b t attr va"
proof -
  define B :: nat where "B = 2 ^ block_log2 j"
  define i where "i = va div B mod 2 ^ nb"
  have i: "i < 512" using index_less [OF nb] by (simp add: i_def)
  have c: "c = ld64 m2 (of_nat (q + 8 * i))" by (simp add: c_def i_def B_def)
  show ?thesis
  proof (cases "a div B \<le> va div B \<and> va div B \<le> t div B")
    case True
    then show ?thesis using fm by (simp add: fill_mem_def Let_def B_def [symmetric] i_def c)
  next
    case False
    have "x < q + 8 * (v mod 2 ^ nb) \<or> q + 8 * (v mod 2 ^ nb) + 8 \<le> x"
      if "a div B \<le> v" "v \<le> t div B" "q + 8 * i \<le> x" "x < q + 8 * i + 8" for v x
    proof -
      have "a div B div 2 ^ nb \<le> v div 2 ^ nb" "v div 2 ^ nb \<le> t div B div 2 ^ nb" using that(1,2) by (simp_all add: div_le_mono)
      then have "v div 2 ^ nb = va div B div 2 ^ nb" using grp by (simp add: B_def [symmetric])
      moreover have "v \<noteq> va div B" using False that by auto
      ultimately have "v mod 2 ^ nb \<noteq> i" unfolding i_def by (rule same_group)
      then show ?thesis using that by linarith
    qed
    then have "c = ld64 m1 (of_nat (q + 8 * i))"
      unfolding c using fm q i by (intro ld64_agree) (auto simp: fill_mem_def B_def [symmetric])
    then have "c = 0" using zero [OF i] by simp
    moreover have "\<not> (a \<le> va \<and> va \<le> t)" using False div_le_mono by blast
    ultimately show ?thesis by (simp add: region_result_def)
  qed
qed

lemma table_entry:
  assumes sub: "fill_mem j 9 q attr a b t1 lo1 lo2 m1 m2"
    and zero: "\<And>i. i < 512 \<Longrightarrow> ld64 m1 (of_nat (q + 8 * i)) = 0"
    and q: "4096 dvd q" "q + 4096 \<le> lo1" "lo \<le> q" and lo2: "lo1 \<le> lo2" "lo2 \<le> 2 ^ 48"
    and t1: "a \<le> t1" "t1 div 2 ^ block_log2 (Suc j) = a div 2 ^ block_log2 (Suc j)"
    and k: "k + 8 \<le> lo" and e: "ld64 m4 (of_nat k) = table_desc_of q"
    and m4: "\<And>x. x < 2 ^ 64 \<Longrightarrow> x < k \<or> k + 8 \<le> x \<Longrightarrow> m4 (of_nat x) = m2 (of_nat x)"
    and va: "va div 2 ^ block_log2 (Suc j) = a div 2 ^ block_log2 (Suc j)" "va < 2 ^ 64"
  shows "safe (Suc j) lo lo2 m4 (ld64 m4 (of_nat k)) (of_nat va) \<and>
    desc_walk (Suc j) m4 (ld64 m4 (of_nat k)) (of_nat va) = region_result a b t1 attr va"
proof -
  define B :: nat where "B = 2 ^ block_log2 j"
  have BB: "(2::nat) ^ block_log2 (Suc j) = B * 512" by (simp add: B_def power_add)
  define i where "i = va div B mod 512"
  have i: "i < 512" by (simp add: i_def)
  have idx: "(of_nat q :: u64) + 8 * take_bit 9 (drop_bit (block_log2 j) (of_nat va :: u64)) = of_nat (q + 8 * i)"
    using va(2) take_bit_of_nat [of 9 "va div B", where 'a = "64 word"]
    by (simp add: drop_bit_of_nat64 i_def B_def [symmetric] flip: take_bit_eq_mod) (simp add: take_bit_eq_mod)
  have cell4: "ld64 m4 (of_nat (q + 8 * i)) = ld64 m2 (of_nat (q + 8 * i))"
    using q k i lo2 by (intro ld64_agree m4) auto
  have agree: "m4 (of_nat x) = m2 (of_nat x)" if "lo1 \<le> x" "x < lo2" for x
    using that lo2 q k by (intro m4) auto
  let ?c = "ld64 m2 (of_nat (q + 8 * i))"
  have "safe j lo1 lo2 m2 ?c (of_nat va) \<and> desc_walk j m2 ?c (of_nat va) = region_result a b t1 attr va"
    using filled_walk [OF sub _ q(2) zero, of va] t1(2) va(1) unfolding BB div_mult2_eq by (simp add: i_def B_def [symmetric])
  then have "safe j lo1 lo2 m4 ?c (of_nat va) \<and> desc_walk j m4 ?c (of_nat va) = region_result a b t1 attr va"
    using safe_agree [of j lo1 lo2 m2 ?c "of_nat va" m4] agree by simp
  moreover have "unat (of_nat q :: u64) = q" using q lo2 by (intro unat_of_nat_small) simp
  ultimately show ?thesis
    using table_desc_of_fields [OF q(1)] q lo2 cell4 idx safe_mono [of j lo1 lo2 m4 ?c "of_nat va" lo lo2]
    unfolding e by (simp del: of_nat_add of_nat_mult)
qed

lemma alloc_table:
  assumes "pgt_cfg s" and "heap_ok lo hi (pal s)" and "lo + 12288 \<le> hi" and "ld64 (pgt_mem s) td = 0"
  obtains q lo1 s1 where "next_level_table td s = (s1, Some (of_nat q))" and "lo \<le> q" and "q + 4096 \<le> lo1" and "lo1 \<le> lo + 12288"
    and "4096 dvd q" and "heap_ok lo1 hi (pal s1)" and "pgt_cfg s1" and "acs_pgt_info s1 = acs_pgt_info s"
    and "\<forall>x<2 ^ 64. pgt_mem s1 (of_nat x) = (if q \<le> x \<and> x < q + 4096 then 0 else pgt_mem s (of_nat x))"
    and "\<forall>i<512. ld64 (pgt_mem s1) (of_nat (q + 8 * i)) = 0"
proof -
  define m where "m q = pal_mem_set (pgt_mem s) (of_nat q) 0x1000 0" for q
  obtain q lo1 where q: "pal_mem_alloc_pages 1 (pal s) = ((pal s)\<lparr>heap_base := of_nat lo1\<rparr>, of_nat q)" "lo \<le> q" "q + 4096 \<le> lo1"
    "lo1 \<le> lo + 12288" "4096 dvd q" "heap_ok lo1 hi ((pal s)\<lparr>heap_base := of_nat lo1, ram := m q\<rparr>)" "(of_nat q :: u64) \<noteq> 0"
    "\<forall>x<2 ^ 64. m q (of_nat x) = (if q \<le> x \<and> x < q + 4096 then 0 else pgt_mem s (of_nat x))"
    "\<forall>i<512. ld64 (m q) (of_nat (q + 8 * i)) = 0"
    unfolding m_def by (rule alloc_page [OF assms(2,3)])
  define s1 where "s1 = s\<lparr>pal := (pal s)\<lparr>heap_base := of_nat lo1, ram := m q\<rparr>\<rparr>"
  have "next_level_table td s = (s1, Some (of_nat q))"
    using assms(1,4) q(1,7) by (simp add: next_level_table_def s1_def m_def Let_def pgt_cfg_def)
  moreover have "pgt_cfg s1" "acs_pgt_info s1 = acs_pgt_info s" using assms(1) by (simp_all add: s1_def pgt_cfg_def)
  ultimately show ?thesis using that q by (simp add: s1_def)
qed

text \<open>What the counters say the table below holds already, in bytes.\<close>

definition level_offset :: "nat \<Rightarrow> pgt_state \<Rightarrow> u64" where
  "level_offset j s = ucast (get_pgt_index (of_nat (3 - j)) s) * get_block_size (of_nat (3 - j)) s"

lemma next_level_desc_ok:
  assumes "tab_desc (Suc j) nb p t d" and "pgt_cfg s" and "level_offset j s = of_nat ofs" and "a < t" and "4096 dvd q"
    and "ofs < 2 ^ block_log2 (Suc j)"
  obtains d' s2 where "next_level_desc d (of_nat q) (of_nat a) (of_nat b) s = (d', s2)"
    and "tab_desc j 9 q (min t (a + 2 ^ block_log2 (Suc j) - ofs - 1)) d'" and "input_base d' = of_nat a" and "output_base d' = of_nat b"
    and "pgt_cfg s2" and "pal s2 = pal s" and "init_values s2 = s2"
    and "acs_pgt_info s2 = acs_pgt_info (increment_pgt_index (level d) 512 s)"
proof -
  have d: "j \<le> 2" "level d + 1 = of_nat (3 - j)" "size_log2 d = of_nat (block_log2 (Suc j))" "t < 2 ^ 48" "input_top d = of_nat t"
  proof -
    show "level d + 1 = of_nat (3 - j)" using assms(1) by (auto simp: tab_desc_def le_Suc_eq numeral_3_eq_3)
  qed (use assms(1) in \<open>simp_all add: tab_desc_def\<close>)
  obtain d' s2 where n: "next_level_desc d (of_nat q) (of_nat a) (of_nat b) s = (d', s2)" by fastforce
  have B: "(2::nat) ^ block_log2 (Suc j) \<le> 2 ^ 39" using d(1) by (intro power_increasing) auto
  have s2: "s2 = increment_pgt_index (level d) 512 (s\<lparr>offset := of_nat ofs\<rparr>)"
    using n assms(2,3) d(2) by (simp add: next_level_desc_def Let_def get_entries_per_level_def pgt_cfg_def level_offset_def)
  have blk: "tt_block_size d = of_nat (2 ^ block_log2 (Suc j))" using tab_desc_words(1) [OF assms(1), of 0] by simp
  have "of_nat a + tt_block_size d - of_nat ofs - 1 = (of_nat (a + 2 ^ block_log2 (Suc j) - ofs - 1) :: u64)"
    unfolding blk using assms(6) by (simp add: of_nat_diff Suc_leI)
  then have top: "input_top d' = min (of_nat t) (of_nat (a + 2 ^ block_log2 (Suc j) - ofs - 1))"
    using n assms(3) d(2,5) by (auto simp: next_level_desc_def Let_def level_offset_def)
  have "input_top d' = of_nat (min t (a + 2 ^ block_log2 (Suc j) - ofs - 1))"
    unfolding top using assms(4) d(4) B
    by (auto simp: min_def word_le_nat_alt unat_of_nat_small simp del: of_nat_diff)
  moreover have "size_log2 d' = of_nat (block_log2 j)"
    using n assms(2) d(3) by (auto simp: next_level_desc_def Let_def pgt_cfg_def)
  moreover have "tt_base d' = of_nat q" "input_base d' = of_nat a" "output_base d' = of_nat b" "level d' = of_nat (3 - j)" "nbits d' = 9"
    using n assms(2) d(2) by (auto simp: next_level_desc_def Let_def pgt_cfg_def)
  ultimately have "tab_desc j 9 q (min t (a + 2 ^ block_log2 (Suc j) - ofs - 1)) d'"
    using d(1,4) assms(5) by (auto simp: tab_desc_def min_def)
  moreover have "acs_pgt_info s2 = acs_pgt_info (increment_pgt_index (level d) 512 s)"
    unfolding s2 by (simp add: increment_pgt_index_def Let_def)
  moreover have "pgt_cfg s2" "pal s2 = pal s" using assms(2) by (simp_all add: s2)
  moreover have "init_values s2 = s2" using \<open>pgt_cfg s2\<close> by (simp add: init_values_def pgt_cfg_def)
  ultimately show ?thesis using that [OF n] \<open>input_base d' = of_nat a\<close> \<open>output_base d' = of_nat b\<close> by blast
qed

text \<open>One round of the loop that goes through a new table, given what the call for that table does.\<close>

lemma enter_table:
  fixes Q :: "nat \<Rightarrow> acs_pgt_t \<Rightarrow> bool"
  assumes d: "tab_desc (Suc j) nb p t d" and cfg: "pgt_cfg s" and heap: "heap_ok lo hi (pal s)" "lo + 12288 \<le> hi" "hi \<le> 2 ^ 48"
    and p: "p + 4096 \<le> lo" and a: "a < t" and blk: "\<not> block_eligible d (of_nat a) (of_nat b)"
    and zero: "ld64 (pgt_mem s) (of_nat (p + 8 * (a div 2 ^ block_log2 (Suc j) mod 2 ^ nb))) = 0"
    and idx: "level_offset j s = of_nat ofs" "ofs < 2 ^ block_log2 (Suc j)"
    and te: "te = min t (a + 2 ^ block_log2 (Suc j) - ofs - 1)" "te div 2 ^ block_log2 (Suc j) = a div 2 ^ block_log2 (Suc j)"
    and sub: "\<And>q lo1 d' s1. tab_desc j 9 q te d' \<Longrightarrow> pgt_cfg s1 \<Longrightarrow> heap_ok lo1 hi (pal s1) \<Longrightarrow> q + 4096 \<le> lo1 \<Longrightarrow> lo1 \<le> lo + 12288 \<Longrightarrow>
      (\<And>i. i < 512 \<Longrightarrow> ld64 (pgt_mem s1) (of_nat (q + 8 * i)) = 0) \<Longrightarrow>
      acs_pgt_info s1 = acs_pgt_info (increment_pgt_index (level d) 512 s) \<Longrightarrow>
      \<exists>s2 lo2. fill_loop d' attr (of_nat a) (of_nat b) s1 = Some (s2, False) \<and> fill_ok j 9 q attr a b te lo1 lo2 hi s1 s2 \<and>
        Q lo2 (acs_pgt_info s2)"
  shows "\<exists>s4 lo2. fill_loop d attr (of_nat a) (of_nat b) s =
      fill_loop d attr (of_nat (a + 2 ^ block_log2 (Suc j))) (of_nat (b + 2 ^ block_log2 (Suc j))) s4 \<and>
    pgt_cfg s4 \<and> heap_ok lo2 hi (pal s4) \<and> lo \<le> lo2 \<and> offset s4 = 0 \<and> Q lo2 (acs_pgt_info s4) \<and>
    entry_done (Suc j) nb p attr a b te lo lo2 (pgt_mem s) (pgt_mem s4)"
proof -
  define k where "k = p + 8 * (a div 2 ^ block_log2 (Suc j) mod 2 ^ nb)"
  have lims: "nb \<le> 9" "t < 2 ^ 48" using d by (simp_all add: tab_desc_def)
  have k: "k + 8 \<le> lo" using index_less [OF lims(1), of "a div 2 ^ block_log2 (Suc j)"] p by (simp add: k_def)
  obtain q lo1 s1 where q: "next_level_table (of_nat k) s = (s1, Some (of_nat q))" "lo \<le> q" "q + 4096 \<le> lo1" "lo1 \<le> lo + 12288"
      "4096 dvd q" "heap_ok lo1 hi (pal s1)" "pgt_cfg s1" "acs_pgt_info s1 = acs_pgt_info s"
    and m1: "\<forall>x<2 ^ 64. pgt_mem s1 (of_nat x) = (if q \<le> x \<and> x < q + 4096 then 0 else pgt_mem s (of_nat x))"
    and empty1: "\<forall>i<512. ld64 (pgt_mem s1) (of_nat (q + 8 * i)) = 0"
    by (rule alloc_table [OF cfg heap(1,2) zero [folded k_def]])
  have "level_offset j s1 = of_nat ofs"
    using idx(1) q(7) cfg unfolding level_offset_def get_pgt_index_def get_block_size_def pgt_cfg_def q(8) by simp
  then obtain d' s2 where n: "next_level_desc d (of_nat q) (of_nat a) (of_nat b) s1 = (d', s2)" "tab_desc j 9 q te d'"
      "input_base d' = of_nat a" "output_base d' = of_nat b" "pgt_cfg s2" "pal s2 = pal s1" "init_values s2 = s2"
      "acs_pgt_info s2 = acs_pgt_info (increment_pgt_index (level d) 512 s1)"
    unfolding te(1) by (rule next_level_desc_ok [OF d q(7) _ a q(5) idx(2), of b]) auto
  have info: "acs_pgt_info s2 = acs_pgt_info (increment_pgt_index (level d) 512 s)"
    using n(8) q(8) by (simp add: increment_pgt_index_def Let_def)
  have empty: "ld64 (pgt_mem s2) (of_nat (q + 8 * i)) = 0" if "i < 512" for i using empty1 that n(6) by simp
  obtain s3 lo2 where s3: "fill_loop d' attr (of_nat a) (of_nat b) s2 = Some (s3, False)" "fill_ok j 9 q attr a b te lo1 lo2 hi s2 s3"
      "Q lo2 (acs_pgt_info s3)"
    using sub [OF n(2,5) _ q(3,4) empty info] q(6) n(6) by auto
  then have ok: "pgt_cfg s3" "heap_ok lo2 hi (pal s3)" "lo1 \<le> lo2" "offset s3 = 0"
    and fm: "fill_mem j 9 q attr a b te lo1 lo2 (pgt_mem s2) (pgt_mem s3)" by (simp_all add: fill_ok_def)
  define s4 where "s4 = write_desc (of_nat k) (table_desc_of q) s3"
  have ps: "ucast (page_size s3 - 1) = (mask 12 :: u64)" using ok(1) by (simp add: pgt_cfg_def mask_eq_exp_minus_1)
  have a49: "a < 2 ^ 49" using a lims by simp
  note w = tab_desc_words [OF d a49]
  have td: "tt_base d + 8 * tt_index d (of_nat a) = of_nat k" unfolding k_def by (rule w(5))
  have blk_size: "of_nat (x + 2 ^ block_log2 (Suc j)) = (of_nat x + tt_block_size d :: u64)" for x by (simp add: w(1))
  have run: "fill_loop d attr (of_nat a) (of_nat b) s =
      fill_loop d attr (of_nat (a + 2 ^ block_log2 (Suc j))) (of_nat (b + 2 ^ block_log2 (Suc j))) s4"
    unfolding fill_loop.simps [of d attr "of_nat a"] td blk_size using w(3,4) a blk q(1) n s3(1) ok(4)
    by (simp add: Let_def s4_def pal_mem_virt_to_phys_def ps table_desc_of_def)
  have hi2: "lo2 \<le> 2 ^ 48" using ok(2) heap(3) by (simp add: heap_ok_def)
  have m4: "pgt_mem s4 (of_nat x) = pgt_mem s3 (of_nat x)" if "x < 2 ^ 64" "x < k \<or> k + 8 \<le> x" for x
    using that k hi2 ok(3) q(2,3) by (auto simp: s4_def intro!: st64_at)
  have cell: "ld64 (pgt_mem s4) (of_nat k) = table_desc_of q" by (simp add: s4_def c64.ld_st_same)
  have walk: "safe (Suc j) lo lo2 (pgt_mem s4) (ld64 (pgt_mem s4) (of_nat k)) (of_nat va) \<and>
      desc_walk (Suc j) (pgt_mem s4) (ld64 (pgt_mem s4) (of_nat k)) (of_nat va) = region_result a b te attr va"
    if va: "va div 2 ^ block_log2 (Suc j) = a div 2 ^ block_log2 (Suc j)" for va
  proof -
    have B: "(a + 2 ^ block_log2 (Suc j)) div 2 ^ block_log2 (Suc j) = a div 2 ^ block_log2 (Suc j) + 1"
      by (rule div_add_self2) simp
    have "va < a + 2 ^ block_log2 (Suc j)"
      using div_le_mono [of "a + 2 ^ block_log2 (Suc j)" va "2 ^ block_log2 (Suc j)"] va B by linarith
    then have "va < 2 ^ 64"
      using a49 d power_increasing [of "block_log2 (Suc j)" 39 "2 :: nat"] by (auto simp: tab_desc_def)
    moreover have "a \<le> te" using te(1) a idx(2) by linarith
    ultimately show ?thesis
      using table_entry [OF fm empty q(5,3,2) ok(3) hi2 _ te(2) k cell m4 va] by simp
  qed
  have "pgt_mem s4 (of_nat x) = pgt_mem s (of_nat x)" if "x < lo" "x < k \<or> k + 8 \<le> x" for x
  proof -
    have "x < lo1" "x < 2 ^ 64" "\<not> (q \<le> x)" using that(1) q(2,3) ok(3) hi2 by simp_all
    moreover have "x < q + 8 * v \<or> q + 8 * v + 8 \<le> x" for v using that q(2) by linarith
    ultimately show ?thesis using fm m1 m4 that n(6) by (simp add: fill_mem_def)
  qed
  then have "entry_done (Suc j) nb p attr a b te lo lo2 (pgt_mem s) (pgt_mem s4)"
    using walk unfolding entry_done_def Let_def k_def [symmetric] by blast
  then show ?thesis using run ok s3(3) q(2,3) by (intro exI [of _ s4] exI [of _ lo2]) (simp add: s4_def)
qed

lemma div_close: "x div c = y div c \<Longrightarrow> 0 < (c::nat) \<Longrightarrow> x < y + c"
proof -
  assume e: "x div c = y div c" and c: "0 < c"
  have "x = x div c * c + x mod c" "y = y div c * c + y mod c" by simp_all
  moreover have "x mod c < c" using c by simp
  ultimately show ?thesis unfolding e by linarith
qed

lemma entry_done_top:
  assumes "entry_done n nb p attr a b te lo lo' m m'" and "te = min t (a + 2 ^ block_log2 n - 1)"
  shows "entry_done n nb p attr a b t lo lo' m m'"
proof -
  have "region_result a b te attr va = region_result a b t attr va" if "va div 2 ^ block_log2 n = a div 2 ^ block_log2 n" for va
    using div_close [OF that] assms(2) by (auto simp: region_result_def)
  then show ?thesis using assms(1) by (simp add: entry_done_def)
qed

lemma div_in_block:
  assumes "B dvd a" and "a \<le> v" and "v < a + (B::nat)"
  shows "v div B = a div B"
proof -
  obtain x where "a = B * x" using assms(1) by blast
  then show ?thesis using assms(2,3) by (intro div_nat_eqI) (auto simp: algebra_simps)
qed

lemma and_mask_dvd:
  assumes "x < 2 ^ 64" and "(of_nat x :: u64) AND mask k = 0"
  shows "2 ^ k dvd x"
proof -
  have "take_bit k (of_nat x :: u64) = 0" using assms(2) by (simp add: take_bit_eq_mask)
  then have "unat (take_bit k (of_nat x :: u64)) = 0" by simp
  then show ?thesis unfolding unat_take_bit_mod using assms(1) by (simp add: unat_of_nat_small mod_eq_0_iff_dvd)
qed

lemma eligible_nat:
  assumes "tab_desc n nb p t d" and "block_eligible d (of_nat a) (of_nat b)" and "a < 2 ^ 49" and "b < 2 ^ 49"
  shows "2 ^ block_log2 n dvd a" and "2 ^ block_log2 n dvd b" and "a + 2 ^ block_log2 n - 1 \<le> t"
proof -
  have d: "n \<le> 3" "t < 2 ^ 48" "input_top d = of_nat t" using assms(1) by (simp_all add: tab_desc_def)
  note w = tab_desc_words(1) [OF assms(1,3)]
  have m: "tt_block_size d - 1 = (mask (block_log2 n) :: u64)" using w by (simp add: mask_eq_exp_minus_1)
  show "2 ^ block_log2 n dvd a" "2 ^ block_log2 n dvd b"
    using assms(2-4) by (auto simp only: block_eligible_def m intro!: and_mask_dvd) simp_all
  have B: "(2::nat) ^ block_log2 n \<le> 2 ^ 39" using d(1) by (intro power_increasing) auto
  have "of_nat a + tt_block_size d - 1 = (of_nat (a + 2 ^ block_log2 n - 1) :: u64)" using w by (simp add: of_nat_diff Suc_leI)
  then have "(of_nat (a + 2 ^ block_log2 n - 1) :: u64) \<le> of_nat t"
    using assms(2) d by (simp add: block_eligible_def)
  then show "a + 2 ^ block_log2 n - 1 \<le> t"
    using assms(3) d B by (simp add: word_le_nat_alt unat_of_nat_small del: of_nat_diff)
qed

text \<open>The first block of a region, at level 2: as a block descriptor or through a table of pages.\<close>

lemma first_block:
  assumes d: "tab_desc 1 nb p t d" and cfg: "pgt_cfg s" and heap: "heap_ok lo hi (pal s)" "lo + 12288 \<le> hi" "hi \<le> 2 ^ 48"
    and p: "p + 4096 \<le> lo" and attr: "attr_ok attr" and al: "4096 dvd a" "4096 dvd b" "4096 dvd t + 1" and a: "a \<le> t"
    and b: "b + (t - a) < 2 ^ 48" and l3: "l3_index (acs_pgt_info s) = 0"
    and zero: "ld64 (pgt_mem s) (of_nat (p + 8 * (a div 2 ^ 21 mod 2 ^ nb))) = 0"
    and reg: "2 ^ 21 dvd a \<or> t div 2 ^ 21 = a div 2 ^ 21"
  shows "\<exists>s4 lo2. fill_loop d attr (of_nat a) (of_nat b) s = fill_loop d attr (of_nat (a + 2 ^ 21)) (of_nat (b + 2 ^ 21)) s4 \<and>
    pgt_cfg s4 \<and> heap_ok lo2 hi (pal s4) \<and> lo \<le> lo2 \<and> offset s4 = 0 \<and>
    (lo2 \<le> lo + 12288 \<and> (a + 2 ^ 21 \<le> t \<longrightarrow> l3_index (acs_pgt_info s4) = 0)) \<and>
    entry_done 1 nb p attr a b t lo lo2 (pgt_mem s) (pgt_mem s4)"
proof -
  have lims: "nb \<le> 9" "t < 2 ^ 48" "level d = 2" using d by (simp_all add: tab_desc_def)
  have lt: "a < t" using aligned_less(2) [OF al(1,3) a] by simp
  have a49: "a < 2 ^ 49" using a lims by simp
  note w = tab_desc_words [OF d a49]
  show ?thesis
  proof (cases "block_eligible d (of_nat a) (of_nat b)")
    case True
    have m: "tt_block_size d - 1 = (mask 21 :: u64)" using w(1) by (simp add: mask_eq_exp_minus_1)
    have "2 ^ 21 dvd a" "2 ^ 21 dvd b" "a + 2 ^ 21 - 1 \<le> t"
      using eligible_nat [OF d True] a49 b by simp_all
    then have e: "entry_done 1 nb p attr a b t lo lo (pgt_mem s)
        (st64 (pgt_mem s) (of_nat (p + 8 * (a div 2 ^ 21 mod 2 ^ nb))) (leaf_desc 1 attr b))"
      using leaf_entry [of 1 a b attr t p lo nb "pgt_mem s"] b p lims heap attr by (simp add: heap_ok_def)
    define s1 where "s1 = write_leaf d (of_nat (p + 8 * (a div 2 ^ 21 mod 2 ^ nb))) (1 OR (of_nat b AND NOT (mask 21))) attr s"
    have td: "tt_base d + 8 * tt_index d (of_nat a) = of_nat (p + 8 * (a div 2 ^ 21 mod 2 ^ nb))" using w(5) by simp
    have "fill_loop d attr (of_nat a) (of_nat b) s = fill_loop d attr (of_nat (a + 2 ^ 21)) (of_nat (b + 2 ^ 21)) s1"
      unfolding fill_loop.simps [of d attr "of_nat a"] td m using w(1,3,4) lt True by (simp add: s1_def del: of_nat_add of_nat_mult) simp
    moreover have "pgt_mem s1 = st64 (pgt_mem s) (of_nat (p + 8 * (a div 2 ^ 21 mod 2 ^ nb))) (leaf_desc 1 attr b)"
      by (simp add: s1_def leaf_desc_def or.assoc)
    moreover have "unat (l3_index (acs_pgt_info s1)) = 0" unfolding s1_def write_leaf_l3 [OF cfg] using l3 lims(3) by simp
    then have "l3_index (acs_pgt_info s1) = 0" by (simp only: unsigned_eq_0_iff)
    ultimately show ?thesis using e cfg heap(1) by (intro exI [of _ s1] exI [of _ lo]) (simp add: s1_def)
  next
    case False
    define t1 where "t1 = min t (a + 2 ^ 21 - 1)"
    have t1: "4096 dvd t1 + 1" "a \<le> t1" "t1 < a + 2 ^ 21" "t1 \<le> t" using al a by (auto simp: t1_def min_def)
    have t1d: "t1 div 2 ^ 21 = a div 2 ^ 21"
    proof (cases "t < a + 2 ^ 21")
      case True
      then show ?thesis using reg a div_in_block [of "2 ^ 21" a t] by (auto simp: t1_def min_def)
    next
      case False
      then have "t div 2 ^ 21 \<noteq> a div 2 ^ 21" using div_le_mono [of "a + 2 ^ 21" t "2 ^ 21"] by simp
      then show ?thesis using reg False div_in_block [of "2 ^ 21" a t1] t1 by auto
    qed
    have "\<exists>s4 lo2. fill_loop d attr (of_nat a) (of_nat b) s =
        fill_loop d attr (of_nat (a + 2 ^ block_log2 (Suc 0))) (of_nat (b + 2 ^ block_log2 (Suc 0))) s4 \<and>
      pgt_cfg s4 \<and> heap_ok lo2 hi (pal s4) \<and> lo \<le> lo2 \<and> offset s4 = 0 \<and>
      (lo2 \<le> lo + 12288 \<and> (a + 2 ^ 21 \<le> t \<longrightarrow> l3_index (acs_pgt_info s4) = 0)) \<and>
      entry_done (Suc 0) nb p attr a b t1 lo lo2 (pgt_mem s) (pgt_mem s4)"
    proof (rule enter_table [of 0, where ofs = 0 and Q = "\<lambda>lo2 i. lo2 \<le> lo + 12288 \<and> (a + 2 ^ 21 \<le> t \<longrightarrow> l3_index i = 0)" and te = t1])
      fix q lo1 d' s1
      assume A: "tab_desc 0 9 q t1 d'" "pgt_cfg s1" "heap_ok lo1 hi (pal s1)" "q + 4096 \<le> lo1" "lo1 \<le> lo + 12288"
        "acs_pgt_info s1 = acs_pgt_info (increment_pgt_index (level d) 512 s)"
      have l: "l3_index (acs_pgt_info s1) = 0" using A(6) l3 lims(3) by (simp add: increment_pgt_index_def Let_def)
      have "t1 div 4096 < a div 4096 + 2 ^ 9" using t1(3) al(1) by (auto simp: dvd_def)
      moreover have "b + (t1 - a) < 2 ^ 48" using b t1(4) by linarith
      ultimately obtain s2 where s2: "fill_loop d' attr (of_nat a) (of_nat b) s1 = Some (s2, False)"
          "fill_ok 0 9 q attr a b t1 lo1 lo1 hi s1 s2" "unat (l3_index (acs_pgt_info s2)) = (0 + (t1 + 1 - a) div 4096) mod 512"
        using fill_pages [OF A(1-4) attr al(1,2) t1(1,2)] l by auto
      have "l3_index (acs_pgt_info s2) = 0" if "a + 2 ^ 21 \<le> t"
        using s2(3) that by (simp add: t1_def min_def word_unat_eq_iff)
      then show "\<exists>s2 lo2. fill_loop d' attr (of_nat a) (of_nat b) s1 = Some (s2, False) \<and> fill_ok 0 9 q attr a b t1 lo1 lo2 hi s1 s2 \<and>
          (lo2 \<le> lo + 12288 \<and> (a + 2 ^ 21 \<le> t \<longrightarrow> l3_index (acs_pgt_info s2) = 0))"
        using s2 A(5) by auto
    qed (use d cfg heap p lt False zero l3 t1d in \<open>simp_all add: t1_def get_pgt_index_def level_offset_def\<close>)
    moreover have "entry_done 1 nb p attr a b t lo lo2 (pgt_mem s) m4"
      if "entry_done (Suc 0) nb p attr a b t1 lo lo2 (pgt_mem s) m4" for lo2 m4
      using entry_done_top [OF that, of t] by (simp add: t1_def)
    ultimately show ?thesis by fastforce
  qed
qed

text \<open>The bytes of new tables for the blocks from that of \<open>a\<close> to that of \<open>t\<close>.\<close>

definition table_room :: "nat \<Rightarrow> nat \<Rightarrow> nat" where
  "table_room a t = 12288 * (t div 2 ^ 21 - a div 2 ^ 21 + 1)"

lemma fill_blocks:
  assumes d: "tab_desc 1 nb p t d" and hi: "hi \<le> 2 ^ 48" and attr: "attr_ok attr" and t: "4096 dvd t + 1"
    and "pgt_cfg s" and "heap_ok lo hi (pal s)" and "lo + table_room a t \<le> hi" and "p + 4096 \<le> lo"
    and "4096 dvd a" and "4096 dvd b" and "a \<le> t" and "b + (t - a) < 2 ^ 48" and "l3_index (acs_pgt_info s) = 0"
    and "\<And>v. a div 2 ^ 21 \<le> v \<Longrightarrow> v \<le> t div 2 ^ 21 \<Longrightarrow> ld64 (pgt_mem s) (of_nat (p + 8 * (v mod 2 ^ nb))) = 0"
    and "2 ^ 21 dvd a \<or> t div 2 ^ 21 = a div 2 ^ 21" and "t div 2 ^ 21 < a div 2 ^ 21 + 2 ^ nb"
  shows "\<exists>s' lo'. fill_loop d attr (of_nat a) (of_nat b) s = Some (s', False) \<and> fill_ok 1 nb p attr a b t lo lo' hi s s' \<and>
    lo' \<le> lo + table_room a t"
  using assms(5-)
proof (induction "t - a" arbitrary: a b s lo rule: less_induct)
  case less
  have lims: "nb \<le> 9" "t < 2 ^ 48" using d by (simp_all add: tab_desc_def)
  have room: "lo + 12288 \<le> hi" using less.prems(3) by (simp add: table_room_def)
  have nxt: "(a + 2 ^ 21) div 2 ^ 21 = a div 2 ^ 21 + 1" by simp
  obtain s4 lo2 where run: "fill_loop d attr (of_nat a) (of_nat b) s = fill_loop d attr (of_nat (a + 2 ^ 21)) (of_nat (b + 2 ^ 21)) s4"
    and s4: "pgt_cfg s4" "heap_ok lo2 hi (pal s4)" "lo \<le> lo2" "offset s4 = 0" "lo2 \<le> lo + 12288"
      "a + 2 ^ 21 \<le> t \<Longrightarrow> l3_index (acs_pgt_info s4) = 0"
    and e: "entry_done 1 nb p attr a b t lo lo2 (pgt_mem s) (pgt_mem s4)"
    using first_block [OF d less.prems(1,2) room hi less.prems(4) attr less.prems(5,6) t less.prems(7-9) less.prems(10) less.prems(11)]
      div_le_mono [OF less.prems(7)] by blast
  show ?case
  proof (cases "t < a + 2 ^ 21")
    case True
    then have "t div 2 ^ 21 = a div 2 ^ 21" using less.prems(7,11) div_in_block [of "2 ^ 21" a t] by auto
    then have "fill_mem 1 nb p attr a b t lo lo2 (pgt_mem s) (pgt_mem s4)" "table_room a t = 12288"
      using entry_fills [OF e] by (simp_all add: table_room_def)
    moreover have "fill_loop d attr (of_nat (a + 2 ^ 21)) (of_nat (b + 2 ^ 21)) s4 = Some (s4, False)"
      using True less.prems(7) lims by (intro fill_loop_end [OF d]) auto
    ultimately show ?thesis using run s4 by (intro exI [of _ s4] exI [of _ lo2]) (simp add: fill_ok_def)
  next
    case False
    then have le: "a + 2 ^ 21 \<le> t" and dec: "t - (a + 2 ^ 21) < t - a" by simp_all
    have blocks: "a div 2 ^ 21 + 1 \<le> t div 2 ^ 21" using div_le_mono [OF le, of "2 ^ 21"] nxt by simp
    then have al: "2 ^ 21 dvd a" using less.prems(11) by auto
    have "12288 * (y - x + 1) = 12288 + 12288 * (y - (x + 1) + 1)" if "x + 1 \<le> y" for x y :: nat
      using that by (auto simp: le_iff_add)
    then have rm: "table_room a t = 12288 + table_room (a + 2 ^ 21) t" unfolding table_room_def nxt using blocks .
    have z: "ld64 (pgt_mem s4) (of_nat (p + 8 * (v mod 2 ^ nb))) = 0" if "(a + 2 ^ 21) div 2 ^ 21 \<le> v" "v \<le> t div 2 ^ 21" for v
    proof -
      have "a div 2 ^ 21 mod 2 ^ nb \<noteq> v mod 2 ^ nb" using that nxt less.prems(12) by (intro mod_distinct) auto
      then have "ld64 (pgt_mem s4) (of_nat (p + 8 * (v mod 2 ^ nb))) = ld64 (pgt_mem s) (of_nat (p + 8 * (v mod 2 ^ nb)))"
        using less.prems(4) lims(1) by (intro entry_other_cell [OF e]) auto
      then show ?thesis using less.prems(10) that nxt by simp
    qed
    have bb: "b + 2 ^ 21 + (t - (a + 2 ^ 21)) < 2 ^ 48" using less.prems(8) le by simp
    obtain s' lo' where s': "fill_loop d attr (of_nat (a + 2 ^ 21)) (of_nat (b + 2 ^ 21)) s4 = Some (s', False)"
        "fill_ok 1 nb p attr (a + 2 ^ 21) (b + 2 ^ 21) t lo2 lo' hi s4 s'" "lo' \<le> lo2 + table_room (a + 2 ^ 21) t"
      using less.hyps [OF dec s4(1,2) _ _ _ _ le bb s4(6) [OF le] z] less.prems(3-8,12) s4(3,5) le al rm nxt by auto
    have "fill_mem 1 nb p attr a b t lo lo' (pgt_mem s) (pgt_mem s')"
      using fill_step [OF e, of lo' "pgt_mem s'"] s'(2) s4(3) al less.prems(4,7,12) lims by (simp add: fill_ok_def)
    then show ?thesis using run s' s4(3,5) rm by (intro exI [of _ s'] exI [of _ lo']) (auto simp: fill_ok_def)
  qed
qed

section \<open>A region inside one gigabyte\<close>

definition indices_zero :: "acs_pgt_t \<Rightarrow> bool" where
  "indices_zero i \<longleftrightarrow> l1_index i = 0 \<and> l2_index i = 0 \<and> l3_index i = 0"

lemma div_coarser: "a div (c::nat) = t div c \<Longrightarrow> c dvd B \<Longrightarrow> a div B = t div B"
  by (metis div_mult2_eq dvd_def)

lemma fill_region:
  assumes t: "4096 dvd t + 1" and hi: "hi \<le> 2 ^ 48" and attr: "attr_ok attr" and al: "4096 dvd a" "4096 dvd b" and at: "a \<le> t"
    and b: "b + (t - a) < 2 ^ 48" and gb: "t div 2 ^ 30 = a div 2 ^ 30" "t - a + 1 < 2 ^ 30"
    and reg: "2 ^ 21 dvd a \<or> t div 2 ^ 21 = a div 2 ^ 21"
    and d: "tab_desc (Suc k) nb p t d" and cfg: "pgt_cfg s" and heap: "heap_ok lo hi (pal s)" "lo + 12288 * k + table_room a t \<le> hi"
    and p: "p + 4096 \<le> lo" and idx: "indices_zero (acs_pgt_info s)" and few: "k = 0 \<Longrightarrow> t div 2 ^ 21 < a div 2 ^ 21 + 2 ^ nb"
    and zero: "\<And>v. a div 2 ^ block_log2 (Suc k) \<le> v \<Longrightarrow> v \<le> t div 2 ^ block_log2 (Suc k) \<Longrightarrow>
      ld64 (pgt_mem s) (of_nat (p + 8 * (v mod 2 ^ nb))) = 0"
  shows "\<exists>s' lo'. fill_loop d attr (of_nat a) (of_nat b) s = Some (s', False) \<and> fill_ok (Suc k) nb p attr a b t lo lo' hi s s' \<and>
    lo' \<le> lo + 12288 * k + table_room a t"
  using d cfg heap p idx few zero
proof (induction k arbitrary: nb p d s lo)
  case 0
  have z: "ld64 (pgt_mem s) (of_nat (p + 8 * (v mod 2 ^ nb))) = 0" if "a div 2 ^ 21 \<le> v" "v \<le> t div 2 ^ 21" for v
    using 0(8) [of v] that by simp
  show ?case
    using fill_blocks [OF _ hi attr t 0(2,3) _ 0(5) al at b _ z reg] 0(1,4,6,7) by (simp add: indices_zero_def)
next
  case (Suc k)
  define B :: nat where "B = 2 ^ block_log2 (Suc (Suc k))"
  have dvB: "2 ^ 30 dvd B" unfolding B_def by (rule le_imp_power_dvd) simp
  have B: "2 ^ 30 \<le> B" using dvB by (intro dvd_imp_le) (simp_all add: B_def)
  have tB: "t div B = a div B" using div_coarser [OF gb(1) [symmetric] dvB] by simp
  have lims: "nb \<le> 9" "t < 2 ^ 48" "level d = of_nat (1 - k)" "k \<le> 1" using Suc.prems(1) by (simp_all add: tab_desc_def)
  have a49: "a < 2 ^ 49" and b49: "b < 2 ^ 49" using at lims b by simp_all
  have lt: "a < t" using aligned_less(2) [OF al(1) t at] by simp
  have te: "t = min t (a + 2 ^ block_log2 (Suc (Suc k)) - 0 - 1)" unfolding B_def [symmetric] using gb(2) B by (simp add: min_def)
  have blk: "\<not> block_eligible d (of_nat a) (of_nat b)"
    using eligible_nat(3) [OF Suc.prems(1) _ a49 b49] gb(2) B unfolding B_def [symmetric] by fastforce
  have same: "acs_pgt_info (increment_pgt_index (level d) 512 s) = acs_pgt_info s"
    using Suc.prems(6) lims(3,4) by (auto simp: increment_pgt_index_def indices_zero_def Let_def le_Suc_eq)
  have ix: "level_offset (Suc k) s = of_nat 0"
    using Suc.prems(6) lims(4) by (auto simp: level_offset_def get_pgt_index_def indices_zero_def le_Suc_eq)
  have few9: "t div 2 ^ 21 < a div 2 ^ 21 + 2 ^ 9"
  proof -
    have "t div 2 ^ 21 div 2 ^ 9 = a div 2 ^ 21 div 2 ^ 9" using gb(1) by (simp flip: div_mult2_eq)
    then show ?thesis by (rule div_close) simp
  qed
  have "\<exists>s4 lo2. fill_loop d attr (of_nat a) (of_nat b) s =
      fill_loop d attr (of_nat (a + 2 ^ block_log2 (Suc (Suc k)))) (of_nat (b + 2 ^ block_log2 (Suc (Suc k)))) s4 \<and>
    pgt_cfg s4 \<and> heap_ok lo2 hi (pal s4) \<and> lo \<le> lo2 \<and> offset s4 = 0 \<and> lo2 \<le> lo + 12288 * Suc k + table_room a t \<and>
    entry_done (Suc (Suc k)) nb p attr a b t lo lo2 (pgt_mem s) (pgt_mem s4)"
  proof (rule enter_table [where ofs = 0 and te = t and Q = "\<lambda>lo2 _. lo2 \<le> lo + 12288 * Suc k + table_room a t"])
    fix q lo1 d' s1
    assume A: "tab_desc (Suc k) 9 q t d'" "pgt_cfg s1" "heap_ok lo1 hi (pal s1)" "q + 4096 \<le> lo1" "lo1 \<le> lo + 12288"
      "\<And>i. i < 512 \<Longrightarrow> ld64 (pgt_mem s1) (of_nat (q + 8 * i)) = 0"
      "acs_pgt_info s1 = acs_pgt_info (increment_pgt_index (level d) 512 s)"
    have "\<exists>s' lo'. fill_loop d' attr (of_nat a) (of_nat b) s1 = Some (s', False) \<and> fill_ok (Suc k) 9 q attr a b t lo1 lo' hi s1 s' \<and>
        lo' \<le> lo1 + 12288 * k + table_room a t"
      using A Suc.prems(4,6) same few9 index_less [of 9] by (intro Suc.IH) auto
    then show "\<exists>s2 lo2. fill_loop d' attr (of_nat a) (of_nat b) s1 = Some (s2, False) \<and> fill_ok (Suc k) 9 q attr a b t lo1 lo2 hi s1 s2 \<and>
        lo2 \<le> lo + 12288 * Suc k + table_room a t"
      using A(5) by fastforce
  qed (use Suc.prems te blk hi lt ix tB in \<open>auto simp: B_def table_room_def\<close>)
  then obtain s4 lo2 where s4: "fill_loop d attr (of_nat a) (of_nat b) s = fill_loop d attr (of_nat (a + B)) (of_nat (b + B)) s4"
      "pgt_cfg s4" "heap_ok lo2 hi (pal s4)" "lo \<le> lo2" "offset s4 = 0" "lo2 \<le> lo + 12288 * Suc k + table_room a t"
      "entry_done (Suc (Suc k)) nb p attr a b t lo lo2 (pgt_mem s) (pgt_mem s4)"
    unfolding B_def by blast
  have "B \<le> 2 ^ 39" unfolding B_def using lims(4) by (intro power_increasing) auto
  then have "fill_loop d attr (of_nat (a + B)) (of_nat (b + B)) s4 = Some (s4, False)"
    using gb(2) B lims at by (intro fill_loop_end [OF Suc.prems(1)]) auto
  moreover have "fill_mem (Suc (Suc k)) nb p attr a b t lo lo2 (pgt_mem s) (pgt_mem s4)"
    using entry_fills [OF s4(7)] tB by (simp add: B_def)
  ultimately show ?case using s4 by (auto simp: fill_ok_def)
qed

lemma fill_in_gigabyte:
  assumes t: "4096 dvd t + 1" and hi: "hi \<le> 2 ^ 48" and attr: "attr_ok attr" and al: "4096 dvd a" "4096 dvd b" and at: "a \<le> t"
    and b: "b + (t - a) < 2 ^ 48" and gb: "t div 2 ^ 30 = a div 2 ^ 30" "t - a + 1 < 2 ^ 30"
    and reg: "2 ^ 21 dvd a \<or> t div 2 ^ 21 = a div 2 ^ 21"
    and d: "tab_desc n nb p t d" and cfg: "pgt_cfg s" and heap: "heap_ok lo hi (pal s)" "lo + 12288 * 514 \<le> hi"
    and p: "p + 4096 \<le> lo" and idx: "indices_zero (acs_pgt_info s)"
    and nb: "nb \<le> 9" "ia = block_log2 n + nb" and n: "1 \<le> n" and ia: "t < 2 ^ ia"
    and empty: "\<forall>i<512. ld64 (pgt_mem s) (of_nat (p + 8 * i)) = 0"
  shows "\<exists>s' lo'. fill_loop d attr (of_nat a) (of_nat b) s = Some (s', False) \<and> fill_ok n nb p attr a b t lo lo' hi s s'"
proof -
  obtain k where k: "n = Suc k" using n by (cases n) auto
  have k2: "k \<le> 2" using d k by (simp add: tab_desc_def)
  have few: "t div 2 ^ 21 < a div 2 ^ 21 + 2 ^ nb" if "k = 0"
  proof -
    have "t < 2 ^ nb * 2 ^ 21" using that ia nb(2) k by (simp add: power_add mult.commute)
    then have "t div 2 ^ 21 < 2 ^ nb" by (rule less_mult_imp_div_less)
    then show ?thesis by linarith
  qed
  have "t div 2 ^ 21 div 2 ^ 9 = a div 2 ^ 21 div 2 ^ 9" using gb(1) by (simp flip: div_mult2_eq)
  then have "t div 2 ^ 21 < a div 2 ^ 21 + 2 ^ 9" by (rule div_close) simp
  then have "table_room a t \<le> 12288 * 512" by (simp add: table_room_def)
  moreover have "12288 * k \<le> 12288 * 2" using k2 by simp
  ultimately have room: "lo + 12288 * k + table_room a t \<le> hi" using heap(2) by linarith
  show ?thesis
    using fill_region [OF t hi attr al at b gb reg d [unfolded k] cfg heap(1) room p idx few] empty index_less [OF nb(1)]
    unfolding k by auto
qed

section \<open>Creating a hierarchy for one region\<close>

lemma pgt_log2_4k: "pgt_log2_page_size 0x1000 = 12"
  by (simp add: pgt_log2_page_size_def pgt_log2_loop.simps)

lemma set_page_size_4k:
  "page_size (set_page_size s) = 0x1000" "bits_per_level (set_page_size s) = 9" "pal (set_page_size s) = pal s"
  "acs_pgt_info (set_page_size s) = acs_pgt_info s" "is_values_init (set_page_size s) = is_values_init s"
  by (simp_all add: set_page_size_def pal_mem_page_size_def pgt_log2_4k)

lemma levels_4k:
  assumes "22 \<le> ia" and "ia \<le> 48"
  shows "num_pgt_levels (of_nat ia) 12 9 = of_nat (Suc (levels_below ia))" and "1 \<le> levels_below ia" and "levels_below ia \<le> 3"
    and "block_log2 (levels_below ia) < ia" and "ia \<le> block_log2 (levels_below ia) + 9"
proof -
  have "(of_nat ia - 12 + 9 - 1 :: u32) = of_nat (ia - 4)" using assms(1) by (simp add: of_nat_diff)
  then have "num_pgt_levels (of_nat ia) 12 9 = (of_nat (ia - 4) :: u32) div of_nat 9" by (simp add: num_pgt_levels_def)
  also have "\<dots> = of_nat ((ia - 4) div 9)"
  proof -
    have "(of_nat x div of_nat 9 :: u32) = of_nat (x div 9)" if "x < 2 ^ 32" for x
      using that order_le_less_trans [OF div_le_dividend that] by (simp add: word_unat_eq_iff unat_div unat_of_nat_small)
    moreover have "ia - 4 < 2 ^ 32" using assms by simp
    ultimately show ?thesis by blast
  qed
  also have "(ia - 4) div 9 = Suc (levels_below ia)" using assms by (simp add: levels_below_def)
  finally show "num_pgt_levels (of_nat ia) 12 9 = of_nat (Suc (levels_below ia))" .
  show "1 \<le> levels_below ia" "levels_below ia \<le> 3" "block_log2 (levels_below ia) < ia" "ia \<le> block_log2 (levels_below ia) + 9"
    using assms by (auto simp: levels_below_def)
qed

text \<open>A region as natural numbers, with the conditions under which it is mapped as asked.\<close>

definition region_fits :: "nat \<Rightarrow> nat \<Rightarrow> memory_region_descriptor_t \<Rightarrow> bool" where
  "region_fits ia oa r \<longleftrightarrow>
     (let a = unat (virtual_address r); b = unat (physical_address r); l = unat (region_length r) in
      0 < l \<and> 4096 dvd a \<and> 4096 dvd b \<and> 4096 dvd l \<and> a + l \<le> 2 ^ ia \<and> b + l \<le> 2 ^ oa \<and> attr_ok (attributes r))"

definition region_simple :: "memory_region_descriptor_t \<Rightarrow> bool" where
  "region_simple r \<longleftrightarrow>
     (let a = unat (virtual_address r); t = a + unat (region_length r) - 1 in
      t div 2 ^ 30 = a div 2 ^ 30 \<and> t - a + 1 < 2 ^ 30 \<and> (2 ^ 21 dvd a \<or> t div 2 ^ 21 = a div 2 ^ 21))"

lemma below_power:
  assumes "unat (x :: u64) < 2 ^ k" and "k \<le> 48"
  shows "\<not> push_bit k 1 \<le> x" and "x AND (push_bit k 1 - 1) = x"
proof -
  have p: "(push_bit k 1 :: u64) = 2 ^ k" by (simp add: push_bit_eq_mult)
  have u: "unat (2 ^ k :: u64) = 2 ^ k" using assms(2) by (intro unat_exp) simp
  show "\<not> push_bit k 1 \<le> x" unfolding p word_le_nat_alt u using assms(1) by simp
  have "take_bit k x = x" using assms(1) by (simp add: word_unat_eq_iff unat_take_bit_mod)
  then show "x AND (push_bit k 1 - 1) = x" by (simp add: p take_bit_eq_mask mask_eq_exp_minus_1)
qed

lemma page_aligned: "4096 dvd unat (x :: u64) \<Longrightarrow> x AND 0xFFF = 0"
proof -
  assume "4096 dvd unat x"
  then have "take_bit 12 x = 0" by (simp add: word_unat_eq_iff unat_take_bit_mod)
  then show ?thesis by (simp add: take_bit_eq_mask mask_eq_exp_minus_1)
qed

text \<open>Creation for one region into a new first table: what it takes from the call that fills the table.\<close>

lemma create_loop_fill:
  assumes ia: "22 \<le> ia" "ia \<le> 48" and oa: "oa \<le> 48" and pgt: "ias pgt = of_nat ia" "oas pgt = of_nat oa"
    and r: "region_fits ia oa r" and z: "region_length z = 0" and s: "page_size s = 0x1000" "bits_per_level s = 9" and p: "4096 dvd p"
  defines "t \<equiv> unat (virtual_address r) + unat (region_length r) - 1"
  shows "\<exists>d. tab_desc (levels_below ia) (ia - block_log2 (levels_below ia)) p t d \<and>
    (\<forall>s'. fill_loop d (attributes r) (virtual_address r) (physical_address r) (init_values s) = Some (s', False) \<longrightarrow>
      create_loop pgt (of_nat (Suc (levels_below ia))) 12 (of_nat p) r (r # z # zs) s = Some (s', r, False))"
proof -
  define n where "n = levels_below ia"
  define nb where "nb = ia - block_log2 n"
  note lv = levels_4k(2-5) [OF ia, folded n_def]
  have R: "0 < unat (region_length r)" "4096 dvd unat (virtual_address r)" "4096 dvd unat (physical_address r)"
      "unat (virtual_address r) + unat (region_length r) \<le> 2 ^ ia" "unat (physical_address r) + unat (region_length r) \<le> 2 ^ oa"
    using r by (simp_all add: region_fits_def Let_def)
  have t1: "t + 1 = unat (virtual_address r) + unat (region_length r)" using R(1) by (simp add: t_def)
  have "(2::nat) ^ ia \<le> 2 ^ 48" using ia by (intro power_increasing) auto
  then have t: "t < 2 ^ 48" using t1 R(4) by simp
  have "(of_nat (t + 1) :: u64) = virtual_address r + region_length r" unfolding t1 by simp
  then have top: "virtual_address r + region_length r - 1 = of_nat t" by (simp add: diff_eq_eq add.commute)
  define d where "d = \<lparr>tt_base = of_nat p, input_base = virtual_address r, input_top = virtual_address r + region_length r - 1,
    output_base = physical_address r, level = 4 - of_nat (Suc n), size_log2 = (of_nat (Suc n) - 1) * 9 + 12,
    nbits = of_nat ia - ((of_nat (Suc n) - 1) * 9 + 12)\<rparr>"
  have "4 - of_nat (Suc n) = (of_nat (3 - n) :: u32)" using lv(2) by (simp add: of_nat_diff)
  moreover have "(of_nat (Suc n) - 1) * 9 + 12 = (of_nat (block_log2 n) :: u32)" by simp
  moreover have "of_nat ia - of_nat (block_log2 n) = (of_nat nb :: u32)" using lv(3) by (simp add: nb_def of_nat_diff)
  ultimately have "tab_desc n nb p t d"
    using lv p t top by (simp add: tab_desc_def d_def nb_def algebra_simps)
  moreover have "create_loop pgt (of_nat (Suc n)) 12 (of_nat p) r (r # z # zs) s = Some (s', r, False)"
    if "fill_loop d (attributes r) (virtual_address r) (physical_address r) (init_values s) = Some (s', False)" for s'
  proof -
    have va: "unat (virtual_address r) < 2 ^ ia" "unat (physical_address r) < 2 ^ oa" using R by simp_all
    have "unat (ias pgt) = ia" "unat (oas pgt) = oa" using ia oa by (simp_all add: pgt unat_of_nat_small)
    then show ?thesis
      using that z R(1) below_power [OF va(1) ia(2)] below_power [OF va(2) oa] page_aligned [OF R(2)] page_aligned [OF R(3)]
      by (auto simp: s pgt(1) fill_translation_table_def d_def Let_def)
  qed
  ultimately show ?thesis by (auto simp: n_def nb_def)
qed

declare create_loop.simps [simp del]

lemma create_fill:
  assumes ia: "22 \<le> ia" "ia \<le> 48" and oa: "oa \<le> 48" and pgt: "ias pgt = of_nat ia" "oas pgt = of_nat oa" "pgt_base pgt = 0"
    and r: "region_fits ia oa r" and z: "region_length z = 0" and heap: "heap_ok lo hi (pal s)" "lo + 12288 \<le> hi"
  defines "t \<equiv> unat (virtual_address r) + unat (region_length r) - 1"
  obtains p lo1 d s0 where "tab_desc (levels_below ia) (ia - block_log2 (levels_below ia)) p t d" and "pgt_cfg s0" and "heap_ok lo1 hi (pal s0)"
    and "lo \<le> p" and "p + 4096 \<le> lo1" and "lo1 \<le> lo + 12288" and "(of_nat p :: u64) \<noteq> 0"
    and "acs_pgt_info s0 = acs_pgt_info (init_values s)"
    and "\<forall>x<2 ^ 64. pgt_mem s0 (of_nat x) = (if p \<le> x \<and> x < p + 4096 then 0 else pgt_mem s (of_nat x))"
    and "\<forall>i<512. ld64 (pgt_mem s0) (of_nat (p + 8 * i)) = 0"
    and "\<forall>s'. fill_loop d (attributes r) (virtual_address r) (physical_address r) s0 = Some (s', False) \<longrightarrow>
      val_pgt_create (r # z # zs) pgt s = Some (s', pgt\<lparr>pgt_base := of_nat p\<rparr>, r, 0)"
proof -
  define s1 where "s1 = set_page_size s"
  define m where "m p = pal_mem_set (pgt_mem s1) (of_nat p) 0x1000 0" for p
  have m_s: "pgt_mem s1 = pgt_mem s" by (simp add: s1_def set_page_size_4k)
  have h1: "heap_ok lo hi (pal s1)" using heap by (simp add: s1_def set_page_size_4k)
  obtain p lo1 where p: "pal_mem_alloc_pages 1 (pal s1) = ((pal s1)\<lparr>heap_base := of_nat lo1\<rparr>, of_nat p)" "lo \<le> p" "p + 4096 \<le> lo1"
    "lo1 \<le> lo + 12288" "4096 dvd p" "heap_ok lo1 hi ((pal s1)\<lparr>heap_base := of_nat lo1, ram := m p\<rparr>)" "(of_nat p :: u64) \<noteq> 0"
    "\<forall>x<2 ^ 64. m p (of_nat x) = (if p \<le> x \<and> x < p + 4096 then 0 else pgt_mem s1 (of_nat x))"
    "\<forall>i<512. ld64 (m p) (of_nat (p + 8 * i)) = 0"
    unfolding m_def by (rule alloc_page [OF h1 heap(2)])
  define s2 where "s2 = s1\<lparr>pal := (pal s1)\<lparr>heap_base := of_nat lo1, ram := m p\<rparr>, pgt_addr_mask := push_bit 12 (mask 36)\<rparr>"
  have f2: "page_size s2 = 0x1000" "bits_per_level s2 = 9" by (simp_all add: s2_def s1_def set_page_size_4k)
  note lv = levels_4k [OF ia]
  have "\<not> 4 < (of_nat (Suc (levels_below ia)) :: u32)"
    using lv(3) by (auto simp: word_less_nat_alt unat_of_nat_small simp del: of_nat_Suc)
  then have run: "val_pgt_create (r # z # zs) pgt s = Some (s', pgt\<lparr>pgt_base := of_nat p\<rparr>, r, 0)"
    if "create_loop pgt (of_nat (Suc (levels_below ia))) 12 (of_nat p) r (r # z # zs) s2 = Some (s', r, False)" for s'
    using that p(1,7) pgt lv(1)
    by (simp add: val_pgt_create_def s1_def [symmetric] set_page_size_4k [of s, folded s1_def] pgt_log2_4k Let_def m_def
        s2_def addr_mask_def mask_eq_exp_minus_1 push_bit_eq_mult pal_mem_virt_to_phys_def del: of_nat_Suc)
  obtain d where d: "tab_desc (levels_below ia) (ia - block_log2 (levels_below ia)) p t d"
      "\<forall>s'. fill_loop d (attributes r) (virtual_address r) (physical_address r) (init_values s2) = Some (s', False) \<longrightarrow>
        create_loop pgt (of_nat (Suc (levels_below ia))) 12 (of_nat p) r (r # z # zs) s2 = Some (s', r, False)"
    using create_loop_fill [OF ia oa pgt(1,2) r z f2 p(5), of zs] unfolding t_def by blast
  have "pgt_cfg (init_values s2)" "acs_pgt_info (init_values s2) = acs_pgt_info (init_values s)" "pal (init_values s2) = pal s2"
    by (simp_all add: s2_def s1_def init_values_def setup_acs_pgt_values_def pgt_cfg_def set_page_size_4k)
  then show ?thesis using that [OF d(1), of "init_values s2" lo1] p d(2) run m_s by (simp add: s2_def)
qed

lemma regionD:
  assumes "region_fits ia oa r" and "oa \<le> 48"
  defines "a \<equiv> unat (virtual_address r)" and "t \<equiv> unat (virtual_address r) + unat (region_length r) - 1"
  shows "4096 dvd a" and "4096 dvd unat (physical_address r)" and "4096 dvd t + 1" and "a \<le> t" and "t < 2 ^ ia"
    and "unat (physical_address r) + (t - a) < 2 ^ 48" and "attr_ok (attributes r)" and "t + 1 = a + unat (region_length r)"
proof -
  have R: "0 < unat (region_length r)" "4096 dvd a" "4096 dvd unat (region_length r)" "a + unat (region_length r) \<le> 2 ^ ia"
      "unat (physical_address r) + unat (region_length r) \<le> 2 ^ oa"
    and "4096 dvd unat (physical_address r)" "attr_ok (attributes r)"
    using assms(1) by (simp_all add: region_fits_def a_def Let_def)
  then show "4096 dvd a" "4096 dvd unat (physical_address r)" "attr_ok (attributes r)" by blast+
  show t1: "t + 1 = a + unat (region_length r)" using R(1) by (simp add: t_def a_def)
  then show "4096 dvd t + 1" "a \<le> t" "t < 2 ^ ia" using R(1,4) dvd_add [OF R(2,3)] by simp_all
  have "(2::nat) ^ oa \<le> 2 ^ 48" using assms(2) by (intro power_increasing) auto
  then show "unat (physical_address r) + (t - a) < 2 ^ 48" using t1 R(1,5) by simp
qed

text \<open>From the first table: every input address is decided by the entry of its block.\<close>

lemma filled_translate:
  assumes fm: "fill_mem n nb p attr a b t lo lo' m1 m'" and nb: "nb \<le> 9" and p: "p + 4096 \<le> lo"
    and zero: "\<And>i. i < 512 \<Longrightarrow> ld64 m1 (of_nat (p + 8 * i)) = 0" and ia: "ia = block_log2 n + nb" "ia \<le> 48" and t: "a \<le> t" "t < 2 ^ ia"
    and va: "unat va < 2 ^ ia"
  shows "table_walk n nb m' (of_nat p) va = region_result a b t attr (unat va)"
proof -
  have out: "x div 2 ^ block_log2 n div 2 ^ nb = 0" if "x < 2 ^ ia" for x :: nat
    using that ia(1) by (simp add: power_add flip: div_mult2_eq)
  have "take_bit nb (drop_bit (block_log2 n) va) = of_nat (unat va div 2 ^ block_log2 n mod 2 ^ nb)"
  proof -
    have "drop_bit (block_log2 n) (of_nat (unat va) :: u64) = of_nat (unat va div 2 ^ block_log2 n)"
      using word_unat_less [of va] by (intro drop_bit_of_nat64) simp
    then show ?thesis by (simp add: take_bit_of_nat flip: take_bit_eq_mod)
  qed
  then have "of_nat p + 8 * take_bit nb (drop_bit (block_log2 n) va) = of_nat (p + 8 * (unat va div 2 ^ block_log2 n mod 2 ^ nb))"
    by simp
  moreover have "a < 2 ^ ia" using t by simp
  ultimately show ?thesis
    using filled_walk [OF fm nb p zero, of "unat va"] out [OF va] out [OF t(2)] out [of a] unfolding table_walk_def by simp
qed

lemma created_translation:
  assumes "22 \<le> ia" "ia \<le> 48" "oa \<le> 48" and "ias pgt = of_nat ia" "oas pgt = of_nat oa" and "pgt_base pgt = 0"
    and "region_fits ia oa r" "region_simple r" and "region_length z = 0"
    and "is_values_init s = 0 \<or> indices_zero (acs_pgt_info s)"
    and "heap_ok lo hi (pal s)" "lo + 0x800000 \<le> hi" "hi \<le> 2 ^ 48"
  shows "\<exists>s' base. val_pgt_create (r # z # zs) pgt s = Some (s', pgt\<lparr>pgt_base := base\<rparr>, r, 0) \<and> base \<noteq> 0 \<and>
    (\<forall>va. unat va < 2 ^ ia \<longrightarrow> translate ia (pgt_mem s') base va =
       (let off = unat va - unat (virtual_address r) in
        if virtual_address r \<le> va \<and> off < unat (region_length r)
        then Some (of_nat (unat (physical_address r) + off), attributes r OR 0x400) else None)) \<and>
    (\<forall>x. unat x < lo \<longrightarrow> pgt_mem s' x = pgt_mem s x)"
proof -
  let ?n = "levels_below ia" and ?nb = "ia - block_log2 (levels_below ia)" and ?a = "unat (virtual_address r)"
    and ?b = "unat (physical_address r)" and ?t = "unat (virtual_address r) + unat (region_length r) - 1"
  obtain p lo1 d s0 where d: "tab_desc ?n ?nb p ?t d" and s0: "pgt_cfg s0" "heap_ok lo1 hi (pal s0)"
    and p: "lo \<le> p" "p + 4096 \<le> lo1" "lo1 \<le> lo + 12288" "(of_nat p :: u64) \<noteq> 0"
    and info: "acs_pgt_info s0 = acs_pgt_info (init_values s)"
    and m0: "\<forall>x<2 ^ 64. pgt_mem s0 (of_nat x) = (if p \<le> x \<and> x < p + 4096 then 0 else pgt_mem s (of_nat x))"
    and empty: "\<forall>i<512. ld64 (pgt_mem s0) (of_nat (p + 8 * i)) = 0"
    and run: "\<forall>s'. fill_loop d (attributes r) (virtual_address r) (physical_address r) s0 = Some (s', False) \<longrightarrow>
      val_pgt_create (r # z # zs) pgt s = Some (s', pgt\<lparr>pgt_base := of_nat p\<rparr>, r, 0)"
    using assms(11,12) by (elim create_fill [OF assms(1-7,9), of lo hi s]) auto
  note R = regionD [OF assms(7,3)] and lv = levels_4k [OF assms(1,2)]
  have S: "?t div 2 ^ 30 = ?a div 2 ^ 30" "?t - ?a + 1 < 2 ^ 30" "2 ^ 21 dvd ?a \<or> ?t div 2 ^ 21 = ?a div 2 ^ 21"
    using assms(8) by (simp_all add: region_simple_def Let_def)
  have nb: "?nb \<le> 9" "ia = block_log2 ?n + ?nb" using lv(4,5) by simp_all
  have "indices_zero (acs_pgt_info s0)"
    using assms(10) by (auto simp: info init_values_def setup_acs_pgt_values_def indices_zero_def)
  then obtain s' lo' where s': "fill_loop d (attributes r) (of_nat ?a) (of_nat ?b) s0 = Some (s', False)"
      "fill_ok ?n ?nb p (attributes r) ?a ?b ?t lo1 lo' hi s0 s'"
    using fill_in_gigabyte [OF R(3) assms(13) R(7,1,2,4,6) S d s0 _ p(2) _ nb lv(2) R(5) empty] p(3) assms(12) by auto
  then have fm: "fill_mem ?n ?nb p (attributes r) ?a ?b ?t lo1 lo' (pgt_mem s0) (pgt_mem s')" by (simp add: fill_ok_def)
  have res: "translate ia (pgt_mem s') (of_nat p) va =
       (let off = unat va - unat (virtual_address r) in
        if virtual_address r \<le> va \<and> off < unat (region_length r)
        then Some (of_nat (unat (physical_address r) + off), attributes r OR 0x400) else None)" if "unat va < 2 ^ ia" for va
    using filled_translate [OF fm nb(1) p(2) _ nb(2) assms(2) R(4,5) that] empty R(8)
    by (auto simp: translate_def region_result_def word_le_nat_alt Let_def)
  have keep: "pgt_mem s' x = pgt_mem s x" if "unat x < lo" for x
  proof -
    have "pgt_mem s' (of_nat (unat x)) = pgt_mem s0 (of_nat (unat x))"
      using that p(1,2) by (intro conjunct2 [OF fm [unfolded fill_mem_def], rule_format]) linarith+
    then show ?thesis using m0 [rule_format, of "unat x"] that p(1) word_unat_less [of x] by simp
  qed
  show ?thesis using run s'(1) p(4) res keep by (intro exI [of _ s'] exI [of _ "of_nat p"]) simp
qed

text \<open>(C5) Creating a hierarchy. For a region of whole pages that stays inside one gigabyte, and starts at a multiple of
  2MB if it goes over one, with all counters of the module at zero and 8MB of heap left, creation succeeds, and the new
  hierarchy, read as the hardware reads it, translates exactly the addresses of the region, to the output region and with its
  attributes (and the access flag); every other input address faults. Memory below the heap is unchanged.\<close>

theorem pgt_create_translates:
  assumes "22 \<le> ia" "ia \<le> 48" "oa \<le> 48" and "ias pgt = of_nat ia" "oas pgt = of_nat oa" and "pgt_base pgt = 0"
    and "region_fits ia oa r" "region_simple r" and "region_length z = 0"
    and "is_values_init s = 0 \<or> indices_zero (acs_pgt_info s)"
    and "heap_ok lo hi (pal s)" "lo + 0x800000 \<le> hi" "hi \<le> 2 ^ 48"
  shows "\<exists>s' base. val_pgt_create (r # z # zs) pgt s = Some (s', pgt\<lparr>pgt_base := base\<rparr>, r, 0) \<and> base \<noteq> 0 \<and>
    (\<forall>va. unat va < 2 ^ ia \<longrightarrow> translate ia (pgt_mem s') base va =
       (let off = unat va - unat (virtual_address r) in
        if virtual_address r \<le> va \<and> off < unat (region_length r)
        then Some (of_nat (unat (physical_address r) + off), attributes r OR 0x400) else None)) \<and>
    (\<forall>x. unat x < lo \<longrightarrow> pgt_mem s' x = pgt_mem s x)"
  using assms by (rule created_translation)

definition example_pgt :: pgt_state where
  "example_pgt = \<lparr>pal = \<lparr>ram = (\<lambda>_. 7), heap_base = 0x100000, heap_top = 0x2000000, heap_init_done = 1, gSharedMemory = 0\<rparr>,
     page_size = 0, bits_per_level = 0, pgt_addr_mask = 0, is_values_init = 0, offset = 0,
     acs_pgt_info = \<lparr>l0_index = 3, l1_index = 0, l2_index = 0, l3_index = 9, size_used = 0\<rparr>\<rparr>"

definition example_tcr :: pe_tcr_bf where
  "example_tcr = \<lparr>ps = 0, tg = 0, sh = 0, orgn = 0, irgn = 0, tsz = 16, sl = 0, tg_size_log2 = 12\<rparr>"

definition example_pgt_desc :: pgt_descriptor_t where
  "example_pgt_desc = \<lparr>pgt_base = 0, ias = 48, oas = 48, mair = 0, stage = 1, tcr = example_tcr\<rparr>"

definition example_region :: memory_region_descriptor_t where
  "example_region = \<lparr>physical_address = 0x80000000, virtual_address = 0x1000, region_length = 0x2000, attributes = 0x304\<rparr>"

definition end_of_regions :: memory_region_descriptor_t where
  "end_of_regions = \<lparr>physical_address = 0, virtual_address = 0, region_length = 0, attributes = 0\<rparr>"

lemma example_region_ok: "region_fits 48 48 example_region" "region_simple example_region"
  by (simp_all add: region_fits_def region_simple_def example_region_def attr_ok_def PGT_DESC_ATTRIBUTES_def Let_def mask_eq_exp_minus_1 push_bit_eq_mult)

lemma example_pgt_ok: "is_values_init example_pgt = 0" "heap_ok 0x100000 0x2000000 (pal example_pgt)"
  by (simp_all add: example_pgt_def heap_ok_def)

lemma example_desc_ok: "ias example_pgt_desc = of_nat 48" "oas example_pgt_desc = of_nat 48" "pgt_base example_pgt_desc = 0"
  "region_length end_of_regions = 0"
  by (simp_all add: example_pgt_desc_def end_of_regions_def)

theorem pgt_create_translates_witness:
  "\<exists>s' base. val_pgt_create [example_region, end_of_regions] example_pgt_desc example_pgt =
       Some (s', example_pgt_desc\<lparr>pgt_base := base\<rparr>, example_region, 0) \<and>
     translate 48 (pgt_mem s') base 0x2008 = Some (0x80001008, 0x704) \<and> translate 48 (pgt_mem s') base 0x3000 = None \<and>
     pgt_mem s' 0x1234 = 7"
proof -
  obtain s' base where r: "val_pgt_create [example_region, end_of_regions] example_pgt_desc example_pgt =
       Some (s', example_pgt_desc\<lparr>pgt_base := base\<rparr>, example_region, 0)"
    and t: "\<forall>va. unat va < 2 ^ 48 \<longrightarrow> translate 48 (pgt_mem s') base va =
       (let off = unat va - unat (virtual_address example_region) in
        if virtual_address example_region \<le> va \<and> off < unat (region_length example_region)
        then Some (of_nat (unat (physical_address example_region) + off), attributes example_region OR 0x400) else None)"
    and m: "\<forall>x. unat x < 0x100000 \<longrightarrow> pgt_mem s' x = pgt_mem example_pgt x"
    using pgt_create_translates [where zs = "[]", OF _ _ _ example_desc_ok(1-3) example_region_ok example_desc_ok(4) disjI1 [OF example_pgt_ok(1)] example_pgt_ok(2)]
    by auto
  show ?thesis
    using r t [rule_format, of "0x2008"] t [rule_format, of "0x3000"] m [rule_format, of "0x1234"]
    by (intro exI [of _ s'] exI [of _ base]) (simp add: example_region_def example_pgt_def)
qed

section \<open>The walks of the code\<close>

lemma index_mask: "nb \<le> 9 \<Longrightarrow> x AND ucast (push_bit nb 1 - 1 :: u32) = take_bit nb (x :: u64)"
proof -
  assume nb: "nb \<le> 9"
  have "(ucast (push_bit nb 1 - 1 :: u32) :: u64) = mask nb"
  proof (rule bit_word_eqI)
    fix i assume "i < LENGTH(64)"
    have "(push_bit nb 1 - 1 :: u32) = mask nb" by (simp add: mask_eq_exp_minus_1 push_bit_eq_mult)
    then show "bit (ucast (push_bit nb 1 - 1 :: u32) :: u64) i = bit (mask nb :: u64) i"
      using nb \<open>i < LENGTH(64)\<close> by (auto simp: bit_ucast_iff bit_mask_iff)
  qed
  then show ?thesis by (simp add: take_bit_eq_mask)
qed

lemma unat_block_log2: "n \<le> 3 \<Longrightarrow> unat (of_nat (block_log2 n) :: u32) = block_log2 n"
  by (intro unat_of_nat_small) simp

lemma bit_and_two: "e AND 2 = 0 \<longleftrightarrow> \<not> bit (e :: u64) 1"
proof -
  have "e AND 2 = (if bit e 1 then 2 else 0)"
    by (rule bit_word_eqI) (auto simp: bit_and_iff bit_2_iff bit_0_eq)
  then show ?thesis by simp
qed

lemma this_level: "n \<le> 3 \<Longrightarrow> of_nat (3 - n) = (3 :: u32) \<longleftrightarrow> n = 0"
  by (auto simp: word_unat_eq_iff unat_of_nat_small simp del: of_nat_diff)

lemma level_up: "Suc n \<le> 3 \<Longrightarrow> of_nat (3 - Suc n) + 1 = (of_nat (3 - n) :: u32)"
  by (simp add: of_nat_diff)

lemma bits_down: "of_nat (block_log2 (Suc n)) - 9 = (of_nat (block_log2 n) :: u32)"
  by simp

text \<open>One step of either walk, at the descriptor \<open>e\<close> it reads.\<close>

lemma walk_steps:
  assumes n: "n \<le> 3" and nb: "nb \<le> 9" and e: "e = ld64 m (base + 8 * take_bit nb (drop_bit (block_log2 n) va))"
  shows "attr_walk m mk 9 base (of_nat (3 - n)) (of_nat (block_log2 n)) (of_nat nb) va =
      (if n = 0 then (if bit e 1 then Some (PGT_DESC_ATTRIBUTES e) else None)
       else if bit e 1 then attr_walk m mk 9 (e AND mk) (of_nat (3 - n) + 1) (of_nat (block_log2 n) - of_nat nb) 9 va
       else Some (PGT_DESC_ATTRIBUTES e))"
    and "rmv_walk m mk 9 base (of_nat (3 - n)) (of_nat (block_log2 n)) (of_nat nb) va =
      (if n = 0 then (if bit e 1 then Some (pgt_modify_desc (pgt_modify_desc e 0 0) 0 0) else None)
       else if bit e 1 then rmv_walk m mk 9 (e AND mk) (of_nat (3 - n) + 1) (of_nat (block_log2 n) - 9) 9 va
       else Some (pgt_modify_desc e 0 0))"
proof -
  have "unat (of_nat nb :: u32) = nb" using nb by (intro unat_of_nat_small) simp
  then have "ld64 m (pal_mem_phys_to_virt base + 8 * (drop_bit (unat (of_nat (block_log2 n) :: u32)) va AND
      ucast (push_bit (unat (of_nat nb :: u32)) 1 - 1 :: u32))) = e"
    by (simp only: unat_block_log2 [OF n] index_mask [OF nb] pal_mem_phys_to_virt_def e)
  note r = this this_level [OF n] IS_PGT_ENTRY_PAGE_def IS_PGT_ENTRY_BLOCK_def bit_and_two Let_def
  show "attr_walk m mk 9 base (of_nat (3 - n)) (of_nat (block_log2 n)) (of_nat nb) va =
      (if n = 0 then (if bit e 1 then Some (PGT_DESC_ATTRIBUTES e) else None)
       else if bit e 1 then attr_walk m mk 9 (e AND mk) (of_nat (3 - n) + 1) (of_nat (block_log2 n) - of_nat nb) 9 va
       else Some (PGT_DESC_ATTRIBUTES e))"
    by (subst attr_walk.simps, unfold r) (auto simp del: of_nat_diff of_nat_add of_nat_mult)
  show "rmv_walk m mk 9 base (of_nat (3 - n)) (of_nat (block_log2 n)) (of_nat nb) va =
      (if n = 0 then (if bit e 1 then Some (pgt_modify_desc (pgt_modify_desc e 0 0) 0 0) else None)
       else if bit e 1 then rmv_walk m mk 9 (e AND mk) (of_nat (3 - n) + 1) (of_nat (block_log2 n) - 9) 9 va
       else Some (pgt_modify_desc e 0 0))"
    by (subst rmv_walk.simps, unfold r) (auto simp del: of_nat_diff of_nat_add of_nat_mult)
qed

text \<open>With a full first level the walk of the attributes is that of the hardware. A page that is not valid gives an error, any
  other descriptor that is not valid is read as a block. The walk of the removal is that of the hardware when the tables
  lie below \<open>2 ^ 40\<close>.\<close>

lemma attr_walk_ok:
  assumes "n \<le> 3" and "desc_walk n m (ld64 m (base + 8 * take_bit 9 (drop_bit (block_log2 n) va))) va = Some (pa, attr)"
  shows "attr_walk m (push_bit 12 (mask 36)) 9 base (of_nat (3 - n)) (of_nat (block_log2 n)) (of_nat 9) va = Some attr"
  using assms
proof (induction n arbitrary: base)
  case 0
  show ?case unfolding walk_steps(1) [OF 0(1) order_refl refl] using 0(2) by (auto simp: leaf_result_def split: if_splits)
next
  case (Suc n)
  have "of_nat (block_log2 (Suc n)) - of_nat 9 = (of_nat (block_log2 n) :: u32)" by simp
  then show ?case
    unfolding walk_steps(1) [OF Suc.prems(1) order_refl refl] level_up [OF Suc.prems(1)]
    using Suc.IH Suc.prems by (auto simp: leaf_result_def table_addr_def split: if_splits simp del: of_nat_add of_nat_mult of_nat_diff)
qed

lemma rmv_walk_ok:
  assumes "n \<le> 3" and "nb \<le> 9" and "e = ld64 m (base + 8 * take_bit nb (drop_bit (block_log2 n) va))"
    and "desc_walk n m e va \<noteq> None" and "safe n 0 (2 ^ 40) m e va"
  shows "rmv_walk m (push_bit 12 (mask 28)) 9 base (of_nat (3 - n)) (of_nat (block_log2 n)) (of_nat nb) va \<noteq> None"
  using assms
proof (induction n arbitrary: base e nb)
  case 0
  show ?case unfolding walk_steps(2) [OF 0(1-3)] using 0(4) by (auto split: if_splits)
next
  case (Suc n)
  have "e AND push_bit 12 (mask 28) = table_addr e" if "unat (table_addr e) < 2 ^ 40"
  proof -
    have "take_bit 40 (table_addr e) = table_addr e" using that by (simp add: word_unat_eq_iff unat_take_bit_mod)
    moreover have "take_bit 40 (table_addr e) = e AND push_bit 12 (mask 28)"
      unfolding table_addr_def by (rule bit_word_eqI) (auto simp: bit_take_bit_iff bit_and_iff bit_push_bit_iff bit_mask_iff)
    ultimately show ?thesis by simp
  qed
  then show ?case
    unfolding walk_steps(2) [OF Suc.prems(1-3)] level_up [OF Suc.prems(1)] bits_down
    using Suc.IH [OF _ order_refl refl, of "table_addr e"] Suc.prems by (auto split: if_splits simp del: of_nat_add of_nat_mult of_nat_diff)
qed

text \<open>(C26) Creating and reading back. For input addresses of 48 bits and pages of 4KB the attributes read for any address of
  the region are those the region was created with (and the access flag).\<close>

theorem pgt_attributes_roundtrip:
  assumes "oa \<le> 48" and "ias pgt = 48" "oas pgt = of_nat oa" and "pgt_base pgt = 0" and "tsz (tcr pgt) = 16" "tg_size_log2 (tcr pgt) = 12"
    and "region_fits 48 oa r" "region_simple r" and "region_length z = 0"
    and "is_values_init s = 0 \<or> indices_zero (acs_pgt_info s)"
    and "heap_ok lo hi (pal s)" "lo + 0x800000 \<le> hi" "hi \<le> 2 ^ 48"
  shows "\<exists>s' pgt'. val_pgt_create (r # z # zs) pgt s = Some (s', pgt', r, 0) \<and>
    (\<forall>va. virtual_address r \<le> va \<longrightarrow> unat va < unat (virtual_address r) + unat (region_length r) \<longrightarrow>
      snd (val_pgt_get_attributes pgt' va False s') = Some (attributes r OR 0x400))"
proof -
  obtain s' base where c: "val_pgt_create (r # z # zs) pgt s = Some (s', pgt\<lparr>pgt_base := base\<rparr>, r, 0)" "base \<noteq> 0"
    and t: "\<forall>va. unat va < 2 ^ 48 \<longrightarrow> translate 48 (pgt_mem s') base va =
       (let off = unat va - unat (virtual_address r) in
        if virtual_address r \<le> va \<and> off < unat (region_length r)
        then Some (of_nat (unat (physical_address r) + off), attributes r OR 0x400) else None)"
    using created_translation [of 48 oa pgt r z s lo hi zs] assms by auto
  have "snd (val_pgt_get_attributes (pgt\<lparr>pgt_base := base\<rparr>) va False s') = Some (attributes r OR 0x400)"
    if va: "virtual_address r \<le> va" "unat va < unat (virtual_address r) + unat (region_length r)" for va
  proof -
    have "unat va < 2 ^ 48" using assms(7) va(2) by (simp add: region_fits_def Let_def)
    then have "translate 48 (pgt_mem s') base va =
        Some (of_nat (unat (physical_address r) + (unat va - unat (virtual_address r))), attributes r OR 0x400)"
      using t va assms(7) by (simp add: Let_def region_fits_def word_le_nat_alt less_diff_conv2)
    then have "desc_walk 3 (pgt_mem s') (ld64 (pgt_mem s') (base + 8 * take_bit 9 (drop_bit (block_log2 3) va))) va =
        Some (of_nat (unat (physical_address r) + (unat va - unat (virtual_address r))), attributes r OR 0x400)"
      by (simp add: translate_def table_walk_def levels_below_def)
    then have "attr_walk (pgt_mem s') (push_bit 12 (mask 36)) 9 base 0 39 9 va = Some (attributes r OR 0x400)"
      using attr_walk_ok [of 3 "pgt_mem s'" base va] by simp
    then show ?thesis
      using c(2) assms(5,6) by (simp add: val_pgt_get_attributes_def num_pgt_levels_def addr_mask_def mask_eq_exp_minus_1 push_bit_eq_mult Let_def)
  qed
  then show ?thesis using c(1) by blast
qed

theorem pgt_attributes_roundtrip_witness:
  "\<exists>s' pgt'. val_pgt_create [example_region, end_of_regions] example_pgt_desc example_pgt = Some (s', pgt', example_region, 0) \<and>
     snd (val_pgt_get_attributes pgt' 0x2ABC False s') = Some 0x704"
proof -
  have "tsz (tcr example_pgt_desc) = 16" "tg_size_log2 (tcr example_pgt_desc) = 12" "ias example_pgt_desc = 48"
    by (simp_all add: example_pgt_desc_def example_tcr_def)
  then obtain s' pgt' where "val_pgt_create [example_region, end_of_regions] example_pgt_desc example_pgt = Some (s', pgt', example_region, 0)"
    and r: "\<forall>va. virtual_address example_region \<le> va \<longrightarrow>
      unat va < unat (virtual_address example_region) + unat (region_length example_region) \<longrightarrow>
      snd (val_pgt_get_attributes pgt' va False s') = Some (attributes example_region OR 0x400)"
    using pgt_attributes_roundtrip [where zs = "[]", OF _ _ example_desc_ok(2,3) _ _ example_region_ok example_desc_ok(4)
        disjI1 [OF example_pgt_ok(1)] example_pgt_ok(2)] by auto
  then show ?thesis using r [rule_format, of "0x2ABC"] by (auto simp: example_region_def)
qed

text \<open>(C35) Attributes of a partial first level. For input addresses of 40 bits, the width with which the code maps pages, the walk
  goes down one bit instead of nine after the first table: all addresses of the first megabyte are answered with the page
  of address zero.\<close>

theorem pgt_attributes_first_megabyte:
  assumes "tsz (tcr pgt) = 24" and "tg_size_log2 (tcr pgt) = 12" and "unat va < 2 ^ 20"
  shows "val_pgt_get_attributes pgt va n s = val_pgt_get_attributes pgt 0 n s"
proof -
  have d: "drop_bit k va = 0" if "20 \<le> k" for k
  proof -
    have "unat (drop_bit k va) = unat va div 2 ^ k" by (simp add: unat_drop_bit_eq flip: drop_bit_eq_div)
    moreover have "unat va < 2 ^ k" using assms(3) power_increasing [OF that, of "2 :: nat"] by simp
    ultimately show ?thesis by (simp add: unat_eq_0 [symmetric] del: unat_eq_0)
  qed
  have w: "attr_walk m mk 9 base 0 39 1 va = attr_walk m mk 9 base 0 39 1 0" for m mk base
    by (simp add: attr_walk.simps [of m mk 9 _ 0] attr_walk.simps [of m mk 9 _ 1] attr_walk.simps [of m mk 9 _ 2]
        attr_walk.simps [of m mk 9 _ 3] d Let_def)
  show ?thesis by (simp add: val_pgt_get_attributes_def assms(1,2) num_pgt_levels_def w Let_def)
qed

theorem pgt_attributes_first_megabyte_witness:
  "val_pgt_get_attributes (example_pgt_desc\<lparr>pgt_base := 0x5000, tcr := example_tcr\<lparr>tsz := 24\<rparr>\<rparr>) 0x7000 False example_pgt =
   val_pgt_get_attributes (example_pgt_desc\<lparr>pgt_base := 0x5000, tcr := example_tcr\<lparr>tsz := 24\<rparr>\<rparr>) 0 False example_pgt"
  by (rule pgt_attributes_first_megabyte) (simp_all add: example_tcr_def)

text \<open>(C27) Removing a mapping. When the walk of the code ends at a valid descriptor, in particular for every address the
  hardware translates through tables below \<open>2 ^ 40\<close>, the removal reports success; but the descriptor it invalidates
  is a local copy, so memory is as before and the address still translates.\<close>

theorem pgt_remove_keeps_mapping:
  assumes "val_pe_reg_read_tcr e False junk = (t, 0)" and "val_pe_reg_read_ttbr e 0 = Some ttbr"
    and "translate 40 (pgt_mem s) (ttbr AND 0xFFFFFFFFFFFE) (virtual_address d) = Some pa"
    and "safe 3 0 (2 ^ 40) (pgt_mem s) (ld64 (pgt_mem s) ((ttbr AND 0xFFFFFFFFFFFE) + 8 * take_bit 1 (drop_bit 39 (virtual_address d))))
      (virtual_address d)"
  shows "\<exists>s'. val_pe_mmu_map_rmv e junk d s = (s', 0) \<and> pal s' = pal s \<and>
    translate 40 (pgt_mem s') (ttbr AND 0xFFFFFFFFFFFE) (virtual_address d) = Some pa"
proof -
  have "rmv_walk (pgt_mem s) (push_bit 12 (mask 28)) 9 (ttbr AND 0xFFFFFFFFFFFE) 0 39 1 (virtual_address d) \<noteq> None"
    using rmv_walk_ok [OF order_refl _ refl, of 1 "pgt_mem s" "ttbr AND 0xFFFFFFFFFFFE" "virtual_address d"] assms(3,4)
    by (simp add: translate_def table_walk_def levels_below_def)
  then show ?thesis
    using assms(1-3) by (auto simp: val_pe_mmu_map_rmv_def set_page_size_4k pgt_log2_4k num_pgt_levels_def addr_mask_def
        mask_eq_exp_minus_1 push_bit_eq_mult Let_def)
qed

definition example_tables :: pgt_state where
  "example_tables = example_pgt\<lparr>pal := (pal example_pgt)\<lparr>ram := (\<lambda>x.
     if x = 0x1000 \<or> x = 0x2000 \<or> x = 0x3000 \<or> x = 0x4010 then 3 else if x = 0x1001 then 0x20 else if x = 0x2001 then 0x30
     else if x = 0x3001 then 0x40 else if x = 0x4011 then 4 else if x = 0x4012 then 9 else 0)\<rparr>\<rparr>"

definition example_pe :: pe_env where
  "example_pe = \<lparr>CurrentEL = 8, tcr_el1 = 0, tcr_el2 = 0x18, hcr_el2 = 0, mair_el1 = 0, mair_el2 = 0, ttbr0_el1 = 0, ttbr0_el2 = 0x1001,
     ttbr1_el1 = 0, ttbr1_el2 = 0\<rparr>"

lemma example_tables_entries:
  "ld64 (pgt_mem example_tables) 0x1000 = 0x2003" "ld64 (pgt_mem example_tables) 0x2000 = 0x3003"
  "ld64 (pgt_mem example_tables) 0x3000 = 0x4003" "ld64 (pgt_mem example_tables) 0x4010 = 0x90403"
  by code_simp+

lemma example_tables_walk:
  "translate 40 (pgt_mem example_tables) 0x1000 0x2000 = Some (0x90000, 0x400)"
  "safe 3 0 (2 ^ 40) (pgt_mem example_tables) (ld64 (pgt_mem example_tables) (0x1000 + 8 * take_bit 1 (drop_bit 39 0x2000))) 0x2000"
  by (simp_all add: translate_def table_walk_def levels_below_def numeral_3_eq_3 example_tables_entries table_addr_def leaf_result_def
      PGT_DESC_ATTRIBUTES_def mask_eq_exp_minus_1 push_bit_eq_mult)

lemma example_pe_regs: "val_pe_reg_read_ttbr example_pe 0 = Some 0x1001" "snd (val_pe_reg_read_tcr example_pe False example_tcr) = 0"
  by code_simp+

theorem pgt_remove_keeps_mapping_witness:
  "\<exists>s'. val_pe_mmu_map_rmv example_pe example_tcr (example_region\<lparr>virtual_address := 0x2000\<rparr>) example_tables = (s', 0) \<and>
     pal s' = pal example_tables \<and> translate 40 (pgt_mem s') 0x1000 0x2000 = Some (0x90000, 0x400)"
proof -
  have r: "val_pe_reg_read_tcr example_pe False example_tcr = (fst (val_pe_reg_read_tcr example_pe False example_tcr), 0)"
    using example_pe_regs(2) by (metis prod.collapse)
  show ?thesis
    using pgt_remove_keeps_mapping [OF r example_pe_regs(1), of example_tables "example_region\<lparr>virtual_address := 0x2000\<rparr>"]
      example_tables_walk(1,2) by simp
qed

lemma create_loop_shape:
  "map (\<lambda>x. region_length x = 0) its = map (\<lambda>x. region_length x = 0) its' \<Longrightarrow>
   create_loop pgt levels pl base d its s = create_loop pgt levels pl base d its' s"
proof (induction its arbitrary: its' d s)
  case Nil
  then show ?case by simp
next
  case (Cons it its)
  obtain it' its'' where i: "its' = it' # its''" using Cons.prems by (cases its') auto
  then have "region_length it = 0 \<longleftrightarrow> region_length it' = 0"
    and t: "map (\<lambda>x. region_length x = 0) its = map (\<lambda>x. region_length x = 0) its''" using Cons.prems by auto
  then show ?case
    using Cons.IH [OF t] unfolding i by (simp add: create_loop.simps(2) cong: if_cong)
qed

text \<open>Further regions. Creation goes through an array of regions, but each round maps the first one again: which
  regions follow, up to where the array ends, makes no difference to the result.\<close>

theorem pgt_create_first_region_only:
  assumes "map (\<lambda>x. region_length x = 0) rs = map (\<lambda>x. region_length x = 0) rs'"
  shows "val_pgt_create (r # rs) pgt s = val_pgt_create (r # rs') pgt s"
  using create_loop_shape [of "r # rs" "r # rs'"] assms by (simp add: val_pgt_create_def Let_def split_beta cong: if_cong option.case_cong)

theorem pgt_create_first_region_only_witness:
  "val_pgt_create [example_region, example_region\<lparr>virtual_address := 0x40000000, physical_address := 0x50000000\<rparr>, end_of_regions]
     example_pgt_desc example_pgt = val_pgt_create [example_region, example_region, end_of_regions] example_pgt_desc example_pgt"
  by (rule pgt_create_first_region_only) (simp add: example_region_def end_of_regions_def)

end
