(* ===== verification/Val_Iovirt.thy ===== *)
theory Val_Iovirt
  imports Acs_Prelude
begin

text \<open>
  The table of IO remapping nodes: how the bare-metal platform fills it (\<^verbatim>\<open>platform/pal_baremetal/src/pal_iovirt.c\<close>,
  \<^verbatim>\<open>FVP/src/platform_cfg_fvp.c\<close>) and how the validation layer looks up SMMUs, root complexes and the stream, device and
  translation service identifiers of a requester (\<^verbatim>\<open>val/src/acs_iovirt.c\<close>), in the configuration for booting on bare metal.

  The table is its header and the list of its blocks. Blocks have different sizes, so the address of a block comes
  from those before it; a reference between nodes is an offset from the start of the table. \<open>None\<close> stands for an
  access outside an array or at an address that is not the start of a block.
\<close>

section \<open>Data\<close>

record id_map =
  input_base :: u32
  id_count :: u32
  output_base :: u32
  output_ref :: u32

text \<open>The members of the union; each one is read only in blocks of its type.\<close>

record node_data =
  rc_segment :: u32
  rc_ats_attr :: u32
  rc_cca :: u32
  its_count :: u32
  smmu_arch_major_rev :: u32
  smmu_base :: u64

record iovirt_block =
  node_type :: u32
  num_data_map :: u32
  data :: node_data
  node_flags :: u32
  data_map :: "id_map list"

record iovirt_info_table =
  num_blocks :: u32
  num_smmus :: u32
  num_pci_rcs :: u32
  num_named_components :: u32
  num_its_groups :: u32
  num_pmcgs :: u32
  blocks :: "iovirt_block list"

abbreviation (input) IOVIRT_NODE_ITS_GROUP :: u32 where "IOVIRT_NODE_ITS_GROUP \<equiv> 0"
abbreviation (input) IOVIRT_NODE_NAMED_COMPONENT :: u32 where "IOVIRT_NODE_NAMED_COMPONENT \<equiv> 1"
abbreviation (input) IOVIRT_NODE_PCI_ROOT_COMPLEX :: u32 where "IOVIRT_NODE_PCI_ROOT_COMPLEX \<equiv> 2"
abbreviation (input) IOVIRT_NODE_SMMU :: u32 where "IOVIRT_NODE_SMMU \<equiv> 3"
abbreviation (input) IOVIRT_NODE_SMMU_V3 :: u32 where "IOVIRT_NODE_SMMU_V3 \<equiv> 4"
abbreviation (input) IOVIRT_NODE_PMCG :: u32 where "IOVIRT_NODE_PMCG \<equiv> 5"

datatype SMMU_INFO_e = SMMU_NUM_CTRL | SMMU_CTRL_BASE | SMMU_CTRL_ARCH_MAJOR_REV | SMMU_IOVIRT_BLOCK | SMMU_SSID_BITS
  | SMMU_IN_ADDR_SIZE | SMMU_OUT_ADDR_SIZE

datatype PCIE_RC_INFO_e = NUM_PCIE_RC | RC_SEGMENT_NUM | RC_ATS_ATTRIBUTE | RC_MEM_ATTRIBUTE | RC_IOVIRT_BLOCK | RC_SMMU_BASE

definition nth_opt :: "'a list \<Rightarrow> nat \<Rightarrow> 'a option" where
  "nth_opt xs i = (if i < length xs then Some (xs ! i) else None)"

section \<open>Addresses of blocks\<close>

text \<open>The header of the table has 24 bytes. The mappings of a block start at its byte 268 and have 16 bytes each.\<close>

definition ALIGN_MEMORY :: "u64 \<Rightarrow> u64" where
  "ALIGN_MEMORY b = (b + 7) AND NOT 7"

definition IOVIRT_NEXT_BLOCK :: "u64 \<Rightarrow> iovirt_block \<Rightarrow> u64" where
  "IOVIRT_NEXT_BLOCK b blk = b + 268 + ucast (num_data_map blk) * 16"

fun block_addrs :: "u64 \<Rightarrow> iovirt_block list \<Rightarrow> (u64 \<times> iovirt_block) list" where
  "block_addrs a [] = []"
| "block_addrs a (b # bs) = (let a = ALIGN_MEMORY a in (a, b) # block_addrs (IOVIRT_NEXT_BLOCK a b) bs)"

text \<open>The blocks that a loop over the table visits, with their addresses.\<close>

definition table_blocks :: "u64 \<Rightarrow> iovirt_info_table \<Rightarrow> (u64 \<times> iovirt_block) list option" where
  "table_blocks base t = (if length (blocks t) < unat (num_blocks t) then None
     else Some (take (unat (num_blocks t)) (block_addrs (base + 24) (blocks t))))"

definition block_ref :: "u64 \<Rightarrow> iovirt_info_table \<Rightarrow> u32 \<Rightarrow> iovirt_block option" where
  "block_ref base t oref = map_of (block_addrs (base + 24) (blocks t)) (base + ucast oref)"

definition block_maps :: "iovirt_block \<Rightarrow> id_map list option" where
  "block_maps b = (if length (data_map b) < unat (num_data_map b) then None else Some (take (unat (num_data_map b)) (data_map b)))"

definition is_smmu :: "iovirt_block \<Rightarrow> bool" where
  "is_smmu b \<longleftrightarrow> node_type b = IOVIRT_NODE_SMMU \<or> node_type b = IOVIRT_NODE_SMMU_V3"

definition is_rc :: "iovirt_block \<Rightarrow> bool" where
  "is_rc b \<longleftrightarrow> node_type b = IOVIRT_NODE_PCI_ROOT_COMPLEX"

section \<open>Lookups of the validation layer\<close>

text \<open>The pointer \<^verbatim>\<open>g_iovirt_info_table\<close> is zero or the address of the table.\<close>

record iovirt_state =
  g_iovirt_info_table :: u64
  info_table :: iovirt_info_table
  g_num_smmus :: u32

fun smmu_info_scan :: "SMMU_INFO_e \<Rightarrow> u32 \<Rightarrow> u32 \<Rightarrow> (u64 \<times> iovirt_block) list \<Rightarrow> u64" where
  "smmu_info_scan type index j [] = (if index > j - 1 then 0 else ucast j)"
| "smmu_info_scan type index j ((a, b) # bs) =
     (if is_smmu b then
        if j = index then
          (case type of SMMU_CTRL_ARCH_MAJOR_REV \<Rightarrow> ucast (smmu_arch_major_rev (data b))
           | SMMU_CTRL_BASE \<Rightarrow> smmu_base (data b)
           | SMMU_IOVIRT_BLOCK \<Rightarrow> a
           | _ \<Rightarrow> 0)
        else smmu_info_scan type index (j + 1) bs
      else smmu_info_scan type index j bs)"

definition val_iovirt_get_smmu_info :: "SMMU_INFO_e \<Rightarrow> u32 \<Rightarrow> iovirt_state \<Rightarrow> u64 option" where
  "val_iovirt_get_smmu_info type index s =
     (if g_iovirt_info_table s = 0 then Some 0
      else if type = SMMU_NUM_CTRL then Some (ucast (num_smmus (info_table s)))
      else map_option (smmu_info_scan type index 0) (table_blocks (g_iovirt_info_table s) (info_table s)))"

fun rc_info_scan :: "PCIE_RC_INFO_e \<Rightarrow> u32 \<Rightarrow> u32 \<Rightarrow> (u64 \<times> iovirt_block) list \<Rightarrow> u64" where
  "rc_info_scan type index j [] = (if index > j - 1 then 0 else ucast j)"
| "rc_info_scan type index j ((a, b) # bs) =
     (if is_rc b then
        if j = index then
          (case type of RC_SEGMENT_NUM \<Rightarrow> ucast (rc_segment (data b))
           | RC_MEM_ATTRIBUTE \<Rightarrow> ucast (rc_cca (data b))
           | RC_ATS_ATTRIBUTE \<Rightarrow> ucast (rc_ats_attr (data b))
           | RC_IOVIRT_BLOCK \<Rightarrow> a
           | _ \<Rightarrow> 0)
        else rc_info_scan type index (j + 1) bs
      else rc_info_scan type index j bs)"

definition val_iovirt_get_pcie_rc_info :: "PCIE_RC_INFO_e \<Rightarrow> u32 \<Rightarrow> iovirt_state \<Rightarrow> u64 option" where
  "val_iovirt_get_pcie_rc_info type index s =
     (if g_iovirt_info_table s = 0 then Some 0
      else if type = NUM_PCIE_RC then Some (ucast (num_pci_rcs (info_table s)))
      else map_option (rc_info_scan type index 0) (table_blocks (g_iovirt_info_table s) (info_table s)))"

text \<open>The first mapping of a list that covers an identifier. The end of the range is computed at 32 bits.\<close>

definition map_covers :: "u32 \<Rightarrow> id_map \<Rightarrow> bool" where
  "map_covers i m \<longleftrightarrow> input_base m \<le> i \<and> i \<le> input_base m + id_count m"

definition map_output :: "u32 \<Rightarrow> id_map \<Rightarrow> u32" where
  "map_output i m = (i - input_base m) + output_base m"

fun map_loop :: "u32 \<Rightarrow> id_map list \<Rightarrow> id_map option" where
  "map_loop i [] = None"
| "map_loop i (m # ms) = (if map_covers i m then Some m else map_loop i ms)"

text \<open>The search of the root complexes goes on after a match, so the last one counts.\<close>

fun rc_loop :: "u32 \<Rightarrow> u32 \<Rightarrow> (u64 \<times> iovirt_block) list \<Rightarrow> (u32 \<times> u32) option \<Rightarrow> (u32 \<times> u32) option option" where
  "rc_loop rid segment [] found = Some found"
| "rc_loop rid segment ((a, b) # bs) found =
     (if is_rc b \<and> rc_segment (data b) = segment then
        do { ms \<leftarrow> block_maps b;
             rc_loop rid segment bs
               (case map_loop rid ms of None \<Rightarrow> found | Some m \<Rightarrow> Some (map_output rid m, output_ref m)) }
      else rc_loop rid segment bs found)"

text \<open>The identifier in the first word of the first mapping of a translation service group.\<close>

definition its_of :: "iovirt_block \<Rightarrow> u32 option" where
  "its_of b = map_option input_base (nth_opt (data_map b) 0)"

abbreviation (input) ACS_STATUS_ERR :: u32 where "ACS_STATUS_ERR \<equiv> 0xEDCB1234"

text \<open>The result: an error, or the device, stream and translation service identifiers.\<close>

definition val_iovirt_get_device_info :: "u32 \<Rightarrow> u32 \<Rightarrow> bool \<Rightarrow> iovirt_state \<Rightarrow> (u32 + u32 \<times> u32 \<times> u32) option" where
  "val_iovirt_get_device_info rid segment device_id_null s =
     (if g_iovirt_info_table s = 0 then Some (Inl ACS_STATUS_ERR)
      else if device_id_null then Some (Inl ACS_STATUS_ERR)
      else do {
        bs \<leftarrow> table_blocks (g_iovirt_info_table s) (info_table s);
        found \<leftarrow> rc_loop rid segment bs None;
        case found of None \<Rightarrow> Some (Inl ACS_STATUS_ERR)
        | Some (i, oref) \<Rightarrow> do {
            b \<leftarrow> block_ref (g_iovirt_info_table s) (info_table s) oref;
            if node_type b = IOVIRT_NODE_ITS_GROUP then do { itsid \<leftarrow> its_of b; Some (Inr (i, - 1, itsid)) }
            else if is_smmu b then do {
              ms \<leftarrow> block_maps b;
              let m = map_loop i ms;
              let oref = (case m of None \<Rightarrow> oref | Some m \<Rightarrow> output_ref m);
              b' \<leftarrow> block_ref (g_iovirt_info_table s) (info_table s) oref;
              itsid \<leftarrow> (if node_type b' = IOVIRT_NODE_ITS_GROUP then its_of b' else Some 0);
              case m of None \<Rightarrow> Some (Inl ACS_STATUS_ERR)
              | Some m \<Rightarrow> Some (Inr (map_output i m, i, itsid)) }
            else Some (Inl ACS_STATUS_ERR) } })"

definition pal_iovirt_get_rc_smmu_base :: "u64 \<Rightarrow> iovirt_info_table \<Rightarrow> u32 \<Rightarrow> u32 \<Rightarrow> u64 option" where
  "pal_iovirt_get_rc_smmu_base base t RcSegmentNum rid = do {
     bs \<leftarrow> table_blocks base t;
     found \<leftarrow> rc_loop rid RcSegmentNum bs None;
     case found of None \<Rightarrow> Some 0xFFFFFFFF
     | Some (i, oref) \<Rightarrow> do {
         b \<leftarrow> block_ref base t oref;
         if is_smmu b then do {
           ms \<leftarrow> block_maps b;
           case map_loop i ms of None \<Rightarrow> Some 0 | Some m \<Rightarrow> Some (smmu_base (data b)) }
         else Some 0 } }"

definition pal_iovirt_check_unique_ctx_intid :: "u64 \<Rightarrow> iovirt_info_table \<Rightarrow> u64 \<Rightarrow> u32 option" where
  "pal_iovirt_check_unique_ctx_intid base t smmu_block = do {
     b \<leftarrow> map_of (block_addrs (base + 24) (blocks t)) smmu_block;
     Some (if node_flags b AND push_bit 2 1 \<noteq> 0 then 0 else 1) }"

definition pal_iovirt_unique_rid_strid_map :: "u64 \<Rightarrow> iovirt_info_table \<Rightarrow> u64 \<Rightarrow> u32 option" where
  "pal_iovirt_unique_rid_strid_map base t rc_block = do {
     b \<leftarrow> map_of (block_addrs (base + 24) (blocks t)) rc_block;
     Some (if node_flags b AND push_bit 1 1 \<noteq> 0 then 0 else 1) }"

definition val_iovirt_check_unique_ctx_intid :: "u32 \<Rightarrow> iovirt_state \<Rightarrow> u32 option" where
  "val_iovirt_check_unique_ctx_intid smmu_index s = do {
     b \<leftarrow> val_iovirt_get_smmu_info SMMU_IOVIRT_BLOCK smmu_index s;
     pal_iovirt_check_unique_ctx_intid (g_iovirt_info_table s) (info_table s) b }"

definition val_iovirt_unique_rid_strid_map :: "u32 \<Rightarrow> iovirt_state \<Rightarrow> u32 option" where
  "val_iovirt_unique_rid_strid_map rc_index s = do {
     b \<leftarrow> val_iovirt_get_pcie_rc_info RC_IOVIRT_BLOCK rc_index s;
     pal_iovirt_unique_rid_strid_map (g_iovirt_info_table s) (info_table s) b }"

text \<open>What the SMMU driver has found of each SMMU (substream, input and output address bits) is an argument.\<close>

definition val_smmu_get_info :: "(u32 \<times> u64 \<times> u64) list \<Rightarrow> SMMU_INFO_e \<Rightarrow> u32 \<Rightarrow> iovirt_state \<Rightarrow> u64 option" where
  "val_smmu_get_info g_smmu type smmu_index s =
     (if g_num_smmus s \<le> smmu_index then Some 0
      else case type of
        SMMU_SSID_BITS \<Rightarrow> map_option (\<lambda>(b, _, _). ucast b) (nth_opt g_smmu (unat smmu_index))
      | SMMU_IN_ADDR_SIZE \<Rightarrow> map_option (\<lambda>(_, i, _). i) (nth_opt g_smmu (unat smmu_index))
      | SMMU_OUT_ADDR_SIZE \<Rightarrow> map_option (\<lambda>(_, _, i). i) (nth_opt g_smmu (unat smmu_index))
      | _ \<Rightarrow> val_iovirt_get_smmu_info type smmu_index s)"

abbreviation (input) ACS_INVALID_INDEX :: u32 where "ACS_INVALID_INDEX \<equiv> 0xFFFFFFFF"

fun smmu_index_loop :: "(u32 \<times> u64 \<times> u64) list \<Rightarrow> u64 \<Rightarrow> nat \<Rightarrow> iovirt_state \<Rightarrow> u32 option" where
  "smmu_index_loop g_smmu sbase 0 s = Some ACS_INVALID_INDEX"
| "smmu_index_loop g_smmu sbase (Suc num_smmu) s = do {
     b \<leftarrow> val_smmu_get_info g_smmu SMMU_CTRL_BASE (of_nat num_smmu) s;
     if sbase = b then Some (of_nat num_smmu) else smmu_index_loop g_smmu sbase num_smmu s }"

definition val_iovirt_get_rc_smmu_index :: "(u32 \<times> u64 \<times> u64) list \<Rightarrow> u32 \<Rightarrow> u32 \<Rightarrow> iovirt_state \<Rightarrow> u32 option" where
  "val_iovirt_get_rc_smmu_index g_smmu rc_seg_num rid s = do {
     sbase \<leftarrow> pal_iovirt_get_rc_smmu_base (g_iovirt_info_table s) (info_table s) rc_seg_num rid;
     if sbase \<noteq> 0 then do {
       num_smmu \<leftarrow> val_smmu_get_info g_smmu SMMU_NUM_CTRL 0 s;
       smmu_index_loop g_smmu sbase (unat (ucast num_smmu :: u32)) s }
     else Some ACS_INVALID_INDEX }"

section \<open>Filling the table on bare metal\<close>

record platform_map =
  input_bases :: "u32 list"
  id_counts :: "u32 list"
  output_bases :: "u32 list"
  output_refs :: "u32 list"

record platform_iovirt_cfg =
  cfg_address :: u64
  node_count :: u32
  cfg_type :: "u32 list"
  num_map :: "u32 list"
  cfg_map :: "platform_map list"

record platform_smmu =
  cfg_smmu_base :: u64
  context_interrupt_offset :: u64
  context_interrupt_count :: u32

record platform_node_type =
  cfg_its_count :: u32
  cfg_rc_segment :: u32
  cfg_rc_cca :: u32
  cfg_rc_ats_attr :: u32
  cfg_smmu :: "platform_smmu list"

text \<open>The check compares the entries of an array of which the platform has one; a second one is outside.\<close>

definition smmu_ctx_int_distinct :: "u64 list \<Rightarrow> u8 \<Rightarrow> bool option" where
  "smmu_ctx_int_distinct ctx_int ctx_int_cnt =
     (if ctx_int_cnt \<le> 1 then Some True
      else if length ctx_int < unat ctx_int_cnt then None
      else Some (distinct (map (ucast :: u64 \<Rightarrow> u32) (take (unat ctx_int_cnt) ctx_int))))"

text \<open>One mapping. The reference of a root complex is the offset of a node already placed, from the array \<^verbatim>\<open>node\<close>; that of any
  other node is the one of the platform (which overwrites the offset the code first takes for an SMMU).\<close>

definition make_map :: "u32 \<Rightarrow> u32 \<Rightarrow> platform_map \<Rightarrow> u32 list \<Rightarrow> nat \<Rightarrow> id_map option" where
  "make_map NUM_ITS_COUNT type pm node j = do {
     ib \<leftarrow> nth_opt (input_bases pm) j;
     ic \<leftarrow> nth_opt (id_counts pm) j;
     ob \<leftarrow> nth_opt (output_bases pm) j;
     oref \<leftarrow> (if type = IOVIRT_NODE_PCI_ROOT_COMPLEX then nth_opt node (j + unat NUM_ITS_COUNT) else nth_opt (output_refs pm) j);
     Some \<lparr>input_base = ib, id_count = ic, output_base = ob, output_ref = oref\<rparr> }"

fun make_maps :: "u32 \<Rightarrow> u32 \<Rightarrow> platform_map \<Rightarrow> u32 list \<Rightarrow> nat list \<Rightarrow> id_map list option" where
  "make_maps NUM_ITS_COUNT type pm node [] = Some []"
| "make_maps NUM_ITS_COUNT type pm node (j # js) = do {
     m \<leftarrow> make_map NUM_ITS_COUNT type pm node j;
     ms \<leftarrow> make_maps NUM_ITS_COUNT type pm node js;
     Some (m # ms) }"

text \<open>The words of the mappings of a translation service group: identifiers from the table \<^verbatim>\<open>identifier\<close> of four, then what the
  memory held.\<close>

fun words_to_maps :: "u32 list \<Rightarrow> id_map list" where
  "words_to_maps (a # b # c # d # ws) = \<lparr>input_base = a, id_count = b, output_base = c, output_ref = d\<rparr> # words_to_maps ws"
| "words_to_maps ws = []"

definition its_maps :: "(nat \<Rightarrow> u32) \<Rightarrow> nat \<Rightarrow> u32 \<Rightarrow> id_map list option" where
  "its_maps junk i cnt =
     (if cnt = 0 then Some []
      else if 4 < i + unat cnt then None
      else Some (words_to_maps (map (\<lambda>k. if k < unat cnt then of_nat (i + k) else junk k) [0..<4 * ((unat cnt + 3) div 4)])))"

text \<open>What the loop changes: the table, the address behind the last block, the offsets of the nodes and the counts of SMMUs of
  both kinds. The loop ends early at a node of unknown type.\<close>

record fill_state =
  f_table :: iovirt_info_table
  f_next :: u64
  f_node :: "u32 list"
  f_m :: nat
  f_k :: nat

definition fill_block :: "platform_iovirt_cfg \<Rightarrow> platform_node_type \<Rightarrow> u32 \<Rightarrow> (nat \<Rightarrow> u32) \<Rightarrow> node_data \<Rightarrow> u64 \<Rightarrow> nat \<Rightarrow> u32 \<Rightarrow> fill_state \<Rightarrow>
    fill_state option" where
  "fill_block cfg pn NUM_ITS_COUNT junk junk_data base i type f = do {
     let a = ALIGN_MEMORY (f_next f);
     let t = f_table f;
     let node = f_node f @ [ucast (a - base)];
     let add = (\<lambda>b t f. f\<lparr>f_table := t\<lparr>num_blocks := num_blocks t + 1, blocks := blocks t @ [b]\<rparr>,
                         f_next := IOVIRT_NEXT_BLOCK a b, f_node := node\<rparr>);
     if type = IOVIRT_NODE_ITS_GROUP then do {
       ms \<leftarrow> its_maps junk i (cfg_its_count pn);
       Some (add \<lparr>node_type = type, num_data_map = (cfg_its_count pn + 3) div 4, data = junk_data\<lparr>its_count := cfg_its_count pn\<rparr>,
                  node_flags = 0, data_map = ms\<rparr> (t\<lparr>num_its_groups := num_its_groups t + 1\<rparr>) f) }
     else do {
       n \<leftarrow> nth_opt (num_map cfg) i;
       pm \<leftarrow> nth_opt (cfg_map cfg) i;
       ms \<leftarrow> make_maps NUM_ITS_COUNT type pm node [0..<unat n];
       let b = \<lparr>node_type = type, num_data_map = n, data = junk_data, node_flags = 0, data_map = ms\<rparr>;
       if type = IOVIRT_NODE_NAMED_COMPONENT then Some (add b (t\<lparr>num_named_components := num_named_components t + 1\<rparr>) f)
       else if type = IOVIRT_NODE_PCI_ROOT_COMPLEX then
         Some (add (b\<lparr>data := junk_data\<lparr>rc_segment := cfg_rc_segment pn, rc_cca := cfg_rc_cca pn, rc_ats_attr := cfg_rc_ats_attr pn\<rparr>\<rparr>)
           (t\<lparr>num_pci_rcs := num_pci_rcs t + 1\<rparr>) f)
       else if type = IOVIRT_NODE_SMMU then do {
         sm \<leftarrow> nth_opt (cfg_smmu pn) (f_m f);
         ok \<leftarrow> smmu_ctx_int_distinct [context_interrupt_offset sm] (ucast (context_interrupt_count sm));
         Some (add (b\<lparr>data := junk_data\<lparr>smmu_base := cfg_smmu_base sm, smmu_arch_major_rev := 2\<rparr>,
                      node_flags := (if ok then 0 else push_bit 2 1)\<rparr>)
           (t\<lparr>num_smmus := num_smmus t + 1\<rparr>) (f\<lparr>f_m := f_m f + 1\<rparr>)) }
       else if type = IOVIRT_NODE_SMMU_V3 then do {
         sm \<leftarrow> nth_opt (cfg_smmu pn) (f_k f);
         Some (add (b\<lparr>data := junk_data\<lparr>smmu_base := cfg_smmu_base sm, smmu_arch_major_rev := 3\<rparr>\<rparr>)
           (t\<lparr>num_smmus := num_smmus t + 1\<rparr>) (f\<lparr>f_k := f_k f + 1\<rparr>)) }
       else Some (add b (t\<lparr>num_pmcgs := num_pmcgs t + 1\<rparr>) f) } }"

fun fill_nodes :: "platform_iovirt_cfg \<Rightarrow> platform_node_type \<Rightarrow> u32 \<Rightarrow> (nat \<Rightarrow> u32) \<Rightarrow> node_data \<Rightarrow> u64 \<Rightarrow> nat list \<Rightarrow> fill_state \<Rightarrow>
    fill_state option" where
  "fill_nodes cfg pn NUM_ITS_COUNT junk junk_data base [] f = Some f"
| "fill_nodes cfg pn NUM_ITS_COUNT junk junk_data base (i # is) f = do {
     type \<leftarrow> nth_opt (cfg_type cfg) i;
     if 5 < type then Some f
     else do {
       f \<leftarrow> fill_block cfg pn NUM_ITS_COUNT junk junk_data base i type f;
       fill_nodes cfg pn NUM_ITS_COUNT junk junk_data base is f } }"

definition empty_table :: iovirt_info_table where
  "empty_table = \<lparr>num_blocks = 0, num_smmus = 0, num_pci_rcs = 0, num_named_components = 0, num_its_groups = 0, num_pmcgs = 0, blocks = []\<rparr>"

definition pal_iovirt_create_info_table :: "platform_iovirt_cfg \<Rightarrow> platform_node_type \<Rightarrow> u32 \<Rightarrow> (nat \<Rightarrow> u32) \<Rightarrow> node_data \<Rightarrow> u64 \<Rightarrow>
    fill_state option" where
  "pal_iovirt_create_info_table cfg pn NUM_ITS_COUNT junk junk_data base =
     (let f = \<lparr>f_table = empty_table, f_next = base + 24, f_node = [], f_m = 0, f_k = 0\<rparr> in
      if cfg_address cfg = 0 then Some f
      else fill_nodes cfg pn NUM_ITS_COUNT junk junk_data base [0..<unat (node_count cfg)] f)"

definition val_iovirt_create_info_table :: "platform_iovirt_cfg \<Rightarrow> platform_node_type \<Rightarrow> u32 \<Rightarrow> (nat \<Rightarrow> u32) \<Rightarrow> node_data \<Rightarrow> u64 \<Rightarrow>
    iovirt_state \<Rightarrow> iovirt_state option" where
  "val_iovirt_create_info_table cfg pn NUM_ITS_COUNT junk junk_data iovirt_info_table s =
     (if iovirt_info_table = 0 then Some s
      else do {
        f \<leftarrow> pal_iovirt_create_info_table cfg pn NUM_ITS_COUNT junk junk_data iovirt_info_table;
        let s = s\<lparr>g_iovirt_info_table := iovirt_info_table, info_table := f_table f\<rparr>;
        n \<leftarrow> val_iovirt_get_smmu_info SMMU_NUM_CTRL 0 s;
        Some (s\<lparr>g_num_smmus := ucast n\<rparr>) })"

text \<open>The configuration of the Fixed Virtual Platform, and the size of the memory that the application allocates for it.\<close>

definition fvp_iovirt_cfg :: platform_iovirt_cfg where
  "fvp_iovirt_cfg = \<lparr>cfg_address = 0xF280AC18, node_count = 3, cfg_type = [0, 4, 2], num_map = [0, 1, 1],
     cfg_map = [\<lparr>input_bases = [0, 0], id_counts = [0, 0], output_bases = [0, 0], output_refs = [0, 0]\<rparr>,
       \<lparr>input_bases = [0, 0], id_counts = [0xFFFF, 0], output_bases = [0, 0], output_refs = [0x18, 0]\<rparr>,
       \<lparr>input_bases = [0, 0], id_counts = [0xFFFF, 0], output_bases = [0, 0], output_refs = [0x250, 0]\<rparr>]\<rparr>"

definition fvp_node_type :: platform_node_type where
  "fvp_node_type = \<lparr>cfg_its_count = 1, cfg_rc_segment = 0, cfg_rc_cca = 0, cfg_rc_ats_attr = 1,
     cfg_smmu = [\<lparr>cfg_smmu_base = 0x2B400000, context_interrupt_offset = 0, context_interrupt_count = 0\<rparr>]\<rparr>"

definition iovirt_table_size :: "u64 \<Rightarrow> u64 \<Rightarrow> u64" where
  "iovirt_table_size nodes max_num_map = 24 + nodes * 272 + max_num_map * 16"

section \<open>What the table holds\<close>

text \<open>The counters of the header are the numbers of blocks of each kind, and every block has its mappings.\<close>

definition table_ok :: "iovirt_info_table \<Rightarrow> bool" where
  "table_ok t \<longleftrightarrow> unat (num_blocks t) = length (blocks t) \<and>
     unat (num_smmus t) = length (filter is_smmu (blocks t)) \<and> unat (num_pci_rcs t) = length (filter is_rc (blocks t)) \<and>
     unat (num_its_groups t) = length (filter (\<lambda>b. node_type b = IOVIRT_NODE_ITS_GROUP) (blocks t)) \<and>
     (\<forall>b\<in>set (blocks t). unat (num_data_map b) = length (data_map b))"

lemma make_maps_length: "make_maps n type pm node js = Some ms \<Longrightarrow> length ms = length js"
  by (induction js arbitrary: ms) (auto split: bind_splits)

lemma words_to_maps_length: "length ws = 4 * k \<Longrightarrow> length (words_to_maps ws) = k"
proof (induction k arbitrary: ws)
  case (Suc k)
  obtain a b c d ws' where "ws = a # b # c # d # ws'"
    using Suc.prems by (cases ws rule: words_to_maps.cases) auto
  then show ?case using Suc by simp
qed simp

lemma its_maps_length: "its_maps junk i cnt = Some ms \<Longrightarrow> length ms = unat ((cnt + 3) div 4)"
proof -
  assume m: "its_maps junk i cnt = Some ms"
  show "length ms = unat ((cnt + 3) div 4)"
  proof (cases "cnt = 0")
    case False
    then have c: "unat cnt \<le> 4" and ms: "ms = words_to_maps (map (\<lambda>k. if k < unat cnt then of_nat (i + k) else junk k) [0..<4 * ((unat cnt + 3) div 4)])"
      using m by (auto simp: its_maps_def split: if_splits)
    have "unat (cnt + 3) = unat cnt + 3" using c by (subst unat_add_lem [THEN iffD1]) simp_all
    then have "unat ((cnt + 3) div 4) = (unat cnt + 3) div 4" by (simp add: unat_div)
    then show ?thesis unfolding ms by (subst words_to_maps_length) simp_all
  qed (use m in \<open>simp add: its_maps_def\<close>)
qed

lemma unat_Suc32: "unat (w :: u32) = n \<Longrightarrow> Suc n < 2 ^ 32 \<Longrightarrow> unat (w + 1) = Suc n"
  using unat_add_lem [of w 1] by simp

lemma fill_block_new:
  assumes "fill_block cfg pn n junk jd base i type f = Some f'" and "type \<le> 5"
  defines "t \<equiv> f_table f" and "t' \<equiv> f_table f'" and "b \<equiv> last (blocks (f_table f'))"
  shows "blocks t' = blocks t @ [b]" and "num_blocks t' = num_blocks t + 1" and "unat (num_data_map b) = length (data_map b)"
    and "num_smmus t' = (if is_smmu b then num_smmus t + 1 else num_smmus t)"
    and "num_pci_rcs t' = (if is_rc b then num_pci_rcs t + 1 else num_pci_rcs t)"
    and "num_its_groups t' = (if node_type b = 0 then num_its_groups t + 1 else num_its_groups t)"
  using assms(1) unfolding t_def t'_def b_def
  by (auto simp: fill_block_def is_smmu_def is_rc_def its_maps_length make_maps_length Let_def split: if_splits bind_splits)

lemma fill_block_ok:
  assumes "fill_block cfg pn n junk jd base i type f = Some f'" and "type \<le> 5" and "table_ok (f_table f)"
    and "Suc (length (blocks (f_table f))) < 2 ^ 32"
  shows "table_ok (f_table f') \<and> length (blocks (f_table f')) = Suc (length (blocks (f_table f)))"
proof -
  let ?t = "f_table f"
  obtain b where new: "blocks (f_table f') = blocks ?t @ [b]" "num_blocks (f_table f') = num_blocks ?t + 1"
    "unat (num_data_map b) = length (data_map b)" "num_smmus (f_table f') = (if is_smmu b then num_smmus ?t + 1 else num_smmus ?t)"
    "num_pci_rcs (f_table f') = (if is_rc b then num_pci_rcs ?t + 1 else num_pci_rcs ?t)"
    "num_its_groups (f_table f') = (if node_type b = 0 then num_its_groups ?t + 1 else num_its_groups ?t)"
    using fill_block_new [OF assms(1,2)] by blast
  have inc: "unat (w + 1) = Suc (length (filter P (blocks ?t)))" if "unat w = length (filter P (blocks ?t))" for w :: u32 and P
    by (rule unat_Suc32 [OF that]) (use length_filter_le [of P "blocks ?t"] assms(4) in linarith)
  have nb: "unat (num_blocks ?t + 1) = Suc (length (blocks ?t))"
    using assms(3,4) by (intro unat_Suc32) (simp_all add: table_ok_def)
  show ?thesis
    using assms(3) new(3) nb inc [of "num_smmus ?t" is_smmu] inc [of "num_pci_rcs ?t" is_rc]
      inc [of "num_its_groups ?t" "\<lambda>b. node_type b = 0"]
    unfolding table_ok_def new(1,2,4-6) by auto
qed

lemma fill_nodes_ok:
  "fill_nodes cfg pn n junk jd base is f = Some f' \<Longrightarrow> table_ok (f_table f) \<Longrightarrow> length (blocks (f_table f)) + length is < 2 ^ 32 \<Longrightarrow>
   table_ok (f_table f')"
proof (induction "is" arbitrary: f)
  case (Cons i "is")
  then show ?case
    by (auto split: bind_splits if_splits dest!: fill_block_ok)
qed simp


section \<open>Lookups\<close>

lemma block_addrs_snd [simp]: "map snd (block_addrs a bs) = bs"
  by (induction bs arbitrary: a) (simp_all add: Let_def)

lemma table_ok_blocks:
  assumes "table_ok t"
  shows "table_blocks base t = Some (block_addrs (base + 24) (blocks t))"
proof -
  have "length (block_addrs (base + 24) (blocks t)) = length (blocks t)"
    using length_map [of snd "block_addrs (base + 24) (blocks t)"] by simp
  then show ?thesis using assms by (simp add: table_blocks_def table_ok_def)
qed

lemma smmu_scan_base:
  assumes "j \<le> index" and "unat j + length (filter is_smmu (map snd bs)) < 2 ^ 32"
  shows "smmu_info_scan SMMU_CTRL_BASE index j bs =
    (let fs = filter is_smmu (map snd bs); k = unat index - unat j in if k < length fs then smmu_base (data (fs ! k)) else 0)"
  using assms
proof (induction bs arbitrary: j)
  case Nil
  have "index > j - 1 \<or> j = 0"
  proof (cases "j = 0")
    case False
    then have "j - 1 < j" by (simp add: word_less_nat_alt unat_minus_one unat_gt_0)
    then show ?thesis using Nil(1) by (auto dest: order_less_le_trans)
  qed simp
  then show ?case by auto
next
  case (Cons x bs)
  obtain a b where x: "x = (a, b)" by fastforce
  show ?case
  proof (cases "is_smmu b \<and> j \<noteq> index")
    case True
    then have j: "unat (j + 1) = Suc (unat j)" "j + 1 \<le> index"
      using Cons.prems by (auto simp: x word_le_nat_alt word_unat_eq_iff intro!: unat_Suc32) (subst unat_Suc32 [OF refl]; simp)
    then have "unat index - unat j = Suc (unat index - unat (j + 1))"
      using True by (auto simp: word_le_nat_alt)
    then show ?thesis using True j Cons.IH [of "j + 1"] Cons.prems by (auto simp: x Let_def)
  next
    case False
    then show ?thesis using Cons.IH [of j] Cons.prems by (auto simp: x Let_def)
  qed
qed

lemma smmu_base_at:
  assumes "table_ok (info_table s)" and "g_iovirt_info_table s \<noteq> 0"
  shows "val_iovirt_get_smmu_info SMMU_CTRL_BASE index s =
    Some (if index < num_smmus (info_table s) then smmu_base (data (filter is_smmu (blocks (info_table s)) ! unat index)) else 0)"
proof -
  have "length (filter is_smmu (blocks (info_table s))) = unat (num_smmus (info_table s))" using assms(1) by (simp add: table_ok_def)
  then show ?thesis
    using assms smmu_scan_base [of 0 index "block_addrs (g_iovirt_info_table s + 24) (blocks (info_table s))"]
      word_unat_less [of "num_smmus (info_table s)"]
    by (simp add: val_iovirt_get_smmu_info_def table_ok_blocks Let_def word_less_nat_alt)
qed

text \<open>SMMUs by number. On a table as the platform fills it, the base address reported for an index is that of the SMMU block with that
  number, in the order of the table; an index beyond the last one gives zero.\<close>

theorem smmu_info_by_index:
  assumes "table_ok (info_table s)" and "g_iovirt_info_table s \<noteq> 0"
  shows "val_iovirt_get_smmu_info SMMU_CTRL_BASE index s =
    Some (if index < num_smmus (info_table s) then smmu_base (data (filter is_smmu (blocks (info_table s)) ! unat index)) else 0)"
  using assms by (rule smmu_base_at)

text \<open>The route of a requester: in the last root complex of the segment that has one, the first mapping that covers it.\<close>

definition rc_route :: "iovirt_info_table \<Rightarrow> u32 \<Rightarrow> u32 \<Rightarrow> id_map option" where
  "rc_route t segment rid =
     (let cs = List.map_filter (\<lambda>b. find (map_covers rid) (data_map b))
        (filter (\<lambda>b. is_rc b \<and> rc_segment (data b) = segment) (blocks t))
      in if cs = [] then None else Some (last cs))"

lemma map_loop_find: "map_loop i ms = find (map_covers i) ms"
  by (induction ms) auto

lemma block_maps_ok: "unat (num_data_map b) = length (data_map b) \<Longrightarrow> block_maps b = Some (data_map b)"
  by (simp add: block_maps_def)

lemma rc_loop_last:
  assumes "\<forall>b\<in>set bs. unat (num_data_map b) = length (data_map b)"
  shows "rc_loop rid segment (block_addrs a bs) found =
    (let cs = List.map_filter (\<lambda>b. find (map_covers rid) (data_map b)) (filter (\<lambda>b. is_rc b \<and> rc_segment (data b) = segment) bs)
     in Some (if cs = [] then found else Some (map_output rid (last cs), output_ref (last cs))))"
  using assms
proof (induction bs arbitrary: a found)
  case Nil
  then show ?case by (simp add: List.map_filter_def)
next
  case (Cons b bs)
  then show ?case
    by (auto simp: block_maps_ok map_loop_find List.map_filter_def Let_def split: option.splits)
qed

lemma rc_loop_route:
  assumes "table_ok t"
  shows "rc_loop rid segment (block_addrs a (blocks t)) None =
    Some (map_option (\<lambda>m. (map_output rid m, output_ref m)) (rc_route t segment rid))"
  using rc_loop_last [of "blocks t" rid segment a None] assms by (auto simp: rc_route_def table_ok_def Let_def)

lemma block_ref_in: "block_ref base t oref = Some b \<Longrightarrow> b \<in> set (blocks t)"
  unfolding block_ref_def by (drule map_of_SomeD) (metis block_addrs_snd image_eqI list.set_map snd_conv)

text \<open>The search by base address runs from the last SMMU down.\<close>

lemma smmu_index_loop_result:
  assumes ok: "table_ok (info_table s)" "g_iovirt_info_table s \<noteq> 0" "g_num_smmus s = num_smmus (info_table s)"
    and "n \<le> unat (num_smmus (info_table s))"
  defines "fs \<equiv> filter is_smmu (blocks (info_table s))"
  shows "\<exists>r. smmu_index_loop w sbase n s = Some r \<and>
    (if \<exists>i<n. smmu_base (data (fs ! i)) = sbase then unat r < n \<and> smmu_base (data (fs ! unat r)) = sbase else r = ACS_INVALID_INDEX)"
  using assms(4)
proof (induction n)
  case (Suc n)
  have n: "unat (of_nat n :: u32) = n"
    using Suc.prems word_unat_less [of "num_smmus (info_table s)"] by (intro unat_of_nat_small) simp
  then have lt: "of_nat n < num_smmus (info_table s)" using Suc.prems by (simp add: word_less_nat_alt)
  then have "val_smmu_get_info w SMMU_CTRL_BASE (of_nat n) s = Some (smmu_base (data (fs ! n)))"
    using smmu_base_at [OF ok(1,2), of "of_nat n"] unfolding fs_def by (simp add: val_smmu_get_info_def ok(3) n linorder_not_le [symmetric])
  moreover obtain r where "smmu_index_loop w sbase n s = Some r"
    "if \<exists>i<n. smmu_base (data (fs ! i)) = sbase then unat r < n \<and> smmu_base (data (fs ! unat r)) = sbase else r = ACS_INVALID_INDEX"
    using Suc by auto
  ultimately show ?case using n by (auto simp: less_Suc_eq split: if_splits)
qed simp


section \<open>The table of the platform\<close>

lemma align_base: "take_bit 3 base = 0 \<Longrightarrow> ALIGN_MEMORY (base + x) = base + ALIGN_MEMORY x"
proof -
  assume b: "take_bit 3 base = 0"
  have a: "w AND NOT 7 = w - take_bit 3 w" for w :: u64
  proof -
    have "(w AND NOT (mask 3)) AND (w AND mask 3) = 0" "(w AND NOT (mask 3)) OR (w AND mask 3) = w"
      by (auto intro!: bit_word_eqI simp: bit_and_iff bit_or_iff bit_not_iff)
    then have "(w AND NOT (mask 3)) + (w AND mask 3) = w" using word_plus_and_or [of "w AND NOT (mask 3)" "w AND mask 3"] by simp
    moreover have "mask 3 = (7 :: u64)" by (simp add: mask_eq_exp_minus_1)
    ultimately show ?thesis by (simp only: eq_diff_eq take_bit_eq_mask)
  qed
  show ?thesis unfolding ALIGN_MEMORY_def a add.assoc take_bit_add_zero [OF _ b, simplified] by simp
qed

lemma align_consts: "ALIGN_MEMORY 24 = 24" "ALIGN_MEMORY 308 = 312" "ALIGN_MEMORY 596 = 600"
  by (simp_all add: ALIGN_MEMORY_def)

definition fvp_blocks :: "(nat \<Rightarrow> u32) \<Rightarrow> node_data \<Rightarrow> iovirt_block list" where
  "fvp_blocks junk d =
     [\<lparr>node_type = 0, num_data_map = 1, data = d\<lparr>its_count := 1\<rparr>, node_flags = 0,
        data_map = [\<lparr>input_base = 0, id_count = junk 1, output_base = junk 2, output_ref = junk 3\<rparr>]\<rparr>,
      \<lparr>node_type = 4, num_data_map = 1, data = d\<lparr>smmu_base := 0x2B400000, smmu_arch_major_rev := 3\<rparr>, node_flags = 0,
        data_map = [\<lparr>input_base = 0, id_count = 0xFFFF, output_base = 0, output_ref = 24\<rparr>]\<rparr>,
      \<lparr>node_type = 2, num_data_map = 1, data = d\<lparr>rc_segment := 0, rc_cca := 0, rc_ats_attr := 1\<rparr>, node_flags = 0,
        data_map = [\<lparr>input_base = 0, id_count = 0xFFFF, output_base = 0, output_ref = 312\<rparr>]\<rparr>]"

lemma fvp_table:
  assumes "take_bit 3 base = 0"
  shows "pal_iovirt_create_info_table fvp_iovirt_cfg fvp_node_type 1 junk jd base =
    Some \<lparr>f_table = \<lparr>num_blocks = 3, num_smmus = 1, num_pci_rcs = 1, num_named_components = 0, num_its_groups = 1, num_pmcgs = 0,
        blocks = fvp_blocks junk jd\<rparr>, f_next = base + 884, f_node = [24, 312, 600], f_m = 0, f_k = 1\<rparr>"
proof -
  note al = align_base [OF assms] align_consts
  have its: "its_maps junk 0 1 = Some [\<lparr>input_base = 0, id_count = junk 1, output_base = junk 2, output_ref = junk 3\<rparr>]"
    by (simp add: its_maps_def upt_rec) (simp add: eval_nat_numeral)
  note defs = fill_block_def fvp_iovirt_cfg_def fvp_node_type_def nth_opt_def make_map_def upt_rec IOVIRT_NEXT_BLOCK_def Let_def
  define t where "t n s r i bs = \<lparr>num_blocks = n, num_smmus = s, num_pci_rcs = r, num_named_components = 0, num_its_groups = i, num_pmcgs = 0,
    blocks = bs\<rparr>" for n s r i :: u32 and bs
  define f where "f n s r i bs nx nd k = \<lparr>f_table = t n s r i bs, f_next = nx, f_node = nd, f_m = 0, f_k = k\<rparr>" for n s r i :: u32 and bs nx nd and k :: nat
  have 1: "fill_block fvp_iovirt_cfg fvp_node_type 1 junk jd base 0 0 (f 0 0 0 0 [] (base + 24) [] 0) =
      Some (f 1 0 0 1 (take 1 (fvp_blocks junk jd)) (base + 308) [24] 0)"
    by (simp add: defs al its f_def t_def fvp_blocks_def)
  have 2: "fill_block fvp_iovirt_cfg fvp_node_type 1 junk jd base 1 4 (f 1 0 0 1 (take 1 (fvp_blocks junk jd)) (base + 308) [24] 0) =
      Some (f 2 1 0 1 (take 2 (fvp_blocks junk jd)) (base + 596) [24, 312] 1)"
    by (simp add: defs al f_def t_def fvp_blocks_def)
  have 3: "fill_block fvp_iovirt_cfg fvp_node_type 1 junk jd base 2 2 (f 2 1 0 1 (take 2 (fvp_blocks junk jd)) (base + 596) [24, 312] 1) =
      Some (f 3 1 1 1 (fvp_blocks junk jd) (base + 884) [24, 312, 600] 1)"
    by (simp add: defs al f_def t_def fvp_blocks_def)
  have "[0..<unat (node_count fvp_iovirt_cfg)] = [0, 1, 2]" by (simp add: fvp_iovirt_cfg_def upt_rec)
  moreover have "nth_opt (cfg_type fvp_iovirt_cfg) 0 = Some 0" "nth_opt (cfg_type fvp_iovirt_cfg) 1 = Some 4"
    "nth_opt (cfg_type fvp_iovirt_cfg) 2 = Some 2" "cfg_address fvp_iovirt_cfg \<noteq> 0" by (simp_all add: nth_opt_def fvp_iovirt_cfg_def)
  moreover have "\<lparr>f_table = empty_table, f_next = base + 24, f_node = [], f_m = 0, f_k = 0\<rparr> = f 0 0 0 0 [] (base + 24) [] 0"
    by (simp add: f_def t_def empty_table_def)
  ultimately show ?thesis
    using 1 2 3 by (simp add: pal_iovirt_create_info_table_def Let_def) (simp add: f_def t_def)
qed

text \<open>(C40) The platform's table. For a table at an address that is a multiple of 8, creation succeeds, every requester of segment 0 up to
  0xFFFF has its own number as stream and device identifier, the translation service 0 and the SMMU 0; a larger one
  is not found. The table ends 884 bytes after its start, 12 bytes beyond the memory that is allocated for it.\<close>

theorem fvp_iovirt_table:
  assumes "take_bit 3 base = 0" and "base \<noteq> 0"
  shows "\<exists>s' f. val_iovirt_create_info_table fvp_iovirt_cfg fvp_node_type 1 junk jd base s = Some s' \<and> g_num_smmus s' = 1 \<and>
    (\<forall>rid. val_iovirt_get_device_info rid 0 False s' =
       Some (if rid \<le> 0xFFFF then Inr (rid, rid, 0) else Inl 0xEDCB1234)) \<and>
    (\<forall>rid. rid \<le> 0xFFFF \<longrightarrow> val_iovirt_get_rc_smmu_index w 0 rid s' = Some 0) \<and>
    pal_iovirt_create_info_table fvp_iovirt_cfg fvp_node_type 1 junk jd base = Some f \<and> f_table f = info_table s' \<and>
    f_next f - base = iovirt_table_size 3 2 + 12"
proof -
  define t where "t = \<lparr>num_blocks = 3, num_smmus = 1, num_pci_rcs = 1, num_named_components = 0, num_its_groups = 1, num_pmcgs = 0,
        blocks = fvp_blocks junk jd\<rparr>"
  define s' where "s' = s\<lparr>g_iovirt_info_table := base, info_table := t, g_num_smmus := 1\<rparr>"
  have c: "val_iovirt_create_info_table fvp_iovirt_cfg fvp_node_type 1 junk jd base s = Some s'"
    using assms by (simp add: val_iovirt_create_info_table_def fvp_table val_iovirt_get_smmu_info_def t_def s'_def)
  note al = align_base [OF assms(1)] align_consts
  have ba: "block_addrs (base + 24) (fvp_blocks junk jd) =
      zip [base + 24, base + 312, base + 600] (fvp_blocks junk jd)"
    using al(1) [of 24] al(1) [of 308] al(1) [of 596] by (simp add: fvp_blocks_def al IOVIRT_NEXT_BLOCK_def Let_def add.commute [of base])
  have tb: "table_blocks base t = Some (block_addrs (base + 24) (fvp_blocks junk jd))"
  proof -
    have "table_ok t" by (simp add: t_def fvp_blocks_def table_ok_def is_smmu_def is_rc_def)
    then show ?thesis using table_ok_blocks [of t base] by (simp add: t_def)
  qed
  define rc sm its where "rc = fvp_blocks junk jd ! 2" and "sm = fvp_blocks junk jd ! 1" and "its = fvp_blocks junk jd ! 0"
  have refs: "block_ref base t 24 = Some its" "block_ref base t 312 = Some sm"
    by (simp_all add: block_ref_def t_def ba) (simp_all add: fvp_blocks_def its_def sm_def)
  have cov: "map_covers rid \<lparr>input_base = 0, id_count = 0xFFFF, output_base = 0, output_ref = x\<rparr> \<longleftrightarrow> rid \<le> 0xFFFF" for rid x
    by (simp add: map_covers_def)
  have rc: "rc_loop rid 0 (block_addrs (base + 24) (fvp_blocks junk jd)) None = Some (if rid \<le> 0xFFFF then Some (rid, 312) else None)" for rid
    unfolding ba by (simp add: fvp_blocks_def is_rc_def block_maps_def cov map_output_def)
  have sm: "is_smmu sm" "node_type sm = 4" "block_maps sm = Some [\<lparr>input_base = 0, id_count = 0xFFFF, output_base = 0, output_ref = 24\<rparr>]"
    "smmu_base (data sm) = 0x2B400000" "node_type its = 0" "its_of its = Some 0"
    by (simp_all add: sm_def its_def fvp_blocks_def is_smmu_def block_maps_def its_of_def nth_opt_def)
  have d: "val_iovirt_get_device_info rid 0 False s' = Some (if rid \<le> 0xFFFF then Inr (rid, rid, 0) else Inl 0xEDCB1234)" for rid
    using assms(2) by (simp add: val_iovirt_get_device_info_def s'_def tb rc refs sm cov map_output_def)
  have scan: "smmu_info_scan SMMU_CTRL_BASE 0 0 (block_addrs (base + 24) (fvp_blocks junk jd)) = 0x2B400000"
    unfolding ba by (simp add: fvp_blocks_def is_smmu_def)
  have nt: "num_smmus t = 1" by (simp add: t_def)
  have "val_iovirt_get_rc_smmu_index w 0 rid s' = Some 0" if "rid \<le> 0xFFFF" for rid
  proof -
    have "pal_iovirt_get_rc_smmu_base base t 0 rid = Some 0x2B400000"
      using that by (simp add: pal_iovirt_get_rc_smmu_base_def tb rc refs sm cov)
    then show ?thesis
      using assms(2) by (simp add: val_iovirt_get_rc_smmu_index_def val_smmu_get_info_def val_iovirt_get_smmu_info_def s'_def nt tb scan)
  qed
  then show ?thesis
    using c d fvp_table [OF assms(1), of junk jd] by (auto simp: s'_def t_def iovirt_table_size_def)
qed

definition example_node_data :: node_data where
  "example_node_data = \<lparr>rc_segment = 7, rc_ats_attr = 7, rc_cca = 7, its_count = 7, smmu_arch_major_rev = 7, smmu_base = 7\<rparr>"

definition example_iovirt :: iovirt_state where
  "example_iovirt = \<lparr>g_iovirt_info_table = 0x8000, info_table =
      \<lparr>num_blocks = 3, num_smmus = 1, num_pci_rcs = 1, num_named_components = 0, num_its_groups = 1, num_pmcgs = 0,
       blocks = fvp_blocks (\<lambda>_. 7) example_node_data\<rparr>, g_num_smmus = 1\<rparr>"

lemma example_iovirt_ok:
  "table_ok (info_table example_iovirt)" "g_iovirt_info_table example_iovirt \<noteq> 0"
  "g_num_smmus example_iovirt = num_smmus (info_table example_iovirt)"
  by (simp_all add: example_iovirt_def fvp_blocks_def table_ok_def is_smmu_def is_rc_def)


theorem smmu_info_by_index_witness:
  "val_iovirt_get_smmu_info SMMU_CTRL_BASE 0 example_iovirt = Some 0x2B400000 \<and> val_iovirt_get_smmu_info SMMU_CTRL_BASE 1 example_iovirt = Some 0"
  using smmu_info_by_index [OF example_iovirt_ok(1,2), of 0] smmu_info_by_index [OF example_iovirt_ok(1,2), of 1]
  by (simp add: example_iovirt_def fvp_blocks_def is_smmu_def)


theorem fvp_iovirt_table_witness:
  "\<exists>s'. val_iovirt_create_info_table fvp_iovirt_cfg fvp_node_type 1 (\<lambda>_. 7) example_node_data 0x8000 example_iovirt = Some s' \<and>
     val_iovirt_get_device_info 0x108 0 False s' = Some (Inr (0x108, 0x108, 0))"
proof -
  have a: "take_bit 3 (0x8000 :: u64) = 0" "(0x8000 :: u64) \<noteq> 0" by simp_all
  obtain s' where s': "val_iovirt_create_info_table fvp_iovirt_cfg fvp_node_type 1 (\<lambda>_. 7) example_node_data 0x8000 example_iovirt = Some s'"
    and d: "\<forall>rid. val_iovirt_get_device_info rid 0 False s' = Some (if rid \<le> 0xFFFF then Inr (rid, rid, 0) else Inl 0xEDCB1234)"
    using fvp_iovirt_table [OF a, of "\<lambda>_. 7" example_node_data example_iovirt "[]"] by blast
  show ?thesis using s' d [rule_format, of "0x108"] by auto
qed

end
