(* ===== verification/Smmu_El2.thy ===== *)
theory Smmu_El2
  imports Smmu_Realm Val_Iovirt Val_Pgt
begin

text \<open>
  The SMMU driver of EL2 (\<^verbatim>\<open>val/sys_arch_src/smmu_v3/smmu_v3.c\<close>, \<^verbatim>\<open>smmu_v3.h\<close>, \<^verbatim>\<open>smmu_reg.h\<close>), on the heap of the bare-metal
  platform and the table of IO remapping nodes. Registers, queues and tables are in memory; what the device does
  between two accesses is the parameter \<open>tick\<close>, as in \<open>Smmu_Queue\<close>. Queues, stream table configurations and masters have the
  structures of the driver of EL3; a pointer to an SMMU or to a master is its position. Names of functions that the driver of EL3
  has as well start with \<open>el2\<close>. Releasing memory does nothing on this platform; the calls are kept.
\<close>

section \<open>Data\<close>

record smmu_dev_t =
  d_base :: u64
  d_ias :: u64
  d_oas :: u64
  d_ssid_bits :: u32
  d_sid_bits :: u32
  cmdq :: smmu_queue_type
  d_strtab :: smmu_strtab_config
  d_2lvl :: bool
  d_cd2l :: bool
  d_hyp :: bool
  d_s1p :: bool
  d_s2p :: bool

definition zero_smmu :: smmu_dev_t where
  "zero_smmu = \<lparr>d_base = 0, d_ias = 0, d_oas = 0, d_ssid_bits = 0, d_sid_bits = 0, cmdq = zero_queue,
     d_strtab = \<lparr>strtab_ptr = 0, strtab64 = 0, strtab_phys = 0, l1_desc_ptr = 0, l1_desc = [],
       l1_ent_count = 0, strtab_base = 0, strtab_base_cfg = 0\<rparr>,
     d_2lvl = False, d_cd2l = False, d_hyp = False, d_s1p = False, d_s2p = False\<rparr>"

record el2_world =
  el2_pal :: pal_state
  smmu_ptr :: u64
  smmus :: "smmu_dev_t list"
  masters :: "smmu_master list"
  iovirt :: iovirt_state

record el2_master_attributes =
  at_index :: u32
  at_streamid :: u32
  at_substreamid :: u32
  at_ssid_bits :: u32
  at_stage2 :: u32

abbreviation (input) SMMU_CR0_OFFSET :: u64 where "SMMU_CR0_OFFSET \<equiv> 0x20"
abbreviation (input) SMMU_CR0ACK_OFFSET :: u64 where "SMMU_CR0ACK_OFFSET \<equiv> 0x24"
abbreviation (input) SMMU_CR1_OFFSET :: u64 where "SMMU_CR1_OFFSET \<equiv> 0x28"
abbreviation (input) SMMU_CR2_OFFSET :: u64 where "SMMU_CR2_OFFSET \<equiv> 0x2C"
abbreviation (input) SMMU_STRTAB_BASE_OFFSET :: u64 where "SMMU_STRTAB_BASE_OFFSET \<equiv> 0x80"
abbreviation (input) SMMU_STRTAB_BASE_CFG_OFFSET :: u64 where "SMMU_STRTAB_BASE_CFG_OFFSET \<equiv> 0x88"
abbreviation (input) SMMU_CMDQ_BASE_OFFSET :: u64 where "SMMU_CMDQ_BASE_OFFSET \<equiv> 0x90"
abbreviation (input) SMMU_CMDQ_PROD_OFFSET :: u64 where "SMMU_CMDQ_PROD_OFFSET \<equiv> 0x98"
abbreviation (input) SMMU_CMDQ_CONS_OFFSET :: u64 where "SMMU_CMDQ_CONS_OFFSET \<equiv> 0x9C"
abbreviation (input) ACS_STATUS_ERR :: u32 where "ACS_STATUS_ERR \<equiv> 0xEDCB1234"

definition on_ram :: "(memory \<Rightarrow> memory) \<Rightarrow> pal_state \<Rightarrow> pal_state" where
  "on_ram f p = p\<lparr>ram := f (ram p)\<rparr>"

section \<open>Queue and commands\<close>

definition el2_align_to_size :: "u64 \<Rightarrow> u64 \<Rightarrow> u64" where
  "el2_align_to_size addr sz = (sz - (addr AND (sz - 1)) + addr) AND NOT (sz - 1)"

definition el2_cmdq_inc_prod :: "smmu_queue \<Rightarrow> u32" where
  "el2_cmdq_inc_prod q = ucast ((ucast (q_prod q + 1) :: u64) AND (push_bit (unat (log2nent q) + 1) 1 - 1))"

definition el2_queue_full :: "smmu_queue \<Rightarrow> bool" where
  "el2_queue_full q =
     (let index_mask = ucast (push_bit (unat (log2nent q)) (1 :: u64) - 1) :: u32; wrap_mask = ucast (push_bit (unat (log2nent q)) (1 :: u64)) :: u32
      in q_prod q AND index_mask = q_cons q AND index_mask \<and> q_prod q AND wrap_mask \<noteq> q_cons q AND wrap_mask)"

definition el2_queue_empty :: "smmu_queue \<Rightarrow> bool" where
  "el2_queue_empty q =
     (let index_mask = ucast (push_bit (unat (log2nent q)) (1 :: u64) - 1) :: u32; wrap_mask = ucast (push_bit (unat (log2nent q)) (1 :: u64)) :: u32
      in q_prod q AND index_mask = q_cons q AND index_mask \<and> q_prod q AND wrap_mask = q_cons q AND wrap_mask)"

definition el2_cmdq_build_cmd :: "u8 \<Rightarrow> (u64 \<times> u64) option" where
  "el2_cmdq_build_cmd opcode =
     (let cmd0 = BITFIELD_SET 7 0 (ucast opcode :: u64) in
      if opcode = CMDQ_OP_TLBI_EL2_ALL \<or> opcode = CMDQ_OP_TLBI_NSNH_ALL \<or> opcode = CMDQ_OP_CMD_SYNC then Some (cmd0, 0)
      else if opcode = CMDQ_OP_CFGI_ALL then Some (cmd0, BITFIELD_SET 4 0 31)
      else None)"

text \<open>The wait for room tests the copy of the indices in the driver, which nothing changes: a full copy runs into the timeout.\<close>

definition el2_cmdq_write_cmd :: "tick \<Rightarrow> smmu_dev_t \<Rightarrow> u64 \<times> u64 \<Rightarrow> memory \<Rightarrow> int \<times> memory" where
  "el2_cmdq_write_cmd tick smmu cmd m =
     (let cq = cmdq smmu in
      if el2_queue_full (queue cq) then (- 1, m)
      else let
        (p, m1) = val_mmio_read tick (prod_reg cq) m;
        q = \<lparr>q_prod = p, q_cons = 0, log2nent = log2nent (queue cq)\<rparr>;
        cmd_dst = q_base cq + (ucast p AND (push_bit (unat (log2nent q)) 1 - 1)) * entry_size cq;
        m2 = st64 (st64 m1 cmd_dst (fst cmd)) (cmd_dst + 8) (snd cmd)
      in (0, val_mmio_write (prod_reg cq) (el2_cmdq_inc_prod q) m2))"

definition el2_cmdq_issue_cmd :: "tick \<Rightarrow> smmu_dev_t \<Rightarrow> u8 \<Rightarrow> memory \<Rightarrow> int \<times> memory" where
  "el2_cmdq_issue_cmd tick smmu opcode m =
     (case el2_cmdq_build_cmd opcode of None \<Rightarrow> (- 1, m) | Some cmd \<Rightarrow> el2_cmdq_write_cmd tick smmu cmd m)"

primrec el2_consumed_poll :: "tick \<Rightarrow> u64 \<Rightarrow> nat \<Rightarrow> smmu_queue \<Rightarrow> memory \<Rightarrow> bool \<times> memory" where
  "el2_consumed_poll tick creg 0 q m = (False, m)"
| "el2_consumed_poll tick creg (Suc timeout) q m =
     (if el2_queue_empty q then (True, m)
      else let (c, m1) = val_mmio_read tick creg m in el2_consumed_poll tick creg timeout (q\<lparr>q_cons := c\<rparr>) m1)"

definition el2_cmdq_poll_until_consumed :: "tick \<Rightarrow> smmu_dev_t \<Rightarrow> memory \<Rightarrow> memory" where
  "el2_cmdq_poll_until_consumed tick smmu m =
     (let cq = cmdq smmu;
          (p, m1) = val_mmio_read tick (prod_reg cq) m;
          (c, m2) = val_mmio_read tick (cons_reg cq) m1;
          q = \<lparr>q_prod = p, q_cons = c, log2nent = log2nent (queue cq)\<rparr>;
          (ok, m3) = el2_consumed_poll tick (cons_reg cq) SMMU_CMDQ_POLL_TIMEOUT q m2
      in if ok then m3 else tick (tick (tick m3)))"

definition el2_tlbi_cfgi :: "tick \<Rightarrow> smmu_dev_t \<Rightarrow> memory \<Rightarrow> memory" where
  "el2_tlbi_cfgi tick smmu m =
     (let m1 = snd (el2_cmdq_issue_cmd tick smmu CMDQ_OP_CFGI_ALL m);
          m2 = (if d_hyp smmu then snd (el2_cmdq_issue_cmd tick smmu CMDQ_OP_TLBI_EL2_ALL m1) else m1);
          m3 = snd (el2_cmdq_issue_cmd tick smmu CMDQ_OP_TLBI_NSNH_ALL m2);
          m4 = snd (el2_cmdq_issue_cmd tick smmu CMDQ_OP_CMD_SYNC m3)
      in el2_cmdq_poll_until_consumed tick smmu m4)"

section \<open>Stream table\<close>

text \<open>An entry that aborts.\<close>

definition write_abort_ste :: "u64 \<Rightarrow> memory \<Rightarrow> memory" where
  "write_abort_ste ste m = st64 (st64 (st64 m ste (1 OR BITFIELD_SET 3 1 0)) (ste + 8) (BITFIELD_SET 45 44 1)) (ste + 16) 0"

definition el2_strtab_write_ste :: "smmu_master option \<Rightarrow> u64 \<Rightarrow> memory \<Rightarrow> memory" where
  "el2_strtab_write_ste master ste m =
     (case master of
        None \<Rightarrow> write_abort_ste ste m
      | Some ma \<Rightarrow>
        (case smmu_master.stage ma of
           SMMU_STAGE_BYPASS \<Rightarrow> m
         | SMMU_STAGE_S2 \<Rightarrow>
             let cfg = stage2_config ma;
                 m1 = st64 m (ste + 8) (ld64 m (ste + 8) OR (BITFIELD_SET 31 30 2 OR BITFIELD_SET 29 28 1));
                 m2 = st64 m1 (ste + 16) (BITFIELD_SET 15 0 (ucast (vmid cfg)) OR BITFIELD_SET 50 32 (vtcr cfg)
                        OR push_bit 54 1 OR push_bit 51 1 OR push_bit 58 1);
                 m3 = st64 m2 (ste + 24) (vttbr cfg AND mask 48)
             in st64 m3 ste (1 OR BITFIELD_SET 3 1 6)
         | SMMU_STAGE_S1 \<Rightarrow>
             let cfg = stage1_config ma;
                 m1 = st64 m (ste + 8) (BITFIELD_SET 1 0 2 OR BITFIELD_SET 3 2 1 OR BITFIELD_SET 5 4 1
                        OR BITFIELD_SET 7 6 3 OR BITFIELD_SET 29 28 1)
             in st64 m1 ste (1 OR ((cdtab_phys (cdcfg cfg) AND push_bit 6 (mask 46)) OR BITFIELD_SET 3 1 5
                        OR BITFIELD_SET 63 59 (ucast (s1cdmax cfg)) OR BITFIELD_SET 5 4 (ucast (s1fmt cfg))))))"

primrec abort_loop :: "nat \<Rightarrow> u64 \<Rightarrow> memory \<Rightarrow> memory" where
  "abort_loop 0 ste m = m"
| "abort_loop (Suc n) ste m = abort_loop n (ste + 64) (el2_strtab_write_ste None ste m)"

text \<open>A product that does not fit a signed 32-bit integer has no defined value.\<close>

definition el2_strtab_init_linear :: "smmu_dev_t \<Rightarrow> pal_state \<Rightarrow> (bool \<times> smmu_dev_t \<times> pal_state) option" where
  "el2_strtab_init_linear smmu p =
     (if 25 \<le> d_sid_bits smmu then None
      else let
        sz = push_bit (unat (d_sid_bits smmu)) 1 * (64 :: u32);
        (p1, ptr) = pal_mem_calloc 2 sz p;
        cfg = (d_strtab smmu)\<lparr>strtab_ptr := ptr\<rparr>
      in if ptr = 0 then Some (False, smmu\<lparr>d_strtab := cfg\<rparr>, p1)
         else let
           cfg = cfg\<lparr>strtab_phys := el2_align_to_size (pal_mem_virt_to_phys ptr) (ucast sz), strtab64 := el2_align_to_size ptr (ucast sz),
             l1_ent_count := push_bit (unat (d_sid_bits smmu)) 1,
             strtab_base_cfg := BITFIELD_SET 17 16 0 OR BITFIELD_SET 5 0 (d_sid_bits smmu)\<rparr>
         in Some (True, smmu\<lparr>d_strtab := cfg\<rparr>, on_ram (abort_loop (unat (l1_ent_count cfg)) (strtab64 cfg)) p1))"

definition el2_cmd_queue_init :: "smmu_dev_t \<Rightarrow> pal_state \<Rightarrow> (bool \<times> smmu_dev_t \<times> pal_state) option" where
  "el2_cmd_queue_init smmu p =
     (let q = cmdq smmu in
      if 27 \<le> log2nent (queue q) then None
      else let
        cmdq_size = ucast (push_bit 3 (push_bit (unat (log2nent (queue q))) (1 :: u32) * 2)) :: u64;
        cmdq_size = (if cmdq_size < 32 then 32 else cmdq_size);
        (p1, ptr) = pal_mem_calloc 2 (ucast cmdq_size) p
      in if ptr = 0 then Some (False, smmu\<lparr>cmdq := q\<lparr>base_ptr := ptr\<rparr>\<rparr>, p1)
         else let
           phys = el2_align_to_size (pal_mem_virt_to_phys ptr) cmdq_size
         in Some (True, smmu\<lparr>cmdq := q\<lparr>base_ptr := ptr, base_phys := phys, q_base := el2_align_to_size ptr cmdq_size,
              prod_reg := d_base smmu + SMMU_CMDQ_PROD_OFFSET, cons_reg := d_base smmu + SMMU_CMDQ_CONS_OFFSET, entry_size := 16,
              queue_base := push_bit 62 1 OR (phys AND push_bit 5 (mask 47)) OR BITFIELD_SET 4 0 (ucast (log2nent (queue q))),
              queue := (queue q)\<lparr>q_prod := 0, q_cons := 0\<rparr>\<rparr>\<rparr>, p1))"

primrec el2_free_all :: "u64 list \<Rightarrow> pal_state \<Rightarrow> pal_state" where
  "el2_free_all [] p = p"
| "el2_free_all (a # as) p = el2_free_all as (if a \<noteq> 0 then pal_mem_free a p else p)"

definition el2_free_strtab :: "smmu_dev_t \<Rightarrow> pal_state \<Rightarrow> pal_state option" where
  "el2_free_strtab smmu p =
     (let cfg = d_strtab smmu in
      if strtab_ptr cfg = 0 then Some p
      else if d_2lvl smmu \<and> l1_desc_ptr cfg \<noteq> 0 then
        if length (l1_desc cfg) < unat (l1_ent_count cfg) then None
        else let p = el2_free_all (map l2ptr (take (unat (l1_ent_count cfg)) (l1_desc cfg))) p
          in Some (pal_mem_free (strtab_ptr cfg) (pal_mem_free (l1_desc_ptr cfg) p))
      else Some (pal_mem_free (strtab_ptr cfg) p))"

definition el2_strtab_write_level1_desc :: "u64 \<Rightarrow> smmu_strtab_l1_desc \<Rightarrow> memory \<Rightarrow> memory" where
  "el2_strtab_write_level1_desc dst desc m =
     st64 m dst (BITFIELD_SET 4 0 (ucast (span desc)) OR (l2desc_phys desc AND push_bit 6 (mask 46)))"

definition el2_strtab_init_level2 :: "smmu_dev_t \<Rightarrow> u32 \<Rightarrow> pal_state \<Rightarrow> (bool \<times> smmu_dev_t \<times> pal_state) option" where
  "el2_strtab_init_level2 smmu sid p =
     (let cfg = d_strtab smmu; i = unat (drop_bit 8 sid) in
      if length (l1_desc cfg) \<le> i then None
      else let desc = l1_desc cfg ! i in
      if l2ptr desc \<noteq> 0 then Some (True, smmu, p)
      else let
        strtab = strtab64 cfg + ucast (drop_bit 8 sid) * 8;
        (p1, ptr) = pal_mem_calloc 2 0x4000 p;
        desc = desc\<lparr>span := 9, l2ptr := ptr\<rparr>
      in if ptr = 0 then Some (False, smmu\<lparr>d_strtab := cfg\<lparr>l1_desc := (l1_desc cfg)[i := desc]\<rparr>\<rparr>, p1)
         else let
           desc = desc\<lparr>l2desc_phys := el2_align_to_size (pal_mem_virt_to_phys ptr) 0x4000, l2desc64 := el2_align_to_size ptr 0x4000\<rparr>
         in Some (True, smmu\<lparr>d_strtab := cfg\<lparr>l1_desc := (l1_desc cfg)[i := desc]\<rparr>\<rparr>,
              on_ram (el2_strtab_write_level1_desc strtab desc \<circ> abort_loop 256 (l2desc64 desc)) p1))"

definition el2_strtab_init_level1 :: "smmu_dev_t \<Rightarrow> pal_state \<Rightarrow> bool \<times> smmu_dev_t \<times> pal_state" where
  "el2_strtab_init_level1 smmu p =
     (let cfg = d_strtab smmu; (p1, ptr) = pal_mem_calloc (l1_ent_count cfg) 32 p
      in (ptr \<noteq> 0, smmu\<lparr>d_strtab := cfg\<lparr>l1_desc_ptr := ptr, l1_desc := replicate (unat (l1_ent_count cfg)) zero_l1_desc\<rparr>\<rparr>, p1))"

definition el2_strtab_init_2level :: "smmu_dev_t \<Rightarrow> pal_state \<Rightarrow> (bool \<times> smmu_dev_t \<times> pal_state) option" where
  "el2_strtab_init_2level smmu p =
     (let log2size = d_sid_bits smmu - 8 in
      if 31 \<le> log2size then None
      else let
        cfg = (d_strtab smmu)\<lparr>l1_ent_count := push_bit (unat log2size) 1\<rparr>;
        log2size = log2size + 8;
        l1_tbl_size = l1_ent_count cfg * 8;
        (p1, ptr) = pal_mem_alloc (2 * l1_tbl_size) p;
        cfg = cfg\<lparr>strtab_ptr := ptr\<rparr>
      in if ptr = 0 then Some (False, smmu\<lparr>d_strtab := cfg\<rparr>, p1)
         else let
           cfg = cfg\<lparr>strtab_phys := el2_align_to_size (pal_mem_virt_to_phys ptr) (ucast l1_tbl_size),
             strtab64 := el2_align_to_size ptr (ucast l1_tbl_size),
             strtab_base_cfg := BITFIELD_SET 17 16 1 OR BITFIELD_SET 5 0 log2size OR BITFIELD_SET 10 6 8\<rparr>;
           (ok, smmu1, p2) = el2_strtab_init_level1 (smmu\<lparr>d_strtab := cfg\<rparr>) p1
         in if ok then Some (True, smmu1, p2) else Some (False, smmu1, pal_mem_free (strtab_ptr (d_strtab smmu1)) p2))"

definition el2_strtab_init :: "smmu_dev_t \<Rightarrow> pal_state \<Rightarrow> (bool \<times> smmu_dev_t \<times> pal_state) option" where
  "el2_strtab_init smmu p = do {
     (ok, smmu, p) \<leftarrow> (if d_2lvl smmu then el2_strtab_init_2level smmu p else el2_strtab_init_linear smmu p);
     if \<not> ok then Some (False, smmu, p)
     else do {
       let data = (strtab_phys (d_strtab smmu) AND push_bit 6 (mask 46)) OR push_bit 62 1;
       Some (True, smmu\<lparr>d_strtab := (d_strtab smmu)\<lparr>strtab_base := data\<rparr>\<rparr>, p) } }"

section \<open>Registers\<close>

primrec el2_sync_poll :: "tick \<Rightarrow> u64 \<Rightarrow> u32 \<Rightarrow> nat \<Rightarrow> memory \<Rightarrow> int \<times> memory" where
  "el2_sync_poll tick ack val 0 m = (1, m)"
| "el2_sync_poll tick ack val (Suc timeout) m =
     (let (reg, m1) = val_mmio_read tick ack m in if reg = val then (0, m1) else el2_sync_poll tick ack val timeout m1)"

definition el2_reg_write_sync :: "tick \<Rightarrow> smmu_dev_t \<Rightarrow> u32 \<Rightarrow> u64 \<Rightarrow> u64 \<Rightarrow> memory \<Rightarrow> int \<times> memory" where
  "el2_reg_write_sync tick smmu val reg_off ack_off m =
     el2_sync_poll tick (d_base smmu + ack_off) val 0x1000000 (val_mmio_write (d_base smmu + reg_off) val m)"

definition el2_dev_disable :: "tick \<Rightarrow> smmu_dev_t \<Rightarrow> memory \<Rightarrow> int \<times> memory" where
  "el2_dev_disable tick smmu m = el2_reg_write_sync tick smmu 0 SMMU_CR0_OFFSET SMMU_CR0ACK_OFFSET m"

definition el2_reset_regs :: "smmu_dev_t \<Rightarrow> memory \<Rightarrow> memory" where
  "el2_reset_regs smmu m =
     (let b = d_base smmu;
          data = BITFIELD_SET 11 10 3 OR BITFIELD_SET 5 4 3 OR BITFIELD_SET 7 6 1 OR BITFIELD_SET 1 0 1 OR BITFIELD_SET 9 8 1 OR BITFIELD_SET 3 2 1;
          m = val_mmio_write (b + SMMU_CR1_OFFSET) data m;
          m = val_mmio_write (b + SMMU_CR2_OFFSET) 0 m;
          m = val_mmio_write64 (b + SMMU_STRTAB_BASE_OFFSET) (strtab_base (d_strtab smmu)) m;
          m = val_mmio_write (b + SMMU_STRTAB_BASE_CFG_OFFSET) (strtab_base_cfg (d_strtab smmu)) m;
          m = val_mmio_write64 (b + SMMU_CMDQ_BASE_OFFSET) (queue_base (cmdq smmu)) m;
          m = val_mmio_write (b + SMMU_CMDQ_PROD_OFFSET) (q_prod (queue (cmdq smmu))) m
      in val_mmio_write (b + SMMU_CMDQ_CONS_OFFSET) (q_cons (queue (cmdq smmu))) m)"

definition el2_reset :: "tick \<Rightarrow> smmu_dev_t \<Rightarrow> memory \<Rightarrow> int \<times> memory" where
  "el2_reset tick smmu m =
     (let (ret, m) = el2_reg_write_sync tick smmu 0 SMMU_CR0_OFFSET SMMU_CR0ACK_OFFSET m in
      if ret \<noteq> 0 then (ret, m)
      else let (ret, m) = el2_reg_write_sync tick smmu 8 SMMU_CR0_OFFSET SMMU_CR0ACK_OFFSET (el2_reset_regs smmu m) in
      if ret \<noteq> 0 then (ret, m)
      else let (ret, m) = el2_reg_write_sync tick smmu 9 SMMU_CR0_OFFSET SMMU_CR0ACK_OFFSET (el2_tlbi_cfgi tick smmu m) in
      if ret \<noteq> 0 then (ret, m) else (1, m))"

definition el2_set_state :: "tick \<Rightarrow> u32 \<Rightarrow> u32 \<Rightarrow> el2_world \<Rightarrow> (int \<times> el2_world) option" where
  "el2_set_state tick index en w =
     (if g_num_smmus (iovirt w) \<le> index then Some (1, w)
      else do {
        smmu \<leftarrow> nth_opt (smmus w) (unat index);
        if d_base smmu = 0 then Some (1, w)
        else let
          (cr0_val, m) = val_mmio_read tick (d_base smmu + SMMU_CR0_OFFSET) (ram (el2_pal w));
          cr0_val = (if en \<noteq> 0 then cr0_val OR 1 else cr0_val AND NOT 1);
          (ret, m) = el2_reg_write_sync tick smmu cr0_val SMMU_CR0_OFFSET SMMU_CR0ACK_OFFSET m
        in Some (ret, w\<lparr>el2_pal := (el2_pal w)\<lparr>ram := m\<rparr>\<rparr>) })"

definition el2_smmu_disable :: "tick \<Rightarrow> u32 \<Rightarrow> el2_world \<Rightarrow> (int \<times> el2_world) option" where
  "el2_smmu_disable tick index w = el2_set_state tick index 0 w"

definition el2_smmu_enable :: "tick \<Rightarrow> u32 \<Rightarrow> el2_world \<Rightarrow> (int \<times> el2_world) option" where
  "el2_smmu_enable tick index w = el2_set_state tick index 1 w"

definition el2_smmu_oas :: "u64 list" where
  "el2_smmu_oas = [32, 36, 40, 42, 44, 48, 52]"

definition el2_probe :: "tick \<Rightarrow> smmu_dev_t \<Rightarrow> memory \<Rightarrow> bool \<times> smmu_dev_t \<times> memory" where
  "el2_probe tick smmu m0 =
     (let b = d_base smmu;
          (idr0, m1) = val_mmio_read tick (b + 0x0) m0;
          s1 = smmu\<lparr>d_2lvl := BITFIELD_GET 28 27 idr0 = 1 \<or> d_2lvl smmu, d_cd2l := idr0 AND push_bit 19 1 \<noteq> 0 \<or> d_cd2l smmu,
                 d_hyp := idr0 AND push_bit 9 1 \<noteq> 0 \<or> d_hyp smmu, d_s1p := idr0 AND push_bit 1 1 \<noteq> 0 \<or> d_s1p smmu,
                 d_s2p := idr0 AND 1 \<noteq> 0 \<or> d_s2p smmu\<rparr>
      in if idr0 AND (push_bit 1 1 OR 1) = 0 then (False, s1, m1)
         else if BITFIELD_GET 3 2 idr0 \<noteq> 3 \<and> BITFIELD_GET 3 2 idr0 \<noteq> 2 then (False, s1, m1)
         else let
           s2 = (if BITFIELD_GET 3 2 idr0 = 3 then s1\<lparr>d_ias := 40\<rparr> else s1);
           (idr1, m2) = val_mmio_read tick (b + 0x4) m1
         in if idr1 AND (push_bit 30 1 OR push_bit 29 1) \<noteq> 0 then (False, s2, m2)
            else let
              s3 = s2\<lparr>cmdq := (cmdq s2)\<lparr>queue := (queue (cmdq s2))\<lparr>log2nent := BITFIELD_GET 25 21 idr1\<rparr>\<rparr>,
                      d_sid_bits := BITFIELD_GET 5 0 idr1, d_ssid_bits := BITFIELD_GET 10 6 idr1\<rparr>;
              s4 = (if d_sid_bits s3 \<le> 8 then s3\<lparr>d_2lvl := False\<rparr> else s3);
              (idr5, m3) = val_mmio_read tick (b + 0x14) m2
            in if 7 \<le> BITFIELD_GET 2 0 idr5 then (False, s4, m3)
               else let oas = el2_smmu_oas ! unat (BITFIELD_GET 2 0 idr5)
                 in (True, s4\<lparr>d_oas := oas, d_ias := max (d_ias s4) oas\<rparr>, m3))"

definition el2_strtab_get_ste_for_sid :: "smmu_dev_t \<Rightarrow> u32 \<Rightarrow> u64 option" where
  "el2_strtab_get_ste_for_sid smmu sid =
     (let cfg = d_strtab smmu in
      if \<not> d_2lvl smmu then Some (strtab64 cfg + ucast (sid * 8) * 8)
      else map_option (\<lambda>d. l2desc64 d + ucast ((sid AND 0xFF) * 8) * 8) (nth_opt (l1_desc cfg) (unat (drop_bit 8 sid))))"

section \<open>Context descriptors\<close>

definition el2_cdtab_write_l1_desc :: "u64 \<Rightarrow> smmu_cdtab_l1_ctx_desc \<Rightarrow> memory \<Rightarrow> memory" where
  "el2_cdtab_write_l1_desc dst desc m = st64 m dst ((cd_l2desc_phys desc AND push_bit 12 (mask 40)) OR 1)"

definition el2_cdtab_alloc_leaf_table :: "smmu_cdtab_l1_ctx_desc \<Rightarrow> pal_state \<Rightarrow> bool \<times> smmu_cdtab_l1_ctx_desc \<times> pal_state" where
  "el2_cdtab_alloc_leaf_table desc p =
     (let (p1, ptr) = pal_mem_alloc 0x20000 p in
      if ptr = 0 then (False, desc\<lparr>cd_l2ptr := ptr\<rparr>, p1)
      else (True, desc\<lparr>cd_l2ptr := ptr, cd_l2desc_phys := el2_align_to_size (pal_mem_virt_to_phys ptr) 0x10000,
              cd_l2desc64 := el2_align_to_size ptr 0x10000\<rparr>, p1))"

definition el2_cdtab_get_ctx_desc :: "smmu_master \<Rightarrow> pal_state \<Rightarrow> (u64 \<times> smmu_master \<times> pal_state) option" where
  "el2_cdtab_get_ctx_desc ma p =
     (let s1 = stage1_config ma; cfg = cdcfg s1 in
      if s1fmt s1 = 0 then Some (cdtab64 cfg + ucast (m_ssid ma * 8) * 8, ma, p)
      else let i = unat (drop_bit 10 (m_ssid ma)) in do {
        desc \<leftarrow> nth_opt (cd_l1_desc cfg) i;
        let (ok, desc', p1) = (if cd_l2ptr desc \<noteq> 0 then (True, desc, p) else el2_cdtab_alloc_leaf_table desc p);
        let ma1 = ma\<lparr>stage1_config := s1\<lparr>cdcfg := cfg\<lparr>cd_l1_desc := (cd_l1_desc cfg)[i := desc']\<rparr>\<rparr>\<rparr>;
        if \<not> ok then Some (0, ma1, p1)
        else let
          p2 = (if cd_l2ptr desc \<noteq> 0 then p1 else on_ram (el2_cdtab_write_l1_desc (cdtab64 cfg + of_nat i * 8) desc') p1)
        in Some (cd_l2desc64 desc' + ucast ((m_ssid ma AND 0x3FF) * 8) * 8, ma1, p2) })"

definition el2_cdtab_write_ctx_desc :: "smmu_master \<Rightarrow> u32 \<Rightarrow> smmu_cdtab_ctx_desc \<Rightarrow> pal_state \<Rightarrow>
    (bool \<times> smmu_master \<times> pal_state) option" where
  "el2_cdtab_write_ctx_desc ma ssid cdesc p =
     (if 31 \<le> s1cdmax (stage1_config ma) then None
      else if sint (push_bit (unat (s1cdmax (stage1_config ma))) (1 :: u32)) \<le> sint ssid then Some (False, ma, p)
      else do {
        (cdptr, ma1, p1) \<leftarrow> el2_cdtab_get_ctx_desc ma p;
        if cdptr = 0 then Some (False, ma1, p1)
        else do {
          let val = cd_tcr cdesc OR push_bit 45 1 OR push_bit 46 1 OR push_bit 47 1 OR push_bit 41 1
                    OR BITFIELD_SET 63 48 (ucast (cd_asid cdesc)) OR push_bit 31 1;
          Some (True, ma1, on_ram (\<lambda>m. st64 (st64 (st64 (st64 m (cdptr + 8) (cd_ttbr cdesc AND mask 48))
            (cdptr + 16) 0) (cdptr + 24) (cd_mair cdesc)) cdptr val) p1) } })"

definition el2_cdtab_free :: "smmu_dev_t \<Rightarrow> smmu_master \<Rightarrow> pal_state \<Rightarrow> (smmu_master \<times> pal_state) option" where
  "el2_cdtab_free smmu ma p =
     (let s1 = stage1_config ma; cfg = cdcfg s1 in
      if 31 \<le> s1cdmax s1 then None
      else let
        max_contexts = push_bit (unat (s1cdmax s1)) (1 :: u64);
        num_l1_ents = unat ((max_contexts + 0x3FF) div 0x400);
        ma1 = ma\<lparr>stage1_config := s1\<lparr>cdcfg := cfg\<lparr>cdtab_ptr := 0\<rparr>\<rparr>\<rparr>
      in if d_cd2l smmu \<and> 0x400 < max_contexts then
           if length (cd_l1_desc cfg) < num_l1_ents then None
           else Some (ma1, pal_mem_free (cdtab_ptr cfg) (pal_mem_free (cd_l1_ptr cfg)
                  (el2_free_all (map cd_l2ptr (take num_l1_ents (cd_l1_desc cfg))) p)))
         else Some (ma1, pal_mem_free (cdtab_ptr cfg) p))"

definition el2_cdtab_alloc :: "smmu_dev_t \<Rightarrow> smmu_master \<Rightarrow> pal_state \<Rightarrow> (bool \<times> smmu_master \<times> pal_state) option" where
  "el2_cdtab_alloc smmu ma p =
     (let s1 = stage1_config ma; cfg = cdcfg s1 in
      if 31 \<le> s1cdmax s1 then None
      else let
        cdmax = push_bit (unat (s1cdmax s1)) (1 :: u64);
        (ok, s1, l1_tbl_size, p1) =
          (if d_cd2l smmu \<and> 0x400 < cdmax then
             let n = ucast ((cdmax + 0x3FF) div 0x400) :: u32; (p1, ptr) = pal_mem_calloc n 24 p
             in (ptr \<noteq> 0, s1\<lparr>s1fmt := 2, cdcfg := cfg\<lparr>cd_l1_ent_count := n, cd_l1_ptr := ptr,
                   cd_l1_desc := replicate (unat n) \<lparr>cd_l2ptr = 0, cd_l2desc64 = 0, cd_l2desc_phys = 0\<rparr>\<rparr>\<rparr>, ucast (n * 8), p1)
           else (True, s1\<lparr>s1fmt := 0, cdcfg := cfg\<lparr>cd_l1_ent_count := ucast cdmax\<rparr>\<rparr>, cdmax * 64, p))
      in if \<not> ok then Some (False, ma\<lparr>stage1_config := s1\<rparr>, p1)
         else let
           (p2, ptr) = pal_mem_calloc 2 (ucast l1_tbl_size) p1;
           s1 = s1\<lparr>cdcfg := (cdcfg s1)\<lparr>cdtab_ptr := ptr\<rparr>\<rparr>
         in if ptr = 0 then Some (False, ma\<lparr>stage1_config := s1\<rparr>, p2)
            else Some (True, ma\<lparr>stage1_config := s1\<lparr>cdcfg := (cdcfg s1)\<lparr>cdtab_phys := el2_align_to_size (pal_mem_virt_to_phys ptr) l1_tbl_size,
                   cdtab64 := el2_align_to_size ptr l1_tbl_size\<rparr>\<rparr>\<rparr>, p2))"

section \<open>Masters, mapping and initialisation\<close>

definition el2_master_at :: "u32 \<Rightarrow> el2_world \<Rightarrow> nat option \<times> el2_world" where
  "el2_master_at sid w =
     (case master_index sid (masters w) of
        Some i \<Rightarrow> (Some i, w)
      | None \<Rightarrow>
          let (p1, node) = pal_mem_alloc 16 (el2_pal w) in
          if node = 0 then (None, w\<lparr>el2_pal := p1\<rparr>)
          else let (p2, ma) = pal_mem_calloc 1 136 p1 in
          if ma = 0 then (None, w\<lparr>el2_pal := pal_mem_free node p2\<rparr>)
          else (Some 0, w\<lparr>el2_pal := p2, masters := zero_master # masters w\<rparr>))"

definition el2_vtcr :: "pe_tcr_bf \<Rightarrow> u64" where
  "el2_vtcr t = BITFIELD_SET 5 0 (ucast (tsz t)) OR BITFIELD_SET 7 6 (ucast (sl t)) OR BITFIELD_SET 9 8 (ucast (irgn t))
     OR BITFIELD_SET 11 10 (ucast (orgn t)) OR BITFIELD_SET 13 12 (ucast (sh t)) OR BITFIELD_SET 15 14 (ucast (tg t))
     OR BITFIELD_SET 18 16 (ucast (ps t))"

definition el2_cd_tcr :: "pe_tcr_bf \<Rightarrow> u64" where
  "el2_cd_tcr t = BITFIELD_SET 5 0 (ucast (tsz t)) OR BITFIELD_SET 7 6 (ucast (tg t)) OR BITFIELD_SET 9 8 (ucast (irgn t))
     OR BITFIELD_SET 11 10 (ucast (orgn t)) OR BITFIELD_SET 13 12 (ucast (sh t)) OR BITFIELD_SET 34 32 (ucast (ps t))
     OR push_bit 30 1 OR push_bit 41 1"

text \<open>The tables of context descriptors follow the SMMU that the master has, which need not be the one of the request.\<close>

definition el2_configure_stage :: "smmu_dev_t list \<Rightarrow> pgt_descriptor_t \<Rightarrow> smmu_master \<Rightarrow> pal_state \<Rightarrow> (bool \<times> smmu_master \<times> pal_state) option" where
  "el2_configure_stage devs pgt ma p =
     (if smmu_master.stage ma = SMMU_STAGE_S2 then
        Some (True, ma\<lparr>stage2_config := \<lparr>vmid = 0, vttbr = pgt_descriptor_t.pgt_base pgt, vtcr = el2_vtcr (tcr pgt)\<rparr>\<rparr>, p)
      else do {
        let ma = ma\<lparr>stage1_config := (stage1_config ma)\<lparr>s1cdmax := ucast (m_ssid_bits ma)\<rparr>\<rparr>;
        (ok, ma, p) \<leftarrow> (if cdtab_ptr (cdcfg (stage1_config ma)) = 0
          then do { k \<leftarrow> m_smmu ma; smmu \<leftarrow> nth_opt devs k; el2_cdtab_alloc smmu ma p } else Some (True, ma, p));
        if \<not> ok then Some (False, ma, p)
        else let cdesc = \<lparr>cd_asid = 0, cd_ttbr = pgt_descriptor_t.pgt_base pgt, cd_tcr = el2_cd_tcr (tcr pgt), cd_mair = mair pgt\<rparr>
          in el2_cdtab_write_ctx_desc (ma\<lparr>stage1_config := (stage1_config ma)\<lparr>cd := cdesc\<rparr>\<rparr>) (m_ssid ma) cdesc p })"

definition el2_smmu_map :: "tick \<Rightarrow> el2_master_attributes \<Rightarrow> pgt_descriptor_t \<Rightarrow> el2_world \<Rightarrow> (u32 \<times> el2_world) option" where
  "el2_smmu_map tick attr pgt w =
     (if smmu_ptr w = 0 then Some (1, w)
      else if g_num_smmus (iovirt w) \<le> at_index attr then Some (1, w)
      else let k = unat (at_index attr) in do {
        smmu \<leftarrow> nth_opt (smmus w) k;
        if d_base smmu = 0 then Some (1, w)
        else case el2_master_at (at_streamid attr) w of
          (None, w) \<Rightarrow> Some (1, w)
        | (Some i, w) \<Rightarrow> do {
            let ma = masters w ! i;
            let ma = (if m_smmu ma = None then ma\<lparr>m_smmu := Some k, m_sid := at_streamid attr, m_ssid_bits := at_ssid_bits attr\<rparr> else ma);
            let put = (\<lambda>ma p smmu. w\<lparr>el2_pal := p, masters := (masters w)[i := ma], smmus := (smmus w)[k := smmu]\<rparr>);
            if (if at_stage2 attr \<noteq> 0 then \<not> d_s2p smmu else \<not> d_s1p smmu) then Some (1, put ma (el2_pal w) smmu)
            else do {
              let ma = (if at_stage2 attr \<noteq> 0 then ma\<lparr>smmu_master.stage := SMMU_STAGE_S2\<rparr>
                        else ma\<lparr>smmu_master.stage := SMMU_STAGE_S1, m_ssid := at_substreamid attr\<rparr>);
              if push_bit (unat (d_sid_bits smmu)) 1 \<le> (ucast (at_streamid attr) :: u64) then Some (1, put ma (el2_pal w) smmu)
              else do {
                (ok, smmu, p) \<leftarrow> (if d_2lvl smmu then el2_strtab_init_level2 smmu (m_sid ma) (el2_pal w) else Some (True, smmu, el2_pal w));
                if \<not> ok then Some (1, put ma p smmu)
                else do {
                  (ok, ma, p) \<leftarrow> el2_configure_stage (smmus w) pgt ma p;
                  if \<not> ok then Some (1, put ma p smmu)
                  else do {
                    ste \<leftarrow> el2_strtab_get_ste_for_sid smmu (m_sid ma);
                    Some (0, put ma (on_ram (el2_tlbi_cfgi tick smmu \<circ> el2_strtab_write_ste (Some ma) ste) p) smmu) } } } } } })"

definition el2_smmu_unmap :: "tick \<Rightarrow> el2_master_attributes \<Rightarrow> el2_world \<Rightarrow> el2_world option" where
  "el2_smmu_unmap tick attr w =
     (case el2_master_at (at_streamid attr) w of
        (None, w) \<Rightarrow> Some w
      | (Some i, w) \<Rightarrow>
          (case m_smmu (masters w ! i) of
             None \<Rightarrow> Some w
           | Some k \<Rightarrow> do {
               smmu \<leftarrow> nth_opt (smmus w) k;
               if push_bit (unat (d_sid_bits smmu)) 1 \<le> (ucast (at_streamid attr) :: u64) then Some w
               else do {
                 let strtab = strtab64 (d_strtab smmu) + ucast (at_streamid attr * 8) * 8;
                 (ma, p) \<leftarrow> el2_cdtab_free smmu (masters w ! i) (on_ram (el2_strtab_write_ste None strtab) (el2_pal w));
                 Some (w\<lparr>el2_pal := on_ram (el2_tlbi_cfgi tick smmu) p, masters := (masters w)[i := zero_master]\<rparr>) } }))"

text \<open>A reset that fails returns a value other than zero, which is taken for success.\<close>

definition el2_smmu_dev_init :: "tick \<Rightarrow> smmu_dev_t \<Rightarrow> pal_state \<Rightarrow> (u32 \<times> smmu_dev_t \<times> pal_state) option" where
  "el2_smmu_dev_init tick smmu p =
     (if d_base smmu = 0 then Some (ACS_STATUS_ERR, smmu, p)
      else let (ok, smmu, m) = el2_probe tick smmu (ram p); p = p\<lparr>ram := m\<rparr> in
      if \<not> ok then Some (ACS_STATUS_ERR, smmu, p)
      else do {
        (ok, smmu, p) \<leftarrow> el2_cmd_queue_init smmu p;
        if \<not> ok then Some (ACS_STATUS_ERR, smmu, p)
        else do {
          (ok, smmu, p) \<leftarrow> el2_strtab_init smmu p;
          if \<not> ok then Some (ACS_STATUS_ERR, smmu, p)
          else let (ret, m) = el2_reset tick smmu (ram p)
            in Some (if ret = 0 then ACS_STATUS_ERR else 0, smmu, p\<lparr>ram := m\<rparr>) } })"

primrec el2_stop_loop :: "tick \<Rightarrow> smmu_dev_t list \<Rightarrow> pal_state \<Rightarrow> pal_state option" where
  "el2_stop_loop tick [] p = Some p"
| "el2_stop_loop tick (smmu # ss) p =
     (if d_base smmu = 0 then el2_stop_loop tick ss p
      else do {
        let p = on_ram (\<lambda>m. snd (el2_dev_disable tick smmu m)) p;
        let p = (if base_ptr (cmdq smmu) \<noteq> 0 then pal_mem_free (base_ptr (cmdq smmu)) p else p);
        p \<leftarrow> el2_free_strtab smmu p;
        el2_stop_loop tick ss p })"

definition el2_smmu_stop :: "tick \<Rightarrow> el2_world \<Rightarrow> el2_world option" where
  "el2_smmu_stop tick w =
     (if length (smmus w) < unat (g_num_smmus (iovirt w)) then None
      else do {
        p \<leftarrow> el2_stop_loop tick (take (unat (g_num_smmus (iovirt w))) (smmus w)) (el2_pal w);
        Some (w\<lparr>el2_pal := pal_mem_free (smmu_ptr w) p\<rparr>) })"

fun el2_init_loop :: "tick \<Rightarrow> nat list \<Rightarrow> iovirt_state \<Rightarrow> smmu_dev_t list \<Rightarrow> pal_state \<Rightarrow> (u32 \<times> smmu_dev_t list \<times> pal_state) option" where
  "el2_init_loop tick [] iov devs p = Some (0, devs, p)"
| "el2_init_loop tick (i # is) iov devs p = do {
     rev \<leftarrow> val_iovirt_get_smmu_info SMMU_CTRL_ARCH_MAJOR_REV (of_nat i) iov;
     if rev \<noteq> 3 then el2_init_loop tick is iov devs p
     else do {
       b \<leftarrow> val_iovirt_get_smmu_info SMMU_CTRL_BASE (of_nat i) iov;
       (ret, smmu, p) \<leftarrow> el2_smmu_dev_init tick ((devs ! i)\<lparr>d_base := b\<rparr>) p;
       if ret \<noteq> 0 then Some (ACS_STATUS_ERR, devs[i := smmu\<lparr>d_base := 0\<rparr>], p)
       else el2_init_loop tick is iov (devs[i := smmu]) p } }"

definition el2_smmu_init :: "tick \<Rightarrow> el2_world \<Rightarrow> (u32 \<times> el2_world) option" where
  "el2_smmu_init tick w = do {
     n \<leftarrow> val_iovirt_get_smmu_info SMMU_NUM_CTRL 0 (iovirt w);
     let num = (ucast n :: u32);
     let w = w\<lparr>iovirt := (iovirt w)\<lparr>g_num_smmus := num\<rparr>\<rparr>;
     if num = 0 then Some (ACS_STATUS_ERR, w)
     else let (p, ptr) = pal_mem_calloc num 168 (el2_pal w) in
       if ptr = 0 then Some (ACS_STATUS_ERR, w\<lparr>el2_pal := p, smmu_ptr := 0, smmus := []\<rparr>)
       else do {
         (ret, devs, p) \<leftarrow> el2_init_loop tick [0..<unat num] (iovirt w) (replicate (unat num) zero_smmu) p;
         Some (ret, w\<lparr>el2_pal := p, smmu_ptr := ptr, smmus := devs\<rparr>) } }"

definition el2_smmu_get_info :: "SMMU_INFO_e \<Rightarrow> u32 \<Rightarrow> el2_world \<Rightarrow> u64 option" where
  "el2_smmu_get_info type index w =
     val_smmu_get_info (map (\<lambda>d. (d_ssid_bits d, d_ias d, d_oas d)) (smmus w)) type index (iovirt w)"

definition val_smmu_read_cfg :: "tick \<Rightarrow> u32 \<Rightarrow> u32 \<Rightarrow> el2_world \<Rightarrow> (u32 \<times> el2_world) option" where
  "val_smmu_read_cfg tick off index w = do {
     ctrl_base \<leftarrow> el2_smmu_get_info SMMU_CTRL_BASE index w;
     if ctrl_base = 0 then Some (0, w)
     else let (v, m) = val_mmio_read tick (ctrl_base + ucast off) (ram (el2_pal w)) in Some (v, w\<lparr>el2_pal := (el2_pal w)\<lparr>ram := m\<rparr>\<rparr>) }"

section \<open>Commands as in the driver of EL3\<close>

text \<open>The same device as the driver of EL3 sees it, whose register page is 256KB behind its base.\<close>

definition as_realm :: "smmu_dev_t \<Rightarrow> smmu_dev" where
  "as_realm d = zero_dev\<lparr>dev_base := d_base d - 0x40000, cmd_type := cmdq d, hyp := d_hyp d\<rparr>"

lemma as_realm_simps [simp]:
  "dev_base (as_realm d) = d_base d - 0x40000" "cmd_type (as_realm d) = cmdq d" "hyp (as_realm d) = d_hyp d"
  by (simp_all add: as_realm_def)

lemma el2_queue_eq: "el2_queue_full q = smmu_queue_full q" "el2_queue_empty q = smmu_queue_empty q" "el2_cmdq_inc_prod q = smmu_cmdq_inc_prod q"
  by (simp_all add: el2_queue_full_def smmu_queue_full_def el2_queue_empty_def smmu_queue_empty_def index_mask_def wrap_mask_def
      el2_cmdq_inc_prod_def smmu_cmdq_inc_prod_def Let_def)

lemma el2_write_cmd_eq: "el2_cmdq_write_cmd tick d = smmu_cmdq_write_cmd tick (as_realm d)"
  by (intro ext) (simp only: el2_cmdq_write_cmd_def smmu_cmdq_write_cmd_def el2_queue_eq as_realm_simps)

lemma el2_issue_cmd_eq:
  "op \<noteq> CMDQ_OP_PREFETCH_CFG \<Longrightarrow> op \<noteq> CMDQ_OP_CFGI_STE \<Longrightarrow> el2_cmdq_issue_cmd tick d op m = smmu_cmdq_issue_cmd tick sid (as_realm d) op m"
  by (simp add: el2_cmdq_issue_cmd_def smmu_cmdq_issue_cmd_def el2_cmdq_build_cmd_def smmu_cmdq_build_cmd_def el2_write_cmd_eq Let_def)

lemma el2_poll_eq: "el2_cmdq_poll_until_consumed tick d = smmu_cmdq_poll_until_consumed tick (as_realm d)"
proof -
  have "el2_consumed_poll tick r n q m = consumed_poll tick r n q m" for r n q m
    by (induction n arbitrary: q m) (simp_all add: el2_queue_eq split: prod.split)
  then show ?thesis
    by (intro ext) (simp only: el2_cmdq_poll_until_consumed_def smmu_cmdq_poll_until_consumed_def as_realm_simps Let_def)
qed

lemma el2_tlbi_eq: "el2_tlbi_cfgi tick d m = smmu_tlbi_cfgi tick sid (as_realm d) m"
  using el2_issue_cmd_eq [of CMDQ_OP_CFGI_ALL tick d _ sid] el2_issue_cmd_eq [of CMDQ_OP_TLBI_EL2_ALL tick d _ sid]
    el2_issue_cmd_eq [of CMDQ_OP_TLBI_NSNH_ALL tick d _ sid] el2_issue_cmd_eq [of CMDQ_OP_CMD_SYNC tick d _ sid]
  by (simp add: el2_tlbi_cfgi_def smmu_tlbi_cfgi_def el2_poll_eq Let_def)

lemma el2_sync_eq:
  "el2_reg_write_sync tick d v SMMU_CR0_OFFSET SMMU_CR0ACK_OFFSET m = smmu_reg_write_sync tick (as_realm d) v SMMU_R_CR0 SMMU_R_CR0ACK m"
proof -
  have "el2_sync_poll tick a v n m = sync_poll tick a v n m" for a n m
    by (induction n arbitrary: m) (simp_all split: prod.split)
  then show ?thesis by (simp add: el2_reg_write_sync_def smmu_reg_write_sync_def add.commute)
qed


section \<open>Stream tables\<close>

text \<open>An entry for which the device aborts all accesses.\<close>

definition is_abort :: "memory \<Rightarrow> u64 \<Rightarrow> bool" where
  "is_abort m ste \<longleftrightarrow> ld64 m ste = 1 \<and> ld64 m (ste + 8) = push_bit 44 1 \<and> ld64 m (ste + 16) = 0"

lemma write_abort_ste: "is_abort (write_abort_ste ste m) ste"
  by (simp add: is_abort_def write_abort_ste_def c64.ld_st_same c64.ld_st_apart apart_def BITFIELD_SET_def mask_eq_exp_minus_1)

lemma write_abort_outside: "24 \<le> unat (x - ste) \<Longrightarrow> write_abort_ste ste m x = m x"
proof -
  assume a: "24 \<le> unat (x - ste)"
  then have "unat (x - (ste + 8)) = unat (x - ste) - 8" "unat (x - (ste + 16)) = unat (x - ste) - 16"
    by (simp_all add: unat_sub_if' diff_diff_eq [symmetric] word_le_nat_alt)
  then show ?thesis using a by (simp add: write_abort_ste_def c64.st_outside)
qed

lemma is_abort_cong:
  assumes "\<And>i. i < 24 \<Longrightarrow> m' (ste + of_nat i) = m (ste + of_nat i)"
  shows "is_abort m' ste = is_abort m ste"
proof -
  have "ld64 m' (ste + of_nat k) = ld64 m (ste + of_nat k)" if "k + 8 \<le> 24" for k
  proof (rule c64.ld_cong)
    show "m' (ste + of_nat k + of_nat i) = m (ste + of_nat k + of_nat i)" if "i < 8" for i
      using assms [of "k + i"] that \<open>k + 8 \<le> 24\<close> by (simp add: add.assoc)
  qed
  from this [of 0] this [of 8] this [of 16] show ?thesis by (simp add: is_abort_def)
qed

interpretation abort_entry: stream_entry write_abort_ste is_abort
  by unfold_locales (fact write_abort_ste, erule write_abort_outside, rule is_abort_cong, blast)

lemma abort_loop_entries: "abort_loop n ste m = write_entries write_abort_ste n ste m"
  by (induction n arbitrary: ste m) (simp_all add: el2_strtab_write_ste_def)

lemmas abort_loop_at = abort_entry.entries_at [folded abort_loop_entries]

lemma el2_align_eq: "el2_align_to_size = align_to_size"
  by (intro ext) (simp add: el2_align_to_size_def align_to_size_def)

text \<open>A zeroed block of twice a power of two, from the heap.\<close>

lemma calloc_double:
  assumes ok: "heap_ok lo hi p" and n: "n \<le> 30" and room: "lo + 2 * 2 ^ n + 14 \<le> hi"
  obtains q p' where "pal_mem_calloc 2 (2 ^ n) p = (p', of_nat q)" and "(of_nat q :: u64) \<noteq> 0" and "lo \<le> q" and "heap_ok (q + 2 * 2 ^ n + 7) hi p'"
    and "\<forall>y<2 ^ 64. ram p' (of_nat y) = (if q \<le> y \<and> y < q + 2 * 2 ^ n then 0 else ram p (of_nat y))"
proof -
  define q where "q = align_up lo 8"
  have q: "lo \<le> q" "q \<le> lo + 7" using align_up_bounds [of 8 lo] by (simp_all add: q_def)
  have "(2 :: nat) ^ n \<le> 2 ^ 30" using n by (intro power_increasing) auto
  then have w: "unat (2 * 2 ^ n :: u32) = 2 * 2 ^ n"
    using unat_of_nat_small [of "2 * 2 ^ n", where 'a = 32] by simp
  have h: "hi \<le> 2 ^ 63" "0 < lo" using ok by (simp_all add: heap_ok_def)
  define p' where "p' = p\<lparr>heap_base := of_nat (q + 2 * 2 ^ n + 7), ram := pal_mem_set (ram p) (of_nat q) (2 * 2 ^ n) 0\<rparr>"
  have call: "pal_mem_calloc 2 (2 ^ n) p = (p', of_nat q)"
    unfolding calloc_serves [OF ok] Let_def w q_def [symmetric] p'_def using q room by simp
  have "unat (of_nat y - of_nat q :: u64) < 2 * 2 ^ n \<longleftrightarrow> q \<le> y \<and> y < q + 2 * 2 ^ n" if "y < 2 ^ 64" for y
    using unat_diff_of_nat [of q y] that q room h by auto
  then have mem: "\<forall>y<2 ^ 64. ram p' (of_nat y) = (if q \<le> y \<and> y < q + 2 * 2 ^ n then 0 else ram p (of_nat y))"
    by (simp add: p'_def pal_mem_set_at w)
  have "heap_ok (q + 2 * 2 ^ n + 7) hi p'" using ok q room by (simp add: heap_ok_def p'_def)
  moreover have "(of_nat q :: u64) \<noteq> 0" using q h room unat_of_nat_small [of q, where 'a = 64] by auto
  ultimately show thesis using that call mem q(1) by blast
qed

text \<open>(C11) A new linear stream table denies every stream. With room on the heap the initialisation succeeds: the table of \<open>2 ^ sid_bits\<close>
  entries is aligned to its size and lies in new memory, every entry is valid and aborts, the base register value carries the
  address of the table, and nothing that was in use on the heap changes.\<close>

theorem el2_linear_table_aborts:
  assumes "heap_ok lo hi p" and "d_sid_bits d = of_nat k" and "k < 25" and "\<not> d_2lvl d" and "lo + 128 * 2 ^ k + 14 \<le> hi"
  shows "\<exists>d' p' t lo'. el2_strtab_init d p = Some (True, d', p') \<and> heap_ok lo' hi p' \<and> strtab64 (d_strtab d') = of_nat t \<and>
    strtab_base (d_strtab d') = (of_nat t AND push_bit 6 (mask 46)) OR push_bit 62 1 \<and>
    64 * 2 ^ k dvd t \<and> lo \<le> t \<and> t + 64 * 2 ^ k \<le> lo' \<and> (\<forall>i<2 ^ k. is_abort (ram p') (of_nat (t + 64 * i))) \<and>
    (\<forall>y<lo. ram p' (of_nat y) = ram p (of_nat y))"
proof -
  let ?n = "k + 6"
  have sb: "unat (d_sid_bits d) = k" "\<not> 25 \<le> d_sid_bits d"
    using assms(2,3) by (simp_all add: unat_of_nat_small word_le_nat_alt)
  have sz: "push_bit k 1 * (64 :: u32) = 2 ^ ?n" by (simp add: push_bit_eq_mult power_add)
  have usz: "(ucast (2 ^ ?n :: u32) :: u64) = 2 ^ ?n"
    using assms(3) by (intro bit_word_eqI) (auto simp: bit_ucast_iff bit_exp_iff)
  have cnt: "unat (push_bit k 1 :: u32) = 2 ^ k" using assms(3) unat_exp [of k, where 'a = 32] by (simp add: push_bit_eq_mult)
  have p2: "(2 :: nat) ^ ?n = 64 * 2 ^ k" by (simp add: power_add)
  have n: "?n \<le> 30" "lo + 2 * 2 ^ ?n + 14 \<le> hi" using assms(3,5) p2 by simp_all
  obtain q p1 where q: "pal_mem_calloc 2 (2 ^ ?n) p = (p1, of_nat q)" "(of_nat q :: u64) \<noteq> 0" "lo \<le> q" "heap_ok (q + 2 * 2 ^ ?n + 7) hi p1"
    "\<forall>y<2 ^ 64. ram p1 (of_nat y) = (if q \<le> y \<and> y < q + 2 * 2 ^ ?n then 0 else ram p (of_nat y))"
    by (rule calloc_double [OF assms(1) n])
  have h: "q + 2 * 2 ^ ?n + 7 \<le> hi" "hi \<le> 2 ^ 63" using q(4) by (simp_all add: heap_ok_def)
  then have uq: "unat (of_nat q :: u64) = q" by (intro unat_of_nat_small) simp
  define t where "t = unat (align_to_size (of_nat q) (2 ^ ?n))"
  have t: "2 ^ ?n dvd t" "q < t" "t + 2 ^ ?n \<le> q + 2 * 2 ^ ?n"
    using align_to_size_fits [of ?n "of_nat q"] assms(3) h unfolding uq t_def by simp_all
  have at: "align_to_size (of_nat q) (2 ^ ?n) = of_nat t" by (simp add: t_def)
  define p' where "p' = on_ram (abort_loop (2 ^ k) (of_nat t)) p1"
  define d1 where "d1 = d\<lparr>d_strtab := (d_strtab d)\<lparr>strtab_ptr := of_nat q, strtab_phys := of_nat t, strtab64 := of_nat t,
    l1_ent_count := push_bit k 1, strtab_base_cfg := BITFIELD_SET 17 16 0 OR BITFIELD_SET 5 0 (d_sid_bits d)\<rparr>\<rparr>"
  have "el2_strtab_init_linear d p = Some (True, d1, p')"
    unfolding el2_strtab_init_linear_def sb(1) sz Let_def q(1) prod.case usz el2_align_eq pal_mem_virt_to_phys_def at
    using sb(2) q(2) cnt by (simp add: d1_def p'_def)
  then have run: "el2_strtab_init d p = Some (True, d1\<lparr>d_strtab := (d_strtab d1)\<lparr>strtab_base :=
      (of_nat t AND push_bit 6 (mask 46)) OR push_bit 62 1\<rparr>\<rparr>, p')"
    using assms(4) by (simp add: el2_strtab_init_def d1_def)
  have lim: "t + 64 * 2 ^ k \<le> 2 ^ 64" "t + 64 * 2 ^ k \<le> q + 2 * 2 ^ ?n" using t(3) h p2 by simp_all
  note al = abort_loop_at [OF lim(1), of "ram p1"]
  have "ram p' (of_nat y) = ram p (of_nat y)" if "y < lo" for y
  proof -
    have "y < 2 ^ 64" "y < q" "y < t" using that q(3) t(2) h by simp_all
    then show ?thesis using al q(5) by (simp add: p'_def on_ram_def)
  qed
  moreover have "heap_ok (q + 2 * 2 ^ ?n + 7) hi p'" using q(4) by (simp add: p'_def on_ram_def heap_ok_def)
  moreover have "is_abort (ram p') (of_nat (t + 64 * i))" if "i < 2 ^ k" for i
    using al that by (simp add: p'_def on_ram_def del: of_nat_add of_nat_mult)
  ultimately show ?thesis
    using run t q(3) lim(2) p2
    by (intro exI [of _ "d1\<lparr>d_strtab := (d_strtab d1)\<lparr>strtab_base := (of_nat t AND push_bit 6 (mask 46)) OR push_bit 62 1\<rparr>\<rparr>"]
        exI [of _ p'] exI [of _ t] exI [of _ "q + 2 * 2 ^ ?n + 7"]) (simp add: d1_def)
qed

section \<open>Mapping and unmapping\<close>

lemma el2_master_at_facts:
  assumes "el2_master_at sid w = (Some i, w1)"
  shows "i < length (masters w1)" "smmus w1 = smmus w" "iovirt w1 = iovirt w" "m_smmu (masters w1 ! i) = None \<or> m_sid (masters w1 ! i) = sid"
proof -
  have "i < length (masters w1) \<and> smmus w1 = smmus w \<and> iovirt w1 = iovirt w \<and>
      (m_smmu (masters w1 ! i) = None \<or> m_sid (masters w1 ! i) = sid)"
  proof (cases "master_index sid (masters w)")
    case None
    with assms show ?thesis by (auto simp: el2_master_at_def zero_master_def split: prod.splits if_splits)
  next
    case (Some j)
    with assms master_index_Some [OF Some] show ?thesis by (auto simp: el2_master_at_def)
  qed
  then show "i < length (masters w1)" "smmus w1 = smmus w" "iovirt w1 = iovirt w" "m_smmu (masters w1 ! i) = None \<or> m_sid (masters w1 ! i) = sid"
    by auto
qed

text \<open>The fields of an entry that translates at stage 2 only.\<close>

definition is_stage2 :: "memory \<Rightarrow> u64 \<Rightarrow> u64 \<Rightarrow> u64 \<Rightarrow> bool" where
  "is_stage2 m ste ttb vt \<longleftrightarrow> ld64 m ste = 13 \<and>
     ld64 m (ste + 16) = push_bit 32 (vt AND mask 19) OR push_bit 54 1 OR push_bit 51 1 OR push_bit 58 1 \<and> ld64 m (ste + 24) = ttb AND mask 48"

lemma write_stage2:
  assumes "smmu_master.stage ma = SMMU_STAGE_S2" and "vmid (stage2_config ma) = 0"
  shows "is_stage2 (el2_strtab_write_ste (Some ma) ste m) ste (vttbr (stage2_config ma)) (vtcr (stage2_config ma))"
  using assms
  by (simp add: el2_strtab_write_ste_def is_stage2_def c64.ld_st_same c64.ld_st_apart apart_def BITFIELD_SET_def mask_eq_exp_minus_1 Let_def)

lemma write_stage2_outside:
  assumes "smmu_master.stage ma = SMMU_STAGE_S2" and "32 \<le> unat (x - ste)"
  shows "el2_strtab_write_ste (Some ma) ste m x = m x"
proof -
  have "unat (x - (ste + 8)) = unat (x - ste) - 8" "unat (x - (ste + 16)) = unat (x - ste) - 16" "unat (x - (ste + 24)) = unat (x - ste) - 24"
    using assms(2) by (simp_all add: unat_sub_if' diff_diff_eq [symmetric] word_le_nat_alt)
  then show ?thesis using assms by (simp add: el2_strtab_write_ste_def c64.st_outside Let_def)
qed

lemma stage2_stable:
  assumes "stable s 32 ste" and "same_off (cmd_area s) m m'"
  shows "is_stage2 m' ste ttb vt = is_stage2 m ste ttb vt"
proof -
  have "ld64 m' (ste + of_nat k) = ld64 m (ste + of_nat k)" if "k + 8 \<le> 32" for k
  proof (rule c64.ld_cong)
    fix i :: nat assume "i < 8"
    then have "\<not> cmd_area s (ste + of_nat (k + i))" using assms(1) that by (simp add: stable_def del: of_nat_add)
    then show "m' (ste + of_nat k + of_nat i) = m (ste + of_nat k + of_nat i)" using assms(2) by (simp add: same_off_def add.assoc)
  qed
  from this [of 0] this [of 16] this [of 24] show ?thesis by (simp add: is_stage2_def)
qed


text \<open>(C38) Unmapping a stream with a linear stream table makes its entry abort, whichever stage was mapped. But the master of the stream is
  cleared in place, so that it counts as one of stream 0 from then on: if it stands at the head of the list, a later request to
  unmap stream 0 ends there and has no effect at all.\<close>

theorem el2_unmap_hides_stream_zero:
  assumes "masters w = a # ms" and "m_sid a = at_streamid attr" and "m_smmu a = Some k" and "nth_opt (smmus w) k = Some d"
    and "s1cdmax (stage1_config a) = 0"
    and "(ucast (at_streamid attr) :: u64) < push_bit (unat (d_sid_bits d)) 1"
    and "smmu_responsive (d_base d - 0x40000) tick" and "smmu_set_up (as_realm d)"
    and "ste = strtab64 (d_strtab d) + ucast (at_streamid attr * 8) * 8" and "stable (as_realm d) 24 ste"
    and "at_streamid attr0 = 0"
  shows "\<exists>w'. el2_smmu_unmap tick attr w = Some w' \<and> is_abort (ram (el2_pal w')) ste \<and> el2_smmu_unmap tick attr0 w' = Some w'"
proof -
  let ?m0 = "write_abort_ste ste (ram (el2_pal w))"
  define m where "m = el2_tlbi_cfgi tick d ?m0"
  define w' where "w' = w\<lparr>el2_pal := (el2_pal w)\<lparr>ram := m\<rparr>, masters := zero_master # ms\<rparr>"
  have "el2_master_at (at_streamid attr) w = (Some 0, w)" using assms(1,2) by (simp add: el2_master_at_def)
  moreover have "el2_cdtab_free d a p = Some (a\<lparr>stage1_config := (stage1_config a)\<lparr>cdcfg := (cdcfg (stage1_config a))\<lparr>cdtab_ptr := 0\<rparr>\<rparr>\<rparr>, p)" for p
    using assms(5) by (simp add: el2_cdtab_free_def pal_mem_free_def pal_mem_free_aligned_def mem_free_def Let_def)
  ultimately have "el2_smmu_unmap tick attr w = Some w'"
    using assms(1,3,4,6,9) by (simp add: el2_smmu_unmap_def el2_strtab_write_ste_def on_ram_def w'_def m_def not_le not_less)
  moreover have "same_off (cmd_area (as_realm d)) ?m0 m"
    unfolding m_def el2_tlbi_eq [of tick d _ 0] using assms(7,8) by (intro tlbi_same(1)) simp_all
  then have "is_abort m ste = is_abort ?m0 ste"
    using assms(10) by (intro is_abort_cong) (simp add: stable_def same_off_def)
  then have "is_abort (ram (el2_pal w')) ste" using write_abort_ste by (simp add: w'_def)
  moreover have "el2_smmu_unmap tick attr0 w' = Some w'"
    using assms(11) by (simp add: el2_smmu_unmap_def el2_master_at_def w'_def zero_master_def)
  ultimately show ?thesis by blast
qed

lemma el2_sync_result: "fst (el2_sync_poll tick a v n m) = 0 \<or> fst (el2_sync_poll tick a v n m) = 1"
  by (induction n arbitrary: m) (auto split: prod.split)

lemma el2_reset_result: "fst (el2_reset tick d m) = 1"
proof -
  have s: "fst (el2_reg_write_sync tick d v r a m) = 0 \<or> fst (el2_reg_write_sync tick d v r a m) = 1" for v r a m
    by (simp add: el2_reg_write_sync_def el2_sync_result)
  let ?m1 = "el2_reset_regs d (snd (el2_reg_write_sync tick d 0 SMMU_CR0_OFFSET SMMU_CR0ACK_OFFSET m))"
  let ?m2 = "el2_tlbi_cfgi tick d (snd (el2_reg_write_sync tick d 8 SMMU_CR0_OFFSET SMMU_CR0ACK_OFFSET ?m1))"
  show ?thesis
    using s [of 0 SMMU_CR0_OFFSET SMMU_CR0ACK_OFFSET m] s [of 8 SMMU_CR0_OFFSET SMMU_CR0ACK_OFFSET ?m1]
      s [of 9 SMMU_CR0_OFFSET SMMU_CR0ACK_OFFSET ?m2]
    by (auto simp: el2_reset_def split_beta Let_def)
qed

text \<open>What the initialisation of a device does before it resets the device.\<close>

definition el2_prepared :: "tick \<Rightarrow> smmu_dev_t \<Rightarrow> pal_state \<Rightarrow> bool option" where
  "el2_prepared tick smmu p =
     (if d_base smmu = 0 then Some False
      else let (ok, smmu, m) = el2_probe tick smmu (ram p) in
      if \<not> ok then Some False
      else do {
        (ok, smmu, p) \<leftarrow> el2_cmd_queue_init smmu (p\<lparr>ram := m\<rparr>);
        if \<not> ok then Some False
        else do { (ok, smmu, p) \<leftarrow> el2_strtab_init smmu p; Some ok } })"

text \<open>(C37) A reset never fails. Whatever the device does, in particular when it acknowledges none of the writes to its control register, the
  result of a reset is 1, which the initialisation takes for success: the initialisation of a device reports an error exactly
  when the probing, the command queue or the stream table fails, and never because of the reset.\<close>

theorem el2_reset_always_succeeds:
  "fst (el2_reset tick d m) = 1 \<and>
   map_option fst (el2_smmu_dev_init tick d p) = map_option (\<lambda>ok. if ok then 0 else ACS_STATUS_ERR) (el2_prepared tick d p)"
proof -
  have "map_option fst (el2_smmu_dev_init tick d p) = map_option (\<lambda>ok. if ok then 0 else ACS_STATUS_ERR) (el2_prepared tick d p)"
    using el2_reset_result
    by (auto simp: el2_smmu_dev_init_def el2_prepared_def split_beta Let_def map_option_case split: option.split bind_splits)
  then show ?thesis using el2_reset_result by blast
qed

section \<open>Examples\<close>

definition example_el2 :: smmu_dev_t where
  "example_el2 = zero_smmu\<lparr>d_base := 0x2B440000, d_sid_bits := 4, cmdq := cmd_type example_smmu, d_s2p := True,
     d_strtab := (d_strtab zero_smmu)\<lparr>strtab64 := 0x200000\<rparr>\<rparr>"

lemma example_el2_simps:
  "d_base example_el2 = 0x2B440000" "d_sid_bits example_el2 = 4" "\<not> d_2lvl example_el2" "d_s2p example_el2"
  "strtab64 (d_strtab example_el2) = 0x200000"
  by (simp_all add: example_el2_def zero_smmu_def)

lemma example_el2_realm: "as_realm example_el2 = example_smmu"
  by (simp add: as_realm_def example_el2_def zero_smmu_def example_smmu_def zero_dev_def)

definition example_el2_world :: el2_world where
  "example_el2_world = \<lparr>el2_pal = example_pal, smmu_ptr = 0x3000, smmus = [example_el2],
     masters = [zero_master\<lparr>m_smmu := Some 0, m_sid := 3\<rparr>], iovirt = \<lparr>g_iovirt_info_table = 0, info_table = empty_table, g_num_smmus = 1\<rparr>\<rparr>"

definition example_el2_attr :: el2_master_attributes where
  "example_el2_attr = \<lparr>at_index = 0, at_streamid = 3, at_substreamid = 0, at_ssid_bits = 0, at_stage2 = 1\<rparr>"

lemma example_el2_at: "el2_master_at 3 example_el2_world = (Some 0, example_el2_world)"
  by (simp add: el2_master_at_def example_el2_world_def)


lemma example_el2_stable: "stable (as_realm example_el2) 24 0x2000C0" "stable (as_realm example_el2) 32 0x2000C0"
  unfolding example_el2_realm by (intro stable_apart; simp add: apart_def example_smmu_cmdq example_dev)+

lemmas example_el2_ready = example_el2_stable example_set_up acking_responsive [of "0x2B400000"]

lemma el2_linear_table_aborts_witness:
  "\<exists>d' p' t lo'. el2_strtab_init (example_el2\<lparr>d_sid_bits := 2\<rparr>) example_pal = Some (True, d', p') \<and> 64 * 2 ^ 2 dvd t \<and> 0x1003 \<le> t \<and>
     t + 64 * 2 ^ 2 \<le> lo' \<and> is_abort (ram p') (of_nat (t + 64 * 3)) \<and> ram p' (of_nat 5) = 7"
proof -
  obtain d' p' t lo' where *: "el2_strtab_init (example_el2\<lparr>d_sid_bits := 2\<rparr>) example_pal = Some (True, d', p')" "64 * 2 ^ 2 dvd t"
    "0x1003 \<le> t" "t + 64 * 2 ^ 2 \<le> lo'" "\<forall>i<2 ^ 2. is_abort (ram p') (of_nat (t + 64 * i))"
    "\<forall>y<0x1003. ram p' (of_nat y) = ram example_pal (of_nat y)"
    using el2_linear_table_aborts [OF example_pal_ok, of "example_el2\<lparr>d_sid_bits := 2\<rparr>" 2] example_el2_simps(3) by auto
  moreover have "is_abort (ram p') (of_nat (t + 64 * 3))" using *(5) [rule_format, of 3] by (simp del: of_nat_add of_nat_mult)
  moreover have "ram p' (of_nat 5) = 7" using *(6) [rule_format, of 5] by (simp add: example_pal_def)
  ultimately show ?thesis by blast
qed


lemma el2_unmap_hides_stream_zero_witness:
  "\<exists>w'. el2_smmu_unmap (acking 0x2B400000) example_el2_attr example_el2_world = Some w' \<and> is_abort (ram (el2_pal w')) 0x2000C0 \<and>
     el2_smmu_unmap (acking 0x2B400000) (example_el2_attr\<lparr>at_streamid := 0\<rparr>) w' = Some w'"
  using el2_unmap_hides_stream_zero [of example_el2_world "zero_master\<lparr>m_smmu := Some 0, m_sid := 3\<rparr>" "[]" example_el2_attr 0 example_el2
      "acking 0x2B400000" "0x2000C0" "example_el2_attr\<lparr>at_streamid := 0\<rparr>"] example_el2_ready example_el2_realm
  by (simp add: example_el2_simps example_el2_world_def example_el2_attr_def nth_opt_def zero_master_def)

end
