(* ===== verification/Spec2Isabelle.thy ===== *)
theory Spec2Isabelle
  imports Pcie_Bitfield Sec_Property Pal_Memory Pal_Print Pal_Enum Val_Pgt Smmu_El2
begin

text \<open>
  \<^bold>\<open>A verification library for the RME system architecture compliance suite.\<close>

  The suite runs tests on a machine with the Realm Management Extension. Its validation layer
  (\<^verbatim>\<open>val/\<close>, at EL2) discovers PCIe functions and elements, runs the payloads of the tests and gives
  verdicts; it calls a support layer that is built into the firmware (\<^verbatim>\<open>val_el3/\<close>, at EL3), which
  changes granule protection and translation tables, drives the SMMU in the realm state, and
  acknowledges the faults that tests provoke. Both layers call a platform layer. EL2 and EL3 share a
  page (\<^verbatim>\<open>struct_sh_data\<close>) and EL2 enters EL3 with a service number and three arguments.

  \<^bold>\<open>Conventions.\<close> C integers are words of their width and wrap. Memory is a function from addresses to
  bytes with little-endian accesses. A state is a record that every operation takes and returns.
  \<open>None\<close> (or \<open>Stuck\<close>) stands for behaviour the code does not define (an access out of bounds, a null
  pointer) and for a loop that does not end; the theorems show when it does not occur. Hardware,
  firmware and platform code are parameters: what a device does between two accesses
  (\<^verbatim>\<open>tick\<close>, \<^verbatim>\<open>secondary\<close>), which addresses fault (\<^verbatim>\<open>gpf\<close>), what a non-secure access does
  (\<^verbatim>\<open>ns_port\<close>). A local variable that the code reads before it sets it is a parameter as well.
  Printing is not modelled.

  \<^bold>\<open>Theories.\<close>

  \<^item> \<open>Acs_Prelude\<close>: words, bit fields and memory; the locale \<open>cell_access\<close> states the laws of a typed
    memory access and is interpreted for the 32-bit and 64-bit accesses.

  \<^item> \<open>Pcie_Config\<close> (\<^verbatim>\<open>val/src/acs_pcie.c\<close>): configuration space addresses, reads and writes through
    the ECAM table, the searches of the capability lists. State: \<open>pcie_state\<close>, the information table, the
    function table and the registers. The locale \<open>register_file\<close> is the contract of registers, the locale
    \<open>linked_search\<close> that of a search along a linked list; both are interpreted on the model. Shown: accesses
    reach exactly the register of the function, the searches return the first match and end exactly on
    lists that end.

  \<^item> \<open>Pcie_Device\<close> (\<^verbatim>\<open>val/src/acs_pcie.c\<close>): port types, command, status and control registers, base
    address registers, the table of functions, root ports and downstream functions. Shown: the
    table holds exactly the functions that answer, the operations change their bits only.

  \<^item> \<open>Pcie_Bitfield\<close> (\<^verbatim>\<open>val/src/acs_pcie.c\<close>): the check of one bit field of a register and the loops over
    functions and entries. Shown: which registers pass.

  \<^item> \<open>Da_Ide\<close> (\<^verbatim>\<open>val/src/acs_da.c\<close>): selective IDE streams and their association registers. Shown:
    register contents and results of establishing a stream.

  \<^item> \<open>Val_Infra\<close> (\<^verbatim>\<open>val/src/acs_test_infra.c\<close>, \<^verbatim>\<open>acs_status.c\<close>, \<^verbatim>\<open>acs_pe_infra.c\<close>,
    \<^verbatim>\<open>test_entry_rme.c\<close>): the harness. State: \<open>val_world\<close>. The reports of other elements are the step
    relation \<open>report\<close>; its invariants are proved by rule induction. Shown: the verdict of a test on
    several elements is sound and counted once; which statuses a suite reports.

  \<^item> \<open>El3_Gpt\<close>, \<open>El3_Mmu\<close> (\<^verbatim>\<open>val_el3/pgt_common.c\<close>): granule protection and translation tables, over the
    registers and memory of EL3 (\<open>el3_state\<close>). Shown: the operations refine the architectural lookup and
    walk. The fuel of \<open>add_mmu_entry\<close> bounds the mapping of new tables by itself; the theorem gives
    the amount that is enough.

  \<^item> \<open>Alloc_Spec\<close>: the interface of an allocator. The locale \<open>zeroing_allocator\<close> is the contract a client
    relies on, with a lemma on sequences of allocations; the pool of EL3 and the heap of the bare-metal
    platform interpret it.

  \<^item> \<open>El3_Pool\<close> (\<^verbatim>\<open>val_el3/smmuv3_realm.c\<close>): the allocator with its headers in memory. Shown: it refines
    first fit on a list of blocks, ends, and keeps the contents of blocks in use.

  \<^item> \<open>Smmu_Queue\<close>, \<open>Smmu_Realm\<close> (\<^verbatim>\<open>val_el3/smmuv3_realm.c\<close>): registers, command queue, reset, stream tables
    and mappings of the realm SMMU. Shown: the queue refines a FIFO, reset programs the device,
    initialisation establishes the invariant of the queue, stream tables bypass, mapping writes one
    entry. The polling bounds are those of the code.

  \<^item> \<open>El3_Services\<close> (\<^verbatim>\<open>val_el3/ack_common.c\<close>, \<^verbatim>\<open>plat_acs_smc_handler.c\<close>): the exception handler,
    accesses with nested faults, the services and their dispatch. State: \<open>el3_world\<close>. Two levels of nesting
    are enough, which \<open>el3_access_settles\<close> proves. Shown: the handler reports exactly the faults, unexpected
    exceptions reach the firmware, a denied watchdog is not programmed, accesses happen in order.

  \<^item> \<open>Val_El3\<close> (\<^verbatim>\<open>val/src/acs_el3.c\<close>): the calls into EL3.

  \<^item> \<open>Sec_Property\<close> (\<^verbatim>\<open>val/src/acs_pcie.c\<close>, \<^verbatim>\<open>val/src/acs_da.c\<close>): the checks of register protection, with
    root accesses through the EL3 services. Shown: which registers pass the checks.

  \<^item> \<open>Pal_Memory\<close> (\<^verbatim>\<open>platform/pal_baremetal/src/pal_misc.c\<close>): the heap and the memory services. State:
    \<open>pal_state\<close>. Shown: the heap refines a bump allocator and its blocks are disjoint; copies, comparisons and the
    test data in non-volatile memory.

  \<^item> \<open>Pal_Print\<close> (\<^verbatim>\<open>pal_misc.c\<close>, \<^verbatim>\<open>pal_pl011_uart.c\<close>): the console. State: \<open>pl011\<close>, the registers of the device, with
    what the device does between accesses as a parameter. Shown: formatted output sends the text of its items,
    numerals read back, a device that drains its queue receives every character.

  \<^item> \<open>Pal_Pcie\<close> (\<^verbatim>\<open>pal_pcie.c\<close>), \<open>Pal_Enum\<close> (\<^verbatim>\<open>pal_pcie_enumeration.c\<close>): PCIe services and enumeration on bare
    metal. State: \<open>bm_pcie\<close> with the writes made so far, from which the hardware (\<^verbatim>\<open>respond\<close>, a parameter)
    determines every read; \<open>enum_state\<close> adds the variables of the enumeration. The fuel of
    \<open>pal_pcie_enumerate_device\<close> is the depth of the recursion, and two more than the number of buses left is
    enough. Shown: the walk ends and numbers the buses without gaps, registers are spaced, where windows
    are wrong; the searches decide by the first match.

  \<^item> \<open>Val_Pgt\<close> (\<^verbatim>\<open>val/src/acs_pgt.c\<close>, \<^verbatim>\<open>acs_memory.c\<close>, \<^verbatim>\<open>acs_pe.c\<close>): translation tables of EL2, on the heap of the bare-metal
    platform. State: \<open>pgt_state\<close>, the variables of the module and the memory. The architectural walk is \<open>translate\<close>. Shown: a new
    hierarchy translates exactly its region and gives its attributes back; removal leaves a mapping in place, regions
    after the first are not mapped, attributes below a partial first level are wrong.

  \<^item> \<open>Val_Iovirt\<close> (\<^verbatim>\<open>val/src/acs_iovirt.c\<close>, \<^verbatim>\<open>platform/pal_baremetal/src/pal_iovirt.c\<close>): the table of IO remapping nodes, a list of blocks
    with the addresses the code computes for them. State: \<open>iovirt_state\<close>. Shown: the counters of a filled table, lookups by index, the
    translation of requester identifiers, where the table of the Fixed Virtual Platform exceeds its memory.

  \<^item> \<open>Smmu_El2\<close> (\<^verbatim>\<open>val/sys_arch_src/smmu_v3/smmu_v3.c\<close>): the SMMU driver of EL2. State: \<open>el2_world\<close>. The locale \<open>stream_entry\<close> of \<open>Smmu_Realm\<close> is
    the contract of writing entries of a stream table one after another; the bypass entries of EL3 and the aborting entries of EL2
    interpret it. Shown: its commands are those of the driver of EL3, new tables abort every stream, mapping writes one entry,
    unmapping leaves a master of stream 0, a failed reset is not noticed.

  \<^item> This theory: properties that span the layers.

  \<^bold>\<open>Not modelled.\<close> The interrupt controller is programmed through registers that the architecture defines and the
    platform layer locates. Timers, DMA, the exerciser, peripherals and the other tables of the platform forward to the platform
    layer. The layer for UEFI, the payloads of the tests, assembly and the applications are outside.
\<close>

section \<open>Properties that span components\<close>

text \<open>What a granule protection check lets an access of EL3 through the root address space do.\<close>

definition root_may_access :: "u64 \<Rightarrow> bool" where
  "root_may_access gpi \<longleftrightarrow> gpi = 0xA \<or> gpi = 0xF"

text \<open>The data a test sets before it provokes the access.\<close>

definition request_access :: "u64 \<Rightarrow> el3_world \<Rightarrow> el3_world" where
  "request_access a = on_shared (\<lambda>sd. sd\<lparr>sd_arg1 := a, exception_expected := SET, exception_generated := CLEAR,
     access_mut_flag := SET, pas_filter_flag := CLEAR\<rparr>)"

text \<open>(C1) A test observes the protection it asked for: the call that sets the protection of a granule
  changes the architectural lookup of that granule only, ends with the invalidation of the cached
  entries, and if the hardware faults on accesses to the granule as the table then says, an
  access requested through the handler is reported as an exception exactly for the encodings that
  deny the root address space.\<close>

theorem test_observes_protection:
  assumes "gpt_config_ok (el3 w)" and "gpt_separate (el3 w)" and "is_gpi_valid gpi"
    and "apart 16 8 ARM_TF_SHARED_ADDRESS PA"
    and "exception_expected (shared_data w) \<noteq> SET" and "access_mut_flag (shared_data w) \<noteq> SET"
    and "\<And>w1. UserCallSMC env fuel (val_add_gpt_entry_el3 PA gpi) w = Done w1 \<Longrightarrow>
      gpf env PA \<longleftrightarrow> \<not> root_may_access (gpt_lookup (el3 w1) PA)"
  shows "\<exists>w1 w2. UserCallSMC env fuel (val_add_gpt_entry_el3 PA gpi) w = Done w1 \<and>
    trace (el3 w1) = trace (el3 w) @ [Cln_and_invldt_cache (fst (gpt_slot (el3 w) PA)), Tlbi_paallos] \<and>
    (\<forall>pa. gpt_lookup (el3 w1) pa = (if gpt_slot (el3 w) pa = gpt_slot (el3 w) PA then gpi else gpt_lookup (el3 w) pa)) \<and>
    lower_el_exception env esr pc spsr (request_access PA w1) = Resume w2 \<and> elr_el3 (el3 w2) = pc \<and>
    (exception_generated (shared_data w2) = SET \<longleftrightarrow> \<not> root_may_access gpi)"
proof -
  obtain s' where s': "add_gpt_entry (el3 w) PA gpi = Some s'"
    "\<And>pa. gpt_lookup s' pa = (if gpt_slot (el3 w) pa = gpt_slot (el3 w) PA then gpi else gpt_lookup (el3 w) pa)"
    "trace s' = trace (el3 w) @ [Cln_and_invldt_cache (fst (gpt_slot (el3 w) PA))]"
    using gpt_entry_refines_lookup [OF assms(1-3), of PA] by auto
  define w1 where "w1 = w\<lparr>el3 := emit Tlbi_paallos s'\<rparr>"
  have call: "UserCallSMC env fuel (val_add_gpt_entry_el3 PA gpi) w = Done w1"
    using s'(1) by (simp add: UserCallSMC_def val_add_gpt_entry_el3_def plat_arm_acs_smc_handler_def w1_def)
  have look: "gpt_lookup (el3 w1) pa = gpt_lookup s' pa" for pa
    by (simp add: w1_def)
  have "gpf env PA \<longleftrightarrow> \<not> root_may_access gpi" using assms(7) [OF call] look s'(2) by simp
  moreover obtain w2 where "lower_el_exception env esr pc spsr (request_access PA w1) = Resume w2" "elr_el3 (el3 w2) = pc"
    "exception_generated (shared_data w2) = SET \<longleftrightarrow> gpf env PA"
    using lower_el_fault [of "request_access PA w1" env esr pc spsr] assms(4)
    by (auto simp: request_access_def on_shared_def)
  ultimately show ?thesis using call look s'(2,3) by (auto simp: w1_def)
qed

theorem test_observes_protection_witness:
  "\<exists>w1 w2. UserCallSMC (example_env\<lparr>gpf := \<lambda>_. True\<rparr>) 0 (val_add_gpt_entry_el3 0x5000 0)
      (on_shared (\<lambda>sd. sd\<lparr>exception_expected := 0, access_mut_flag := 0\<rparr>) (example_el3\<lparr>el3 := example_gpt\<rparr>)) = Done w1 \<and>
    lower_el_exception (example_env\<lparr>gpf := \<lambda>_. True\<rparr>) 0 0x8000 0x3C9 (request_access 0x5000 w1) = Resume w2 \<and>
    exception_generated (shared_data w2) = SET"
proof -
  let ?w = "on_shared (\<lambda>sd. sd\<lparr>exception_expected := 0, access_mut_flag := 0\<rparr>) (example_el3\<lparr>el3 := example_gpt\<rparr>)" and ?env = "example_env\<lparr>gpf := \<lambda>_. True\<rparr>"
  have pr: "gpt_config_ok (el3 ?w)" "gpt_separate (el3 ?w)" "is_gpi_valid 0" "apart 16 8 ARM_TF_SHARED_ADDRESS 0x5000"
    "exception_expected (shared_data ?w) \<noteq> SET" "access_mut_flag (shared_data ?w) \<noteq> SET"
    using example_gpt_config(1) example_gpt_separate by (simp_all add: is_gpi_valid_def apart_def on_shared_def)
  obtain s' where s': "add_gpt_entry (el3 ?w) 0x5000 0 = Some s'" "gpt_lookup s' 0x5000 = 0"
    using gpt_entry_refines_lookup [OF pr(1-3), of "0x5000"] by auto
  have hw: "gpf ?env 0x5000 \<longleftrightarrow> \<not> root_may_access (gpt_lookup (el3 w1) 0x5000)"
    if "UserCallSMC ?env 0 (val_add_gpt_entry_el3 0x5000 0) ?w = Done w1" for w1
  proof -
    have "el3 w1 = emit Tlbi_paallos s'"
      using that s'(1) by (auto simp: UserCallSMC_def val_add_gpt_entry_el3_def plat_arm_acs_smc_handler_def)
    then have "gpt_lookup (el3 w1) 0x5000 = 0" using s'(2) by simp
    then show ?thesis by (simp add: root_may_access_def)
  qed
  from test_observes_protection [OF pr, of ?env 0 0 "0x8000" "0x3C9"] hw show ?thesis
    by (auto simp: root_may_access_def)
qed

end
